(* ===== verification/Prelude.thy ===== *)
theory Prelude
  imports "HOL-Library.Word"
begin

text \<open>
  Shared vocabulary of the development: the machine integers and byte buffers of the Rust sources,
  \<open>Result\<close> values, the slice operations the code uses (\<open>copy_from_slice\<close>, sub-slices), the integer
  helpers of the standard library (\<open>div_ceil\<close>, \<open>saturating_sub\<close>, \<open>checked_add\<close>, \<open>min\<close>), and the
  little-endian byte order of \<open>to_le_bytes\<close> and \<open>from_le_bytes\<close> with its round trips.
  The locale \<open>fixed_codec\<close> is the contract every fixed-width integer codec meets; the wire theories
  use it through its three interpretations. The locale \<open>run_invariant\<close> is the contract of a
  deterministic machine that is run over a list of events.
\<close>

unbundle bit_operations_syntax

named_theorems le_simps \<open>facts that compute little-endian encodings\<close>
named_theorems slice_simps \<open>facts about writing into and reading from byte slices\<close>

section \<open>Machine integers and buffers\<close>

type_synonym u8 = "8 word"
type_synonym u16 = "16 word"
type_synonym u32 = "32 word"
type_synonym u64 = "64 word"
type_synonym bytes = "u8 list"

text \<open>\<open>usize\<close> values are lengths and counters of in-memory buffers and are modelled as \<^typ>\<open>nat\<close>;
  a \<open>Duration\<close> is its number of nanoseconds.\<close>

type_synonym usize = nat
type_synonym duration = nat

section \<open>Results\<close>

text \<open>Rust's \<open>Result\<close>, with its \<open>?\<close> operator (\<open>try_res\<close>) and \<open>map_err\<close>.\<close>

datatype ('a, 'e) result = Ok 'a | Err 'e

fun try_res :: "('a, 'e) result \<Rightarrow> ('a \<Rightarrow> ('b, 'e) result) \<Rightarrow> ('b, 'e) result" where
  "try_res (Ok a) f = f a"
| "try_res (Err e) f = Err e"

fun map_err :: "('e \<Rightarrow> 'f) \<Rightarrow> ('a, 'e) result \<Rightarrow> ('a, 'f) result" where
  "map_err f (Ok a) = Ok a"
| "map_err f (Err e) = Err (f e)"

fun map_res :: "('a \<Rightarrow> 'b) \<Rightarrow> ('a, 'e) result \<Rightarrow> ('b, 'e) result" where
  "map_res f (Ok a) = Ok (f a)"
| "map_res f (Err e) = Err e"

fun is_ok :: "('a, 'e) result \<Rightarrow> bool" where
  "is_ok (Ok a) = True"
| "is_ok (Err e) = False"

definition is_err :: "('a, 'e) result \<Rightarrow> bool" where
  "is_err r = (\<not> is_ok r)"

definition ok_or :: "'a option \<Rightarrow> 'e \<Rightarrow> ('a, 'e) result" where
  "ok_or x e = (case x of None \<Rightarrow> Err e | Some a \<Rightarrow> Ok a)"

lemma try_res_Ok_iff [simp]: "try_res r f = Ok b \<longleftrightarrow> (\<exists>a. r = Ok a \<and> f a = Ok b)"
  by (cases r) auto

lemma map_err_Ok_iff [simp]: "map_err f r = Ok a \<longleftrightarrow> r = Ok a"
  by (cases r) auto

lemma is_err_simps [simp]: "is_err (Ok a) = False" "is_err (Err e) = True"
  by (simp_all add: is_err_def)

lemma ok_or_simps [simp]: "ok_or None e = Err e" "ok_or (Some a) e = Ok a"
  by (simp_all add: ok_or_def)

lemma ok_or_Ok_iff [simp]: "ok_or x e = Ok a \<longleftrightarrow> x = Some a"
  by (cases x) auto

lemma ok_or_Err_iff [simp]: "ok_or x e = Err e' \<longleftrightarrow> x = None \<and> e = e'"
  by (cases x) auto

text \<open>A call that may panic (an out-of-range slice, an arithmetic overflow in a checked build).\<close>

datatype 'a outcome = Return 'a | Panic

text \<open>\<open>Iterator::position\<close>: the index of the first element that satisfies the predicate.\<close>

fun position :: "('a \<Rightarrow> bool) \<Rightarrow> 'a list \<Rightarrow> nat option" where
  "position P [] = None"
| "position P (x # xs) = (if P x then Some 0 else map_option Suc (position P xs))"

lemma position_Some: "position P xs = Some i \<Longrightarrow> i < length xs \<and> P (xs ! i) \<and> (\<forall>j < i. \<not> P (xs ! j))"
proof (induction xs arbitrary: i)
  case (Cons x xs)
  then show ?case by (cases i) (auto simp: less_Suc_eq_0_disj split: if_splits)
qed simp

lemma position_None: "position P xs = None \<longleftrightarrow> (\<forall>x\<in>set xs. \<not> P x)"
  by (induction xs) auto

text \<open>Errors of system calls: the kinds of \<open>std::io::Error\<close> that the sources tell apart, and the others.\<close>

datatype 'x os_error = EWouldBlock | EInterrupted | ETimedOut | EOther 'x

section \<open>Integer helpers of the standard library\<close>

definition div_ceil :: "nat \<Rightarrow> nat \<Rightarrow> nat" where
  "div_ceil a b = (if a mod b = 0 then a div b else a div b + 1)"

lemma div_ceil_0 [simp]: "div_ceil 0 b = 0"
  by (simp add: div_ceil_def)

lemma div_ceil_eq: "0 < b \<Longrightarrow> div_ceil a b = (a + b - 1) div b"
proof -
  assume b: "0 < b"
  obtain q r where a: "a = q * b + r" and r: "r < b"
    using b mod_less_divisor [of b a] div_mult_mod_eq [of a b] by metis
  show ?thesis
  proof (cases "r = 0")
    case True
    then have "(a + b - 1) div b = q"
      using a b by (metis One_nat_def add_cancel_right_right diff_Suc_less
          div_mult_self3 div_less add_diff_assoc Suc_leI neq0_conv)
    then show ?thesis using True a b by (simp add: div_ceil_def)
  next
    case False
    then have "a + b - 1 = (q + 1) * b + (r - 1)" using a by (simp add: algebra_simps)
    moreover have "((q + 1) * b + (r - 1)) div b = q + 1"
      using r b by (metis div_less div_mult_self3 add.right_neutral less_imp_diff_less nat_neq_iff)
    ultimately show ?thesis using False a r by (simp add: div_ceil_def)
  qed
qed

text \<open>The ceiling of a quotient stays below a bound exactly when the dividend fits.\<close>

lemma div_ceil_le_iff: "0 < b \<Longrightarrow> div_ceil a b \<le> k \<longleftrightarrow> a \<le> k * b"
proof -
  assume b: "0 < b"
  have "div_ceil a b \<le> k \<longleftrightarrow> (a + b - 1) div b < k + 1" by (simp add: div_ceil_eq b less_Suc_eq_le)
  also have "\<dots> \<longleftrightarrow> a + b - 1 < (k + 1) * b" using b by (simp add: less_mult_imp_div_less div_less_iff_less_mult)
  also have "\<dots> \<longleftrightarrow> a \<le> k * b" using b by (simp add: algebra_simps) linarith
  finally show ?thesis .
qed

lemma div_ceil_less_iff: "0 < b \<Longrightarrow> 0 < k \<Longrightarrow> div_ceil a b < k \<longleftrightarrow> a \<le> (k - 1) * b"
  using div_ceil_le_iff [of b a "k - 1"] by linarith

definition saturating_sub :: "'a::len word \<Rightarrow> 'a word \<Rightarrow> 'a word" where
  "saturating_sub a b = (if a < b then 0 else a - b)"

definition saturating_add :: "'a::len word \<Rightarrow> 'a word \<Rightarrow> 'a word" where
  "saturating_add a b = (if unat a + unat b < 2 ^ LENGTH('a) then a + b else - 1)"

definition saturating_mul :: "'a::len word \<Rightarrow> 'a word \<Rightarrow> 'a word" where
  "saturating_mul a b = (if unat a * unat b < 2 ^ LENGTH('a) then a * b else - 1)"

definition checked_add :: "'a::len word \<Rightarrow> 'a word \<Rightarrow> 'a word option" where
  "checked_add a b = (if unat a + unat b < 2 ^ LENGTH('a) then Some (a + b) else None)"

definition u32_try_from :: "usize \<Rightarrow> u32 option" where
  "u32_try_from n = (if n < 2 ^ 32 then Some (word_of_nat n) else None)"

lemma unat_saturating_sub: "unat (saturating_sub a b) = unat a - unat b"
  by (auto simp: saturating_sub_def word_less_nat_alt unat_sub word_le_nat_alt)

lemma unat_add_no_overflow:
  "unat a + unat b < 2 ^ LENGTH('a) \<Longrightarrow> unat (a + b :: 'a::len word) = unat a + unat b"
  by (simp add: unat_word_ariths)

lemma unat_checked_add: "checked_add a b = Some c \<Longrightarrow> unat c = unat a + unat b"
  by (auto simp: checked_add_def unat_add_no_overflow split: if_splits)

lemma unat_saturating_add:
  "unat (saturating_add a b :: 'a::len word) = min (unat a + unat b) (2 ^ LENGTH('a) - 1)"
  by (auto simp: saturating_add_def unat_add_no_overflow unsigned_minus_1_eq_mask mask_eq_exp_minus_1 min_def)

lemma u32_try_from_Some [simp]: "u32_try_from n = Some w \<longleftrightarrow> n < 2 ^ 32 \<and> w = word_of_nat n"
  by (auto simp: u32_try_from_def)

lemma u32_try_from_unat [simp]: "u32_try_from (unat w) = Some w"
  using unsigned_less [of w] by (simp add: u32_try_from_def)

lemma unat_of_nat32: "n < 2 ^ 32 \<Longrightarrow> unat (word_of_nat n :: u32) = n"
  by (simp add: unat_of_nat take_bit_nat_eq_self_iff unsigned_of_nat)


text \<open>Unrolling a bounded search by one position: the two facts behind every scanning loop.\<close>

lemma ex_ge_Suc: "(\<exists>k. j \<le> k \<and> P k) \<longleftrightarrow> P j \<or> (\<exists>k. Suc j \<le> k \<and> P k)"
  by (metis Suc_leD le_antisym le_refl not_less_eq_eq)

lemma all_ge_Suc: "(\<forall>k. j \<le> k \<longrightarrow> P k) \<longleftrightarrow> P j \<and> (\<forall>k. Suc j \<le> k \<longrightarrow> P k)"
  using ex_ge_Suc [of j "\<lambda>k. \<not> P k"] by blast

section \<open>Slices\<close>

text \<open>\<open>dst[..src.len()].copy_from_slice(src)\<close>: the prefix is overwritten, the rest kept. The
  operation is only used where \<open>src\<close> fits; the lemmas below carry that side condition.\<close>

definition copy_into :: "'a list \<Rightarrow> 'a list \<Rightarrow> 'a list" where
  "copy_into dst src = src @ drop (length src) dst"

text \<open>\<open>dst[at..at + src.len()].copy_from_slice(src)\<close>.\<close>

definition copy_at :: "nat \<Rightarrow> 'a list \<Rightarrow> 'a list \<Rightarrow> 'a list" where
  "copy_at i dst src = take i dst @ src @ drop (i + length src) dst"

text \<open>\<open>xs[i..j]\<close>.\<close>

definition slice_of :: "nat \<Rightarrow> nat \<Rightarrow> 'a list \<Rightarrow> 'a list" where
  "slice_of i j xs = take (j - i) (drop i xs)"

lemma length_copy_into [slice_simps]:
  "length src \<le> length dst \<Longrightarrow> length (copy_into dst src) = length dst"
  by (simp add: copy_into_def)

lemma take_copy_into [slice_simps]: "take (length src) (copy_into dst src) = src"
  by (simp add: copy_into_def)

lemma length_copy_at [slice_simps]:
  "i + length src \<le> length dst \<Longrightarrow> length (copy_at i dst src) = length dst"
  by (simp add: copy_at_def)

lemma slice_copy_at [slice_simps]:
  "i \<le> length dst \<Longrightarrow> slice_of i (i + length src) (copy_at i dst src) = src"
  by (simp add: copy_at_def slice_of_def)

lemma slice_of_append1 [slice_simps]:
  "j \<le> length xs \<Longrightarrow> slice_of i j (xs @ ys) = slice_of i j xs"
  by (cases "i \<le> j") (auto simp: slice_of_def)

lemma slice_of_append2 [slice_simps]:
  "length xs \<le> i \<Longrightarrow> slice_of i j (xs @ ys) = slice_of (i - length xs) (j - length xs) ys"
  by (simp add: slice_of_def diff_diff_left)

lemma slice_of_all [slice_simps]: "length xs \<le> j \<Longrightarrow> slice_of 0 j xs = xs"
  by (simp add: slice_of_def)

text \<open>Filling a buffer from the front: the part already written stays as it is.\<close>

lemma copy_at_append: "length pre = i \<Longrightarrow> copy_at i (pre @ rest) src = pre @ src @ drop (length src) rest"
  by (simp add: copy_at_def)

lemma take_front: "length pre = n \<Longrightarrow> take n (pre @ rest) = pre"
  by simp

lemma update_append: "length pre = i \<Longrightarrow> rest \<noteq> [] \<Longrightarrow> (pre @ rest)[i := v] = pre @ v # drop 1 rest"
  by (cases rest) (simp_all add: list_update_append)

lemma length_slice_of [slice_simps]: "j \<le> length xs \<Longrightarrow> length (slice_of i j xs) = j - i"
  by (simp add: slice_of_def)

section \<open>Little-endian byte order\<close>

fun le_bytes :: "nat \<Rightarrow> 'a::len word \<Rightarrow> bytes" where
  "le_bytes 0 w = []"
| "le_bytes (Suc n) w = ucast w # le_bytes n (drop_bit 8 w)"

fun le_word :: "bytes \<Rightarrow> 'a::len word" where
  "le_word [] = 0"
| "le_word (b # bs) = ucast b OR push_bit 8 (le_word bs)"

lemma length_le_bytes [simp]: "length (le_bytes n w) = n"
  by (induction n arbitrary: w) auto

text \<open>Writing \<open>n\<close> bytes and reading them back keeps the low \<open>8 n\<close> bits.\<close>

lemma le_word_le_bytes: "le_word (le_bytes n w) = take_bit (8 * n) w"
proof (induction n arbitrary: w)
  case 0
  show ?case by simp
next
  case (Suc n)
  have "le_word (le_bytes (Suc n) w) = ucast (ucast w :: u8) OR push_bit 8 (take_bit (8 * n) (drop_bit 8 w))"
    using Suc.IH by simp
  also have "\<dots> = take_bit (8 * Suc n) w"
    by (rule bit_word_eqI) (auto simp: bit_simps)
  finally show ?case .
qed

lemma le_word_le_bytes_full: "LENGTH('a) \<le> 8 * n \<Longrightarrow> le_word (le_bytes n w) = (w :: 'a::len word)"
  by (simp add: le_word_le_bytes take_bit_word_eq_self)

text \<open>Reading \<open>n\<close> bytes and writing them again gives the same bytes, when they fit the word.\<close>

lemma bit_le_word_high: "bit (le_word bs :: 'a::len word) i \<Longrightarrow> i < 8 * length bs"
proof (induction bs arbitrary: i)
  case Nil
  then show ?case by simp
next
  case (Cons b bs)
  from Cons.prems consider "bit b i" | "8 \<le> i" "bit (le_word bs :: 'a word) (i - 8)"
    by (auto simp: bit_simps)
  then show ?case
  proof cases
    case 1
    then have "i < 8" by (auto dest: bit_imp_le_length)
    then show ?thesis by simp
  next
    case 2
    with Cons.IH [of "i - 8"] show ?thesis by simp
  qed
qed

lemma le_bytes_le_word: "8 * length bs \<le> LENGTH('a) \<Longrightarrow> le_bytes (length bs) (le_word bs :: 'a::len word) = bs"
proof (induction bs)
  case Nil
  show ?case by simp
next
  case (Cons b bs)
  have hd: "ucast (ucast b OR push_bit 8 (le_word bs :: 'a word)) = b"
    using Cons.prems by (intro bit_word_eqI) (auto simp: bit_simps)
  have tl: "drop_bit 8 (ucast b OR push_bit 8 (le_word bs :: 'a word)) = le_word bs"
  proof (rule bit_word_eqI)
    fix n assume n: "n < LENGTH('a)"
    show "bit (drop_bit 8 (ucast b OR push_bit 8 (le_word bs :: 'a word))) n = bit (le_word bs :: 'a word) n"
      using bit_le_word_high [of bs n, where 'a = 'a] Cons.prems
      by (auto simp: bit_simps dest: bit_imp_le_length)
  qed
  show ?case using Cons hd tl by simp
qed

subsection \<open>The integer codecs of the wire formats\<close>

definition u16_to_le_bytes :: "u16 \<Rightarrow> bytes" where "u16_to_le_bytes w = le_bytes 2 w"
definition u32_to_le_bytes :: "u32 \<Rightarrow> bytes" where "u32_to_le_bytes w = le_bytes 4 w"
definition u64_to_le_bytes :: "u64 \<Rightarrow> bytes" where "u64_to_le_bytes w = le_bytes 8 w"

definition u16_from_le_bytes :: "bytes \<Rightarrow> u16" where "u16_from_le_bytes bs = le_word bs"
definition u32_from_le_bytes :: "bytes \<Rightarrow> u32" where "u32_from_le_bytes bs = le_word bs"
definition u64_from_le_bytes :: "bytes \<Rightarrow> u64" where "u64_from_le_bytes bs = le_word bs"

text \<open>The contract of a fixed-width codec and what its clients read off a longer buffer.\<close>

locale fixed_codec =
  fixes enc :: "'a \<Rightarrow> bytes" and dec :: "bytes \<Rightarrow> 'a" and width :: nat
  assumes enc_length: "length (enc x) = width"
    and dec_enc: "dec (enc x) = x"
    and enc_dec: "length bs = width \<Longrightarrow> enc (dec bs) = bs"
begin

lemma enc_inj: "enc x = enc y \<longleftrightarrow> x = y"
  by (metis dec_enc)

lemma dec_inj: "length bs = width \<Longrightarrow> length cs = width \<Longrightarrow> dec bs = dec cs \<longleftrightarrow> bs = cs"
  by (metis enc_dec)

lemma dec_slice: "length pre = i \<Longrightarrow> j = i + width \<Longrightarrow> dec (slice_of i j (pre @ enc x @ post)) = x"
  by (simp add: slice_of_def enc_length dec_enc)

lemma dec_slice_front: "j = width \<Longrightarrow> dec (slice_of 0 j (enc x @ post)) = x"
  by (simp add: slice_of_def enc_length dec_enc)

lemma enc_eq_iff: "length bs = width \<Longrightarrow> enc x = bs \<longleftrightarrow> x = dec bs"
  using enc_dec dec_enc by metis

end

interpretation u16_le: fixed_codec u16_to_le_bytes u16_from_le_bytes 2
proof unfold_locales
  show "length (u16_to_le_bytes x) = 2" for x by (simp add: u16_to_le_bytes_def)
  show "u16_from_le_bytes (u16_to_le_bytes x) = x" for x
    by (simp add: u16_to_le_bytes_def u16_from_le_bytes_def le_word_le_bytes_full)
  show "u16_to_le_bytes (u16_from_le_bytes bs) = bs" if "length bs = 2" for bs
    using that le_bytes_le_word [of bs, where 'a = 16] by (simp add: u16_to_le_bytes_def u16_from_le_bytes_def)
qed

interpretation u32_le: fixed_codec u32_to_le_bytes u32_from_le_bytes 4
proof unfold_locales
  show "length (u32_to_le_bytes x) = 4" for x by (simp add: u32_to_le_bytes_def)
  show "u32_from_le_bytes (u32_to_le_bytes x) = x" for x
    by (simp add: u32_to_le_bytes_def u32_from_le_bytes_def le_word_le_bytes_full)
  show "u32_to_le_bytes (u32_from_le_bytes bs) = bs" if "length bs = 4" for bs
    using that le_bytes_le_word [of bs, where 'a = 32] by (simp add: u32_to_le_bytes_def u32_from_le_bytes_def)
qed

interpretation u64_le: fixed_codec u64_to_le_bytes u64_from_le_bytes 8
proof unfold_locales
  show "length (u64_to_le_bytes x) = 8" for x by (simp add: u64_to_le_bytes_def)
  show "u64_from_le_bytes (u64_to_le_bytes x) = x" for x
    by (simp add: u64_to_le_bytes_def u64_from_le_bytes_def le_word_le_bytes_full)
  show "u64_to_le_bytes (u64_from_le_bytes bs) = bs" if "length bs = 8" for bs
    using that le_bytes_le_word [of bs, where 'a = 64] by (simp add: u64_to_le_bytes_def u64_from_le_bytes_def)
qed

lemmas le_lengths [simp] = u16_le.enc_length u32_le.enc_length u64_le.enc_length
lemmas le_round_trips [simp] = u16_le.dec_enc u32_le.dec_enc u64_le.dec_enc

lemma le_bytes_numeral [le_simps]: "le_bytes (numeral n) w = ucast w # le_bytes (pred_numeral n) (drop_bit 8 w)"
  by (simp add: numeral_eq_Suc)

lemmas le_defs [le_simps] = u16_to_le_bytes_def u32_to_le_bytes_def u64_to_le_bytes_def
  u16_from_le_bytes_def u32_from_le_bytes_def u64_from_le_bytes_def

section \<open>Machines run over a list of events\<close>

text \<open>A deterministic step function that keeps an invariant keeps it over every run. The server,
  the mailbox and the transfer loops are instances.\<close>

fun run_steps :: "('s \<Rightarrow> 'e \<Rightarrow> 's) \<Rightarrow> 's \<Rightarrow> 'e list \<Rightarrow> 's" where
  "run_steps f s [] = s"
| "run_steps f s (e # es) = run_steps f (f s e) es"

lemma run_steps_append: "run_steps f s (xs @ ys) = run_steps f (run_steps f s xs) ys"
  by (induction xs arbitrary: s) auto

locale run_invariant =
  fixes step :: "'s \<Rightarrow> 'e \<Rightarrow> 's" and inv :: "'s \<Rightarrow> bool" and good :: "'e \<Rightarrow> bool"
  assumes step_inv: "inv s \<Longrightarrow> good e \<Longrightarrow> inv (step s e)"
begin

lemma run_inv: "inv s \<Longrightarrow> list_all good es \<Longrightarrow> inv (run_steps step s es)"
  by (induction es arbitrary: s) (auto intro: step_inv)

lemma prefix_inv: "inv s \<Longrightarrow> list_all good es \<Longrightarrow> inv (run_steps step s (take n es))"
  by (rule run_inv) (auto simp: list_all_length)

end

end
