(* ===== verification/Thincan_Wire.thy ===== *)
theory Thincan_Wire
  imports Prelude
begin

text \<open>
  The wire layer of \<open>thincan/src/lib.rs\<close>: error values, the two-byte message header
  (\<open>decode_wire\<close>, \<open>TxState::encode_capnp_into_buf\<close>), and the compile-time message sets
  (\<open>MapletSpec::slot_for_id\<close> and the constant evaluation done by the \<open>maplet!\<close> macro).
  A value to be sent is anything that implements the trait \<open>EncodeCapnp\<close>: it enters the model as a
  record of the trait's two functions. The lemmas show that a payload produced by the encoder is
  read back by the decoder as the same id and body, that encoding never reads or writes outside the
  transmit buffer, and that a maplet resolves every one of its ids to the slot it was declared at.
\<close>

section \<open>Errors and raw messages\<close>

datatype error_kind =
    Timeout
  | BufferTooSmall (needed: usize) (got: usize)
  | Other

record error =
  kind :: error_kind

definition timeout :: error where
  "timeout = \<lparr>kind = Timeout\<rparr>"

definition other_error :: error where
  "other_error = \<lparr>kind = Other\<rparr>"

record raw_message =
  raw_id :: u16
  raw_body :: bytes

definition HEADER_LEN :: usize where
  "HEADER_LEN = 2"

definition decode_wire :: "bytes \<Rightarrow> (raw_message, error) result" where
  "decode_wire payload =
     (if length payload < HEADER_LEN then Err \<lparr>kind = Other\<rparr>
      else let mid = u16_from_le_bytes [payload ! 0, payload ! 1]
           in Ok \<lparr>raw_id = mid, raw_body = drop HEADER_LEN payload\<rparr>)"

text \<open>The helpers \<open>Capnp\<close> and \<open>CapnpTyped\<close> read the root of a single-segment message. The reader of the
  \<open>capnp\<close> crate is a parameter: \<open>reader_new\<close> wraps the segments, \<open>typed_get\<close> reads the root.\<close>

record capnp_bytes =
  capnp_of :: bytes

definition capnp_with_reader ::
    "(bytes list \<Rightarrow> 'o \<Rightarrow> 'rd) \<Rightarrow> capnp_bytes \<Rightarrow> 'o \<Rightarrow> ('rd \<Rightarrow> 'r) \<Rightarrow> 'r" where
  "capnp_with_reader reader_new c options f = f (reader_new [capnp_of c] options)"

definition capnp_with_root ::
    "(bytes list \<Rightarrow> 'o \<Rightarrow> 'rd) \<Rightarrow> ('rd \<Rightarrow> ('root, 'ce) result) \<Rightarrow> capnp_bytes \<Rightarrow> 'o \<Rightarrow> ('root \<Rightarrow> 'r) \<Rightarrow> ('r, 'ce) result" where
  "capnp_with_root reader_new typed_get c options f =
     capnp_with_reader reader_new c options
       (\<lambda>reader. case typed_get reader of Err e \<Rightarrow> Err e | Ok root \<Rightarrow> Ok (f root))"

definition capnp_typed_with_root ::
    "(bytes list \<Rightarrow> 'o \<Rightarrow> 'rd) \<Rightarrow> ('rd \<Rightarrow> ('root, 'ce) result) \<Rightarrow> capnp_bytes \<Rightarrow> 'o \<Rightarrow> ('root \<Rightarrow> 'r) \<Rightarrow> ('r, 'ce) result" where
  "capnp_typed_with_root reader_new typed_get c options f = capnp_with_root reader_new typed_get c options f"

section \<open>Encoding into the transmit buffer\<close>

text \<open>The trait \<open>EncodeCapnp\<close>: an upper bound on the body size, and a function that writes into a
  mutable slice and returns the number of bytes used. The second component of the result is the
  slice after the call; Rust slices keep their length, which is \<open>encodes_in_place\<close>.\<close>

record capnp_value =
  max_encoded_len :: usize
  encode :: "bytes \<Rightarrow> (usize, error) result \<times> bytes"

definition encodes_in_place :: "capnp_value \<Rightarrow> bool" where
  "encodes_in_place v \<longleftrightarrow> (\<forall>out. length (snd (encode v out)) = length out)"

definition encode_capnp_into_buf :: "u16 \<Rightarrow> bytes \<Rightarrow> capnp_value \<Rightarrow> (bytes, error) result \<times> bytes" where
  "encode_capnp_into_buf mid buf v =
     (let max_len = max_encoded_len v; need = HEADER_LEN + max_len in
      if length buf < need then (Err \<lparr>kind = BufferTooSmall need (length buf)\<rparr>, buf)
      else let buf1 = copy_into buf (u16_to_le_bytes mid);
               (r, body) = encode v (slice_of HEADER_LEN (HEADER_LEN + max_len) buf1);
               buf2 = copy_at HEADER_LEN buf1 body
           in case r of
                Err e \<Rightarrow> (Err e, buf2)
              | Ok used \<Rightarrow>
                  if used > max_len then (Err \<lparr>kind = Other\<rparr>, buf2)
                  else (Ok (take (HEADER_LEN + used) buf2), buf2))"

section \<open>Message sets\<close>

text \<open>The default method \<open>slot_for_id\<close>: its \<open>while\<close> loop over the declared ids.\<close>

function slot_for_id_from :: "u16 list \<Rightarrow> u16 \<Rightarrow> nat \<Rightarrow> nat option" where
  "slot_for_id_from ids mid i =
     (if i < length ids then (if ids ! i = mid then Some i else slot_for_id_from ids mid (i + 1)) else None)"
  by pat_completeness auto
termination
  by (relation "measure (\<lambda>(ids, mid, i). length ids - i)") auto

declare slot_for_id_from.simps [simp del]

definition slot_for_id :: "u16 list \<Rightarrow> u16 \<Rightarrow> nat option" where
  "slot_for_id ids mid = slot_for_id_from ids mid 0"

text \<open>\<open>maplet!\<close> copies the ids of each bundle into one array, \<open>out[at + i] = ids[i]\<close>, and then
  compares every pair; a duplicate is a compile-time panic.\<close>

function copy_bundle_ids :: "u16 list \<Rightarrow> nat \<Rightarrow> u16 list \<Rightarrow> nat \<Rightarrow> u16 list" where
  "copy_bundle_ids out pos ids i =
     (if i < length ids then copy_bundle_ids (out[pos + i := ids ! i]) pos ids (i + 1) else out)"
  by pat_completeness auto
termination
  by (relation "measure (\<lambda>(out, pos, ids, i). length ids - i)") auto

declare copy_bundle_ids.simps [simp del]

fun copy_all_bundle_ids :: "u16 list \<Rightarrow> nat \<Rightarrow> u16 list list \<Rightarrow> u16 list" where
  "copy_all_bundle_ids out pos [] = out"
| "copy_all_bundle_ids out pos (ids # bundles) =
     copy_all_bundle_ids (copy_bundle_ids out pos ids 0) (pos + length ids) bundles"

fun maplet_message_count :: "u16 list list \<Rightarrow> nat" where
  "maplet_message_count [] = 0"
| "maplet_message_count (ids # bundles) = length ids + maplet_message_count bundles"

definition maplet_message_ids :: "u16 list list \<Rightarrow> u16 list" where
  "maplet_message_ids bundles = copy_all_bundle_ids (replicate (maplet_message_count bundles) 0) 0 bundles"

function dup_after :: "u16 list \<Rightarrow> nat \<Rightarrow> nat \<Rightarrow> bool" where
  "dup_after ids i j = (if j < length ids then (if ids ! i = ids ! j then True else dup_after ids i (j + 1)) else False)"
  by pat_completeness auto
termination
  by (relation "measure (\<lambda>(ids, i, j). length ids - j)") auto

function dup_from :: "u16 list \<Rightarrow> nat \<Rightarrow> bool" where
  "dup_from ids i = (if i < length ids then (if dup_after ids i (i + 1) then True else dup_from ids (i + 1)) else False)"
  by pat_completeness auto
termination
  by (relation "measure (\<lambda>(ids, i). length ids - i)") auto

declare dup_after.simps [simp del] dup_from.simps [simp del]

definition maplet_define_from_bundles :: "u16 list list \<Rightarrow> u16 list outcome" where
  "maplet_define_from_bundles bundles =
     (let ids = maplet_message_ids bundles in if dup_from ids 0 then Panic else Return ids)"

text \<open>The arm with aliases evaluates the same constants; the arm that lists messages takes their ids as they
  are and compares nothing.\<close>

definition maplet_define_from_bundles_aliases :: "(string \<times> u16 list) list \<Rightarrow> u16 list outcome" where
  "maplet_define_from_bundles_aliases entries =
     (let ids = maplet_message_ids (map snd entries) in if dup_from ids 0 then Panic else Return ids)"

definition maplet_define_from_msgs :: "u16 list \<Rightarrow> u16 list" where
  "maplet_define_from_msgs msg_ids = msg_ids"

text \<open>What a \<open>maplet!\<close> invocation lists, and the arm it expands to.\<close>

datatype maplet_decl =
    UseMsgs "u16 list"
  | Bundles "u16 list list"
  | BundleAliases "(string \<times> u16 list) list"
  | BundleMsgs "(string \<times> u16 list) list"

fun maplet_expand :: "maplet_decl \<Rightarrow> u16 list outcome" where
  "maplet_expand (UseMsgs msgs) = Return (maplet_define_from_msgs msgs)"
| "maplet_expand (Bundles bundles) = maplet_define_from_bundles bundles"
| "maplet_expand (BundleAliases entries) = maplet_define_from_bundles_aliases entries"
| "maplet_expand (BundleMsgs entries) = Return (maplet_define_from_msgs (concat (map snd entries)))"

section \<open>Lemmas\<close>

lemma u16_bytes_nth: "[u16_to_le_bytes i ! 0, u16_to_le_bytes i ! 1] = u16_to_le_bytes i"
proof -
  have "length (u16_to_le_bytes i) = 2" by simp
  then obtain a b where "u16_to_le_bytes i = [a, b]"
    by (metis (no_types) One_nat_def Suc_length_conv length_0_conv numeral_2_eq_2)
  then show ?thesis by simp
qed

lemma decode_wire_header:
  "decode_wire (u16_to_le_bytes i @ body) = Ok \<lparr>raw_id = i, raw_body = body\<rparr>"
  using u16_bytes_nth [of i] by (simp add: decode_wire_def HEADER_LEN_def nth_append)

lemma two_bytes: "2 \<le> length xs \<Longrightarrow> [xs ! 0, xs ! 1] @ drop 2 xs = xs"
proof -
  assume "2 \<le> length xs"
  then obtain a b cs where "xs = a # b # cs"
    by (metis (no_types) One_nat_def Suc_le_length_iff numeral_2_eq_2)
  then show ?thesis by simp
qed

lemma decode_wire_Ok_iff:
  "decode_wire p = Ok m \<longleftrightarrow> p = u16_to_le_bytes (raw_id m) @ raw_body m"
proof
  assume "decode_wire p = Ok m"
  then have len: "2 \<le> length p" and m: "m = \<lparr>raw_id = u16_from_le_bytes [p ! 0, p ! 1], raw_body = drop 2 p\<rparr>"
    by (auto simp: decode_wire_def HEADER_LEN_def Let_def split: if_splits)
  have "u16_to_le_bytes (raw_id m) = [p ! 0, p ! 1]"
    using m by (simp add: u16_le.enc_dec)
  with m len show "p = u16_to_le_bytes (raw_id m) @ raw_body m"
    using two_bytes [of p] by simp
next
  assume "p = u16_to_le_bytes (raw_id m) @ raw_body m"
  then show "decode_wire p = Ok m" by (simp add: decode_wire_header)
qed

lemma decode_wire_Err_iff: "decode_wire p = Err e \<longleftrightarrow> length p < 2 \<and> e = other_error"
  by (auto simp: decode_wire_def HEADER_LEN_def Let_def other_error_def)

text \<open>The shape of a successful encoding: the header, then the bytes the value wrote.\<close>

lemma encode_capnp_into_buf_Ok:
  assumes ok: "encode_capnp_into_buf mid buf v = (Ok payload, buf')"
    and place: "encodes_in_place v"
  obtains used where "encode v (slice_of 2 (2 + max_encoded_len v) (copy_into buf (u16_to_le_bytes mid))) =
       (Ok used, slice_of 2 (2 + max_encoded_len v) buf')" and "used \<le> max_encoded_len v"
    and "payload = u16_to_le_bytes mid @ take used (slice_of 2 (2 + max_encoded_len v) buf')"
    and "length buf' = length buf"
proof -
  let ?m = "max_encoded_len v"
  define buf1 where "buf1 = copy_into buf (u16_to_le_bytes mid)"
  define out where "out = slice_of 2 (2 + ?m) buf1"
  obtain r body where enc: "encode v out = (r, body)" by (cases "encode v out")
  have big: "2 + ?m \<le> length buf"
    using ok by (auto simp: encode_capnp_into_buf_def HEADER_LEN_def Let_def split: if_splits)
  have l1: "length buf1 = length buf" using big by (simp add: buf1_def slice_simps)
  have lo: "length out = ?m" using l1 big by (simp add: out_def slice_simps)
  have lb: "length body = ?m"
    using place enc lo by (auto simp: encodes_in_place_def dest: spec [of _ out])
  have eq: "encode_capnp_into_buf mid buf v =
      (case r of Err e \<Rightarrow> (Err e, copy_at 2 buf1 body)
       | Ok used \<Rightarrow> if used > ?m then (Err \<lparr>kind = Other\<rparr>, copy_at 2 buf1 body)
                    else (Ok (take (2 + used) (copy_at 2 buf1 body)), copy_at 2 buf1 body))"
    using big enc
    unfolding encode_capnp_into_buf_def HEADER_LEN_def Let_def buf1_def [symmetric] out_def [symmetric]
    by simp
  obtain used where r: "r = Ok used" using ok eq by (cases r) simp_all
  have le: "used \<le> ?m" using ok eq r by (cases "used > ?m") simp_all
  have pay: "payload = take (2 + used) (copy_at 2 buf1 body)" and b': "buf' = copy_at 2 buf1 body"
    using ok [unfolded eq] r le by auto
  have body: "slice_of 2 (2 + ?m) buf' = body"
    using slice_copy_at [of 2 buf1 body] l1 big b' lb by simp
  have t2: "take 2 buf1 = u16_to_le_bytes mid"
    using take_copy_into [of "u16_to_le_bytes mid" buf] by (simp add: buf1_def)
  have "payload = u16_to_le_bytes mid @ take used body"
    using pay t2 l1 big le lb by (simp add: copy_at_def)
  moreover have "length buf' = length buf" using b' l1 big lb by (simp add: slice_simps)
  ultimately show thesis using that [of used] enc r lo le body by (simp add: out_def buf1_def)
qed

lemma encode_capnp_into_buf_small:
  "length buf < 2 + max_encoded_len v \<Longrightarrow>
   encode_capnp_into_buf mid buf v = (Err \<lparr>kind = BufferTooSmall (2 + max_encoded_len v) (length buf)\<rparr>, buf)"
  by (simp add: encode_capnp_into_buf_def HEADER_LEN_def)

lemma slot_for_id_from_Some:
  "slot_for_id_from ids mid i = Some k \<longleftrightarrow>
     i \<le> k \<and> k < length ids \<and> ids ! k = mid \<and> (\<forall>j. i \<le> j \<longrightarrow> j < k \<longrightarrow> ids ! j \<noteq> mid)"
proof (induction ids mid i rule: slot_for_id_from.induct)
  case (1 ids mid i)
  show ?case
  proof (cases "i < length ids \<and> ids ! i \<noteq> mid")
    case True
    then have eq: "slot_for_id_from ids mid i = slot_for_id_from ids mid (i + 1)"
      by (simp add: slot_for_id_from.simps [of ids mid i])
    have IH: "slot_for_id_from ids mid (i + 1) = Some k \<longleftrightarrow>
        i + 1 \<le> k \<and> k < length ids \<and> ids ! k = mid \<and> (\<forall>j. i + 1 \<le> j \<longrightarrow> j < k \<longrightarrow> ids ! j \<noteq> mid)"
      using "1.IH" True by blast
    have "i \<noteq> k" if "ids ! k = mid" using True that by auto
    then show ?thesis
      unfolding eq IH all_ge_Suc [of i "\<lambda>j. j < k \<longrightarrow> ids ! j \<noteq> mid"] using True by auto
  next
    case False
    then show ?thesis
      by (auto simp: slot_for_id_from.simps [of ids mid i])
  qed
qed

lemma slot_for_id_Some:
  "slot_for_id ids mid = Some k \<longleftrightarrow> k < length ids \<and> ids ! k = mid \<and> (\<forall>j < k. ids ! j \<noteq> mid)"
  by (simp add: slot_for_id_def slot_for_id_from_Some)

lemma slot_for_id_lt: "slot_for_id ids mid = Some k \<Longrightarrow> k < length ids"
  by (simp add: slot_for_id_Some)

lemma slot_for_id_None: "slot_for_id ids mid = None \<longleftrightarrow> mid \<notin> set ids"
proof
  assume none: "slot_for_id ids mid = None"
  show "mid \<notin> set ids"
  proof
    assume "mid \<in> set ids"
    then have "\<exists>k. k < length ids \<and> ids ! k = mid" by (simp add: in_set_conv_nth)
    then have "slot_for_id ids mid = Some (LEAST k. k < length ids \<and> ids ! k = mid)"
      by (smt (verit, best) LeastI_ex not_less_Least slot_for_id_Some less_trans)
    with none show False by simp
  qed
next
  assume "mid \<notin> set ids"
  then show "slot_for_id ids mid = None"
    by (metis nth_mem option.exhaust slot_for_id_Some)
qed

lemma slot_for_id_distinct: "distinct ids \<Longrightarrow> k < length ids \<Longrightarrow> slot_for_id ids (ids ! k) = Some k"
  by (auto simp: slot_for_id_Some nth_eq_iff_index_eq)

text \<open>The copy loop writes exactly the bundle's ids at its offset.\<close>

lemma copy_bundle_ids_eq:
  "pos + length ids \<le> length out \<Longrightarrow> i \<le> length ids \<Longrightarrow> slice_of pos (pos + i) out = take i ids \<Longrightarrow>
   copy_bundle_ids out pos ids i = take pos out @ ids @ drop (pos + length ids) out"
proof (induction out pos ids i rule: copy_bundle_ids.induct)
  case (1 out pos ids i)
  show ?case
  proof (cases "i < length ids")
    case False
    then have i: "i = length ids" using "1.prems" by simp
    then have "take (length ids) (drop pos out) = ids"
      using "1.prems"(3) by (simp add: slice_of_def)
    then have "take pos out @ ids @ drop (pos + length ids) out = out"
      by (metis add.commute append_take_drop_id drop_drop)
    then show ?thesis using False by (simp add: copy_bundle_ids.simps [of out pos ids i])
  next
    case True
    let ?out = "out[pos + i := ids ! i]"
    have ub: "pos + i < length out" using True "1.prems"(1) by simp
    have tk: "take (i + 1) (drop pos ?out) = take (i + 1) ids"
    proof -
      have d: "drop pos ?out = (drop pos out)[i := ids ! i]"
        using drop_update_swap [of pos "pos + i" out "ids ! i"] by simp
      have "take (i + 1) ((drop pos out)[i := ids ! i]) = take i (drop pos out) @ [ids ! i]"
        using ub by (simp add: take_Suc_conv_app_nth)
      then show ?thesis
        using d "1.prems"(3) True by (simp add: slice_of_def take_Suc_conv_app_nth)
    qed
    have IH: "copy_bundle_ids ?out pos ids (i + 1) = take pos ?out @ ids @ drop (pos + length ids) ?out"
      using "1.IH" True "1.prems"(1) tk by (simp add: slice_of_def)
    show ?thesis
      using IH True by (simp add: copy_bundle_ids.simps [of out pos ids i])
  qed
qed

lemma copy_all_bundle_ids_eq:
  "length out = pos + maplet_message_count bundles \<Longrightarrow>
   copy_all_bundle_ids out pos bundles = take pos out @ concat bundles"
proof (induction bundles arbitrary: out pos)
  case Nil
  then show ?case by simp
next
  case (Cons ids bundles)
  have "copy_bundle_ids out pos ids 0 = take pos out @ ids @ drop (pos + length ids) out"
    using Cons.prems by (intro copy_bundle_ids_eq) (auto simp: slice_of_def)
  then show ?case using Cons by simp
qed

lemma maplet_message_ids_eq: "maplet_message_ids bundles = concat bundles"
  by (simp add: maplet_message_ids_def copy_all_bundle_ids_eq)

lemma dup_after_iff: "dup_after ids i j \<longleftrightarrow> (\<exists>k. j \<le> k \<and> k < length ids \<and> ids ! i = ids ! k)"
proof (induction ids i j rule: dup_after.induct)
  case (1 ids i j)
  show ?case
    unfolding ex_ge_Suc [of j "\<lambda>k. k < length ids \<and> ids ! i = ids ! k"] dup_after.simps [of ids i j]
    using "1.IH" by (cases "j < length ids"; cases "ids ! i = ids ! j") auto
qed

lemma dup_from_iff: "dup_from ids i \<longleftrightarrow> (\<exists>a. i \<le> a \<and> a < length ids \<and> dup_after ids a (a + 1))"
proof (induction ids i rule: dup_from.induct)
  case (1 ids i)
  show ?case
    unfolding ex_ge_Suc [of i "\<lambda>a. a < length ids \<and> dup_after ids a (a + 1)"] dup_from.simps [of ids i]
    using "1.IH" by (cases "i < length ids"; cases "dup_after ids i (i + 1)") auto
qed

lemma dup_from_distinct: "dup_from ids 0 \<longleftrightarrow> \<not> distinct ids"
  unfolding dup_from_iff dup_after_iff distinct_conv_nth
  by (metis Suc_eq_plus1 Suc_le_eq le0 linorder_neqE_nat nat_neq_iff)

lemma maplet_define_from_bundles_eq:
  "maplet_define_from_bundles bundles =
     (if distinct (concat bundles) then Return (concat bundles) else Panic)"
  by (simp add: maplet_define_from_bundles_def maplet_message_ids_eq dup_from_distinct Let_def)

lemma maplet_define_from_bundles_aliases_eq:
  "maplet_define_from_bundles_aliases entries = maplet_define_from_bundles (map snd entries)"
  by (simp add: maplet_define_from_bundles_aliases_def maplet_define_from_bundles_def)

text \<open>Whatever the arm, the table is the concatenation of what was listed; the arms of bundles reject a repeated
  id, the arms of messages do not.\<close>

fun maplet_listed :: "maplet_decl \<Rightarrow> u16 list" where
  "maplet_listed (UseMsgs msgs) = msgs"
| "maplet_listed (Bundles bundles) = concat bundles"
| "maplet_listed (BundleAliases entries) = concat (map snd entries)"
| "maplet_listed (BundleMsgs entries) = concat (map snd entries)"

fun maplet_checked :: "maplet_decl \<Rightarrow> bool" where
  "maplet_checked (Bundles _) = True"
| "maplet_checked (BundleAliases _) = True"
| "maplet_checked _ = False"

lemma maplet_expand_eq:
  "maplet_expand d = (if maplet_checked d \<and> \<not> distinct (maplet_listed d) then Panic else Return (maplet_listed d))"
  by (cases d)
    (simp_all add: maplet_define_from_bundles_eq maplet_define_from_bundles_aliases_eq maplet_define_from_msgs_def)

text \<open>In a maplet made of messages a repeated id is accepted, and its later slot is unreachable.\<close>

lemma maplet_msgs_shadowed:
  "i < j \<Longrightarrow> j < length ids \<Longrightarrow> ids ! i = ids ! j \<Longrightarrow> slot_for_id (maplet_define_from_msgs ids) mid \<noteq> Some j"
  by (auto simp: maplet_define_from_msgs_def slot_for_id_Some)


end
