(* ===== verification/Mailbox.thy ===== *)
theory Mailbox
  imports Thincan_Wire
begin

text \<open>
  The receive mailboxes of \<open>thincan/src/lib.rs\<close>: \<open>MailboxSlot\<close>, \<open>TypeMailbox\<close> (a fixed array of
  slots with a fill count, searched and compacted by index loops) and \<open>RxState\<close> (one mailbox per
  message type). The const generics \<open>DEPTH\<close> and \<open>MAX_BODY\<close> are arguments. The \<open>FnMut\<close> predicate of
  \<open>pop_matching_where\<close> may keep state, so it is a function from its state and the body to a decision
  and its next state.
  The locale \<open>bounded_mailbox\<close> is the contract the rest of the crate relies on: a bounded list of
  (sender, body) pairs in arrival order. The interpretation \<open>tm\<close> discharges it for the array code.
\<close>

section \<open>State\<close>

datatype ingest_error =
    MalformedPayload
  | UnknownId u16
  | BodyTooLarge usize usize
  | MailboxFull

record mailbox_slot =
  slot_from :: u8
  slot_len :: usize
  slot_body :: bytes

record type_mailbox =
  slots :: "mailbox_slot list"
  used :: usize

type_synonym 's pred_fn = "'s \<Rightarrow> bytes \<Rightarrow> bool \<times> 's"

type_synonym rx_state = "type_mailbox list"

section \<open>Operations\<close>

definition mailbox_slot_empty :: "usize \<Rightarrow> mailbox_slot" where
  "mailbox_slot_empty MAX_BODY = \<lparr>slot_from = 0, slot_len = 0, slot_body = replicate MAX_BODY 0\<rparr>"

definition type_mailbox_new :: "usize \<Rightarrow> usize \<Rightarrow> type_mailbox" where
  "type_mailbox_new DEPTH MAX_BODY = \<lparr>slots = replicate DEPTH (mailbox_slot_empty MAX_BODY), used = 0\<rparr>"

definition type_mailbox_push ::
    "usize \<Rightarrow> usize \<Rightarrow> type_mailbox \<Rightarrow> u8 \<Rightarrow> bytes \<Rightarrow> type_mailbox \<times> (unit, ingest_error) result" where
  "type_mailbox_push DEPTH MAX_BODY mb src body =
     (if length body > MAX_BODY then (mb, Err (BodyTooLarge (length body) MAX_BODY))
      else if used mb = DEPTH then (mb, Err MailboxFull)
      else let idx = used mb;
               s = slots mb ! idx;
               s' = s\<lparr>slot_from := src, slot_len := length body, slot_body := copy_into (slot_body s) body\<rparr>
           in (mb\<lparr>slots := (slots mb)[idx := s'], used := used mb + 1\<rparr>, Ok ()))"

text \<open>The body a slot exposes: \<open>&body[..len]\<close>.\<close>

definition slot_payload :: "mailbox_slot \<Rightarrow> bytes" where
  "slot_payload s = take (slot_len s) (slot_body s)"

text \<open>The search loop: the first slot of the sender whose body satisfies the predicate.\<close>

function find_matching :: "type_mailbox \<Rightarrow> u8 \<Rightarrow> 's pred_fn \<Rightarrow> 's \<Rightarrow> nat \<Rightarrow> nat option \<times> 's" where
  "find_matching mb src p st i =
     (if i < used mb then
        let s = slots mb ! i in
        if slot_from s = src then
          case p st (take (slot_len s) (slot_body s)) of
            (True, st') \<Rightarrow> (Some i, st')
          | (False, st') \<Rightarrow> find_matching mb src p st' (i + 1)
        else find_matching mb src p st (i + 1)
      else (None, st))"
  by pat_completeness auto
termination
  by (relation "measure (\<lambda>(mb, src, p, st, i). used mb - i)") auto

text \<open>The compaction loop: \<open>slots[j] = slots[j + 1]\<close> while \<open>j + 1 < used\<close>.\<close>

function shift_down :: "mailbox_slot list \<Rightarrow> usize \<Rightarrow> nat \<Rightarrow> mailbox_slot list" where
  "shift_down ss u j = (if j + 1 < u then shift_down (ss[j := ss ! (j + 1)]) u (j + 1) else ss)"
  by pat_completeness auto
termination
  by (relation "measure (\<lambda>(ss, u, j). u - j)") auto

declare find_matching.simps [simp del] shift_down.simps [simp del]

definition type_mailbox_pop_matching_where ::
    "usize \<Rightarrow> type_mailbox \<Rightarrow> u8 \<Rightarrow> 's pred_fn \<Rightarrow> 's \<Rightarrow> type_mailbox \<times> mailbox_slot option \<times> 's" where
  "type_mailbox_pop_matching_where MAX_BODY mb src p st =
     (case find_matching mb src p st 0 of
        (None, st') \<Rightarrow> (mb, None, st')
      | (Some idx, st') \<Rightarrow>
          let out = slots mb ! idx;
              ss = shift_down (slots mb) (used mb) idx;
              ss' = ss[used mb - 1 := mailbox_slot_empty MAX_BODY]
          in (mb\<lparr>slots := ss', used := used mb - 1\<rparr>, Some out, st'))"

definition rx_state_new :: "usize \<Rightarrow> usize \<Rightarrow> usize \<Rightarrow> rx_state" where
  "rx_state_new MAX_TYPES DEPTH MAX_BODY = map (\<lambda>_. type_mailbox_new DEPTH MAX_BODY) [0..<MAX_TYPES]"

definition rx_state_push ::
    "usize \<Rightarrow> usize \<Rightarrow> rx_state \<Rightarrow> nat \<Rightarrow> u8 \<Rightarrow> bytes \<Rightarrow> rx_state \<times> (unit, ingest_error) result" where
  "rx_state_push DEPTH MAX_BODY rx slot src body =
     (let (mb, r) = type_mailbox_push DEPTH MAX_BODY (rx ! slot) src body in (rx[slot := mb], r))"

definition rx_state_pop_matching_where ::
    "usize \<Rightarrow> rx_state \<Rightarrow> nat \<Rightarrow> u8 \<Rightarrow> 's pred_fn \<Rightarrow> 's \<Rightarrow> rx_state \<times> mailbox_slot option \<times> 's" where
  "rx_state_pop_matching_where MAX_BODY rx slot src p st =
     (let (mb, r, st') = type_mailbox_pop_matching_where MAX_BODY (rx ! slot) src p st in (rx[slot := mb], r, st'))"

section \<open>Specification\<close>

text \<open>What a mailbox holds: (sender, body) pairs, oldest first.\<close>

definition mailbox_view :: "type_mailbox \<Rightarrow> (u8 \<times> bytes) list" where
  "mailbox_view mb = map (\<lambda>s. (slot_from s, slot_payload s)) (take (used mb) (slots mb))"

definition slot_wf :: "usize \<Rightarrow> mailbox_slot \<Rightarrow> bool" where
  "slot_wf MAX_BODY s \<longleftrightarrow> length (slot_body s) = MAX_BODY \<and> slot_len s \<le> MAX_BODY"

definition mailbox_wf :: "usize \<Rightarrow> usize \<Rightarrow> type_mailbox \<Rightarrow> bool" where
  "mailbox_wf DEPTH MAX_BODY mb \<longleftrightarrow>
     length (slots mb) = DEPTH \<and> used mb \<le> DEPTH \<and> (\<forall>s \<in> set (slots mb). slot_wf MAX_BODY s)"

text \<open>Taking the oldest matching pair out of a list, leaving the others in order.\<close>

fun fifo_pop :: "u8 \<Rightarrow> 's pred_fn \<Rightarrow> 's \<Rightarrow> (u8 \<times> bytes) list \<Rightarrow> (u8 \<times> bytes) list \<times> bytes option \<times> 's" where
  "fifo_pop src p st [] = ([], None, st)"
| "fifo_pop src p st ((f, b) # xs) =
     (if f = src then
        (case p st b of
           (True, st') \<Rightarrow> (xs, Some b, st')
         | (False, st') \<Rightarrow> (let (ys, r, st'') = fifo_pop src p st' xs in ((f, b) # ys, r, st'')))
      else (let (ys, r, st'') = fifo_pop src p st xs in ((f, b) # ys, r, st'')))"

definition bodies_from :: "u8 \<Rightarrow> (u8 \<times> bytes) list \<Rightarrow> bytes list" where
  "bodies_from src xs = map snd (filter (\<lambda>(f, b). f = src) xs)"

definition accept_all :: "unit pred_fn" where
  "accept_all st b = (True, st)"

lemma bodies_from_simps [simp]:
  "bodies_from src [] = []"
  "bodies_from src ((f, b) # xs) = (if f = src then b # bodies_from src xs else bodies_from src xs)"
  "bodies_from src (xs @ ys) = bodies_from src xs @ bodies_from src ys"
  by (simp_all add: bodies_from_def)

lemma fifo_pop_other_senders:
  "fifo_pop src p st xs = (ys, r, st') \<Longrightarrow> f \<noteq> src \<Longrightarrow> bodies_from f ys = bodies_from f xs"
  by (induction src p st xs arbitrary: ys r st' rule: fifo_pop.induct)
     (auto split: prod.splits if_splits bool.splits)

lemma fifo_pop_accept_all:
  "fifo_pop src accept_all () xs = (ys, r, st') \<Longrightarrow>
     bodies_from src xs = (case r of None \<Rightarrow> [] | Some b \<Rightarrow> b # bodies_from src ys) \<and> (r = None \<longrightarrow> ys = xs)"
proof (induction xs arbitrary: ys r st')
  case Nil
  then show ?case by auto
next
  case (Cons x xs)
  then show ?case by (cases x) (auto simp: accept_all_def split: prod.splits if_splits option.splits)
qed

lemma fifo_pop_None: "fifo_pop src p st xs = (ys, None, st') \<Longrightarrow> ys = xs"
  by (induction src p st xs arbitrary: ys st' rule: fifo_pop.induct)
     (auto split: prod.splits if_splits bool.splits)

lemma fifo_pop_Some:
  "fifo_pop src p st xs = (ys, Some b, st') \<Longrightarrow>
     \<exists>us vs. xs = us @ (src, b) # vs \<and> ys = us @ vs \<and> (\<exists>s s'. p s b = (True, s'))"
proof (induction src p st xs arbitrary: ys b st' rule: fifo_pop.induct)
  case (1 src p st)
  then show ?case by simp
next
  case (2 src p st f c xs)
  have lift: "\<exists>us vs. (f, c) # xs = us @ (src, b) # vs \<and> ys = us @ vs \<and> (\<exists>s s'. p s b = (True, s'))"
    if "\<exists>us vs. xs = us @ (src, b) # vs \<and> zs = us @ vs \<and> (\<exists>s s'. p s b = (True, s'))" "ys = (f, c) # zs" for zs
    using that by (metis append_Cons)
  show ?case
  proof (cases "f = src")
    case False
    obtain zs r2 s2 where rest: "fifo_pop src p st xs = (zs, r2, s2)" by (metis prod_cases3)
    then have r2: "r2 = Some b" and ys: "ys = (f, c) # zs" using "2.prems" False by simp_all
    show ?thesis using lift [OF "2.IH"(2) [OF False rest [unfolded r2]] ys] .
  next
    case True
    obtain h s1 where p: "p st c = (h, s1)" by (cases "p st c")
    show ?thesis
    proof (cases h)
      case True
      then have "ys = xs \<and> b = c" using "2.prems" \<open>f = src\<close> p by simp
      then show ?thesis using True \<open>f = src\<close> p by (metis append_Nil)
    next
      case False
      obtain zs r2 s2 where rest: "fifo_pop src p s1 xs = (zs, r2, s2)" by (metis prod_cases3)
      then have r2: "r2 = Some b" and ys: "ys = (f, c) # zs" using "2.prems" \<open>f = src\<close> p False by simp_all
      show ?thesis using lift [OF "2.IH"(1) [OF \<open>f = src\<close> p [symmetric] _ rest [unfolded r2]] ys] False by simp
    qed
  qed
qed

section \<open>The contract of a mailbox\<close>

locale bounded_mailbox =
  fixes depth :: usize and max_body :: usize
    and empty :: 'm
    and push :: "'m \<Rightarrow> u8 \<Rightarrow> bytes \<Rightarrow> 'm \<times> (unit, ingest_error) result"
    and pop :: "'m \<Rightarrow> u8 \<Rightarrow> 's pred_fn \<Rightarrow> 's \<Rightarrow> 'm \<times> bytes option \<times> 's"
    and view :: "'m \<Rightarrow> (u8 \<times> bytes) list"
    and inv :: "'m \<Rightarrow> bool"
  assumes empty_inv: "inv empty"
    and empty_view: "view empty = []"
    and view_bound: "inv m \<Longrightarrow> length (view m) \<le> depth"
    and push_large: "inv m \<Longrightarrow> max_body < length b \<Longrightarrow> push m f b = (m, Err (BodyTooLarge (length b) max_body))"
    and push_full: "inv m \<Longrightarrow> length b \<le> max_body \<Longrightarrow> length (view m) = depth \<Longrightarrow> push m f b = (m, Err MailboxFull)"
    and push_ok: "inv m \<Longrightarrow> length b \<le> max_body \<Longrightarrow> length (view m) < depth \<Longrightarrow>
        \<exists>m'. push m f b = (m', Ok ()) \<and> inv m' \<and> view m' = view m @ [(f, b)]"
    and pop_spec: "inv m \<Longrightarrow> pop m f p st = (m', r, st') \<Longrightarrow> inv m' \<and> fifo_pop f p st (view m) = (view m', r, st')"
begin

lemma push_cases:
  assumes "inv m" "push m f b = (m', r)"
  shows "inv m' \<and> (r = Ok () \<and> view m' = view m @ [(f, b)] \<and> length b \<le> max_body \<and> length (view m) < depth
           \<or> r = Err (BodyTooLarge (length b) max_body) \<and> m' = m \<and> max_body < length b
           \<or> r = Err MailboxFull \<and> m' = m \<and> length b \<le> max_body \<and> length (view m) = depth)"
proof -
  consider (large) "max_body < length b" | (full) "length b \<le> max_body" "length (view m) = depth"
    | (ok) "length b \<le> max_body" "length (view m) < depth"
    using view_bound [OF assms(1)] by linarith
  then show ?thesis
  proof cases
    case large
    then show ?thesis using push_large [OF assms(1) large, of f] assms by auto
  next
    case full
    then show ?thesis using push_full [OF assms(1) full, of f] assms by auto
  next
    case ok
    then show ?thesis using push_ok [OF assms(1) ok, of f] assms by auto
  qed
qed

lemma push_Ok_iff:
  assumes "inv m"
  shows "snd (push m f b) = Ok () \<longleftrightarrow> length b \<le> max_body \<and> length (view m) < depth"
  using push_cases [OF assms, of f b "fst (push m f b)" "snd (push m f b)"] by auto

lemma pop_keeps_others: "inv m \<Longrightarrow> pop m f p st = (m', r, st') \<Longrightarrow> g \<noteq> f \<Longrightarrow> bodies_from g (view m') = bodies_from g (view m)"
  by (rule fifo_pop_other_senders [OF conjunct2 [OF pop_spec]])

lemma pop_after_push:
  assumes "inv m" "push m f b = (m', Ok ())" "bodies_from f (view m) = []" "pop m' f p st = (m'', r, st')"
    and "p st b = (True, st1)"
  shows "r = Some b \<and> view m'' = view m"
proof -
  have v: "view m' = view m @ [(f, b)]" and i: "inv m'" using push_cases [OF assms(1,2)] by auto
  have none: "g \<noteq> f" if "(g, c) \<in> set (view m)" for g c
    using assms(3) that by (force simp: bodies_from_def filter_empty_conv)
  have skip: "fifo_pop f p st (xs @ [(f, b)]) = (xs, Some b, st1)" if "\<forall>(g, c) \<in> set xs. g \<noteq> f" for xs
    using that by (induction xs) (auto simp: assms(5) split: prod.splits)
  have "fifo_pop f p st (view m @ [(f, b)]) = (view m, Some b, st1)" using skip [of "view m"] none by auto
  then show ?thesis using pop_spec [OF i assms(4)] v by simp
qed

end

section \<open>The array implementation meets the contract\<close>

lemma mailbox_view_length: "mailbox_wf D B mb \<Longrightarrow> length (mailbox_view mb) = used mb"
  by (simp add: mailbox_view_def mailbox_wf_def)

lemma mailbox_view_nth:
  "mailbox_wf D B mb \<Longrightarrow> i < used mb \<Longrightarrow> mailbox_view mb ! i = (slot_from (slots mb ! i), slot_payload (slots mb ! i))"
  by (simp add: mailbox_view_def mailbox_wf_def)

lemma type_mailbox_new_wf: "mailbox_wf D B (type_mailbox_new D B)" "mailbox_view (type_mailbox_new D B) = []"
  by (auto simp: mailbox_wf_def type_mailbox_new_def slot_wf_def mailbox_slot_empty_def mailbox_view_def)

lemma type_mailbox_push_ok:
  assumes wf: "mailbox_wf D B mb" and len: "length b \<le> B" and room: "used mb < D"
  shows "\<exists>mb'. type_mailbox_push D B mb f b = (mb', Ok ()) \<and> mailbox_wf D B mb' \<and>
           mailbox_view mb' = mailbox_view mb @ [(f, b)]"
proof -
  let ?s = "slots mb ! used mb"
  let ?s' = "?s\<lparr>slot_from := f, slot_len := length b, slot_body := copy_into (slot_body ?s) b\<rparr>"
  let ?mb = "mb\<lparr>slots := (slots mb)[used mb := ?s'], used := used mb + 1\<rparr>"
  have in_range: "used mb < length (slots mb)" using wf room by (simp add: mailbox_wf_def)
  then have swf: "slot_wf B ?s" using wf by (simp add: mailbox_wf_def)
  then have swf': "slot_wf B ?s'" using len by (simp add: slot_wf_def slice_simps)
  have "mailbox_wf D B ?mb"
    using wf room swf' set_update_subset_insert [of "slots mb" "used mb" ?s']
    by (auto simp: mailbox_wf_def)
  moreover have "mailbox_view ?mb = mailbox_view mb @ [(f, b)]"
    using in_range by (simp add: mailbox_view_def take_Suc_conv_app_nth slot_payload_def slice_simps)
  moreover have "type_mailbox_push D B mb f b = (?mb, Ok ())"
    using len room by (simp add: type_mailbox_push_def Let_def)
  ultimately show ?thesis by blast
qed

text \<open>The search loop agrees with the specification on the part of the mailbox still to be scanned.\<close>

lemma find_matching_spec:
  "mailbox_wf D B mb \<Longrightarrow> find_matching mb src p st i = (k, st') \<Longrightarrow>
     (case k of
        None \<Rightarrow> fifo_pop src p st (drop i (mailbox_view mb)) = (drop i (mailbox_view mb), None, st')
      | Some j \<Rightarrow> i \<le> j \<and> j < used mb \<and>
          fifo_pop src p st (drop i (mailbox_view mb)) =
            (take (j - i) (drop i (mailbox_view mb)) @ drop (j + 1) (mailbox_view mb),
             Some (slot_payload (slots mb ! j)), st'))"
proof (induction mb src p st i arbitrary: k st' rule: find_matching.induct)
  case (1 mb src p st i)
  let ?v = "mailbox_view mb" and ?s = "slots mb ! i"
  show ?case
  proof (cases "i < used mb")
    case False
    then show ?thesis
      using "1.prems" mailbox_view_length [of D B mb] by (simp add: find_matching.simps [of mb src p st i])
  next
    case True
    have cons: "drop i ?v = (slot_from ?s, slot_payload ?s) # drop (Suc i) ?v"
      using True mailbox_view_nth [OF "1.prems"(1) True] mailbox_view_length [OF "1.prems"(1)]
      by (metis Cons_nth_drop_Suc)
    have skip: "take (j - i) (drop i ?v) = (slot_from ?s, slot_payload ?s) # take (j - Suc i) (drop (Suc i) ?v)"
      if "Suc i \<le> j" for j
      using that cons by (simp add: Suc_diff_le take_Cons')
    obtain h s1 where ph: "p st (slot_payload ?s) = (h, s1)" by (cases "p st (slot_payload ?s)")
    consider (hit) "slot_from ?s = src" "h" | (miss) "slot_from ?s = src" "\<not> h" | (other) "slot_from ?s \<noteq> src"
      by blast
    then show ?thesis
    proof cases
      case hit
      then have "k = Some i \<and> st' = s1"
        using "1.prems"(2) True ph by (simp add: find_matching.simps [of mb src p st i] slot_payload_def)
      then show ?thesis using hit ph True cons by simp
    next
      case miss
      then have "find_matching mb src p s1 (i + 1) = (k, st')"
        using "1.prems"(2) True ph by (simp add: find_matching.simps [of mb src p st i] slot_payload_def)
      moreover have "p st (take (slot_len ?s) (slot_body ?s)) = (False, s1)"
        using ph miss by (simp add: slot_payload_def)
      ultimately have IH: "case k of
          None \<Rightarrow> fifo_pop src p s1 (drop (i + 1) ?v) = (drop (i + 1) ?v, None, st')
        | Some j \<Rightarrow> i + 1 \<le> j \<and> j < used mb \<and> fifo_pop src p s1 (drop (i + 1) ?v) =
            (take (j - (i + 1)) (drop (i + 1) ?v) @ drop (j + 1) ?v, Some (slot_payload (slots mb ! j)), st')"
        using "1.IH"(1) [OF True refl miss(1) _ _ "1.prems"(1)] by force
      then show ?thesis using miss ph cons skip by (auto split: option.splits)
    next
      case other
      then have "find_matching mb src p st (i + 1) = (k, st')"
        using "1.prems"(2) True by (simp add: find_matching.simps [of mb src p st i])
      then have IH: "case k of
          None \<Rightarrow> fifo_pop src p st (drop (i + 1) ?v) = (drop (i + 1) ?v, None, st')
        | Some j \<Rightarrow> i + 1 \<le> j \<and> j < used mb \<and> fifo_pop src p st (drop (i + 1) ?v) =
            (take (j - (i + 1)) (drop (i + 1) ?v) @ drop (j + 1) ?v, Some (slot_payload (slots mb ! j)), st')"
        using "1.IH"(2) [OF True refl other "1.prems"(1)] by blast
      then show ?thesis using other cons skip by (auto split: option.splits)
    qed
  qed
qed

text \<open>The compaction loop moves the tail one place down and leaves the last used place as it was.\<close>

lemma shift_down_eq:
  "u \<le> length ss \<Longrightarrow> j < u \<Longrightarrow>
   shift_down ss u j = take j ss @ take (u - 1 - j) (drop (j + 1) ss) @ drop (u - 1) ss"
proof (induction ss u j rule: shift_down.induct)
  case (1 ss u j)
  show ?case
  proof (cases "j + 1 < u")
    case False
    then have "u - 1 = j" using "1.prems" by simp
    then show ?thesis using False by (simp add: shift_down.simps [of ss u j])
  next
    case True
    let ?ss = "ss[j := ss ! (j + 1)]"
    have "shift_down ?ss u (j + 1) = take (j + 1) ?ss @ take (u - 1 - (j + 1)) (drop (j + 1 + 1) ?ss) @ drop (u - 1) ?ss"
      using "1.IH" "1.prems" True by simp
    moreover have "take (j + 1) ?ss = take j ss @ [ss ! (j + 1)]"
      using "1.prems" True by (simp add: take_Suc_conv_app_nth)
    moreover have "take (u - 1 - j) (drop (j + 1) ss) = ss ! (j + 1) # take (u - 1 - (j + 1)) (drop (j + 2) ss)"
    proof -
      have "drop (j + 1) ss = ss ! (j + 1) # drop (j + 2) ss"
        using "1.prems" True Cons_nth_drop_Suc [of "j + 1" ss] by simp
      moreover have "u - 1 - j = Suc (u - 1 - (j + 1))" using True by simp
      ultimately show ?thesis by (simp only: take_Suc_Cons)
    qed
    ultimately show ?thesis
      using True by (simp add: shift_down.simps [of ss u j])
  qed
qed

lemma set_shift_down: "u \<le> length ss \<Longrightarrow> j < u \<Longrightarrow> set (shift_down ss u j) \<subseteq> set ss"
  by (auto simp: shift_down_eq dest: in_set_takeD in_set_dropD)

lemma length_shift_down: "u \<le> length ss \<Longrightarrow> j < u \<Longrightarrow> length (shift_down ss u j) = length ss"
  by (simp add: shift_down_eq)

lemma type_mailbox_pop_spec:
  assumes wf: "mailbox_wf D B mb" and pop: "type_mailbox_pop_matching_where B mb src p st = (mb', r, st')"
  shows "mailbox_wf D B mb' \<and> fifo_pop src p st (mailbox_view mb) = (mailbox_view mb', map_option slot_payload r, st')
     \<and> (\<forall>s. r = Some s \<longrightarrow> slot_wf B s)"
proof -
  obtain k s1 where find: "find_matching mb src p st 0 = (k, s1)" by (cases "find_matching mb src p st 0")
  show ?thesis
  proof (cases k)
    case None
    then show ?thesis
      using pop find wf find_matching_spec [OF wf find] by (simp add: type_mailbox_pop_matching_where_def)
  next
    case (Some j)
    have j: "j < used mb" and spec: "fifo_pop src p st (mailbox_view mb) =
        (take j (mailbox_view mb) @ drop (Suc j) (mailbox_view mb), Some (slot_payload (slots mb ! j)), s1)"
      using find_matching_spec [OF wf find] Some by auto
    let ?ss = "shift_down (slots mb) (used mb) j"
    have ul: "used mb \<le> length (slots mb)" using wf by (simp add: mailbox_wf_def)
    have mb': "mb' = mb\<lparr>slots := ?ss[used mb - 1 := mailbox_slot_empty B], used := used mb - 1\<rparr>"
      and r: "r = Some (slots mb ! j)" and st: "st' = s1"
      using pop find Some by (auto simp: type_mailbox_pop_matching_where_def Let_def)
    have "set (?ss[used mb - 1 := mailbox_slot_empty B]) \<subseteq> insert (mailbox_slot_empty B) (set (slots mb))"
      using set_update_subset_insert [of ?ss "used mb - 1" "mailbox_slot_empty B"] set_shift_down [OF ul j] by blast
    then have wf': "mailbox_wf D B mb'"
      using wf mb' length_shift_down [OF ul j] by (auto simp: mailbox_wf_def slot_wf_def mailbox_slot_empty_def)
    have "take (used mb - 1) ?ss = take j (slots mb) @ take (used mb - 1 - j) (drop (Suc j) (slots mb))"
      using ul j by (simp add: shift_down_eq [OF ul j])
    then have "mailbox_view mb' = take j (mailbox_view mb) @ drop (Suc j) (mailbox_view mb)"
      using mb' ul j by (simp add: mailbox_view_def take_map drop_map min_def drop_take)
    moreover have "slot_wf B (slots mb ! j)" using wf j ul by (simp add: mailbox_wf_def)
    ultimately show ?thesis using wf' spec r st by simp
  qed
qed

text \<open>The pop operation as its callers use it: the body of the slot taken out.\<close>

definition type_mailbox_take :: "usize \<Rightarrow> type_mailbox \<Rightarrow> u8 \<Rightarrow> 's pred_fn \<Rightarrow> 's \<Rightarrow> type_mailbox \<times> bytes option \<times> 's" where
  "type_mailbox_take MAX_BODY mb src p st =
     (case type_mailbox_pop_matching_where MAX_BODY mb src p st of (mb', r, st') \<Rightarrow> (mb', map_option slot_payload r, st'))"

interpretation tm: bounded_mailbox D B "type_mailbox_new D B" "type_mailbox_push D B" "type_mailbox_take B"
    mailbox_view "mailbox_wf D B"
  for D B
proof unfold_locales
  fix m :: type_mailbox and b :: bytes and f :: u8
  assume wf: "mailbox_wf D B m"
  show "length (mailbox_view m) \<le> D" using wf mailbox_view_length [OF wf] by (simp add: mailbox_wf_def)
  show "B < length b \<Longrightarrow> type_mailbox_push D B m f b = (m, Err (BodyTooLarge (length b) B))"
    by (simp add: type_mailbox_push_def)
  show "length b \<le> B \<Longrightarrow> length (mailbox_view m) = D \<Longrightarrow> type_mailbox_push D B m f b = (m, Err MailboxFull)"
    using mailbox_view_length [OF wf] by (simp add: type_mailbox_push_def)
  show "length b \<le> B \<Longrightarrow> length (mailbox_view m) < D \<Longrightarrow> \<exists>m'. type_mailbox_push D B m f b = (m', Ok ()) \<and>
      mailbox_wf D B m' \<and> mailbox_view m' = mailbox_view m @ [(f, b)]"
    using type_mailbox_push_ok [OF wf] mailbox_view_length [OF wf] by simp
next
  fix m m' :: type_mailbox and f :: u8 and p :: "'a pred_fn" and st st' r
  assume wf: "mailbox_wf D B m" and "type_mailbox_take B m f p st = (m', r, st')"
  then obtain s where q: "type_mailbox_pop_matching_where B m f p st = (m', s, st')" and r: "r = map_option slot_payload s"
    by (auto simp: type_mailbox_take_def split: prod.splits)
  show "mailbox_wf D B m' \<and> fifo_pop f p st (mailbox_view m) = (mailbox_view m', r, st')"
    using type_mailbox_pop_spec [OF wf q] r by simp
qed (simp_all add: type_mailbox_new_wf)

section \<open>One mailbox per message type\<close>

definition rx_wf :: "usize \<Rightarrow> usize \<Rightarrow> usize \<Rightarrow> rx_state \<Rightarrow> bool" where
  "rx_wf MAX_TYPES DEPTH MAX_BODY rx \<longleftrightarrow>
     length rx = MAX_TYPES \<and> (\<forall>mb \<in> set rx. mailbox_wf DEPTH MAX_BODY mb)"

definition rx_view :: "rx_state \<Rightarrow> nat \<Rightarrow> (u8 \<times> bytes) list" where
  "rx_view rx slot = mailbox_view (rx ! slot)"

lemma rx_wf_nth: "rx_wf T D B rx \<Longrightarrow> k < T \<Longrightarrow> mailbox_wf D B (rx ! k)"
  by (simp add: rx_wf_def)

lemma rx_wf_update: "rx_wf T D B rx \<Longrightarrow> mailbox_wf D B mb \<Longrightarrow> rx_wf T D B (rx[k := mb])"
  using set_update_subset_insert [of rx k mb] by (auto simp: rx_wf_def)

lemma rx_state_new_wf: "rx_wf T D B (rx_state_new T D B)" "k < T \<Longrightarrow> rx_view (rx_state_new T D B) k = []"
  by (auto simp: rx_wf_def rx_state_new_def rx_view_def type_mailbox_new_wf)

lemma rx_state_push_cases:
  assumes wf: "rx_wf T D B rx" and k: "k < T" and push: "rx_state_push D B rx k f b = (rx', r)"
  shows "rx_wf T D B rx' \<and> (\<forall>j. j \<noteq> k \<longrightarrow> rx_view rx' j = rx_view rx j) \<and>
     (r = Ok () \<and> rx_view rx' k = rx_view rx k @ [(f, b)] \<and> length b \<le> B \<and> length (rx_view rx k) < D
      \<or> r = Err (BodyTooLarge (length b) B) \<and> rx' = rx \<and> B < length b
      \<or> r = Err MailboxFull \<and> rx' = rx \<and> length b \<le> B \<and> length (rx_view rx k) = D)"
proof -
  obtain mb where p: "type_mailbox_push D B (rx ! k) f b = (mb, r)" and rx': "rx' = rx[k := mb]"
    using push by (auto simp: rx_state_push_def split: prod.splits)
  note cases = tm.push_cases [OF rx_wf_nth [OF wf k] p]
  have "length rx = T" using wf by (simp add: rx_wf_def)
  then show ?thesis using cases rx' k wf by (auto simp: rx_view_def intro: rx_wf_update)
qed

lemma rx_state_pop_spec:
  assumes wf: "rx_wf T D B rx" and k: "k < T" and pop: "rx_state_pop_matching_where B rx k f p st = (rx', r, st')"
  shows "rx_wf T D B rx' \<and> (\<forall>j. j \<noteq> k \<longrightarrow> rx_view rx' j = rx_view rx j) \<and>
     fifo_pop f p st (rx_view rx k) = (rx_view rx' k, map_option slot_payload r, st')"
proof -
  obtain mb where q: "type_mailbox_pop_matching_where B (rx ! k) f p st = (mb, r, st')" and rx': "rx' = rx[k := mb]"
    using pop by (auto simp: rx_state_pop_matching_where_def split: prod.splits)
  note spec = type_mailbox_pop_spec [OF rx_wf_nth [OF wf k] q]
  have "length rx = T" using wf by (simp add: rx_wf_def)
  then show ?thesis using spec rx' k wf by (auto simp: rx_view_def intro: rx_wf_update)
qed

section \<open>Property\<close>

text \<open>C25: \<open>pop_matching_where\<close>, which searches the slot array, shifts the later slots down and clears the
  last, refines the removal of the oldest matching body from a queue: on a well-formed mailbox it gives
  that body, or nothing, runs the predicate on the same bodies in the same order, leaves the other
  bodies in order, and keeps the mailbox well-formed.\<close>

theorem mailbox_pop_refines:
  assumes "mailbox_wf D B mb" and "type_mailbox_pop_matching_where B mb src p st = (mb', r, st')"
  shows "mailbox_wf D B mb' \<and> fifo_pop src p st (mailbox_view mb) = (mailbox_view mb', map_option slot_payload r, st')
     \<and> (\<forall>b. map_option slot_payload r = Some b \<longrightarrow>
          (\<exists>us vs. mailbox_view mb = us @ (src, b) # vs \<and> mailbox_view mb' = us @ vs))"
  using type_mailbox_pop_spec [OF assms] by (auto dest!: fifo_pop_Some) blast

theorem mailbox_pop_refines_witness:
  "let mb = fst (type_mailbox_push 2 2 (fst (type_mailbox_push 2 2 (type_mailbox_new 2 2) 5 [1])) 6 [2, 3]);
       (mb', r, st') = type_mailbox_pop_matching_where 2 mb 6 accept_all ()
   in mailbox_wf 2 2 mb' \<and> map_option slot_payload r = Some [2, 3] \<and> mailbox_view mb' = [(5, [1])]"
proof -
  let ?mb = "fst (type_mailbox_push 2 2 (fst (type_mailbox_push 2 2 (type_mailbox_new 2 2) 5 [1])) 6 [2, 3])"
  have wf: "mailbox_wf 2 2 ?mb"
    by (simp add: mailbox_wf_def type_mailbox_push_def type_mailbox_new_def mailbox_slot_empty_def slot_wf_def copy_into_def
        numeral_2_eq_2)
  have "mailbox_view ?mb = [(5, [1]), (6, [2, 3])]" by code_simp
  moreover obtain mb' r st' where pop: "type_mailbox_pop_matching_where 2 ?mb 6 accept_all () = (mb', r, st')"
    using prod_cases3 by blast
  ultimately show ?thesis using mailbox_pop_refines [OF wf pop] pop by (simp add: accept_all_def)
qed

end
