(* ===== verification/IsoTp_Interface.thy ===== *)
theory IsoTp_Interface
  imports Prelude
begin

text \<open>
  The vocabulary of the crate \<open>can-isotp-interface\<close> as this repository uses it: the error and status
  values that the sources match on, and the operations of an endpoint, which the code calls through
  the traits \<open>IsoTpEndpoint\<close>, \<open>IsoTpAsyncEndpoint\<close> and \<open>IsoTpAsyncEndpointRecvInto\<close>. The crate itself
  is not part of this repository: an endpoint is a record of functions on its state. A mutable
  receive buffer is passed in and returned.
  The locale \<open>recv_into_endpoint\<close> is the contract of \<open>recv_one_into\<close> its callers rely on; the queue
  endpoints and the tokio socket of this repository are its instances.
\<close>

datatype 'e send_error = SendTimeout | SendBackend 'e

datatype 'e recv_error = RecvBufferTooSmall usize usize | RecvBackend 'e

record recv_meta =
  reply_to :: u8

record rx_flow_control =
  rf_block_size :: u8
  rf_st_min :: duration

text \<open>The fields of \<open>can_iso_tp::IsoTpConfig\<close> the programs set; the rest keeps its default.\<close>

record isotp_config =
  ic_max_payload_len :: usize
  ic_frame_len :: usize
  ic_block_size :: u8

datatype recv_status = RecvTimedOut | RecvDeliveredOne

datatype recv_meta_into_status = IntoTimedOut | IntoDeliveredOne recv_meta usize

datatype recv_control = RecvContinue | RecvStop

type_synonym ('n, 'e) send_fn = "'n \<Rightarrow> u8 \<Rightarrow> bytes \<Rightarrow> duration \<Rightarrow> (unit, 'e send_error) result \<times> 'n"

type_synonym ('n, 'e) recv_into_fn =
  "'n \<Rightarrow> duration \<Rightarrow> bytes \<Rightarrow> (recv_meta_into_status, 'e recv_error) result \<times> bytes \<times> 'n"

record ('n, 'e) isotp_endpoint =
  ep_send_to :: "('n, 'e) send_fn"
  ep_send_functional_to :: "('n, 'e) send_fn"
  ep_recv_one_into :: "('n, 'e) recv_into_fn"

text \<open>A delivered payload lies in the caller's buffer, and the buffer keeps its length.\<close>

locale recv_into_endpoint =
  fixes recv_one_into :: "('n, 'e) recv_into_fn"
  assumes recv_keeps_buffer: "recv_one_into n t out = (r, out', n') \<Longrightarrow> length out' = length out"
    and recv_fits: "recv_one_into n t out = (Ok (IntoDeliveredOne meta len), out', n') \<Longrightarrow> len \<le> length out"
begin

lemma recv_payload_length:
  "recv_one_into n t out = (Ok (IntoDeliveredOne meta len), out', n') \<Longrightarrow> length (take len out') = len"
  using recv_keeps_buffer recv_fits by fastforce

end

end
