(* ===== verification/Interface.thy ===== *)
theory Interface
  imports Mailbox IsoTp_Interface
begin

text \<open>
  The \<open>Interface\<close> and \<open>BusHandle\<close> of \<open>thincan/src/lib.rs\<close>: sending through the transmit buffer,
  ingesting received payloads into the mailboxes, the transport pump, and the receive loop of
  \<open>__recv_next_capnp_from_where\<close>. The transport node is a record of endpoint operations; the
  \<open>Watch\<close> of \<open>embassy-sync\<close> is a record of its operations, with the documented behaviour it is used
  for stated by \<open>watch_laws\<close>.
  The receive loop is a task that is stepped: it scans the mailbox, and when nothing matches it waits
  for a change before it scans again. Other tasks run between two steps, so the theorems quantify
  over the interface each step sees.
\<close>

section \<open>State\<close>

record 'n tx_state =
  node :: 'n
  tx :: bytes

record ('n, 'w) iface =
  tx_state :: "'n tx_state"
  rx_transport :: 'n
  rx_state :: rx_state
  notify :: "'w list"

record ingest_outcome =
  oc_from :: u8
  oc_id :: u16
  oc_len :: usize

datatype ingest_pump_status = PumpTimedOut | PumpDelivered ingest_outcome

datatype 'e ingest_pump_error =
    PumpRecvBufferTooSmall usize usize
  | PumpRecvBackend 'e
  | PumpIngest ingest_error

text \<open>\<open>embassy_sync::watch::Watch\<close>: \<open>new_with(())\<close>, \<open>sender().send(())\<close>, \<open>receiver()\<close> (which fails when
  all receivers are taken), the drop of a receiver, and \<open>changed()\<close>, which is ready (with the receiver
  that has seen the value) or still waits.\<close>

record ('w, 'r) watch_ops =
  watch_new :: 'w
  watch_send :: "'w \<Rightarrow> 'w"
  watch_receiver :: "'w \<Rightarrow> ('w \<times> 'r) option"
  watch_drop :: "'w \<Rightarrow> 'r \<Rightarrow> 'w"
  watch_changed :: "'w \<Rightarrow> 'r \<Rightarrow> 'r option"

text \<open>What the crate relies on: a receiver taken from a watch belongs to it, and keeps belonging to it
  when values are sent; after a send, \<open>changed()\<close> of such a receiver does not wait. \<open>ok w r\<close> says that
  the receiver \<open>r\<close> belongs to the watch \<open>w\<close>.\<close>

definition watch_laws :: "('w, 'r) watch_ops \<Rightarrow> ('w \<Rightarrow> 'r \<Rightarrow> bool) \<Rightarrow> bool" where
  "watch_laws W ok \<longleftrightarrow>
     (\<forall>w w' r. watch_receiver W w = Some (w', r) \<longrightarrow> ok w' r) \<and>
     (\<forall>w r. ok w r \<longrightarrow> ok (watch_send W w) r) \<and>
     (\<forall>w r. ok w r \<longrightarrow> watch_changed W (watch_send W w) r \<noteq> None)"

section \<open>Construction and sending\<close>

definition iface_new ::
    "('w, 'r) watch_ops \<Rightarrow> usize \<Rightarrow> usize \<Rightarrow> usize \<Rightarrow> 'n \<Rightarrow> 'n \<Rightarrow> bytes \<Rightarrow> ('n, 'w) iface" where
  "iface_new W MAX_TYPES DEPTH MAX_BODY tx_node rx_node tx_buf =
     \<lparr>tx_state = \<lparr>node = tx_node, tx = tx_buf\<rparr>, rx_transport = rx_node,
      rx_state = rx_state_new MAX_TYPES DEPTH MAX_BODY, notify = map (\<lambda>_. watch_new W) [0..<MAX_TYPES]\<rparr>"

definition iface_new_shared ::
    "('w, 'r) watch_ops \<Rightarrow> usize \<Rightarrow> usize \<Rightarrow> usize \<Rightarrow> 'n \<Rightarrow> bytes \<Rightarrow> ('n, 'w) iface" where
  "iface_new_shared W MAX_TYPES DEPTH MAX_BODY nd tx_buf = iface_new W MAX_TYPES DEPTH MAX_BODY nd nd tx_buf"

fun map_isotp_send_error :: "'e send_error \<Rightarrow> error" where
  "map_isotp_send_error SendTimeout = \<lparr>kind = Timeout\<rparr>"
| "map_isotp_send_error (SendBackend _) = \<lparr>kind = Other\<rparr>"

definition encode_capnp_into :: "u16 \<Rightarrow> ('n, 'w) iface \<Rightarrow> capnp_value \<Rightarrow> (bytes, error) result \<times> ('n, 'w) iface" where
  "encode_capnp_into mid ifc v =
     (let st = tx_state ifc; (r, buf) = encode_capnp_into_buf mid (tx st) v
      in (r, ifc\<lparr>tx_state := st\<lparr>tx := buf\<rparr>\<rparr>))"

text \<open>The blocking and the asynchronous senders have the same body: encode into the shared transmit
  buffer, then hand the payload to the node. The asynchronous one holds the mutex of \<open>tx_state\<close> for
  the whole call, so no other sender touches the buffer in between.\<close>

definition send_capnp_to ::
    "('n, 'e) isotp_endpoint \<Rightarrow> u16 \<Rightarrow> ('n, 'w) iface \<Rightarrow> u8 \<Rightarrow> capnp_value \<Rightarrow> duration \<Rightarrow>
     (unit, error) result \<times> ('n, 'w) iface" where
  "send_capnp_to E mid ifc dst v tmo =
     (let st = tx_state ifc in
      case encode_capnp_into_buf mid (tx st) v of
        (Err e, buf) \<Rightarrow> (Err e, ifc\<lparr>tx_state := st\<lparr>tx := buf\<rparr>\<rparr>)
      | (Ok payload, buf) \<Rightarrow>
          let (r, nd) = ep_send_to E (node st) dst payload tmo
          in (map_err map_isotp_send_error r, ifc\<lparr>tx_state := \<lparr>node = nd, tx = buf\<rparr>\<rparr>))"

definition send_capnp_functional_to ::
    "('n, 'e) isotp_endpoint \<Rightarrow> u16 \<Rightarrow> ('n, 'w) iface \<Rightarrow> u8 \<Rightarrow> capnp_value \<Rightarrow> duration \<Rightarrow>
     (unit, error) result \<times> ('n, 'w) iface" where
  "send_capnp_functional_to E mid ifc functional_to v tmo =
     (let st = tx_state ifc in
      case encode_capnp_into_buf mid (tx st) v of
        (Err e, buf) \<Rightarrow> (Err e, ifc\<lparr>tx_state := st\<lparr>tx := buf\<rparr>\<rparr>)
      | (Ok payload, buf) \<Rightarrow>
          let (r, nd) = ep_send_functional_to E (node st) functional_to payload tmo
          in (map_err map_isotp_send_error r, ifc\<lparr>tx_state := \<lparr>node = nd, tx = buf\<rparr>\<rparr>))"

definition send_capnp_to_async_shared ::
    "('n, 'e) isotp_endpoint \<Rightarrow> u16 \<Rightarrow> ('n, 'w) iface \<Rightarrow> u8 \<Rightarrow> capnp_value \<Rightarrow> duration \<Rightarrow>
     (unit, error) result \<times> ('n, 'w) iface" where
  "send_capnp_to_async_shared E mid ifc dst v tmo =
     (let st = tx_state ifc in
      case encode_capnp_into_buf mid (tx st) v of
        (Err e, buf) \<Rightarrow> (Err e, ifc\<lparr>tx_state := st\<lparr>tx := buf\<rparr>\<rparr>)
      | (Ok payload, buf) \<Rightarrow>
          let (r, nd) = ep_send_to E (node st) dst payload tmo
          in (map_err map_isotp_send_error r, ifc\<lparr>tx_state := \<lparr>node = nd, tx = buf\<rparr>\<rparr>))"

definition send_capnp_functional_to_async_shared ::
    "('n, 'e) isotp_endpoint \<Rightarrow> u16 \<Rightarrow> ('n, 'w) iface \<Rightarrow> u8 \<Rightarrow> capnp_value \<Rightarrow> duration \<Rightarrow>
     (unit, error) result \<times> ('n, 'w) iface" where
  "send_capnp_functional_to_async_shared E mid ifc functional_to v tmo =
     (let st = tx_state ifc in
      case encode_capnp_into_buf mid (tx st) v of
        (Err e, buf) \<Rightarrow> (Err e, ifc\<lparr>tx_state := st\<lparr>tx := buf\<rparr>\<rparr>)
      | (Ok payload, buf) \<Rightarrow>
          let (r, nd) = ep_send_functional_to E (node st) functional_to payload tmo
          in (map_err map_isotp_send_error r, ifc\<lparr>tx_state := \<lparr>node = nd, tx = buf\<rparr>\<rparr>))"

text \<open>The exclusive and the handle variants forward to the shared ones.\<close>

definition send_capnp_to_async ::
    "('n, 'e) isotp_endpoint \<Rightarrow> u16 \<Rightarrow> ('n, 'w) iface \<Rightarrow> u8 \<Rightarrow> capnp_value \<Rightarrow> duration \<Rightarrow>
     (unit, error) result \<times> ('n, 'w) iface" where
  "send_capnp_to_async E mid ifc dst v tmo = send_capnp_to_async_shared E mid ifc dst v tmo"

definition send_capnp_functional_to_async ::
    "('n, 'e) isotp_endpoint \<Rightarrow> u16 \<Rightarrow> ('n, 'w) iface \<Rightarrow> u8 \<Rightarrow> capnp_value \<Rightarrow> duration \<Rightarrow>
     (unit, error) result \<times> ('n, 'w) iface" where
  "send_capnp_functional_to_async E mid ifc functional_to v tmo =
     send_capnp_functional_to_async_shared E mid ifc functional_to v tmo"

definition bus_send_capnp_to ::
    "('n, 'e) isotp_endpoint \<Rightarrow> u16 \<Rightarrow> ('n, 'w) iface \<Rightarrow> u8 \<Rightarrow> capnp_value \<Rightarrow> duration \<Rightarrow>
     (unit, error) result \<times> ('n, 'w) iface" where
  "bus_send_capnp_to E mid ifc dst v tmo = send_capnp_to_async_shared E mid ifc dst v tmo"

definition bus_send_capnp_functional_to ::
    "('n, 'e) isotp_endpoint \<Rightarrow> u16 \<Rightarrow> ('n, 'w) iface \<Rightarrow> u8 \<Rightarrow> capnp_value \<Rightarrow> duration \<Rightarrow>
     (unit, error) result \<times> ('n, 'w) iface" where
  "bus_send_capnp_functional_to E mid ifc functional_to v tmo =
     send_capnp_functional_to_async_shared E mid ifc functional_to v tmo"

text \<open>Access to the nodes: what the borrower does with one is \<open>f\<close>. Flow control is set through a node that has it.\<close>

definition tx_node_mut :: "('n \<Rightarrow> 'r \<times> 'n) \<Rightarrow> ('n, 'w) iface \<Rightarrow> 'r \<times> ('n, 'w) iface" where
  "tx_node_mut f ifc =
     (let (r, nd) = f (node (tx_state ifc)) in (r, ifc\<lparr>tx_state := (tx_state ifc)\<lparr>node := nd\<rparr>\<rparr>))"

definition node_mut :: "('n \<Rightarrow> 'r \<times> 'n) \<Rightarrow> ('n, 'w) iface \<Rightarrow> 'r \<times> ('n, 'w) iface" where
  "node_mut f ifc = tx_node_mut f ifc"

definition rx_node_mut :: "('n \<Rightarrow> 'r \<times> 'n) \<Rightarrow> ('n, 'w) iface \<Rightarrow> 'r \<times> ('n, 'w) iface" where
  "rx_node_mut f ifc = (let (r, nd) = f (rx_transport ifc) in (r, ifc\<lparr>rx_transport := nd\<rparr>))"

definition set_rx_flow_control ::
    "('t \<Rightarrow> rx_flow_control \<Rightarrow> (unit, 'e) result \<times> 't) \<Rightarrow> 't \<Rightarrow> rx_flow_control \<Rightarrow> (unit, error) result \<times> 't" where
  "set_rx_flow_control backend t fc =
     (let (r, t') = backend t fc in (map_err (\<lambda>_. \<lparr>kind = Other\<rparr>) r, t'))"

section \<open>Ingest\<close>

definition ingest ::
    "('w, 'r) watch_ops \<Rightarrow> u16 list \<Rightarrow> usize \<Rightarrow> usize \<Rightarrow> ('n, 'w) iface \<Rightarrow> u8 \<Rightarrow> bytes \<Rightarrow>
     (ingest_outcome, ingest_error) result \<times> ('n, 'w) iface" where
  "ingest W ids DEPTH MAX_BODY ifc src payload =
     (case decode_wire payload of
        Err _ \<Rightarrow> (Err MalformedPayload, ifc)
      | Ok raw \<Rightarrow>
          (case slot_for_id ids (raw_id raw) of
             None \<Rightarrow> (Err (UnknownId (raw_id raw)), ifc)
           | Some slot \<Rightarrow>
               let len = length (raw_body raw);
                   (rx, r) = rx_state_push DEPTH MAX_BODY (rx_state ifc) slot src (raw_body raw);
                   ifc1 = ifc\<lparr>rx_state := rx\<rparr>
               in case r of
                    Err e \<Rightarrow> (Err e, ifc1)
                  | Ok _ \<Rightarrow>
                      (Ok \<lparr>oc_from = src, oc_id = raw_id raw, oc_len = len\<rparr>,
                       ifc1\<lparr>notify := (notify ifc1)[slot := watch_send W (notify ifc1 ! slot)]\<rparr>)))"

text \<open>The pump: one receive from the transport, then ingest of \<open>&rx_buf[..len]\<close>, which panics when
  \<open>len\<close> exceeds the buffer.\<close>

definition pump_ingest_once ::
    "('n, 'e) isotp_endpoint \<Rightarrow> ('w, 'r) watch_ops \<Rightarrow> u16 list \<Rightarrow> usize \<Rightarrow> usize \<Rightarrow> ('n, 'w) iface \<Rightarrow> duration \<Rightarrow> bytes \<Rightarrow>
     (ingest_pump_status, 'e ingest_pump_error) result outcome \<times> bytes \<times> ('n, 'w) iface" where
  "pump_ingest_once E W ids DEPTH MAX_BODY ifc tmo rx_buf =
     (let (recv, rx_buf', nd) = ep_recv_one_into E (rx_transport ifc) tmo rx_buf;
          ifc1 = ifc\<lparr>rx_transport := nd\<rparr>
      in case recv of
           Ok IntoTimedOut \<Rightarrow> (Return (Ok PumpTimedOut), rx_buf', ifc1)
         | Ok (IntoDeliveredOne meta len) \<Rightarrow>
             if len > length rx_buf' then (Panic, rx_buf', ifc1)
             else (case ingest W ids DEPTH MAX_BODY ifc1 (reply_to meta) (take len rx_buf') of
                     (Err e, ifc2) \<Rightarrow> (Return (Err (PumpIngest e)), rx_buf', ifc2)
                   | (Ok oc, ifc2) \<Rightarrow> (Return (Ok (PumpDelivered oc)), rx_buf', ifc2))
         | Err (RecvBufferTooSmall n g) \<Rightarrow> (Return (Err (PumpRecvBufferTooSmall n g)), rx_buf', ifc1)
         | Err (RecvBackend e) \<Rightarrow> (Return (Err (PumpRecvBackend e)), rx_buf', ifc1))"

section \<open>The receive loop\<close>

record received =
  rcv_from :: u8
  rcv_id :: u16
  rcv_len :: usize
  rcv_body :: bytes

definition received_from_slot :: "u16 \<Rightarrow> u8 \<Rightarrow> mailbox_slot \<Rightarrow> received" where
  "received_from_slot mid src s = \<lparr>rcv_from = src, rcv_id = mid, rcv_len = slot_len s, rcv_body = slot_body s\<rparr>"

definition received_body :: "received \<Rightarrow> bytes" where
  "received_body r = take (rcv_len r) (rcv_body r)"

definition received_as_capnp :: "received \<Rightarrow> capnp_bytes" where
  "received_as_capnp r = \<lparr>capnp_of = received_body r\<rparr>"

definition received_with_root ::
    "(bytes list \<Rightarrow> 'o \<Rightarrow> 'rd) \<Rightarrow> ('rd \<Rightarrow> ('root, 'ce) result) \<Rightarrow> received \<Rightarrow> 'o \<Rightarrow> ('root \<Rightarrow> 'r) \<Rightarrow> ('r, 'ce) result" where
  "received_with_root reader_new typed_get r options f =
     capnp_typed_with_root reader_new typed_get (received_as_capnp r) options f"

record ('r, 's) recv_task =
  rt_id :: u16
  rt_slot :: nat
  rt_from :: u8
  rt_pred :: 's
  rt_receiver :: 'r
  rt_waiting :: bool

datatype ('r, 's) recv_poll = RecvReady received | RecvPending "('r, 's) recv_task"

text \<open>The part before the loop: resolve the slot, register a receiver.\<close>

definition recv_next_start ::
    "('w, 'r) watch_ops \<Rightarrow> u16 list \<Rightarrow> ('n, 'w) iface \<Rightarrow> u16 \<Rightarrow> u8 \<Rightarrow> 's \<Rightarrow>
     (('r, 's) recv_task, error) result \<times> ('n, 'w) iface" where
  "recv_next_start W ids ifc mid src st =
     (case slot_for_id ids mid of
        None \<Rightarrow> (Err \<lparr>kind = Other\<rparr>, ifc)
      | Some slot \<Rightarrow>
          (case watch_receiver W (notify ifc ! slot) of
             None \<Rightarrow> (Err \<lparr>kind = Other\<rparr>, ifc)
           | Some (w, r) \<Rightarrow>
               (Ok \<lparr>rt_id = mid, rt_slot = slot, rt_from = src, rt_pred = st, rt_receiver = r, rt_waiting = False\<rparr>,
                ifc\<lparr>notify := (notify ifc)[slot := w]\<rparr>)))"

text \<open>One step of the loop: the scan under the lock of \<open>rx_state\<close>, or the wait.\<close>

definition recv_next_step ::
    "('w, 'r) watch_ops \<Rightarrow> usize \<Rightarrow> 's pred_fn \<Rightarrow> ('n, 'w) iface \<Rightarrow> ('r, 's) recv_task \<Rightarrow>
     ('r, 's) recv_poll \<times> ('n, 'w) iface" where
  "recv_next_step W MAX_BODY p ifc t =
     (if rt_waiting t then
        (case watch_changed W (notify ifc ! rt_slot t) (rt_receiver t) of
           None \<Rightarrow> (RecvPending t, ifc)
         | Some r \<Rightarrow> (RecvPending (t\<lparr>rt_receiver := r, rt_waiting := False\<rparr>), ifc))
      else
        (case rx_state_pop_matching_where MAX_BODY (rx_state ifc) (rt_slot t) (rt_from t) p (rt_pred t) of
           (rx, Some found, st) \<Rightarrow>
             (RecvReady (received_from_slot (rt_id t) (rt_from t) found),
              ifc\<lparr>rx_state := rx,
                  notify := (notify ifc)[rt_slot t := watch_drop W (notify ifc ! rt_slot t) (rt_receiver t)]\<rparr>)
         | (rx, None, st) \<Rightarrow> (RecvPending (t\<lparr>rt_pred := st, rt_waiting := True\<rparr>), ifc\<lparr>rx_state := rx\<rparr>)))"

text \<open>\<open>__recv_next_capnp_from\<close> is the loop with the predicate \<open>|_| true\<close>.\<close>

definition recv_next_capnp_from_step ::
    "('w, 'r) watch_ops \<Rightarrow> usize \<Rightarrow> ('n, 'w) iface \<Rightarrow> ('r, unit) recv_task \<Rightarrow> ('r, unit) recv_poll \<times> ('n, 'w) iface" where
  "recv_next_capnp_from_step W MAX_BODY ifc t = recv_next_step W MAX_BODY accept_all ifc t"

section \<open>Lemmas\<close>

definition iface_wf :: "u16 list \<Rightarrow> usize \<Rightarrow> usize \<Rightarrow> ('n, 'w) iface \<Rightarrow> bool" where
  "iface_wf ids DEPTH MAX_BODY ifc \<longleftrightarrow>
     rx_wf (length ids) DEPTH MAX_BODY (rx_state ifc) \<and> length (notify ifc) = length ids"

lemma iface_new_wf: "iface_wf ids D B (iface_new W (length ids) D B a b buf)"
  by (simp add: iface_wf_def iface_new_def rx_state_new_wf)

text \<open>Sending and access to the nodes leave the receive side alone, so the mailboxes, and with them the
  invariant, are what \<open>ingest\<close> and the receive loop made of them.\<close>

lemma send_keeps_rx:
  "rx_state (snd (send_capnp_to E mid ifc dst v tmo)) = rx_state ifc \<and>
   notify (snd (send_capnp_to E mid ifc dst v tmo)) = notify ifc"
  by (simp add: send_capnp_to_def Let_def split: prod.splits result.splits)

lemma send_functional_keeps_rx:
  "rx_state (snd (send_capnp_functional_to E mid ifc dst v tmo)) = rx_state ifc \<and>
   notify (snd (send_capnp_functional_to E mid ifc dst v tmo)) = notify ifc"
  by (simp add: send_capnp_functional_to_def Let_def split: prod.splits result.splits)

lemma async_send_eq:
  "send_capnp_to_async = send_capnp_to" "bus_send_capnp_to = send_capnp_to"
  "send_capnp_functional_to_async = send_capnp_functional_to" "bus_send_capnp_functional_to = send_capnp_functional_to"
  by (intro ext, simp add: send_capnp_to_async_def bus_send_capnp_to_def send_capnp_to_async_shared_def send_capnp_to_def
      send_capnp_functional_to_async_def bus_send_capnp_functional_to_def send_capnp_functional_to_async_shared_def
      send_capnp_functional_to_def)+

lemma node_mut_wf:
  "iface_wf ids D B (snd (tx_node_mut f ifc)) = iface_wf ids D B ifc"
  "iface_wf ids D B (snd (node_mut f ifc)) = iface_wf ids D B ifc"
  "iface_wf ids D B (snd (rx_node_mut f ifc)) = iface_wf ids D B ifc"
  by (simp_all add: iface_wf_def tx_node_mut_def node_mut_def rx_node_mut_def split: prod.splits)

text \<open>Every outcome of \<open>ingest\<close>, with the state it leaves.\<close>

lemma ingest_cases:
  assumes wf: "iface_wf ids D B ifc" and ing: "ingest W ids D B ifc src payload = (r, ifc')"
  obtains
    (malformed) "length payload < 2" "r = Err MalformedPayload" "ifc' = ifc"
  | (unknown) mid body where "payload = u16_to_le_bytes mid @ body" "mid \<notin> set ids" "r = Err (UnknownId mid)" "ifc' = ifc"
  | (large) mid body slot where "payload = u16_to_le_bytes mid @ body" "slot_for_id ids mid = Some slot" "B < length body"
      "r = Err (BodyTooLarge (length body) B)" "ifc' = ifc"
  | (full) mid body slot where "payload = u16_to_le_bytes mid @ body" "slot_for_id ids mid = Some slot" "length body \<le> B"
      "length (rx_view (rx_state ifc) slot) = D" "r = Err MailboxFull" "ifc' = ifc"
  | (ok) mid body slot where "payload = u16_to_le_bytes mid @ body" "slot_for_id ids mid = Some slot" "length body \<le> B"
      "length (rx_view (rx_state ifc) slot) < D" "r = Ok \<lparr>oc_from = src, oc_id = mid, oc_len = length body\<rparr>"
      "rx_view (rx_state ifc') slot = rx_view (rx_state ifc) slot @ [(src, body)]"
      "\<forall>j. j \<noteq> slot \<longrightarrow> rx_view (rx_state ifc') j = rx_view (rx_state ifc) j"
      "iface_wf ids D B ifc'" "notify ifc' = (notify ifc)[slot := watch_send W (notify ifc ! slot)]"
      "tx_state ifc' = tx_state ifc" "rx_transport ifc' = rx_transport ifc"
proof (cases "decode_wire payload")
  case (Err e)
  then have "r = Err MalformedPayload" "ifc' = ifc" using ing by (simp_all add: ingest_def)
  moreover have "length payload < 2" using decode_wire_Err_iff [THEN iffD1, OF Err] by simp
  ultimately show thesis using malformed by simp
next
  case (Ok raw)
  define mid body where "mid = raw_id raw" and "body = raw_body raw"
  have pay: "payload = u16_to_le_bytes mid @ body" using Ok by (simp add: decode_wire_Ok_iff mid_def body_def)
  show thesis
  proof (cases "slot_for_id ids mid")
    case None
    then have "r = Err (UnknownId mid)" "ifc' = ifc" using ing Ok by (simp_all add: ingest_def mid_def)
    moreover have "mid \<notin> set ids" using None by (simp add: slot_for_id_None)
    ultimately show thesis using unknown [OF pay] by simp
  next
    case (Some slot)
    obtain rx q where push: "rx_state_push D B (rx_state ifc) slot src body = (rx, q)"
      by (cases "rx_state_push D B (rx_state ifc) slot src body")
    have slot: "slot < length ids" using Some by (rule slot_for_id_lt)
    have rwf: "rx_wf (length ids) D B (rx_state ifc)" using wf by (simp add: iface_wf_def)
    note pc = rx_state_push_cases [OF rwf slot push]
    show thesis
    proof (cases q)
      case (Err e)
      then have r: "r = Err e" and i': "ifc' = ifc\<lparr>rx_state := rx\<rparr>"
        using ing Ok Some push by (simp_all add: ingest_def Let_def mid_def body_def)
      from pc Err have "rx = rx_state ifc" by auto
      then have same: "ifc' = ifc" using i' by simp
      from pc Err consider "e = BodyTooLarge (length body) B" "B < length body"
        | "e = MailboxFull" "length body \<le> B" "length (rx_view (rx_state ifc) slot) = D" by auto
      then show thesis
      proof cases
        case 1
        then show thesis using large [OF pay Some] r same by simp
      next
        case 2
        then show thesis using full [OF pay Some] r same by simp
      qed
    next
      case (Ok u)
      have r: "r = Ok \<lparr>oc_from = src, oc_id = mid, oc_len = length body\<rparr>"
        and i': "ifc' = ifc\<lparr>rx_state := rx, notify := (notify ifc)[slot := watch_send W (notify ifc ! slot)]\<rparr>"
        using ing \<open>decode_wire payload = Ok raw\<close> Some push Ok by (simp_all add: ingest_def Let_def mid_def body_def)
      have "rx_wf (length ids) D B rx" and "length body \<le> B" and "length (rx_view (rx_state ifc) slot) < D"
        and "rx_view rx slot = rx_view (rx_state ifc) slot @ [(src, body)]"
        and "\<forall>j. j \<noteq> slot \<longrightarrow> rx_view rx j = rx_view (rx_state ifc) j"
        using pc Ok by auto
      then show thesis using ok [OF pay Some] r i' wf by (simp add: iface_wf_def)
    qed
  qed
qed

lemma ingest_wf: "iface_wf ids D B ifc \<Longrightarrow> ingest W ids D B ifc src payload = (r, ifc') \<Longrightarrow> iface_wf ids D B ifc'"
  by (rule ingest_cases) auto

lemma ingest_success:
  assumes wf: "iface_wf ids D B ifc" and slot: "slot_for_id ids mid = Some k"
    and len: "length body \<le> B" and room: "length (rx_view (rx_state ifc) k) < D"
  obtains ifc' where "ingest W ids D B ifc src (u16_to_le_bytes mid @ body) =
       (Ok \<lparr>oc_from = src, oc_id = mid, oc_len = length body\<rparr>, ifc')"
    and "rx_view (rx_state ifc') k = rx_view (rx_state ifc) k @ [(src, body)]" and "iface_wf ids D B ifc'"
    and "notify ifc' = (notify ifc)[k := watch_send W (notify ifc ! k)]"
proof -
  obtain r ifc' where ing: "ingest W ids D B ifc src (u16_to_le_bytes mid @ body) = (r, ifc')"
    by (cases "ingest W ids D B ifc src (u16_to_le_bytes mid @ body)")
  have eq: "m = mid \<and> b = body" if "u16_to_le_bytes mid @ body = u16_to_le_bytes m @ b" for m b
    using that by (simp add: append_eq_append_conv u16_le.enc_inj)
  from wf ing show thesis
  proof (cases rule: ingest_cases)
    case malformed
    then show thesis by simp
  next
    case (unknown m b)
    then show thesis using eq slot by (metis option.distinct(1) slot_for_id_None)
  next
    case (large m b s)
    then show thesis using eq len by fastforce
  next
    case (full m b s)
    then show thesis using eq slot room by (metis nat_neq_iff option.inject)
  next
    case (ok m b s)
    then show thesis using that ing eq [of m b] slot by auto
  qed
qed

text \<open>A scan that finds a message returns the oldest one that matches, and only removes that one.\<close>

lemma recv_next_step_scan:
  assumes wf: "iface_wf ids D B ifc" and slot: "rt_slot t < length ids" and scan: "\<not> rt_waiting t"
    and step: "recv_next_step W B p ifc t = (q, ifc')"
  shows "iface_wf ids D B ifc' \<and> (\<forall>j. j \<noteq> rt_slot t \<longrightarrow> rx_view (rx_state ifc') j = rx_view (rx_state ifc) j) \<and>
     (\<exists>ys b st. fifo_pop (rt_from t) p (rt_pred t) (rx_view (rx_state ifc) (rt_slot t)) = (ys, b, st) \<and>
        rx_view (rx_state ifc') (rt_slot t) = ys \<and>
        (case b of
           None \<Rightarrow> q = RecvPending (t\<lparr>rt_pred := st, rt_waiting := True\<rparr>) \<and> notify ifc' = notify ifc
         | Some body \<Rightarrow> (\<exists>m. q = RecvReady m \<and> rcv_from m = rt_from t \<and> rcv_id m = rt_id t \<and> received_body m = body)))"
proof -
  obtain rx fnd st where pop: "rx_state_pop_matching_where B (rx_state ifc) (rt_slot t) (rt_from t) p (rt_pred t) = (rx, fnd, st)"
    by (metis prod_cases3)
  have rwf: "rx_wf (length ids) D B (rx_state ifc)" using wf by (simp add: iface_wf_def)
  note spec = rx_state_pop_spec [OF rwf slot pop]
  show ?thesis
  proof (cases fnd)
    case None
    then have "q = RecvPending (t\<lparr>rt_pred := st, rt_waiting := True\<rparr>)" "ifc' = ifc\<lparr>rx_state := rx\<rparr>"
      using step scan pop by (simp_all add: recv_next_step_def)
    then show ?thesis using spec None wf by (simp add: iface_wf_def)
  next
    case (Some s)
    then have "q = RecvReady (received_from_slot (rt_id t) (rt_from t) s)"
      "rx_state ifc' = rx" "length (notify ifc') = length (notify ifc)"
      using step scan pop by (auto simp: recv_next_step_def)
    then show ?thesis
      using spec Some wf by (simp add: iface_wf_def received_from_slot_def received_body_def slot_payload_def)
  qed
qed

lemma recv_next_step_wait:
  "rt_waiting t \<Longrightarrow> snd (recv_next_step W B p ifc t) = ifc"
  by (simp add: recv_next_step_def split: option.splits)

section \<open>The pump over an endpoint that meets its contract\<close>

context recv_into_endpoint
begin

text \<open>\<open>&rx_buf[..len]\<close> is always in range, and the caller's buffer keeps its length.\<close>

lemma pump_returns:
  assumes "ep_recv_one_into E = recv_one_into"
    and "pump_ingest_once E W ids D B ifc tmo rx_buf = (q, rx_buf', ifc')"
  shows "q \<noteq> Panic \<and> length rx_buf' = length rx_buf"
proof -
  obtain r out nd where run: "recv_one_into (rx_transport ifc) tmo rx_buf = (r, out, nd)"
    using prod_cases3 by blast
  have "length out = length rx_buf" using run by (rule recv_keeps_buffer)
  moreover have "r = Ok (IntoDeliveredOne meta len) \<Longrightarrow> len \<le> length rx_buf" for meta len
    using run recv_fits by blast
  ultimately show ?thesis using assms run
    by (auto simp: pump_ingest_once_def Let_def split: result.splits recv_meta_into_status.splits recv_error.splits prod.splits if_splits)
qed

end

end
