(* ===== verification/Interface_Runs.thy ===== *)
theory Interface_Runs
  imports Interface
begin

text \<open>
  Runs of the interface of \<open>thincan/src/lib.rs\<close>: tasks ingest payloads and other tasks scan the
  mailboxes, in any order. A run keeps a log of the bodies accepted by \<open>ingest\<close> and of the bodies
  handed out by the receive loop, so that order, loss and duplication can be stated. The locale
  \<open>run_invariant\<close> is interpreted on these runs.
\<close>

section \<open>Runs\<close>

datatype 'r bus_event =
    EvIngest u8 bytes
  | EvScan "('r, unit) recv_task"

record ('n, 'w) bus_run =
  br_iface :: "('n, 'w) iface"
  br_accepted :: "(nat \<times> u8 \<times> bytes) list"
  br_delivered :: "(nat \<times> u8 \<times> bytes) list"

definition bus_ingest ::
    "('w, 'r) watch_ops \<Rightarrow> u16 list \<Rightarrow> usize \<Rightarrow> usize \<Rightarrow> ('n, 'w) bus_run \<Rightarrow> u8 \<Rightarrow> bytes \<Rightarrow> ('n, 'w) bus_run" where
  "bus_ingest W ids D B s src payload =
     (case ingest W ids D B (br_iface s) src payload of
        (Err _, ifc) \<Rightarrow> s\<lparr>br_iface := ifc\<rparr>
      | (Ok oc, ifc) \<Rightarrow>
          s\<lparr>br_iface := ifc,
            br_accepted := br_accepted s @
              [(the (slot_for_id ids (oc_id oc)), oc_from oc, drop HEADER_LEN payload)]\<rparr>)"

definition bus_scan :: "('w, 'r) watch_ops \<Rightarrow> usize \<Rightarrow> ('n, 'w) bus_run \<Rightarrow> ('r, unit) recv_task \<Rightarrow> ('n, 'w) bus_run" where
  "bus_scan W B s t =
     (case recv_next_capnp_from_step W B (br_iface s) t of
        (RecvPending _, ifc) \<Rightarrow> s\<lparr>br_iface := ifc\<rparr>
      | (RecvReady m, ifc) \<Rightarrow>
          s\<lparr>br_iface := ifc, br_delivered := br_delivered s @ [(rt_slot t, rcv_from m, received_body m)]\<rparr>)"

fun bus_step ::
    "('w, 'r) watch_ops \<Rightarrow> u16 list \<Rightarrow> usize \<Rightarrow> usize \<Rightarrow> ('n, 'w) bus_run \<Rightarrow> 'r bus_event \<Rightarrow> ('n, 'w) bus_run" where
  "bus_step W ids D B s (EvIngest src payload) = bus_ingest W ids D B s src payload"
| "bus_step W ids D B s (EvScan t) = bus_scan W B s t"

fun event_ok :: "u16 list \<Rightarrow> 'r bus_event \<Rightarrow> bool" where
  "event_ok ids (EvIngest _ _) = True"
| "event_ok ids (EvScan t) = (rt_slot t < length ids \<and> \<not> rt_waiting t)"

definition log_of :: "nat \<Rightarrow> u8 \<Rightarrow> (nat \<times> u8 \<times> bytes) list \<Rightarrow> bytes list" where
  "log_of k src xs = map (\<lambda>(_, _, b). b) (filter (\<lambda>(j, f, _). j = k \<and> f = src) xs)"

definition bus_start :: "('n, 'w) iface \<Rightarrow> ('n, 'w) bus_run" where
  "bus_start ifc = \<lparr>br_iface = ifc, br_accepted = [], br_delivered = []\<rparr>"

definition bus_inv :: "u16 list \<Rightarrow> usize \<Rightarrow> usize \<Rightarrow> ('n, 'w) bus_run \<Rightarrow> bool" where
  "bus_inv ids D B s \<longleftrightarrow>
     iface_wf ids D B (br_iface s) \<and>
     (\<forall>k src. k < length ids \<longrightarrow> log_of k src (br_accepted s) =
        log_of k src (br_delivered s) @ bodies_from src (rx_view (rx_state (br_iface s)) k))"

lemma log_of_simps [simp]:
  "log_of k src [] = []"
  "log_of k src (xs @ ys) = log_of k src xs @ log_of k src ys"
  "log_of k src [(j, f, b)] = (if j = k \<and> f = src then [b] else [])"
  by (simp_all add: log_of_def)

lemma bus_ingest_inv:
  assumes "bus_inv ids D B s"
  shows "bus_inv ids D B (bus_ingest W ids D B s src payload)"
proof -
  obtain r ifc' where ing: "ingest W ids D B (br_iface s) src payload = (r, ifc')"
    by (cases "ingest W ids D B (br_iface s) src payload")
  have wf: "iface_wf ids D B (br_iface s)" using assms by (simp add: bus_inv_def)
  from wf ing show ?thesis
  proof (cases rule: ingest_cases)
    case (ok mid body slot)
    have "rx_view (rx_state ifc') k = rx_view (rx_state (br_iface s)) k @ (if k = slot then [(src, body)] else [])" for k
      using ok(6,7) by (cases "k = slot") auto
    then show ?thesis using assms ing ok(1-5,8) by (auto simp: bus_inv_def bus_ingest_def HEADER_LEN_def)
  qed (use assms ing in \<open>simp_all add: bus_inv_def bus_ingest_def\<close>)
qed

lemma bus_scan_inv:
  assumes inv: "bus_inv ids D B s" and slot: "rt_slot t < length ids" and scan: "\<not> rt_waiting t"
  shows "bus_inv ids D B (bus_scan W B s t)"
proof -
  obtain q ifc' where step: "recv_next_step W B accept_all (br_iface s) t = (q, ifc')"
    by (cases "recv_next_step W B accept_all (br_iface s) t")
  have wf: "iface_wf ids D B (br_iface s)" using inv by (simp add: bus_inv_def)
  let ?v = "rx_view (rx_state (br_iface s))" and ?v' = "rx_view (rx_state ifc')"
  obtain ys b st where pop: "fifo_pop (rt_from t) accept_all (rt_pred t) (?v (rt_slot t)) = (ys, b, st)"
    and wf': "iface_wf ids D B ifc'" and oth: "\<forall>j. j \<noteq> rt_slot t \<longrightarrow> ?v' j = ?v j" and v': "?v' (rt_slot t) = ys"
    and q: "case b of None \<Rightarrow> q = RecvPending (t\<lparr>rt_pred := st, rt_waiting := True\<rparr>) \<and> notify ifc' = notify (br_iface s)
         | Some body \<Rightarrow> (\<exists>m. q = RecvReady m \<and> rcv_from m = rt_from t \<and> rcv_id m = rt_id t \<and> received_body m = body)"
    using recv_next_step_scan [OF wf slot scan step] by blast
  have head: "bodies_from (rt_from t) (?v (rt_slot t)) = (case b of None \<Rightarrow> [] | Some c \<Rightarrow> c # bodies_from (rt_from t) ys) \<and> (b = None \<longrightarrow> ys = ?v (rt_slot t))"
    using fifo_pop_accept_all [of "rt_from t" "?v (rt_slot t)" ys b st] pop by simp
  have keep: "f \<noteq> rt_from t \<Longrightarrow> bodies_from f ys = bodies_from f (?v (rt_slot t))" for f
    by (rule fifo_pop_other_senders [OF pop])
  show ?thesis
  proof (cases b)
    case None
    then have "?v' k = ?v k" for k using head oth v' by (cases "k = rt_slot t") simp_all
    then show ?thesis using None q step inv wf'
      by (simp add: bus_inv_def bus_scan_def recv_next_capnp_from_step_def)
  next
    case (Some c)
    then obtain m where m: "q = RecvReady m" "rcv_from m = rt_from t" "received_body m = c" using q by auto
    have "bodies_from f (?v k) = (if k = rt_slot t \<and> f = rt_from t then [c] else []) @ bodies_from f (?v' k)" for k f
    proof (cases "k = rt_slot t")
      case True
      have "bodies_from (rt_from t) (?v (rt_slot t)) = c # bodies_from (rt_from t) ys" using head Some by simp
      then show ?thesis using True keep [of f] v' by (cases "f = rt_from t") auto
    qed (use oth in auto)
    moreover have "bus_scan W B s t = s\<lparr>br_iface := ifc', br_delivered := br_delivered s @ [(rt_slot t, rt_from t, c)]\<rparr>"
      using m step by (simp add: bus_scan_def recv_next_capnp_from_step_def)
    ultimately show ?thesis using inv wf' by (auto simp: bus_inv_def)
  qed
qed

interpretation bus: run_invariant "bus_step W ids D B" "bus_inv ids D B" "event_ok ids" for W ids D B
proof unfold_locales
  fix s :: "('d, 'a) bus_run" and e :: "'b bus_event"
  assume "bus_inv ids D B s" and "event_ok ids e"
  then show "bus_inv ids D B (bus_step W ids D B s e)"
    by (cases e) (simp_all add: bus_ingest_inv bus_scan_inv)
qed

lemma bus_start_inv: "bus_inv ids D B (bus_start (iface_new W (length ids) D B a b buf))"
  using iface_new_wf [of ids D B W a b buf]
  by (simp add: bus_inv_def bus_start_def iface_new_def rx_state_new_wf)


section \<open>Waiting and waking\<close>

text \<open>While a task waits, other tasks ingest. Either nothing changed in its mailbox, or its \<open>changed()\<close>
  is ready.\<close>

fun ingest_all ::
    "('w, 'r) watch_ops \<Rightarrow> u16 list \<Rightarrow> usize \<Rightarrow> usize \<Rightarrow> ('n, 'w) iface \<Rightarrow> u8 \<times> bytes \<Rightarrow> ('n, 'w) iface" where
  "ingest_all W ids D B ifc (src, payload) = snd (ingest W ids D B ifc src payload)"

definition wake_inv ::
    "('w, 'r) watch_ops \<Rightarrow> ('w \<Rightarrow> 'r \<Rightarrow> bool) \<Rightarrow> u16 list \<Rightarrow> usize \<Rightarrow> usize \<Rightarrow> nat \<Rightarrow> 'r \<Rightarrow> (u8 \<times> bytes) list \<Rightarrow>
     ('n, 'w) iface \<Rightarrow> bool" where
  "wake_inv W ok ids D B k r v0 ifc \<longleftrightarrow>
     watch_laws W ok \<and> k < length ids \<and> iface_wf ids D B ifc \<and> ok (notify ifc ! k) r \<and>
     (rx_view (rx_state ifc) k = v0 \<or> watch_changed W (notify ifc ! k) r \<noteq> None)"

interpretation wake: run_invariant "ingest_all W ids D B" "wake_inv W ok ids D B k r v0" "\<lambda>_. True"
  for W ok ids D B k r v0
proof unfold_locales
  fix ifc :: "('d, 'a) iface" and e :: "u8 \<times> bytes"
  assume inv: "wake_inv W ok ids D B k r v0 ifc"
  obtain src payload where e: "e = (src, payload)" by (cases e)
  obtain q ifc' where ing: "ingest W ids D B ifc src payload = (q, ifc')"
    by (cases "ingest W ids D B ifc src payload")
  have wf: "iface_wf ids D B ifc" and len: "length (notify ifc) = length ids"
    using inv by (simp_all add: wake_inv_def iface_wf_def)
  from wf ing show "wake_inv W ok ids D B k r v0 (ingest_all W ids D B ifc e)"
  proof (cases rule: ingest_cases)
    case (ok mid body slot)
    show ?thesis
    proof (cases "k = slot")
      case True
      then have "notify ifc' ! k = watch_send W (notify ifc ! k)" using inv len ok(9) by (simp add: wake_inv_def)
      then show ?thesis using inv ing e ok(8) by (simp add: wake_inv_def watch_laws_def)
    next
      case False
      then have "notify ifc' ! k = notify ifc ! k" "rx_view (rx_state ifc') k = rx_view (rx_state ifc) k"
        using ok(7,9) by simp_all
      then show ?thesis using inv ing e ok(8) by (simp add: wake_inv_def)
    qed
  qed (use inv ing e in \<open>simp_all add: wake_inv_def\<close>)
qed

lemma recv_next_step_changed:
  "rt_waiting t \<Longrightarrow> watch_changed W (notify ifc ! rt_slot t) (rt_receiver t) = Some r \<Longrightarrow>
   recv_next_step W B p ifc t = (RecvPending (t\<lparr>rt_receiver := r, rt_waiting := False\<rparr>), ifc)"
  by (simp add: recv_next_step_def)

lemma recv_next_step_ready:
  assumes wf: "iface_wf ids D B ifc" and slot: "rt_slot t < length ids" and scan: "\<not> rt_waiting t"
    and avail: "bodies_from (rt_from t) (rx_view (rx_state ifc) (rt_slot t)) = b # bs"
  shows "\<exists>m. fst (recv_next_step W B accept_all ifc t) = RecvReady m \<and> rcv_from m = rt_from t \<and>
     rcv_id m = rt_id t \<and> received_body m = b"
proof -
  obtain q ifc' where step: "recv_next_step W B accept_all ifc t = (q, ifc')"
    by (cases "recv_next_step W B accept_all ifc t")
  obtain ys c st where pop: "fifo_pop (rt_from t) accept_all (rt_pred t) (rx_view (rx_state ifc) (rt_slot t)) = (ys, c, st)"
    and q: "case c of None \<Rightarrow> q = RecvPending (t\<lparr>rt_pred := st, rt_waiting := True\<rparr>) \<and> notify ifc' = notify ifc
         | Some body \<Rightarrow> (\<exists>m. q = RecvReady m \<and> rcv_from m = rt_from t \<and> rcv_id m = rt_id t \<and> received_body m = body)"
    using recv_next_step_scan [OF wf slot scan step] by blast
  have "c = Some b" using fifo_pop_accept_all [of "rt_from t" _ ys c st] pop avail by (auto split: option.splits)
  then show ?thesis using q step by simp
qed

section \<open>Properties\<close>

definition counting_watch :: "(nat, nat) watch_ops" where
  "counting_watch =
     \<lparr>watch_new = 0, watch_send = Suc, watch_receiver = \<lambda>w. Some (w, w), watch_drop = \<lambda>w r. w,
      watch_changed = \<lambda>w r. if r < w then Some w else None\<rparr>"

lemma counting_watch_laws: "watch_laws counting_watch (\<lambda>w r. r \<le> w)"
  by (auto simp: watch_laws_def counting_watch_def)



text \<open>C13: No wake-up is lost: a task that scanned its mailbox without success and waits is resumed after
  any sequence of ingests that put a body from its sender into its mailbox, and its next scan returns
  the oldest such body.\<close>

theorem recv_no_lost_wakeup:
  assumes laws: "watch_laws W ok" and wf: "iface_wf ids D B ifc" and slot: "rt_slot t < length ids"
    and rcv: "ok (notify ifc ! rt_slot t) (rt_receiver t)" and scan: "\<not> rt_waiting t"
    and wait: "recv_next_step W B accept_all ifc t = (RecvPending t1, ifc1)"
    and later: "ifc2 = run_steps (ingest_all W ids D B) ifc1 evs"
    and avail: "bodies_from (rt_from t) (rx_view (rx_state ifc2) (rt_slot t)) = b # bs"
  shows "\<exists>t2 m. recv_next_step W B accept_all ifc2 t1 = (RecvPending t2, ifc2) \<and> \<not> rt_waiting t2 \<and>
     fst (recv_next_step W B accept_all ifc2 t2) = RecvReady m \<and> rcv_from m = rt_from t \<and> rcv_id m = rt_id t \<and>
     received_body m = b"
proof -
  obtain ys c st where pop: "fifo_pop (rt_from t) accept_all (rt_pred t) (rx_view (rx_state ifc) (rt_slot t)) = (ys, c, st)"
    and wf1: "iface_wf ids D B ifc1" and v1: "rx_view (rx_state ifc1) (rt_slot t) = ys"
    and q: "case c of None \<Rightarrow> RecvPending t1 = RecvPending (t\<lparr>rt_pred := st, rt_waiting := True\<rparr>) \<and> notify ifc1 = notify ifc
         | Some body \<Rightarrow> (\<exists>m. RecvPending t1 = RecvReady m \<and> rcv_from m = rt_from t \<and> rcv_id m = rt_id t \<and> received_body m = body)"
    using recv_next_step_scan [OF wf slot scan wait] by blast
  have c: "c = None" and t1: "t1 = t\<lparr>rt_pred := st, rt_waiting := True\<rparr>" and n1: "notify ifc1 = notify ifc"
    using q by (auto split: option.splits)
  have none: "bodies_from (rt_from t) ys = []"
    using fifo_pop_accept_all [of "rt_from t" "rx_view (rx_state ifc) (rt_slot t)" ys c st] pop c by simp
  have "wake_inv W ok ids D B (rt_slot t) (rt_receiver t) ys ifc2"
    unfolding later by (rule wake.run_inv) (use laws slot wf1 v1 rcv n1 in \<open>simp_all add: wake_inv_def list_all_iff\<close>)
  then have wf2: "iface_wf ids D B ifc2" and "watch_changed W (notify ifc2 ! rt_slot t) (rt_receiver t) \<noteq> None"
    using none avail by (auto simp: wake_inv_def)
  then obtain r where "watch_changed W (notify ifc2 ! rt_slot t1) (rt_receiver t1) = Some r" using t1 by auto
  then have "recv_next_step W B accept_all ifc2 t1 = (RecvPending (t1\<lparr>rt_receiver := r, rt_waiting := False\<rparr>), ifc2)"
    using t1 by (intro recv_next_step_changed) simp_all
  then show ?thesis
    using recv_next_step_ready [OF wf2, of "t1\<lparr>rt_receiver := r, rt_waiting := False\<rparr>" b bs W] slot avail t1 by auto
qed

theorem recv_no_lost_wakeup_witness:
  "let ifc = iface_new counting_watch 2 2 4 () () [];
       t = \<lparr>rt_id = 1, rt_slot = 0, rt_from = 7, rt_pred = (), rt_receiver = 0, rt_waiting = False\<rparr>;
       t1 = t\<lparr>rt_waiting := True\<rparr>;
       ifc2 = run_steps (ingest_all counting_watch [1, 2] 2 4) ifc [(3, [2, 0]), (7, [1, 0, 170])]
   in \<exists>t2 m. recv_next_step counting_watch 4 accept_all ifc2 t1 = (RecvPending t2, ifc2) \<and>
        fst (recv_next_step counting_watch 4 accept_all ifc2 t2) = RecvReady m \<and> received_body m = [170]"
proof -
  let ?ifc = "iface_new counting_watch 2 2 4 () () []"
  let ?t = "\<lparr>rt_id = 1, rt_slot = 0, rt_from = 7, rt_pred = (), rt_receiver = (0::nat), rt_waiting = False\<rparr>"
  let ?ifc2 = "run_steps (ingest_all counting_watch [1, 2] 2 4) ?ifc [(3, [2, 0]), (7, [1, 0, 170])]"
  have wf: "iface_wf [1, 2] 2 4 ?ifc" using iface_new_wf [of "[1, 2]" 2 4] by (simp add: numeral_2_eq_2)
  have rcv: "0 \<le> notify ?ifc ! 0" by simp
  have wait: "recv_next_step counting_watch 4 accept_all ?ifc ?t = (RecvPending (?t\<lparr>rt_waiting := True\<rparr>), ?ifc)" by code_simp
  have avail: "bodies_from 7 (rx_view (rx_state ?ifc2) 0) = [170] # []" by code_simp
  show ?thesis
    using recv_no_lost_wakeup [OF counting_watch_laws wf _ _ _ wait refl, where evs = "[(3, [2, 0]), (7, [1, 0, 170])]" and b = "[170]" and bs = "[]"] avail
    by (auto simp: Let_def)
qed

text \<open>C23: \<open>ingest\<close> is decided by the payload and the fill of one mailbox: too short, undeclared id, body
  too large and mailbox full are reported in this order and leave the interface as it was; otherwise
  the body is appended to the mailbox of its type and only to it.\<close>

theorem ingest_spec:
  assumes wf: "iface_wf ids D B ifc" and ing: "ingest W ids D B ifc src payload = (r, ifc')"
  shows "let mid = u16_from_le_bytes (take 2 payload); body = drop 2 payload in
     if length payload < 2 then r = Err MalformedPayload \<and> ifc' = ifc
     else (case slot_for_id ids mid of
         None \<Rightarrow> r = Err (UnknownId mid) \<and> ifc' = ifc
       | Some k \<Rightarrow>
           if B < length body then r = Err (BodyTooLarge (length body) B) \<and> ifc' = ifc
           else if length (rx_view (rx_state ifc) k) = D then r = Err MailboxFull \<and> ifc' = ifc
           else r = Ok \<lparr>oc_from = src, oc_id = mid, oc_len = length body\<rparr> \<and> iface_wf ids D B ifc' \<and>
             rx_view (rx_state ifc') k = rx_view (rx_state ifc) k @ [(src, body)] \<and>
             (\<forall>j. j \<noteq> k \<longrightarrow> rx_view (rx_state ifc') j = rx_view (rx_state ifc) j))"
  using wf ing
proof (cases rule: ingest_cases)
  case (unknown mid body)
  then show ?thesis using slot_for_id_None [of ids mid] by simp
qed (simp_all add: Let_def)

theorem ingest_spec_witness:
  "let ifc = iface_new counting_watch 1 1 2 () () []; ifc1 = snd (ingest counting_watch [258] 1 2 ifc 9 [2, 1, 5])
   in iface_wf [258] 1 2 ifc \<and> rx_view (rx_state ifc1) 0 = [(9, [5])] \<and>
      fst (ingest counting_watch [258] 1 2 ifc1 9 [2, 1, 6]) = Err MailboxFull"
proof -
  let ?ifc = "iface_new counting_watch 1 1 2 () () []"
  let ?ifc1 = "snd (ingest counting_watch [258] 1 2 ?ifc 9 [2, 1, 5])"
  have wf: "iface_wf [258] 1 2 ?ifc" using iface_new_wf [of "[258]" 1 2] by simp
  have slot: "slot_for_id [258] (u16_from_le_bytes [2, 1]) = Some 0" by code_simp
  have empty: "rx_view (rx_state ?ifc) 0 = []" by code_simp
  have one: "rx_view (rx_state ?ifc1) 0 = [(9, [5])]" and wf1: "iface_wf [258] 1 2 ?ifc1"
    using ingest_spec [OF wf, of counting_watch 9 "[2, 1, 5]" "fst (ingest counting_watch [258] 1 2 ?ifc 9 [2, 1, 5])" ?ifc1] slot empty
    by (simp_all add: Let_def)
  have "fst (ingest counting_watch [258] 1 2 ?ifc1 9 [2, 1, 6]) = Err MailboxFull"
    using ingest_spec [OF wf1, of counting_watch 9 "[2, 1, 6]" _ "snd (ingest counting_watch [258] 1 2 ?ifc1 9 [2, 1, 6])"] slot one
    by (simp add: Let_def prod_eq_iff)
  then show ?thesis using wf one by simp
qed

text \<open>C24: A message encoded into the transmit buffer of one interface and ingested by another arrives as
  the bytes the value's encoder wrote, under the id it was sent with.\<close>

theorem send_then_ingest:
  assumes enc: "encode_capnp_into mid ifa v = (Ok payload, ifa')" and place: "encodes_in_place v"
    and wf: "iface_wf ids D B ifb" and slot: "slot_for_id ids mid = Some k"
    and fits: "max_encoded_len v \<le> B" and room: "length (rx_view (rx_state ifb) k) < D"
  shows "\<exists>used ifb'. used \<le> max_encoded_len v \<and> length payload = 2 + used \<and>
     fst (encode v (slice_of 2 (2 + max_encoded_len v) (copy_into (tx (tx_state ifa)) (u16_to_le_bytes mid)))) = Ok used \<and>
     drop 2 payload = take used (snd (encode v (slice_of 2 (2 + max_encoded_len v) (copy_into (tx (tx_state ifa)) (u16_to_le_bytes mid))))) \<and>
     ingest W ids D B ifb src payload = (Ok \<lparr>oc_from = src, oc_id = mid, oc_len = used\<rparr>, ifb') \<and>
     rx_view (rx_state ifb') k = rx_view (rx_state ifb) k @ [(src, drop 2 payload)]"
proof -
  obtain buf where e: "encode_capnp_into_buf mid (tx (tx_state ifa)) v = (Ok payload, buf)"
    using enc by (auto simp: encode_capnp_into_def Let_def split: prod.splits)
  obtain used where out: "encode v (slice_of 2 (2 + max_encoded_len v) (copy_into (tx (tx_state ifa)) (u16_to_le_bytes mid))) = (Ok used, slice_of 2 (2 + max_encoded_len v) buf)"
    and le: "used \<le> max_encoded_len v" and pay: "payload = u16_to_le_bytes mid @ take used (slice_of 2 (2 + max_encoded_len v) buf)"
    and len: "length buf = length (tx (tx_state ifa))"
    by (rule encode_capnp_into_buf_Ok [OF e place])
  have "2 + max_encoded_len v \<le> length buf"
    using encode_capnp_into_buf_small [of "tx (tx_state ifa)" v mid] e len by (cases "length buf < 2 + max_encoded_len v") simp_all
  then have "length (take used (slice_of 2 (2 + max_encoded_len v) buf)) = used" using le by (simp add: slice_simps)
  moreover from this obtain ifb' where "ingest W ids D B ifb src payload = (Ok \<lparr>oc_from = src, oc_id = mid, oc_len = used\<rparr>, ifb')"
    and "rx_view (rx_state ifb') k = rx_view (rx_state ifb) k @ [(src, drop 2 payload)]"
    using ingest_success [OF wf slot _ room, of "take used (slice_of 2 (2 + max_encoded_len v) buf)" W src] le pay fits by auto
  ultimately show ?thesis using out le pay by auto
qed

theorem send_then_ingest_witness:
  "let v = \<lparr>max_encoded_len = 3, encode = \<lambda>out. if length out < 2 then (Err other_error, out) else (Ok 2, copy_into out [8, 9])\<rparr>;
       ifa = iface_new counting_watch 1 1 4 () () [0, 0, 0, 0, 0, 0]; ifb = iface_new counting_watch 1 1 4 () () []
   in \<exists>ifb'. ingest counting_watch [258] 1 4 ifb 9 [2, 1, 8, 9] = (Ok \<lparr>oc_from = 9, oc_id = 258, oc_len = 2\<rparr>, ifb') \<and>
        rx_view (rx_state ifb') 0 = [(9, [8, 9])]"
proof -
  let ?v = "\<lparr>max_encoded_len = 3, encode = \<lambda>out. if length out < 2 then (Err other_error, out) else (Ok 2, copy_into out [8, 9])\<rparr>"
  let ?a = "iface_new counting_watch 1 1 4 () () [0, 0, 0, 0, 0, 0]" and ?b = "iface_new counting_watch 1 1 4 () () []"
  have enc: "encode_capnp_into 258 ?a ?v = (Ok [2, 1, 8, 9], ?a\<lparr>tx_state := (tx_state ?a)\<lparr>tx := [2, 1, 8, 9, 0, 0]\<rparr>\<rparr>)" by code_simp
  have place: "encodes_in_place ?v" by (auto simp: encodes_in_place_def copy_into_def)
  have wf: "iface_wf [258] 1 4 ?b" using iface_new_wf [of "[258]" 1 4] by simp
  have slot: "slot_for_id [258] 258 = Some 0" by code_simp
  have empty: "rx_view (rx_state ?b) 0 = []" by code_simp
  show ?thesis using send_then_ingest [OF enc place wf slot, of counting_watch 9] empty by auto
qed

end
