(* ===== verification/FT_Types.thy ===== *)
theory FT_Types
  imports Thincan_Wire
begin

text \<open>
  The values of \<open>thincan-file-transfer/src/lib.rs\<close>: the enums of the schema, the size bounds, the
  value types of the three messages with their constructors, and the parsed messages. Cap'n Proto is
  a library outside the repository: reading a body is the record \<open>capnp_reader\<close> of functions, one per
  message type, each giving the fields the code reads through \<open>with_root\<close> or the reader's error.
\<close>

section \<open>Schema enums and messages\<close>

datatype file_hash_algo = Sha256

datatype file_ack_kind = Accept | Ack | Reject | Complete | Abort

datatype file_ack_error =
    NoError | InvalidRequest | ChunkSizeTooLarge | ChunkSizeTooSmall
  | HashMissing | HashInvalidLength | HashAlgoUnsupported | HashMismatch

record file_req_value =
  frv_transfer_id :: u32
  frv_total_len :: u32

record file_offer_value =
  fov_transfer_id :: u32
  fov_total_len :: u32
  fov_file_metadata :: bytes
  fov_sender_max_chunk_size :: u32
  fov_file_hash_algo :: file_hash_algo
  fov_file_hash :: bytes

record file_chunk_value =
  fcv_transfer_id :: u32
  fcv_offset :: u32
  fcv_data :: bytes

record file_ack_value =
  fav_transfer_id :: u32
  fav_kind :: file_ack_kind
  fav_next_offset :: u32
  fav_chunk_size :: u32
  fav_error :: file_ack_error

text \<open>The bundle: the ids that the atlas of a program gives to the three messages, in this order.\<close>

definition FILE_TRANSFER_MESSAGE_COUNT :: usize where "FILE_TRANSFER_MESSAGE_COUNT = 3"

definition file_transfer_message_ids :: "u16 \<Rightarrow> u16 \<Rightarrow> u16 \<Rightarrow> u16 list" where
  "file_transfer_message_ids file_req_id file_chunk_id file_ack_id = [file_req_id, file_chunk_id, file_ack_id]"

section \<open>Size bounds\<close>

definition DEFAULT_CHUNK_SIZE :: usize where "DEFAULT_CHUNK_SIZE = 64"

text \<open>\<open>(len + 7) & !7\<close>: clearing the three low bits.\<close>

definition capnp_padded_len :: "usize \<Rightarrow> usize" where
  "capnp_padded_len len = (let x = len + 7 in x - x mod 8)"

definition file_req_max_encoded_len :: usize where "file_req_max_encoded_len = 40"

definition file_offer_max_encoded_len :: "usize \<Rightarrow> usize \<Rightarrow> usize" where
  "file_offer_max_encoded_len metadata_len hash_len = 40 + capnp_padded_len metadata_len + capnp_padded_len hash_len"

definition file_chunk_max_encoded_len :: "usize \<Rightarrow> usize" where
  "file_chunk_max_encoded_len data_len = 32 + capnp_padded_len data_len"

definition file_ack_max_encoded_len :: usize where "file_ack_max_encoded_len = 24"

definition capnp_scratch_words_for_bytes :: "usize \<Rightarrow> usize" where
  "capnp_scratch_words_for_bytes n = div_ceil n 8"

record receiver_config =
  max_chunk_size :: u32

section \<open>Constructors\<close>

definition file_req :: "u32 \<Rightarrow> u32 \<Rightarrow> file_req_value" where
  "file_req transfer_id total_len = \<lparr>frv_transfer_id = transfer_id, frv_total_len = total_len\<rparr>"

definition file_offer :: "u32 \<Rightarrow> u32 \<Rightarrow> u32 \<Rightarrow> bytes \<Rightarrow> file_hash_algo \<Rightarrow> bytes \<Rightarrow> file_offer_value" where
  "file_offer transfer_id total_len sender_max_chunk_size file_metadata file_hash_algo file_hash =
     \<lparr>fov_transfer_id = transfer_id, fov_total_len = total_len, fov_file_metadata = file_metadata,
      fov_sender_max_chunk_size = sender_max_chunk_size, fov_file_hash_algo = file_hash_algo,
      fov_file_hash = file_hash\<rparr>"

definition file_chunk :: "u32 \<Rightarrow> u32 \<Rightarrow> bytes \<Rightarrow> file_chunk_value" where
  "file_chunk transfer_id offset data = \<lparr>fcv_transfer_id = transfer_id, fcv_offset = offset, fcv_data = data\<rparr>"

definition file_ack_value_new :: "u32 \<Rightarrow> file_ack_kind \<Rightarrow> u32 \<Rightarrow> u32 \<Rightarrow> file_ack_error \<Rightarrow> file_ack_value" where
  "file_ack_value_new transfer_id k next_offset chunk_size err =
     \<lparr>fav_transfer_id = transfer_id, fav_kind = k, fav_next_offset = next_offset,
      fav_chunk_size = chunk_size, fav_error = err\<rparr>"

definition file_ack_accept :: "u32 \<Rightarrow> u32 \<Rightarrow> file_ack_value" where
  "file_ack_accept transfer_id chunk_size = file_ack_value_new transfer_id Accept 0 chunk_size NoError"

definition file_ack_progress :: "u32 \<Rightarrow> u32 \<Rightarrow> file_ack_value" where
  "file_ack_progress transfer_id next_offset = file_ack_value_new transfer_id Ack next_offset 0 NoError"

definition file_ack_reject :: "u32 \<Rightarrow> file_ack_error \<Rightarrow> file_ack_value" where
  "file_ack_reject transfer_id err = file_ack_value_new transfer_id Reject 0 0 err"

section \<open>Received messages\<close>

text \<open>The fields the code reads from a body. A getter of an enum fails on a value outside the schema,
  a getter of a blob on a bad pointer: both are \<open>None\<close>.\<close>

record req_root =
  rq_transfer_id :: u32
  rq_total_len :: u32
  rq_sender_max_chunk_size :: u32
  rq_file_metadata :: "bytes option"
  rq_file_hash_algo :: "file_hash_algo option"
  rq_file_hash :: "bytes option"

record chunk_root =
  ck_transfer_id :: u32
  ck_offset :: u32
  ck_data :: "bytes option"

record ack_root =
  ak_transfer_id :: u32
  ak_kind :: "file_ack_kind option"
  ak_next_offset :: u32
  ak_chunk_size :: u32
  ak_error :: "file_ack_error option"

record 'ce capnp_reader =
  rd_req :: "bytes \<Rightarrow> (req_root, 'ce) result"
  rd_chunk :: "bytes \<Rightarrow> (chunk_root, 'ce) result"
  rd_ack :: "bytes \<Rightarrow> (ack_root, 'ce) result"

record ack =
  ack_transfer_id :: u32
  ack_kind :: file_ack_kind
  ack_next_offset :: u32
  ack_chunk_size :: u32
  ack_error :: file_ack_error

definition decode_file_ack :: "'ce capnp_reader \<Rightarrow> bytes \<Rightarrow> (ack, error) result" where
  "decode_file_ack R body =
     (case rd_ack R body of
        Err _ \<Rightarrow> Err \<lparr>kind = Other\<rparr>
      | Ok root \<Rightarrow>
          try_res (ok_or (ak_kind root) \<lparr>kind = Other\<rparr>) (\<lambda>k.
          try_res (ok_or (ak_error root) \<lparr>kind = Other\<rparr>) (\<lambda>err.
          Ok \<lparr>ack_transfer_id = ak_transfer_id root, ack_kind = k, ack_next_offset = ak_next_offset root,
              ack_chunk_size = ak_chunk_size root, ack_error = err\<rparr>)))"

definition decode_file_ack_fields ::
    "'ce capnp_reader \<Rightarrow> bytes \<Rightarrow> (u32 \<times> file_ack_kind \<times> u32 \<times> u32 \<times> file_ack_error, error) result" where
  "decode_file_ack_fields R body =
     (case rd_ack R body of
        Err _ \<Rightarrow> Err \<lparr>kind = Other\<rparr>
      | Ok root \<Rightarrow>
          try_res (ok_or (ak_kind root) \<lparr>kind = Other\<rparr>) (\<lambda>k.
          try_res (ok_or (ak_error root) \<lparr>kind = Other\<rparr>) (\<lambda>err.
          Ok (ak_transfer_id root, k, ak_next_offset root, ak_chunk_size root, err))))"

definition chunk_transfer_id :: "'ce capnp_reader \<Rightarrow> bytes \<Rightarrow> (u32, error) result" where
  "chunk_transfer_id R body = (case rd_chunk R body of Err _ \<Rightarrow> Err other_error | Ok root \<Rightarrow> Ok (ck_transfer_id root))"

section \<open>Lemmas\<close>

lemma capnp_padded_len_bounds:
  "n \<le> capnp_padded_len n" "capnp_padded_len n < n + 8" "8 dvd capnp_padded_len n"
proof -
  have "(n + 7) mod 8 < 8" by simp
  then show "n \<le> capnp_padded_len n" "capnp_padded_len n < n + 8"
    by (simp_all add: capnp_padded_len_def Let_def)
  show "8 dvd capnp_padded_len n" by (simp add: capnp_padded_len_def Let_def dvd_minus_mod)
qed

lemma capnp_padded_len_words: "capnp_padded_len n = 8 * capnp_scratch_words_for_bytes n"
  by (simp add: capnp_padded_len_def capnp_scratch_words_for_bytes_def div_ceil_eq Let_def minus_mod_eq_mult_div)

end
