(* ===== verification/FT_Encode.thy ===== *)
theory FT_Encode
  imports FT_Types
begin

text \<open>
  The encoders of \<open>thincan-file-transfer\<close>: \<open>alloc_encode.rs\<close> (a growable scratch buffer),
  \<open>heapless_encode.rs\<close> (a scratch of fixed capacity, and encoding in place). The Cap'n Proto message
  builder is a parameter: given the memory of its single segment and the fields that are set, it gives
  the segments for output and the memory it leaves. What the code relies on is \<open>capnp_laws\<close>: on zeroed
  memory that is large enough for the documented layout, the output is one segment of that size, from
  which the reader gets the fields back.
\<close>

section \<open>The builder\<close>

record capnp_builder =
  cb_req :: "bytes \<Rightarrow> file_offer_value \<Rightarrow> bytes list \<times> bytes"
  cb_chunk :: "bytes \<Rightarrow> file_chunk_value \<Rightarrow> bytes list \<times> bytes"
  cb_ack :: "bytes \<Rightarrow> file_ack_value \<Rightarrow> bytes list \<times> bytes"

text \<open>The layout of the schema: a root pointer, the data words, one pointer per blob, the padded blobs.\<close>

definition req_size :: "file_offer_value \<Rightarrow> nat" where
  "req_size v = 40 + 8 * div_ceil (length (fov_file_metadata v)) 8 + 8 * div_ceil (length (fov_file_hash v)) 8"

definition chunk_size_of :: "file_chunk_value \<Rightarrow> nat" where
  "chunk_size_of v = 24 + 8 * div_ceil (length (fcv_data v)) 8"

definition req_fields :: "file_offer_value \<Rightarrow> req_root" where
  "req_fields v = \<lparr>rq_transfer_id = fov_transfer_id v, rq_total_len = fov_total_len v,
     rq_sender_max_chunk_size = fov_sender_max_chunk_size v, rq_file_metadata = Some (fov_file_metadata v),
     rq_file_hash_algo = Some (fov_file_hash_algo v), rq_file_hash = Some (fov_file_hash v)\<rparr>"

definition chunk_fields :: "file_chunk_value \<Rightarrow> chunk_root" where
  "chunk_fields v = \<lparr>ck_transfer_id = fcv_transfer_id v, ck_offset = fcv_offset v, ck_data = Some (fcv_data v)\<rparr>"

definition ack_fields :: "file_ack_value \<Rightarrow> ack_root" where
  "ack_fields v = \<lparr>ak_transfer_id = fav_transfer_id v, ak_kind = Some (fav_kind v), ak_next_offset = fav_next_offset v,
     ak_chunk_size = fav_chunk_size v, ak_error = Some (fav_error v)\<rparr>"

text \<open>Lists of the format hold fewer than \<open>2 ^ 29\<close> elements.\<close>

definition capnp_laws :: "capnp_builder \<Rightarrow> 'ce capnp_reader \<Rightarrow> bool" where
  "capnp_laws B R \<longleftrightarrow>
     (\<forall>n v. req_size v \<le> n \<longrightarrow> length (fov_file_metadata v) < 2 ^ 29 \<longrightarrow> length (fov_file_hash v) < 2 ^ 29 \<longrightarrow>
        (\<exists>seg. fst (cb_req B (replicate n 0) v) = [seg] \<and> length seg = req_size v \<and> rd_req R seg = Ok (req_fields v))) \<and>
     (\<forall>n v. chunk_size_of v \<le> n \<longrightarrow> length (fcv_data v) < 2 ^ 29 \<longrightarrow>
        (\<exists>seg. fst (cb_chunk B (replicate n 0) v) = [seg] \<and> length seg = chunk_size_of v \<and> rd_chunk R seg = Ok (chunk_fields v))) \<and>
     (\<forall>n v. 24 \<le> n \<longrightarrow>
        (\<exists>seg. fst (cb_ack B (replicate n 0) v) = [seg] \<and> length seg = 24 \<and> rd_ack R seg = Ok (ack_fields v)))"

section \<open>Encoding with a growable scratch\<close>

text \<open>The bytes of the scratch words. The allocator zeroes what it used when it is dropped, so the words
  are zero whenever the scratch is not borrowed.\<close>

definition words_bytes :: "u64 list \<Rightarrow> bytes" where
  "words_bytes ws = concat (map u64_to_le_bytes ws)"

text \<open>The \<open>std\<close> variant keeps the words of the thread; the slice \<open>&mut bytes[..min_len]\<close> panics when it is
  too long.\<close>

definition with_capnp_scratch_bytes :: "u64 list \<Rightarrow> usize \<Rightarrow> (bytes \<Rightarrow> 'r) \<Rightarrow> 'r outcome \<times> u64 list" where
  "with_capnp_scratch_bytes ws min_len f =
     (let min_words = div_ceil min_len 8;
          ws1 = (if length ws < min_words then ws @ replicate (min_words - length ws) 0 else ws)
      in if min_len > length ws1 * 8 then (Panic, ws1) else (Return (f (take min_len (words_bytes ws1))), ws1))"

text \<open>The variant without \<open>std\<close> starts from an empty vector every time.\<close>

definition with_capnp_scratch_bytes_no_std :: "usize \<Rightarrow> (bytes \<Rightarrow> 'r) \<Rightarrow> 'r outcome" where
  "with_capnp_scratch_bytes_no_std min_len f =
     (let min_words = div_ceil min_len 8; ws = replicate min_words (0 :: u64)
      in if min_len > length ws * 8 then Panic else Return (f (take min_len (words_bytes ws))))"

text \<open>The end of every encoder: one segment, not longer than announced, copied to the front of \<open>out\<close>.\<close>

definition emit_segments :: "bytes list \<Rightarrow> usize \<Rightarrow> bytes \<Rightarrow> (usize, error) result \<times> bytes" where
  "emit_segments segments max_len out =
     (if length segments \<noteq> 1 then (Err \<lparr>kind = Other\<rparr>, out)
      else let bs = segments ! 0 in
        if length bs > max_len then (Err \<lparr>kind = Other\<rparr>, out)
        else (Ok (length bs), copy_into out bs))"

type_synonym scratch_encode = "((usize, error) result \<times> bytes) outcome \<times> u64 list"

definition file_offer_encode :: "capnp_builder \<Rightarrow> u64 list \<Rightarrow> file_offer_value \<Rightarrow> bytes \<Rightarrow> scratch_encode" where
  "file_offer_encode B ws v out =
     (let max_len = file_offer_max_encoded_len (length (fov_file_metadata v)) (length (fov_file_hash v)) in
      if length out < max_len then (Return (Err \<lparr>kind = Other\<rparr>, out), ws)
      else with_capnp_scratch_bytes ws max_len (\<lambda>scratch. emit_segments (fst (cb_req B scratch v)) max_len out))"

definition file_req_encode :: "capnp_builder \<Rightarrow> u64 list \<Rightarrow> file_req_value \<Rightarrow> bytes \<Rightarrow> scratch_encode" where
  "file_req_encode B ws v out =
     (let max_len = file_req_max_encoded_len in
      if length out < max_len then (Return (Err \<lparr>kind = Other\<rparr>, out), ws)
      else with_capnp_scratch_bytes ws max_len (\<lambda>scratch.
             emit_segments (fst (cb_req B scratch (file_offer (frv_transfer_id v) (frv_total_len v) 0 [] Sha256 []))) max_len out))"

definition file_chunk_encode :: "capnp_builder \<Rightarrow> u64 list \<Rightarrow> file_chunk_value \<Rightarrow> bytes \<Rightarrow> scratch_encode" where
  "file_chunk_encode B ws v out =
     (let max_len = file_chunk_max_encoded_len (length (fcv_data v)) in
      if length out < max_len then (Return (Err \<lparr>kind = Other\<rparr>, out), ws)
      else with_capnp_scratch_bytes ws max_len (\<lambda>scratch. emit_segments (fst (cb_chunk B scratch v)) max_len out))"

definition file_ack_encode :: "capnp_builder \<Rightarrow> u64 list \<Rightarrow> file_ack_value \<Rightarrow> bytes \<Rightarrow> scratch_encode" where
  "file_ack_encode B ws v out =
     (let max_len = file_ack_max_encoded_len in
      if length out < max_len then (Return (Err \<lparr>kind = Other\<rparr>, out), ws)
      else with_capnp_scratch_bytes ws max_len (\<lambda>scratch. emit_segments (fst (cb_ack B scratch v)) max_len out))"

section \<open>Encoding with a fixed scratch\<close>

record capnp_scratch =
  words :: "u64 list"

definition capnp_scratch_new :: capnp_scratch where
  "capnp_scratch_new = \<lparr>words = []\<rparr>"

text \<open>The \<open>while\<close> loop of \<open>with_bytes\<close>: \<open>push\<close> fails when the vector is at its capacity.\<close>

function push_words :: "usize \<Rightarrow> usize \<Rightarrow> u64 list \<Rightarrow> (u64 list, error) result" where
  "push_words WORDS min_words ws =
     (if length ws < min_words then
        if length ws \<ge> WORDS then Err \<lparr>kind = Other\<rparr> else push_words WORDS min_words (ws @ [0])
      else Ok ws)"
  by auto
termination by (relation "measure (\<lambda>(W, m, ws). m - length ws)") auto

definition with_bytes ::
    "usize \<Rightarrow> capnp_scratch \<Rightarrow> usize \<Rightarrow> (bytes \<Rightarrow> 'r) \<Rightarrow> ('r, error) result outcome \<times> capnp_scratch" where
  "with_bytes WORDS sc min_len f =
     (let min_words = capnp_scratch_words_for_bytes min_len in
      if min_words > WORDS then (Return (Err \<lparr>kind = Other\<rparr>), sc)
      else (case push_words WORDS min_words (words sc) of
              Err e \<Rightarrow> (Return (Err e), sc)
            | Ok ws \<Rightarrow>
                if min_len > length ws * 8 then (Panic, \<lparr>words = ws\<rparr>)
                else (Return (Ok (f (take min_len (words_bytes ws)))), \<lparr>words = ws\<rparr>)))"

text \<open>The \<open>?\<close> after \<open>with_bytes\<close>: the closure's result, or the error of the scratch.\<close>

definition flatten_encode ::
    "bytes \<Rightarrow> ((usize, error) result \<times> bytes, error) result outcome \<Rightarrow> ((usize, error) result \<times> bytes) outcome" where
  "flatten_encode out r =
     (case r of Panic \<Rightarrow> Panic | Return (Err e) \<Rightarrow> Return (Err e, out) | Return (Ok p) \<Rightarrow> Return p)"

type_synonym fixed_encode = "((usize, error) result \<times> bytes) outcome \<times> capnp_scratch"

definition encode_file_offer_into ::
    "usize \<Rightarrow> capnp_builder \<Rightarrow> capnp_scratch \<Rightarrow> u32 \<Rightarrow> u32 \<Rightarrow> u32 \<Rightarrow> bytes \<Rightarrow> file_hash_algo \<Rightarrow> bytes \<Rightarrow> bytes \<Rightarrow> fixed_encode" where
  "encode_file_offer_into WORDS B sc transfer_id total_len sender_max metadata algo hash out =
     (let max_len = file_offer_max_encoded_len (length metadata) (length hash) in
      if length out < max_len then (Return (Err \<lparr>kind = Other\<rparr>, out), sc)
      else let (r, sc1) = with_bytes WORDS sc max_len (\<lambda>scratch.
             emit_segments (fst (cb_req B scratch (file_offer transfer_id total_len sender_max metadata algo hash))) max_len out)
           in (flatten_encode out r, sc1))"

definition encode_file_chunk_into ::
    "usize \<Rightarrow> capnp_builder \<Rightarrow> capnp_scratch \<Rightarrow> u32 \<Rightarrow> u32 \<Rightarrow> bytes \<Rightarrow> bytes \<Rightarrow> fixed_encode" where
  "encode_file_chunk_into WORDS B sc transfer_id offset data out =
     (let max_len = file_chunk_max_encoded_len (length data) in
      if length out < max_len then (Return (Err \<lparr>kind = Other\<rparr>, out), sc)
      else let (r, sc1) = with_bytes WORDS sc max_len (\<lambda>scratch.
             emit_segments (fst (cb_chunk B scratch (file_chunk transfer_id offset data))) max_len out)
           in (flatten_encode out r, sc1))"

definition encode_file_ack_into ::
    "usize \<Rightarrow> capnp_builder \<Rightarrow> capnp_scratch \<Rightarrow> u32 \<Rightarrow> file_ack_kind \<Rightarrow> u32 \<Rightarrow> u32 \<Rightarrow> file_ack_error \<Rightarrow> bytes \<Rightarrow> fixed_encode" where
  "encode_file_ack_into WORDS B sc transfer_id k next_offset chunk_size err out =
     (let max_len = file_ack_max_encoded_len in
      if length out < max_len then (Return (Err \<lparr>kind = Other\<rparr>, out), sc)
      else let (r, sc1) = with_bytes WORDS sc max_len (\<lambda>scratch.
             emit_segments (fst (cb_ack B scratch (file_ack_value_new transfer_id k next_offset chunk_size err))) max_len out)
           in (flatten_encode out r, sc1))"

section \<open>Encoding in place\<close>

text \<open>Without \<open>alloc\<close> the segment is \<open>out[..max_len]\<close> itself, and the message is forgotten so that the
  bytes stay there.\<close>

definition encode_segmented_root :: "bytes \<Rightarrow> usize \<Rightarrow> (bytes \<Rightarrow> bytes list \<times> bytes) \<Rightarrow> (usize, error) result \<times> bytes" where
  "encode_segmented_root out max_len init =
     (if length out < max_len then (Err \<lparr>kind = Other\<rparr>, out)
      else let (segments, mem) = init (take max_len out); out1 = mem @ drop max_len out in
        if length segments \<noteq> 1 then (Err \<lparr>kind = Other\<rparr>, out1)
        else let used = length (segments ! 0) in
          if used > max_len then (Err \<lparr>kind = Other\<rparr>, out1) else (Ok used, out1))"

definition file_req_encode_in_place :: "capnp_builder \<Rightarrow> file_req_value \<Rightarrow> bytes \<Rightarrow> (usize, error) result \<times> bytes" where
  "file_req_encode_in_place B v out =
     encode_segmented_root out file_req_max_encoded_len
       (\<lambda>mem. cb_req B mem (file_offer (frv_transfer_id v) (frv_total_len v) 0 [] Sha256 []))"

definition file_offer_encode_in_place :: "capnp_builder \<Rightarrow> file_offer_value \<Rightarrow> bytes \<Rightarrow> (usize, error) result \<times> bytes" where
  "file_offer_encode_in_place B v out =
     encode_segmented_root out (file_offer_max_encoded_len (length (fov_file_metadata v)) (length (fov_file_hash v)))
       (\<lambda>mem. cb_req B mem v)"

definition file_chunk_encode_in_place :: "capnp_builder \<Rightarrow> file_chunk_value \<Rightarrow> bytes \<Rightarrow> (usize, error) result \<times> bytes" where
  "file_chunk_encode_in_place B v out =
     encode_segmented_root out (file_chunk_max_encoded_len (length (fcv_data v))) (\<lambda>mem. cb_chunk B mem v)"

definition file_ack_encode_in_place :: "capnp_builder \<Rightarrow> file_ack_value \<Rightarrow> bytes \<Rightarrow> (usize, error) result \<times> bytes" where
  "file_ack_encode_in_place B v out =
     encode_segmented_root out file_ack_max_encoded_len (\<lambda>mem. cb_ack B mem v)"

section \<open>Lemmas\<close>

definition scratch_zero :: "u64 list \<Rightarrow> bool" where
  "scratch_zero ws \<longleftrightarrow> set ws \<subseteq> {0}"

lemma u64_zero_bytes: "u64_to_le_bytes 0 = replicate 8 0"
  by (simp add: le_simps numeral_eq_Suc)

lemma words_bytes_zero: "scratch_zero ws \<Longrightarrow> words_bytes ws = replicate (8 * length ws) 0"
proof (induction ws)
  case (Cons w ws)
  then have "w = 0" "words_bytes ws = replicate (8 * length ws) 0" by (simp_all add: scratch_zero_def)
  then show ?case by (simp add: words_bytes_def u64_zero_bytes replicate_add flip: replicate_add)
qed (simp add: words_bytes_def)

lemma div_ceil_mult_ge: "n \<le> 8 * div_ceil n 8"
  using div_ceil_le_iff [of 8 n "div_ceil n 8"] by simp

lemma with_capnp_scratch_bytes_zero:
  assumes "scratch_zero ws"
  obtains ws' where "with_capnp_scratch_bytes ws n f = (Return (f (replicate n 0)), ws')" and "scratch_zero ws'"
proof -
  define ws1 where "ws1 = (if length ws < div_ceil n 8 then ws @ replicate (div_ceil n 8 - length ws) 0 else ws)"
  have z: "scratch_zero ws1" using assms by (auto simp: ws1_def scratch_zero_def)
  have "div_ceil n 8 \<le> length ws1" by (simp add: ws1_def)
  then have n: "n \<le> 8 * length ws1" using div_ceil_mult_ge [of n] by linarith
  have "with_capnp_scratch_bytes ws n f = (Return (f (replicate n 0)), ws1)"
    unfolding with_capnp_scratch_bytes_def Let_def ws1_def [symmetric]
    using words_bytes_zero [OF z] n by (simp add: min_def)
  then show thesis using that z by blast
qed

lemma push_words_Ok:
  "length ws \<le> WORDS \<Longrightarrow> m \<le> WORDS \<Longrightarrow> push_words WORDS m ws = Ok (ws @ replicate (m - length ws) 0)"
proof (induction WORDS m ws rule: push_words.induct)
  case (1 W m ws)
  show ?case
  proof (cases "length ws < m")
    case True
    then have "push_words W m (ws @ [0]) = Ok ((ws @ [0]) @ replicate (m - length (ws @ [0])) 0)" using 1 by simp
    moreover have "replicate (m - length ws) 0 = 0 # replicate (m - Suc (length ws)) (0 :: u64)"
      using True by (metis Suc_diff_Suc replicate_Suc)
    ultimately show ?thesis using True 1(3) by (simp add: push_words.simps [of W m ws])
  qed (simp add: push_words.simps [of W m ws])
qed

lemma with_bytes_cases:
  assumes "scratch_zero (words sc)" and "length (words sc) \<le> WORDS"
  shows "\<exists>sc'. scratch_zero (words sc') \<and> length (words sc') \<le> WORDS \<and>
     with_bytes WORDS sc n f = (Return (if div_ceil n 8 \<le> WORDS then Ok (f (replicate n 0)) else Err other_error), sc')"
proof (cases "div_ceil n 8 \<le> WORDS")
  case True
  let ?ws = "words sc @ replicate (div_ceil n 8 - length (words sc)) 0"
  have z: "scratch_zero ?ws" using assms(1) by (auto simp: scratch_zero_def)
  have "div_ceil n 8 \<le> length ?ws" by simp
  then have n: "n \<le> 8 * length ?ws" using div_ceil_mult_ge [of n] by linarith
  have "with_bytes WORDS sc n f = (Return (Ok (f (replicate n 0))), \<lparr>words = ?ws\<rparr>)"
    unfolding with_bytes_def capnp_scratch_words_for_bytes_def Let_def push_words_Ok [OF assms(2) True]
    using words_bytes_zero [OF z] n True by (simp add: min_def)
  then show ?thesis using True z assms(2) by (intro exI [of _ "\<lparr>words = ?ws\<rparr>"]) simp
next
  case False
  then show ?thesis using assms
    by (intro exI [of _ sc]) (simp add: with_bytes_def capnp_scratch_words_for_bytes_def Let_def other_error_def)
qed

lemma emit_one [simp]: "length seg \<le> m \<Longrightarrow> emit_segments [seg] m out = (Ok (length seg), copy_into out seg)"
  by (simp add: emit_segments_def)

end
