(* ===== verification/FT_Codec.thy ===== *)
theory FT_Codec
  imports FT_Encode
begin

text \<open>
  A concrete builder and reader that satisfy \<open>capnp_laws\<close>: fixed fields first, blobs padded to words,
  with the sizes of the schema's layout. It shows that the laws can hold, and the examples of the
  file-transfer theories run on it.
\<close>

definition pad8 :: "bytes \<Rightarrow> bytes" where
  "pad8 bs = bs @ replicate (8 * div_ceil (length bs) 8 - length bs) 0"

definition len32 :: "bytes \<Rightarrow> bytes" where
  "len32 bs = u32_to_le_bytes (word_of_nat (length bs))"

definition flat_chunk :: "file_chunk_value \<Rightarrow> bytes" where
  "flat_chunk v = (u32_to_le_bytes (fcv_transfer_id v) @ u32_to_le_bytes (fcv_offset v) @ len32 (fcv_data v) @ replicate 12 0)
     @ pad8 (fcv_data v)"

definition flat_req :: "file_offer_value \<Rightarrow> bytes" where
  "flat_req v = (u32_to_le_bytes (fov_transfer_id v) @ u32_to_le_bytes (fov_total_len v) @
       u32_to_le_bytes (fov_sender_max_chunk_size v) @ len32 (fov_file_metadata v) @ len32 (fov_file_hash v) @ replicate 20 0)
     @ pad8 (fov_file_metadata v) @ pad8 (fov_file_hash v)"

fun kind_code :: "file_ack_kind \<Rightarrow> u8" where
  "kind_code Accept = 0" | "kind_code Ack = 1" | "kind_code Reject = 2" | "kind_code Complete = 3" | "kind_code Abort = 4"

fun error_code :: "file_ack_error \<Rightarrow> u8" where
  "error_code NoError = 0" | "error_code InvalidRequest = 1" | "error_code ChunkSizeTooLarge = 2"
| "error_code ChunkSizeTooSmall = 3" | "error_code HashMissing = 4" | "error_code HashInvalidLength = 5"
| "error_code HashAlgoUnsupported = 6" | "error_code HashMismatch = 7"

definition code_kind :: "u8 \<Rightarrow> file_ack_kind option" where
  "code_kind c = find (\<lambda>k. kind_code k = c) [Accept, Ack, Reject, Complete, Abort]"

definition code_error :: "u8 \<Rightarrow> file_ack_error option" where
  "code_error c = find (\<lambda>k. error_code k = c)
     [NoError, InvalidRequest, ChunkSizeTooLarge, ChunkSizeTooSmall, HashMissing, HashInvalidLength, HashAlgoUnsupported, HashMismatch]"

definition flat_ack :: "file_ack_value \<Rightarrow> bytes" where
  "flat_ack v = u32_to_le_bytes (fav_transfer_id v) @ u32_to_le_bytes (fav_next_offset v) @
     u32_to_le_bytes (fav_chunk_size v) @ [kind_code (fav_kind v), error_code (fav_error v)] @ replicate 10 0"

definition flat_builder :: capnp_builder where
  "flat_builder =
     \<lparr>cb_req = \<lambda>mem v. ([flat_req v], mem), cb_chunk = \<lambda>mem v. ([flat_chunk v], mem), cb_ack = \<lambda>mem v. ([flat_ack v], mem)\<rparr>"

definition u32_at :: "bytes \<Rightarrow> nat \<Rightarrow> u32" where
  "u32_at bs i = u32_from_le_bytes (take 4 (drop i bs))"

definition flat_reader :: "unit capnp_reader" where
  "flat_reader =
     \<lparr>rd_req = \<lambda>bs. if length bs < 40 then Err () else
         let m = unat (u32_at bs 12); h = unat (u32_at bs 16) in
         Ok \<lparr>rq_transfer_id = u32_at bs 0, rq_total_len = u32_at bs 4, rq_sender_max_chunk_size = u32_at bs 8,
             rq_file_metadata = Some (take m (drop 40 bs)), rq_file_hash_algo = Some Sha256,
             rq_file_hash = Some (take h (drop (40 + 8 * div_ceil m 8) bs))\<rparr>,
      rd_chunk = \<lambda>bs. if length bs < 24 then Err () else
         Ok \<lparr>ck_transfer_id = u32_at bs 0, ck_offset = u32_at bs 4, ck_data = Some (take (unat (u32_at bs 8)) (drop 24 bs))\<rparr>,
      rd_ack = \<lambda>bs. if length bs < 24 then Err () else
         Ok \<lparr>ak_transfer_id = u32_at bs 0, ak_kind = code_kind (bs ! 12), ak_next_offset = u32_at bs 4,
             ak_chunk_size = u32_at bs 8, ak_error = code_error (bs ! 13)\<rparr>\<rparr>"

lemma code_kind_code [simp]: "code_kind (kind_code k) = Some k"
  by (cases k) (simp_all add: code_kind_def)

lemma code_error_code [simp]: "code_error (error_code k) = Some k"
  by (cases k) (simp_all add: code_error_def)

lemma length_pad8: "length (pad8 bs) = 8 * div_ceil (length bs) 8"
  using div_ceil_mult_ge [of "length bs"] by (simp add: pad8_def)

lemma take_pad8: "take (length bs) (pad8 bs @ xs) = bs"
  by (simp add: pad8_def)

lemma len32_read: "length bs < 2 ^ 29 \<Longrightarrow> unat (u32_from_le_bytes (len32 bs)) = length bs"
  by (simp add: len32_def unat_of_nat32)

lemma length_len32 [simp]: "length (len32 bs) = 4"
  by (simp add: len32_def)

lemma length_flat_chunk: "length (flat_chunk v) = chunk_size_of v"
  by (simp add: flat_chunk_def chunk_size_of_def length_pad8)

lemma length_flat_req: "length (flat_req v) = req_size v"
  by (simp add: flat_req_def req_size_def length_pad8)

lemma length_flat_ack: "length (flat_ack v) = 24"
  by (simp add: flat_ack_def)

lemma file_hash_algo_unique: "(a :: file_hash_algo) = Sha256"
  by (cases a)

lemma rd_chunk_flat:
  assumes "length (fcv_data v) < 2 ^ 29"
  shows "rd_chunk flat_reader (flat_chunk v) = Ok (chunk_fields v)"
proof -
  have "u32_at (flat_chunk v) 0 = fcv_transfer_id v" "u32_at (flat_chunk v) 4 = fcv_offset v"
    and len: "unat (u32_at (flat_chunk v) 8) = length (fcv_data v)"
    using len32_read [OF assms] by (simp_all add: u32_at_def flat_chunk_def)
  moreover have "take (length (fcv_data v)) (drop 24 (flat_chunk v)) = fcv_data v"
    using take_pad8 [of "fcv_data v" "[]"] by (simp add: flat_chunk_def)
  ultimately show ?thesis using length_flat_chunk [of v] by (simp add: flat_reader_def chunk_fields_def chunk_size_of_def)
qed

lemma rd_req_flat:
  assumes "length (fov_file_metadata v) < 2 ^ 29" "length (fov_file_hash v) < 2 ^ 29"
  shows "rd_req flat_reader (flat_req v) = Ok (req_fields v)"
proof -
  have f: "u32_at (flat_req v) 0 = fov_transfer_id v" "u32_at (flat_req v) 4 = fov_total_len v"
    "u32_at (flat_req v) 8 = fov_sender_max_chunk_size v"
    "unat (u32_at (flat_req v) 12) = length (fov_file_metadata v)" "unat (u32_at (flat_req v) 16) = length (fov_file_hash v)"
    using assms len32_read by (simp_all add: u32_at_def flat_req_def)
  have m: "take (length (fov_file_metadata v)) (drop 40 (flat_req v)) = fov_file_metadata v"
    using take_pad8 [of "fov_file_metadata v"] by (simp add: flat_req_def)
  have "drop (40 + 8 * div_ceil (length (fov_file_metadata v)) 8) (flat_req v) = pad8 (fov_file_hash v)"
    by (simp add: flat_req_def length_pad8)
  then have h: "take (length (fov_file_hash v)) (drop (40 + 8 * div_ceil (length (fov_file_metadata v)) 8) (flat_req v)) = fov_file_hash v"
    using take_pad8 [of "fov_file_hash v" "[]"] by simp
  show ?thesis using f m h length_flat_req [of v] file_hash_algo_unique [of "fov_file_hash_algo v"]
    by (simp add: flat_reader_def req_fields_def req_size_def)
qed

lemma rd_ack_flat: "rd_ack flat_reader (flat_ack v) = Ok (ack_fields v)"
proof -
  have "u32_at (flat_ack v) 0 = fav_transfer_id v" "u32_at (flat_ack v) 4 = fav_next_offset v" "u32_at (flat_ack v) 8 = fav_chunk_size v"
    "flat_ack v ! 12 = kind_code (fav_kind v)" "flat_ack v ! 13 = error_code (fav_error v)"
    by (simp_all add: u32_at_def flat_ack_def nth_append)
  then show ?thesis using length_flat_ack [of v] by (simp add: flat_reader_def ack_fields_def)
qed

lemma flat_laws: "capnp_laws flat_builder flat_reader"
  unfolding capnp_laws_def
  by (simp add: flat_builder_def rd_req_flat rd_chunk_flat rd_ack_flat length_flat_req length_flat_chunk length_flat_ack)

section \<open>Properties of the encoders\<close>

lemma file_offer_max: "req_size v \<le> file_offer_max_encoded_len (length (fov_file_metadata v)) (length (fov_file_hash v))"
  by (simp add: req_size_def file_offer_max_encoded_len_def capnp_padded_len_words capnp_scratch_words_for_bytes_def)

lemma file_chunk_max: "chunk_size_of v \<le> file_chunk_max_encoded_len (length (fcv_data v))"
  by (simp add: chunk_size_of_def file_chunk_max_encoded_len_def capnp_padded_len_words capnp_scratch_words_for_bytes_def)

lemma file_offer_encode_ok:
  assumes "capnp_laws B R" "scratch_zero ws" "length (fov_file_metadata v) < 2 ^ 29" "length (fov_file_hash v) < 2 ^ 29"
    and "file_offer_max_encoded_len (length (fov_file_metadata v)) (length (fov_file_hash v)) \<le> length out"
  shows "\<exists>seg ws'. file_offer_encode B ws v out = (Return (Ok (length seg), copy_into out seg), ws') \<and> scratch_zero ws' \<and>
     length seg \<le> file_offer_max_encoded_len (length (fov_file_metadata v)) (length (fov_file_hash v)) \<and> rd_req R seg = Ok (req_fields v)"
proof -
  let ?m = "file_offer_max_encoded_len (length (fov_file_metadata v)) (length (fov_file_hash v))"
  obtain seg where seg: "fst (cb_req B (replicate ?m 0) v) = [seg]" "length seg = req_size v" "rd_req R seg = Ok (req_fields v)"
    using assms(1,3,4) file_offer_max [of v] unfolding capnp_laws_def by blast
  obtain ws' where "with_capnp_scratch_bytes ws ?m (\<lambda>s. emit_segments (fst (cb_req B s v)) ?m out) =
      (Return (emit_segments (fst (cb_req B (replicate ?m 0) v)) ?m out), ws')" "scratch_zero ws'"
    by (rule with_capnp_scratch_bytes_zero [OF assms(2)])
  then show ?thesis using seg assms(5) file_offer_max [of v]
    by (intro exI [of _ seg] exI [of _ ws']) (simp add: file_offer_encode_def)
qed

lemma file_chunk_encode_ok:
  assumes "capnp_laws B R" "scratch_zero ws" "length (fcv_data v) < 2 ^ 29"
    and "file_chunk_max_encoded_len (length (fcv_data v)) \<le> length out"
  shows "\<exists>seg ws'. file_chunk_encode B ws v out = (Return (Ok (length seg), copy_into out seg), ws') \<and> scratch_zero ws' \<and>
     length seg \<le> file_chunk_max_encoded_len (length (fcv_data v)) \<and> rd_chunk R seg = Ok (chunk_fields v)"
proof -
  let ?m = "file_chunk_max_encoded_len (length (fcv_data v))"
  obtain seg where seg: "fst (cb_chunk B (replicate ?m 0) v) = [seg]" "length seg = chunk_size_of v" "rd_chunk R seg = Ok (chunk_fields v)"
    using assms(1,3) file_chunk_max [of v] unfolding capnp_laws_def by blast
  obtain ws' where "with_capnp_scratch_bytes ws ?m (\<lambda>s. emit_segments (fst (cb_chunk B s v)) ?m out) =
      (Return (emit_segments (fst (cb_chunk B (replicate ?m 0) v)) ?m out), ws')" "scratch_zero ws'"
    by (rule with_capnp_scratch_bytes_zero [OF assms(2)])
  then show ?thesis using seg assms(4) file_chunk_max [of v]
    by (intro exI [of _ seg] exI [of _ ws']) (simp add: file_chunk_encode_def)
qed

lemma file_ack_encode_ok:
  assumes "capnp_laws B R" "scratch_zero ws" "file_ack_max_encoded_len \<le> length out"
  shows "\<exists>seg ws'. file_ack_encode B ws v out = (Return (Ok (length seg), copy_into out seg), ws') \<and> scratch_zero ws' \<and>
     length seg \<le> file_ack_max_encoded_len \<and> rd_ack R seg = Ok (ack_fields v)"
proof -
  let ?m = file_ack_max_encoded_len
  have m: "24 \<le> ?m" by (simp add: file_ack_max_encoded_len_def)
  then obtain seg where seg: "fst (cb_ack B (replicate ?m 0) v) = [seg]" "length seg = 24" "rd_ack R seg = Ok (ack_fields v)"
    using assms(1) unfolding capnp_laws_def by blast
  obtain ws' where "with_capnp_scratch_bytes ws ?m (\<lambda>s. emit_segments (fst (cb_ack B s v)) ?m out) =
      (Return (emit_segments (fst (cb_ack B (replicate ?m 0) v)) ?m out), ws')" "scratch_zero ws'"
    by (rule with_capnp_scratch_bytes_zero [OF assms(2)])
  then show ?thesis using seg assms(3) m
    by (intro exI [of _ seg] exI [of _ ws']) (simp add: file_ack_encode_def)
qed

lemma decode_file_ack_fields_eq:
  "rd_ack R seg = Ok (ack_fields v) \<Longrightarrow> decode_file_ack R seg =
     Ok \<lparr>ack_transfer_id = fav_transfer_id v, ack_kind = fav_kind v, ack_next_offset = fav_next_offset v,
         ack_chunk_size = fav_chunk_size v, ack_error = fav_error v\<rparr>"
  by (simp add: decode_file_ack_def ack_fields_def)

lemma zero_scratch [simp]: "scratch_zero []" "scratch_zero (words capnp_scratch_new)"
  by (simp_all add: scratch_zero_def capnp_scratch_new_def)



text \<open>The encoders with a fixed scratch of \<open>WORDS\<close> words behave like the allocating ones when the scratch
  holds \<open>max_encoded_len\<close> bytes, and report an error without touching the output when it does not; the
  scratch never outgrows its capacity and no slice is out of range.\<close>

lemma fixed_scratch_encode:
  assumes sc: "scratch_zero (words sc)" "length (words sc) \<le> WORDS" and ws: "scratch_zero ws"
  shows "\<exists>sc'. scratch_zero (words sc') \<and> length (words sc') \<le> WORDS \<and>
     encode_file_chunk_into WORDS B sc tid off data out =
       (if file_chunk_max_encoded_len (length data) \<le> 8 * WORDS \<or> length out < file_chunk_max_encoded_len (length data)
        then fst (file_chunk_encode B ws (file_chunk tid off data) out) else Return (Err other_error, out), sc')"
proof -
  let ?m = "file_chunk_max_encoded_len (length data)"
  let ?f = "\<lambda>s. emit_segments (fst (cb_chunk B s (file_chunk tid off data))) ?m out"
  have d: "fcv_data (file_chunk tid off data) = data" by (simp add: file_chunk_def)
  show ?thesis
  proof (cases "length out < ?m")
    case True
    then show ?thesis using sc by (auto simp: encode_file_chunk_into_def file_chunk_encode_def d)
  next
    case False
    obtain sc' where sc': "scratch_zero (words sc')" "length (words sc') \<le> WORDS"
      "with_bytes WORDS sc ?m ?f = (Return (if div_ceil ?m 8 \<le> WORDS then Ok (?f (replicate ?m 0)) else Err other_error), sc')"
      using with_bytes_cases [OF sc] by blast
    obtain ws' where "with_capnp_scratch_bytes ws ?m ?f = (Return (?f (replicate ?m 0)), ws')"
      by (rule with_capnp_scratch_bytes_zero [OF ws])
    moreover have "div_ceil ?m 8 \<le> WORDS \<longleftrightarrow> ?m \<le> 8 * WORDS" using div_ceil_le_iff [of 8 ?m WORDS] by (simp add: mult.commute)
    ultimately show ?thesis using False sc'
      by (intro exI [of _ sc']) (simp add: encode_file_chunk_into_def file_chunk_encode_def flatten_encode_def d Let_def)
  qed
qed

end
