(* ===== verification/FT_Sender.thy ===== *)
theory FT_Sender
  imports FT_Types
begin

text \<open>
  The sending side of \<open>thincan-file-transfer/src/tokio_impl.rs\<close>: configuration and transfer ids, the
  wait for an acknowledgement, the offer loop, the window fill loop and the transfer loop of
  \<open>send_file_with_id_impl\<close>. The bus handle is a record of operations on a state of its own, so that
  everything other tasks and the peer do between two calls is part of what an operation may return.
  The loops that wait for the peer take fuel; \<open>None\<close> means the fuel ran out. Durations are in
  nanoseconds. SHA-256 is a parameter.
\<close>

section \<open>The bus as the bundle uses it\<close>

datatype ft_message = MReq file_offer_value | MChunk file_chunk_value | MAck file_ack_value

datatype ft_kind = KChunk | KAck

text \<open>A receive under a timer gives a body, an error of the bus, or the timer fires first.\<close>

datatype recv_event = Arrived bytes | RecvFailed error | Elapsed

record 'b bus_ops =
  bus_send :: "'b \<Rightarrow> u8 \<Rightarrow> ft_message \<Rightarrow> duration \<Rightarrow> (unit, error) result \<times> 'b"
  bus_deadline :: "'b \<Rightarrow> duration \<Rightarrow> 'b"
  bus_recv :: "'b \<Rightarrow> ft_kind \<Rightarrow> u8 \<Rightarrow> recv_event \<times> 'b"
  bus_recv_req :: "'b \<Rightarrow> u8 \<Rightarrow> ((bytes, error) result \<times> 'b) option"

text \<open>The two runtimes: \<open>tokio::time::timeout\<close> takes the duration, \<open>embassy_time::with_timeout\<close> its
  whole microseconds, saturated at 64 bits.\<close>

datatype runtime = Tokio | Embassy

definition to_embassy_duration :: "duration \<Rightarrow> nat" where
  "to_embassy_duration d = min (d div 1000) (2 ^ 64 - 1)"

fun runtime_timeout :: "runtime \<Rightarrow> duration \<Rightarrow> duration" where
  "runtime_timeout Tokio d = d"
| "runtime_timeout Embassy d = 1000 * to_embassy_duration d"

section \<open>Configuration and transfer ids\<close>

record send_config =
  sender_max_chunk_size :: usize
  window_chunks :: usize
  max_retries :: usize

definition send_config_default :: send_config where
  "send_config_default = \<lparr>sender_max_chunk_size = DEFAULT_CHUNK_SIZE, window_chunks = 4, max_retries = 5\<rparr>"

definition send_config_validate :: "send_config \<Rightarrow> (send_config, error) result" where
  "send_config_validate c =
     (if sender_max_chunk_size c = 0 \<or> window_chunks c = 0 then Err other_error else Ok c)"

record send_state =
  next_transfer_id :: u32

definition send_state_new :: send_state where
  "send_state_new = \<lparr>next_transfer_id = 1\<rparr>"

definition alloc_transfer_id :: "send_state \<Rightarrow> u32 \<times> send_state" where
  "alloc_transfer_id st =
     (let out = next_transfer_id st in (out, st\<lparr>next_transfer_id := next_transfer_id st + 1\<rparr>))"

definition observe_transfer_id :: "send_state \<Rightarrow> u32 \<Rightarrow> send_state" where
  "observe_transfer_id st transfer_id =
     (if transfer_id \<ge> next_transfer_id st then st\<lparr>next_transfer_id := transfer_id + 1\<rparr> else st)"

record send_file_result =
  sfr_transfer_id :: u32
  sfr_total_len :: usize
  sfr_chunk_size :: usize
  sfr_chunks_sent :: usize
  sfr_retries :: usize

section \<open>Waiting for an acknowledgement\<close>

fun ack_wait_loop ::
    "nat \<Rightarrow> 'b bus_ops \<Rightarrow> 'ce capnp_reader \<Rightarrow> 'b \<Rightarrow> u8 \<Rightarrow> u32 \<Rightarrow> ((ack, error) result \<times> 'b) option" where
  "ack_wait_loop 0 ops R b src transfer_id = None"
| "ack_wait_loop (Suc n) ops R b src transfer_id =
     (case bus_recv ops b KAck src of
        (Elapsed, b1) \<Rightarrow> Some (Err timeout, b1)
      | (RecvFailed e, b1) \<Rightarrow> Some (Err e, b1)
      | (Arrived body, b1) \<Rightarrow>
          (case decode_file_ack R body of
             Err e \<Rightarrow> Some (Err e, b1)
           | Ok a \<Rightarrow>
               if ack_transfer_id a = transfer_id then Some (Ok a, b1)
               else ack_wait_loop n ops R b1 src transfer_id))"

definition wait_for_transfer_ack ::
    "nat \<Rightarrow> runtime \<Rightarrow> 'b bus_ops \<Rightarrow> 'ce capnp_reader \<Rightarrow> 'b \<Rightarrow> u8 \<Rightarrow> u32 \<Rightarrow> duration \<Rightarrow>
     ((ack, error) result \<times> 'b) option" where
  "wait_for_transfer_ack n rt ops R b src transfer_id tmo =
     ack_wait_loop n ops R (bus_deadline ops b (runtime_timeout rt tmo)) src transfer_id"

definition send_to_with_timeout ::
    "'b bus_ops \<Rightarrow> 'b \<Rightarrow> u8 \<Rightarrow> ft_message \<Rightarrow> duration \<Rightarrow> (unit, error) result \<times> 'b" where
  "send_to_with_timeout ops b dst v tmo = bus_send ops b dst v tmo"

section \<open>The offer\<close>

text \<open>\<open>if let Err(e) = \<dots> && e.kind != Timeout\<close>: a send that timed out is treated as sent.\<close>

definition offer_send_failure :: "(unit, error) result \<Rightarrow> error option" where
  "offer_send_failure r = (case r of Err e \<Rightarrow> (if kind e \<noteq> Timeout then Some e else None) | Ok _ \<Rightarrow> None)"

fun offer_loop ::
    "nat \<Rightarrow> runtime \<Rightarrow> 'b bus_ops \<Rightarrow> 'ce capnp_reader \<Rightarrow> 'b \<Rightarrow> u8 \<Rightarrow> file_offer_value \<Rightarrow> u32 \<Rightarrow> duration \<Rightarrow> usize \<Rightarrow> usize \<Rightarrow>
     ((ack, error) result \<times> 'b) option" where
  "offer_loop 0 rt ops R b dst offer transfer_id tmo max_r offer_retries = None"
| "offer_loop (Suc n) rt ops R b dst offer transfer_id tmo max_r offer_retries =
     (case send_to_with_timeout ops b dst (MReq offer) tmo of
        (r, b1) \<Rightarrow>
          (case offer_send_failure r of
             Some e \<Rightarrow> Some (Err e, b1)
           | None \<Rightarrow>
            (case wait_for_transfer_ack n rt ops R b1 dst transfer_id tmo of
               None \<Rightarrow> None
             | Some (Err e, b2) \<Rightarrow>
                 if kind e = Timeout then
                   if offer_retries + 1 > max_r then Some (Err e, b2)
                   else offer_loop n rt ops R b2 dst offer transfer_id tmo max_r (offer_retries + 1)
                 else Some (Err e, b2)
             | Some (Ok a, b2) \<Rightarrow>
                 (case ack_kind a of
                    Accept \<Rightarrow> Some (Ok a, b2)
                  | Reject \<Rightarrow> Some (Err other_error, b2)
                  | Abort \<Rightarrow> Some (Err other_error, b2)
                  | _ \<Rightarrow> offer_loop n rt ops R b2 dst offer transfer_id tmo max_r offer_retries))))"

section \<open>The window\<close>

text \<open>\<open>div_ceil\<close> panics on a zero chunk size; the caller has rejected it.\<close>

definition inflight_chunk_count :: "u32 \<Rightarrow> u32 \<Rightarrow> usize \<Rightarrow> (usize, error) result" where
  "inflight_chunk_count last_acked next_to_send chunk_size =
     (if next_to_send \<le> last_acked then Ok 0
      else let outstanding = unat (next_to_send - last_acked) in Ok (div_ceil outstanding chunk_size))"

text \<open>The offset after a chunk: \<open>u32::try_from\<close> of its length, then \<open>checked_add\<close>.\<close>

definition advance_next :: "u32 \<Rightarrow> usize \<Rightarrow> (u32, error) result" where
  "advance_next next_to_send data_len =
     try_res (ok_or (u32_try_from data_len) other_error) (\<lambda>d. ok_or (checked_add next_to_send d) other_error)"

fun fill_window ::
    "nat \<Rightarrow> 'b bus_ops \<Rightarrow> 'b \<Rightarrow> u8 \<Rightarrow> u32 \<Rightarrow> bytes \<Rightarrow> usize \<Rightarrow> usize \<Rightarrow> duration \<Rightarrow> u32 \<Rightarrow> u32 \<Rightarrow> usize \<Rightarrow>
     ((u32 \<times> usize, error) result \<times> 'b) option" where
  "fill_window 0 ops b dst transfer_id bytes chunk_size window tmo last_acked next_to_send chunks_sent = None"
| "fill_window (Suc n) ops b dst transfer_id bytes chunk_size window tmo last_acked next_to_send chunks_sent =
     (case inflight_chunk_count last_acked next_to_send chunk_size of
        Err e \<Rightarrow> Some (Err e, b)
      | Ok inflight \<Rightarrow>
          if inflight < window \<and> unat next_to_send < length bytes then
            let offset = unat next_to_send;
                stop = min (offset + chunk_size) (length bytes);
                data = slice_of offset stop bytes
            in case send_to_with_timeout ops b dst (MChunk (file_chunk transfer_id next_to_send data)) tmo of
                 (Err e, b1) \<Rightarrow> Some (Err e, b1)
               | (Ok _, b1) \<Rightarrow>
                   (case advance_next next_to_send (length data) of
                      Err e \<Rightarrow> Some (Err e, b1)
                    | Ok next \<Rightarrow>
                        fill_window n ops b1 dst transfer_id bytes chunk_size window tmo last_acked next (chunks_sent + 1))
          else Some (Ok (next_to_send, chunks_sent), b))"

section \<open>The transfer loop\<close>

record xfer =
  xf_chunks_sent :: usize
  xf_retries :: usize
  last_acked :: u32
  next_to_send :: u32

datatype ack_step = AckFail error | AckAgain xfer | AckDone xfer

definition on_ack :: "usize \<Rightarrow> xfer \<Rightarrow> ack \<Rightarrow> ack_step" where
  "on_ack total_len s a =
     (case ack_kind a of
        Reject \<Rightarrow> AckFail other_error
      | Abort \<Rightarrow> AckFail other_error
      | Accept \<Rightarrow> AckAgain s
      | _ \<Rightarrow>
          let next = ack_next_offset a in
          if next < last_acked s \<or> unat next > total_len \<or> next > next_to_send s then AckFail other_error
          else let s1 = s\<lparr>last_acked := next\<rparr> in
            if ack_kind a = Complete then
              if unat (last_acked s1) \<noteq> total_len then AckFail other_error else AckDone s1
            else AckAgain s1)"

fun transfer_loop ::
    "nat \<Rightarrow> runtime \<Rightarrow> 'b bus_ops \<Rightarrow> 'ce capnp_reader \<Rightarrow> 'b \<Rightarrow> u8 \<Rightarrow> u32 \<Rightarrow> bytes \<Rightarrow> usize \<Rightarrow> usize \<Rightarrow> usize \<Rightarrow> duration \<Rightarrow> xfer \<Rightarrow>
     ((xfer, error) result \<times> 'b) option" where
  "transfer_loop 0 rt ops R b dst transfer_id bytes chunk_size window max_r tmo s = None"
| "transfer_loop (Suc n) rt ops R b dst transfer_id bytes chunk_size window max_r tmo s =
     (if unat (last_acked s) < length bytes then
        (case fill_window (Suc (length bytes)) ops b dst transfer_id bytes chunk_size window tmo
                (last_acked s) (next_to_send s) (xf_chunks_sent s) of
           None \<Rightarrow> None
         | Some (Err e, b1) \<Rightarrow> Some (Err e, b1)
         | Some (Ok (next, chunks), b1) \<Rightarrow>
             let s1 = s\<lparr>next_to_send := next, xf_chunks_sent := chunks\<rparr> in
             (case wait_for_transfer_ack n rt ops R b1 dst transfer_id tmo of
                None \<Rightarrow> None
              | Some (Err e, b2) \<Rightarrow>
                  if kind e = Timeout then
                    let s2 = s1\<lparr>xf_retries := xf_retries s1 + 1\<rparr> in
                    if xf_retries s2 > max_r then Some (Err e, b2)
                    else transfer_loop n rt ops R b2 dst transfer_id bytes chunk_size window max_r tmo
                           (s2\<lparr>next_to_send := last_acked s2\<rparr>)
                  else Some (Err e, b2)
              | Some (Ok a, b2) \<Rightarrow>
                  (case on_ack (length bytes) s1 a of
                     AckFail e \<Rightarrow> Some (Err e, b2)
                   | AckAgain s2 \<Rightarrow> transfer_loop n rt ops R b2 dst transfer_id bytes chunk_size window max_r tmo s2
                   | AckDone s2 \<Rightarrow> Some (Ok s2, b2))))
      else Some (Ok s, b))"

section \<open>Sending a file\<close>

text \<open>After the offer: check the accepted chunk size and run the transfer.\<close>

definition send_accepted ::
    "nat \<Rightarrow> runtime \<Rightarrow> 'b bus_ops \<Rightarrow> 'ce capnp_reader \<Rightarrow> 'b \<Rightarrow> u8 \<Rightarrow> u32 \<Rightarrow> bytes \<Rightarrow> duration \<Rightarrow> send_config \<Rightarrow> ack \<Rightarrow>
     ((send_file_result, error) result \<times> 'b) option" where
  "send_accepted n rt ops R b dst transfer_id bytes tmo config accept =
     (let chunk_size = unat (ack_chunk_size accept) in
      if chunk_size = 0 \<or> chunk_size > sender_max_chunk_size config then Some (Err other_error, b)
      else
        (case transfer_loop n rt ops R b dst transfer_id bytes chunk_size (window_chunks config) (max_retries config) tmo
                \<lparr>xf_chunks_sent = 0, xf_retries = 0, last_acked = 0, next_to_send = 0\<rparr> of
           None \<Rightarrow> None
         | Some (Err e, b1) \<Rightarrow> Some (Err e, b1)
         | Some (Ok s, b1) \<Rightarrow>
             Some (Ok \<lparr>sfr_transfer_id = transfer_id, sfr_total_len = length bytes, sfr_chunk_size = chunk_size,
                      sfr_chunks_sent = xf_chunks_sent s, sfr_retries = xf_retries s\<rparr>, b1)))"

definition send_file_with_id_impl ::
    "nat \<Rightarrow> runtime \<Rightarrow> (bytes \<Rightarrow> bytes) \<Rightarrow> 'b bus_ops \<Rightarrow> 'ce capnp_reader \<Rightarrow> 'b \<Rightarrow> u8 \<Rightarrow> send_state \<Rightarrow> u32 \<Rightarrow> bytes \<Rightarrow>
     duration \<Rightarrow> send_config \<Rightarrow> ((send_file_result, error) result \<times> send_state \<times> 'b) option" where
  "send_file_with_id_impl n rt sha256 ops R b dst st transfer_id bytes tmo config0 =
     (case send_config_validate config0 of
        Err e \<Rightarrow> Some (Err e, st, b)
      | Ok config \<Rightarrow>
          let st1 = observe_transfer_id st transfer_id in
          (case (u32_try_from (length bytes), u32_try_from (sender_max_chunk_size config)) of
             (Some total_len_u32, Some max_chunk_u32) \<Rightarrow>
               (case offer_loop n rt ops R b dst
                       (file_offer transfer_id total_len_u32 max_chunk_u32 [] Sha256 (sha256 bytes))
                       transfer_id tmo (max_retries config) 0 of
                  None \<Rightarrow> None
                | Some (Err e, b1) \<Rightarrow> Some (Err e, st1, b1)
                | Some (Ok accept, b1) \<Rightarrow>
                    map_option (\<lambda>(r, b2). (r, st1, b2))
                      (send_accepted n rt ops R b1 dst transfer_id bytes tmo config accept))
           | _ \<Rightarrow> Some (Err other_error, st1, b)))"

definition send_file_impl ::
    "nat \<Rightarrow> runtime \<Rightarrow> (bytes \<Rightarrow> bytes) \<Rightarrow> 'b bus_ops \<Rightarrow> 'ce capnp_reader \<Rightarrow> 'b \<Rightarrow> u8 \<Rightarrow> send_state \<Rightarrow> bytes \<Rightarrow>
     duration \<Rightarrow> send_config \<Rightarrow> ((send_file_result, error) result \<times> send_state \<times> 'b) option" where
  "send_file_impl n rt sha256 ops R b dst st bytes tmo config =
     (let (transfer_id, st1) = alloc_transfer_id st
      in send_file_with_id_impl n rt sha256 ops R b dst st1 transfer_id bytes tmo config)"

text \<open>The bundle instance owns the bus handle and the sender state.\<close>

record 'b file_transfer_bundle_instance =
  fti_bus :: 'b
  fti_send_state :: send_state

definition file_transfer_bundle_new :: "'b \<Rightarrow> 'b file_transfer_bundle_instance" where
  "file_transfer_bundle_new b = \<lparr>fti_bus = b, fti_send_state = send_state_new\<rparr>"

definition send_file ::
    "nat \<Rightarrow> runtime \<Rightarrow> (bytes \<Rightarrow> bytes) \<Rightarrow> 'b bus_ops \<Rightarrow> 'ce capnp_reader \<Rightarrow> 'b file_transfer_bundle_instance \<Rightarrow> u8 \<Rightarrow> bytes \<Rightarrow>
     duration \<Rightarrow> send_config \<Rightarrow> ((send_file_result, error) result \<times> 'b file_transfer_bundle_instance) option" where
  "send_file n rt sha256 ops R self dst bytes tmo config =
     map_option (\<lambda>(r, st, b). (r, \<lparr>fti_bus = b, fti_send_state = st\<rparr>))
       (send_file_impl n rt sha256 ops R (fti_bus self) dst (fti_send_state self) bytes tmo config)"

definition send_file_with_id ::
    "nat \<Rightarrow> runtime \<Rightarrow> (bytes \<Rightarrow> bytes) \<Rightarrow> 'b bus_ops \<Rightarrow> 'ce capnp_reader \<Rightarrow> 'b file_transfer_bundle_instance \<Rightarrow> u8 \<Rightarrow> u32 \<Rightarrow> bytes \<Rightarrow>
     duration \<Rightarrow> send_config \<Rightarrow> ((send_file_result, error) result \<times> 'b file_transfer_bundle_instance) option" where
  "send_file_with_id n rt sha256 ops R self dst transfer_id bytes tmo config =
     map_option (\<lambda>(r, st, b). (r, \<lparr>fti_bus = b, fti_send_state = st\<rparr>))
       (send_file_with_id_impl n rt sha256 ops R (fti_bus self) dst (fti_send_state self) transfer_id bytes tmo config)"

end
