(* ===== verification/FT_Sender_Props.thy ===== *)
theory FT_Sender_Props
  imports FT_Sender FT_Codec
begin

text \<open>
  What the sender of \<open>tokio_impl.rs\<close> puts on the bus. The wrapper \<open>logging\<close> records every message sent
  and every body received, whatever the bus does, so that flow control, the bytes of each chunk and
  the meaning of success are statements about the log of a run.
\<close>

section \<open>The log of a run\<close>

datatype bus_log = LSend u8 ft_message | LRecv ft_kind u8 bytes

definition logging :: "'b bus_ops \<Rightarrow> ('b \<times> bus_log list) bus_ops" where
  "logging ops =
     \<lparr>bus_send = \<lambda>(b, l) dst m tmo. let (r, b') = bus_send ops b dst m tmo in (r, b', l @ [LSend dst m]),
      bus_deadline = \<lambda>(b, l) tmo. (bus_deadline ops b tmo, l),
      bus_recv = \<lambda>(b, l) k src. let (ev, b') = bus_recv ops b k src in
         (ev, b', case ev of Arrived body \<Rightarrow> l @ [LRecv k src body] | _ \<Rightarrow> l),
      bus_recv_req = \<lambda>(b, l) src. map_option (\<lambda>(r, b'). (r, b', l)) (bus_recv_req ops b src)\<rparr>"

fun progress_ack :: "ack \<Rightarrow> bool" where
  "progress_ack a = (ack_kind a = Ack \<or> ack_kind a = Complete)"

text \<open>The offset the peer has acknowledged, after one more log entry.\<close>

fun acked_by :: "'ce capnp_reader \<Rightarrow> u32 \<Rightarrow> nat \<Rightarrow> bus_log \<Rightarrow> nat" where
  "acked_by R tid a (LRecv KAck src body) =
     (case decode_file_ack R body of
        Err _ \<Rightarrow> a
      | Ok k \<Rightarrow> if ack_transfer_id k = tid \<and> progress_ack k then unat (ack_next_offset k) else a)"
| "acked_by R tid a e = a"

definition acked_after :: "'ce capnp_reader \<Rightarrow> u32 \<Rightarrow> nat \<Rightarrow> bus_log list \<Rightarrow> nat" where
  "acked_after R tid a es = foldl (acked_by R tid) a es"

text \<open>A chunk on the bus: the bytes of the file at its offset, inside the window above \<open>a\<close>.\<close>

fun entry_ok :: "u8 \<Rightarrow> u32 \<Rightarrow> bytes \<Rightarrow> nat \<Rightarrow> nat \<Rightarrow> nat \<Rightarrow> bus_log \<Rightarrow> bool" where
  "entry_ok dst tid bytes cs w a (LSend d (MChunk c)) =
     (d = dst \<and> fcv_transfer_id c = tid \<and> a \<le> unat (fcv_offset c) \<and> unat (fcv_offset c) < length bytes \<and>
      fcv_data c = take cs (drop (unat (fcv_offset c)) bytes) \<and>
      unat (fcv_offset c) + length (fcv_data c) \<le> a + w * cs)"
| "entry_ok dst tid bytes cs w a _ = True"

fun window_ok :: "'ce capnp_reader \<Rightarrow> u8 \<Rightarrow> u32 \<Rightarrow> bytes \<Rightarrow> nat \<Rightarrow> nat \<Rightarrow> nat \<Rightarrow> bus_log list \<Rightarrow> bool" where
  "window_ok R dst tid bytes cs w a [] = True"
| "window_ok R dst tid bytes cs w a (e # es) =
     (entry_ok dst tid bytes cs w a e \<and> window_ok R dst tid bytes cs w (acked_by R tid a e) es)"

fun is_chunk :: "bus_log \<Rightarrow> bool" where
  "is_chunk (LSend d (MChunk c)) = True"
| "is_chunk _ = False"

definition chunk_count :: "bus_log list \<Rightarrow> nat" where
  "chunk_count es = length (filter is_chunk es)"

lemma chunk_count_simps [simp]:
  "chunk_count [] = 0"
  "chunk_count (e # es) = (if is_chunk e then 1 else 0) + chunk_count es"
  "chunk_count (xs @ ys) = chunk_count xs + chunk_count ys"
  by (simp_all add: chunk_count_def)

lemma acked_after_simps [simp]:
  "acked_after R tid a [] = a"
  "acked_after R tid a (e # es) = acked_after R tid (acked_by R tid a e) es"
  "acked_after R tid a (xs @ ys) = acked_after R tid (acked_after R tid a xs) ys"
  by (simp_all add: acked_after_def)

lemma window_ok_append [simp]:
  "window_ok R dst tid bytes cs w a (xs @ ys) \<longleftrightarrow>
   window_ok R dst tid bytes cs w a xs \<and> window_ok R dst tid bytes cs w (acked_after R tid a xs) ys"
  by (induction xs arbitrary: a) auto

lemma logging_simps [simp]:
  "bus_send (logging ops) (b, l) dst m tmo = (fst (bus_send ops b dst m tmo), snd (bus_send ops b dst m tmo), l @ [LSend dst m])"
  "bus_deadline (logging ops) (b, l) tmo = (bus_deadline ops b tmo, l)"
  "bus_recv (logging ops) (b, l) k src =
     (fst (bus_recv ops b k src), snd (bus_recv ops b k src),
      case fst (bus_recv ops b k src) of Arrived body \<Rightarrow> l @ [LRecv k src body] | _ \<Rightarrow> l)"
  by (simp_all add: logging_def Let_def split_beta)

section \<open>The window\<close>

lemma inflight_chunk_count_Ok:
  "inflight_chunk_count la nx cs = Ok (div_ceil (unat nx - unat la) cs)"
  by (auto simp: inflight_chunk_count_def Let_def word_le_nat_alt unat_sub)

lemma inflight_less_iff:
  "0 < cs \<Longrightarrow> 0 < w \<Longrightarrow> div_ceil (unat nx - unat la) cs < w \<longleftrightarrow> unat nx \<le> unat la + (w - 1) * cs"
  by (simp add: div_ceil_less_iff) linarith

text \<open>The next chunk: its data and the offset after it; the additions of the code do not overflow.\<close>

lemma next_chunk:
  fixes nx :: u32
  assumes "unat nx < length bytes" and "length bytes < 2 ^ 32"
  shows "slice_of (unat nx) (min (unat nx + cs) (length bytes)) bytes = take cs (drop (unat nx) bytes)"
    and "advance_next nx (length (take cs (drop (unat nx) bytes))) = Ok (nx + word_of_nat (min cs (length bytes - unat nx)))"
    and "unat (nx + word_of_nat (min cs (length bytes - unat nx))) = min (unat nx + cs) (length bytes)"
proof -
  let ?d = "min cs (length bytes - unat nx)"
  have d: "?d < 2 ^ 32" and s: "unat nx + ?d < 2 ^ 32" using assms by auto
  show "slice_of (unat nx) (min (unat nx + cs) (length bytes)) bytes = take cs (drop (unat nx) bytes)"
    using assms by (auto simp: slice_of_def min_def)
  have ud: "unat (word_of_nat ?d :: u32) = ?d" using d by (rule unat_of_nat32)
  have ov: "unat nx + unat (word_of_nat ?d :: u32) < 2 ^ 32" using s ud by simp
  then have c: "checked_add nx (word_of_nat ?d) = Some (nx + word_of_nat ?d)" by (simp add: checked_add_def)
  then show "advance_next nx (length (take cs (drop (unat nx) bytes))) = Ok (nx + word_of_nat ?d)"
    using d by (simp add: advance_next_def min.commute)
  show "unat (nx + word_of_nat ?d) = min (unat nx + cs) (length bytes)"
    using unat_checked_add [OF c] ud assms by linarith
qed

lemma fill_window_log:
  assumes cs: "0 < cs" and w: "0 < w" and small: "length bytes < 2 ^ 32"
    and "unat la \<le> unat nx" "unat nx \<le> length bytes" "unat nx \<le> unat la + w * cs"
    and "fill_window n (logging ops) (b, l) dst tid bytes cs w tmo la nx ch = Some (r, (b', l'))"
  shows "\<exists>es. l' = l @ es \<and> window_ok R dst tid bytes cs w (unat la) es \<and> acked_after R tid (unat la) es = unat la \<and>
     (\<forall>nx' ch'. r = Ok (nx', ch') \<longrightarrow> unat nx \<le> unat nx' \<and> unat nx' \<le> length bytes \<and>
        unat nx' \<le> unat la + w * cs \<and> (unat nx' = length bytes \<or> unat la + (w - 1) * cs < unat nx') \<and>
        ch' = ch + chunk_count es)"
  using assms(4-7)
proof (induction n arbitrary: b l nx ch)
  case 0
  then show ?case by simp
next
  case (Suc n)
  let ?la = "unat la" and ?nx = "unat nx" and ?T = "length bytes"
  show ?case
  proof (cases "?nx \<le> ?la + (w - 1) * cs \<and> ?nx < ?T")
    case False
    then have "r = Ok (nx, ch)" "l' = l"
      using Suc.prems(4) by (auto simp: inflight_chunk_count_Ok inflight_less_iff [OF cs w])
    then show ?thesis using Suc.prems(1-3) False by (intro exI [of _ "[]"]) auto
  next
    case True
    let ?c = "file_chunk tid nx (take cs (drop ?nx bytes))"
    let ?nn = "nx + word_of_nat (min cs (?T - ?nx))"
    note nc = next_chunk [of nx bytes cs, OF conjunct2 [OF True] small]
    obtain q b1 where send: "bus_send ops b dst (MChunk ?c) tmo = (q, b1)" by (cases "bus_send ops b dst (MChunk ?c) tmo")
    have wcs: "(w - 1) * cs + cs = w * cs" using w by (cases w) simp_all
    have ent: "entry_ok dst tid bytes cs w ?la (LSend dst (MChunk ?c))"
      using True wcs Suc.prems(1) by (auto simp: file_chunk_def)
    have eq: "fill_window (Suc n) (logging ops) (b, l) dst tid bytes cs w tmo la nx ch =
        (case q of Err e \<Rightarrow> Some (Err e, b1, l @ [LSend dst (MChunk ?c)])
         | Ok _ \<Rightarrow> fill_window n (logging ops) (b1, l @ [LSend dst (MChunk ?c)]) dst tid bytes cs w tmo la ?nn (ch + 1))"
      using True send
      by (simp del: length_take add: nc(2) inflight_chunk_count_Ok inflight_less_iff [OF cs w] nc(1) send_to_with_timeout_def Let_def split: result.split)
    show ?thesis
    proof (cases q)
      case (Err e)
      then show ?thesis using eq Suc.prems(4) ent by (intro exI [of _ "[LSend dst (MChunk ?c)]"]) auto
    next
      case (Ok u)
      have rec: "fill_window n (logging ops) (b1, l @ [LSend dst (MChunk ?c)]) dst tid bytes cs w tmo la ?nn (ch + 1) = Some (r, (b', l'))"
        using eq Suc.prems(4) Ok by simp
      have "?la \<le> unat ?nn" "unat ?nn \<le> ?T" "unat ?nn \<le> ?la + w * cs" and up: "?nx \<le> unat ?nn"
        using nc(3) Suc.prems(1) True wcs by auto
      from Suc.IH [OF this(1-3) rec] obtain es where es: "l' = (l @ [LSend dst (MChunk ?c)]) @ es"
        "window_ok R dst tid bytes cs w ?la es" "acked_after R tid ?la es = ?la"
        "\<forall>nx' ch'. r = Ok (nx', ch') \<longrightarrow> unat ?nn \<le> unat nx' \<and> unat nx' \<le> ?T \<and>
           unat nx' \<le> ?la + w * cs \<and> (unat nx' = ?T \<or> ?la + (w - 1) * cs < unat nx') \<and> ch' = ch + 1 + chunk_count es"
        by blast
      then show ?thesis using ent up by (intro exI [of _ "LSend dst (MChunk ?c) # es"]) auto
    qed
  qed
qed

text \<open>Filling the window always ends: the offset grows with every chunk.\<close>

lemma fill_window_total:
  assumes cs: "0 < cs" and small: "length bytes < 2 ^ 32"
  shows "length bytes - unat nx < n \<Longrightarrow> \<exists>r. fill_window n ops b dst tid bytes cs w tmo la nx ch = Some r"
proof (induction n arbitrary: b nx ch)
  case 0
  then show ?case by simp
next
  case (Suc n)
  show ?case
  proof (cases "unat nx < length bytes")
    case False
    then show ?thesis by (simp add: inflight_chunk_count_Ok)
  next
    case True
    note nc = next_chunk [of nx bytes cs, OF True small]
    have "length bytes - unat (nx + word_of_nat (min cs (length bytes - unat nx))) < n"
      using nc(3) True Suc.prems cs by simp
    note IH = Suc.IH [OF this]
    show ?thesis
      using IH by (simp del: length_take add: nc(1,2) inflight_chunk_count_Ok Let_def send_to_with_timeout_def
        split: result.split prod.split)
  qed
qed

section \<open>Acknowledgements\<close>

lemma ack_wait_log:
  "ack_wait_loop n (logging ops) R (b, l) src tid = Some (r, (b', l')) \<Longrightarrow>
   \<exists>es. l' = l @ es \<and> window_ok R dst tid bytes cs w a es \<and> chunk_count es = 0 \<and>
     (case r of
        Err e \<Rightarrow> acked_after R tid a es = a
      | Ok k \<Rightarrow> ack_transfer_id k = tid \<and> (\<exists>body. LRecv KAck src body \<in> set es \<and> decode_file_ack R body = Ok k) \<and>
          acked_after R tid a es = (if progress_ack k then unat (ack_next_offset k) else a))"
proof (induction n arbitrary: b l)
  case 0
  then show ?case by simp
next
  case (Suc n)
  obtain ev b1 where recv: "bus_recv ops b KAck src = (ev, b1)" by (cases "bus_recv ops b KAck src")
  show ?case
  proof (cases ev)
    case (Arrived body)
    show ?thesis
    proof (cases "decode_file_ack R body")
      case (Err e)
      then have "r = Err e" "l' = l @ [LRecv KAck src body]" using Suc.prems recv Arrived by simp_all
      then show ?thesis using Err by (intro exI [of _ "[LRecv KAck src body]"]) simp
    next
      case (Ok k)
      show ?thesis
      proof (cases "ack_transfer_id k = tid")
        case True
        then have "r = Ok k" "l' = l @ [LRecv KAck src body]" using Suc.prems recv Arrived Ok by simp_all
        then show ?thesis using Ok True by (intro exI [of _ "[LRecv KAck src body]"]) simp
      next
        case False
        then have "ack_wait_loop n (logging ops) R (b1, l @ [LRecv KAck src body]) src tid = Some (r, (b', l'))"
          using Suc.prems recv Arrived Ok by simp
        from Suc.IH [OF this] obtain es where "l' = (l @ [LRecv KAck src body]) @ es"
          "window_ok R dst tid bytes cs w a es" "chunk_count es = 0"
          "case r of Err e \<Rightarrow> acked_after R tid a es = a
            | Ok k \<Rightarrow> ack_transfer_id k = tid \<and> (\<exists>body. LRecv KAck src body \<in> set es \<and> decode_file_ack R body = Ok k) \<and>
                acked_after R tid a es = (if progress_ack k then unat (ack_next_offset k) else a)" by blast
        then show ?thesis using False Ok
          by (intro exI [of _ "LRecv KAck src body # es"]) (auto split: result.splits)
      qed
    qed
  qed (use Suc.prems recv in \<open>auto intro!: exI [of _ "[]"]\<close>)
qed

lemma wait_for_transfer_ack_log:
  assumes "wait_for_transfer_ack n rt (logging ops) R (b, l) src tid tmo = Some (r, (b', l'))"
  obtains es where "l' = l @ es" and "window_ok R dst tid bytes cs w a es" and "chunk_count es = 0"
    and "case r of
        Err e \<Rightarrow> acked_after R tid a es = a
      | Ok k \<Rightarrow> ack_transfer_id k = tid \<and> (\<exists>body. LRecv KAck src body \<in> set es \<and> decode_file_ack R body = Ok k) \<and>
          acked_after R tid a es = (if progress_ack k then unat (ack_next_offset k) else a)"
  using ack_wait_log [of n ops R "bus_deadline ops b (runtime_timeout rt tmo)" l src tid r b' l' dst bytes cs w a] assms
  unfolding wait_for_transfer_ack_def by auto

lemma on_ack_cases:
  "on_ack T s a = AckAgain s' \<Longrightarrow> \<not> progress_ack a \<and> s' = s \<or>
     progress_ack a \<and> s' = s\<lparr>last_acked := ack_next_offset a\<rparr> \<and> last_acked s \<le> ack_next_offset a \<and>
     ack_next_offset a \<le> next_to_send s \<and> unat (ack_next_offset a) \<le> T"
  "on_ack T s a = AckDone s' \<Longrightarrow> ack_kind a = Complete \<and> s' = s\<lparr>last_acked := ack_next_offset a\<rparr> \<and>
     unat (ack_next_offset a) = T"
  by (auto simp: on_ack_def Let_def not_less split: file_ack_kind.splits if_splits)

section \<open>The transfer\<close>

definition xfer_inv :: "bytes \<Rightarrow> nat \<Rightarrow> nat \<Rightarrow> xfer \<Rightarrow> bool" where
  "xfer_inv bytes cs w s \<longleftrightarrow>
     unat (last_acked s) \<le> unat (next_to_send s) \<and> unat (next_to_send s) \<le> length bytes \<and>
     unat (next_to_send s) \<le> unat (last_acked s) + w * cs"

lemma transfer_loop_log:
  assumes cs: "0 < cs" and w: "0 < w" and small: "length bytes < 2 ^ 32"
    and "xfer_inv bytes cs w s" and "xf_retries s \<le> max_r"
    and "transfer_loop n rt (logging ops) R (b, l) dst tid bytes cs w max_r tmo s = Some (r, (b', l'))"
  shows "\<exists>es. l' = l @ es \<and> window_ok R dst tid bytes cs w (unat (last_acked s)) es \<and>
     (\<forall>s'. r = Ok s' \<longrightarrow> acked_after R tid (unat (last_acked s)) es = length bytes \<and> xf_retries s' \<le> max_r \<and>
        xf_chunks_sent s' = xf_chunks_sent s + chunk_count es)"
  using assms(4-6)
proof (induction n arbitrary: b l s)
  case 0
  then show ?case by simp
next
  case (Suc n)
  let ?la = "unat (last_acked s)"
  show ?case
  proof (cases "?la < length bytes")
    case False
    then show ?thesis using Suc.prems by (auto simp: xfer_inv_def intro!: exI [of _ "[]"])
  next
    case True
    obtain f b1 l1 where fill: "fill_window (Suc (length bytes)) (logging ops) (b, l) dst tid bytes cs w tmo
        (last_acked s) (next_to_send s) (xf_chunks_sent s) = Some (f, (b1, l1))"
      using fill_window_total [OF cs small, of "next_to_send s" "Suc (length bytes)"] by (metis less_Suc_eq diff_le_self le_imp_less_Suc prod_cases3)
    from fill_window_log [OF cs w small _ _ _ fill, where R = R] Suc.prems(1) obtain es1 where es1: "l1 = l @ es1"
      "window_ok R dst tid bytes cs w ?la es1" "acked_after R tid ?la es1 = ?la"
      and fOk: "\<And>nx ch. f = Ok (nx, ch) \<Longrightarrow> ch = xf_chunks_sent s + chunk_count es1 \<and> unat (next_to_send s) \<le> unat nx \<and> unat nx \<le> length bytes \<and> unat nx \<le> ?la + w * cs"
      by (auto simp: xfer_inv_def)
    show ?thesis
    proof (cases f)
      case (Err e)
      then show ?thesis using Suc.prems(3) True fill es1 by auto
    next
      case (Ok p)
      obtain nx ch where p: "p = (nx, ch)" by (cases p)
      let ?s1 = "s\<lparr>next_to_send := nx, xf_chunks_sent := ch\<rparr>"
      note nx = fOk [OF Ok [unfolded p]]
      have ch: "ch = xf_chunks_sent s + chunk_count es1" using nx by simp
      have inv1: "xfer_inv bytes cs w ?s1" using Suc.prems(1) nx by (simp add: xfer_inv_def)
      from Suc.prems(3) True fill Ok p obtain q b2 l2 where
        wait: "wait_for_transfer_ack n rt (logging ops) R (b1, l1) dst tid tmo = Some (q, (b2, l2))"
        by (cases "wait_for_transfer_ack n rt (logging ops) R (b1, l1) dst tid tmo") auto
      obtain es2 where es2: "l2 = l1 @ es2" "window_ok R dst tid bytes cs w ?la es2" "chunk_count es2 = 0"
        and acked: "case q of Err e \<Rightarrow> acked_after R tid ?la es2 = ?la
            | Ok k \<Rightarrow> ack_transfer_id k = tid \<and> (\<exists>body. LRecv KAck dst body \<in> set es2 \<and> decode_file_ack R body = Ok k) \<and>
                acked_after R tid ?la es2 = (if progress_ack k then unat (ack_next_offset k) else ?la)"
        by (rule wait_for_transfer_ack_log [OF wait])
      have log12: "l2 = l @ (es1 @ es2)" "window_ok R dst tid bytes cs w ?la (es1 @ es2)"
        "acked_after R tid ?la (es1 @ es2) = acked_after R tid ?la es2" using es1 es2 by simp_all
      have go: ?thesis if again: "transfer_loop n rt (logging ops) R (b2, l2) dst tid bytes cs w max_r tmo s2 = Some (r, (b', l'))"
        and inv: "xfer_inv bytes cs w s2" "xf_retries s2 \<le> max_r" and a: "acked_after R tid ?la es2 = unat (last_acked s2)" "xf_chunks_sent s2 = ch" for s2
      proof -
        from Suc.IH [OF inv again] obtain es where es: "l' = l2 @ es" "window_ok R dst tid bytes cs w (unat (last_acked s2)) es"
          and fin: "\<forall>s'. r = Ok s' \<longrightarrow> acked_after R tid (unat (last_acked s2)) es = length bytes \<and> xf_retries s' \<le> max_r \<and>
             xf_chunks_sent s' = xf_chunks_sent s2 + chunk_count es" by blast
        have "xf_chunks_sent s2 + chunk_count es = xf_chunks_sent s + chunk_count ((es1 @ es2) @ es)"
          using a(2) ch es2(3) by simp
        moreover have "acked_after R tid ?la ((es1 @ es2) @ es) = acked_after R tid (unat (last_acked s2)) es"
          using es1(3) a(1) by simp
        moreover have "window_ok R dst tid bytes cs w ?la ((es1 @ es2) @ es)" using log12(2) es(2) es1(3) a(1) by simp
        moreover have "l' = l @ ((es1 @ es2) @ es)" using log12(1) es(1) by simp
        ultimately show ?thesis using fin by metis
      qed
      show ?thesis
      proof (cases q)
        case (Err e)
        show ?thesis
        proof (cases "kind e = Timeout \<and> xf_retries s + 1 \<le> max_r")
          case True
          then show ?thesis
            using go [of "s\<lparr>xf_chunks_sent := ch, xf_retries := xf_retries s + 1, next_to_send := last_acked s\<rparr>"]
              Suc.prems \<open>?la < length bytes\<close> fill \<open>f = Ok p\<close> p wait Err acked
            by (simp add: Let_def xfer_inv_def)
        next
          case False
          then have "r = Err e" "l' = l2"
            using Suc.prems(3) \<open>?la < length bytes\<close> fill \<open>f = Ok p\<close> p wait Err by (auto simp: Let_def split: if_splits)
          then show ?thesis using log12 by auto
        qed
      next
        case (Ok k)
        show ?thesis
        proof (cases "on_ack (length bytes) ?s1 k")
          case (AckFail e)
          then have "r = Err e" "l' = l2"
            using Suc.prems(3) \<open>?la < length bytes\<close> fill \<open>f = Ok p\<close> p wait Ok by (auto simp: Let_def)
          then show ?thesis using log12 by auto
        next
          case (AckAgain s2)
          have "transfer_loop n rt (logging ops) R (b2, l2) dst tid bytes cs w max_r tmo s2 = Some (r, (b', l'))"
            using Suc.prems(3) \<open>?la < length bytes\<close> fill \<open>f = Ok p\<close> p wait Ok AckAgain by (simp add: Let_def)
          then show ?thesis
            using go [of s2] on_ack_cases(1) [OF AckAgain] acked Ok inv1 Suc.prems(2)
            by (auto simp: xfer_inv_def word_le_nat_alt)
        next
          case (AckDone s2)
          then have "r = Ok s2" "l' = l2"
            using Suc.prems(3) \<open>?la < length bytes\<close> fill \<open>f = Ok p\<close> p wait Ok by (simp_all add: Let_def)
          then show ?thesis using log12 on_ack_cases(2) [OF AckDone] acked Ok Suc.prems(2) ch es2(3) by auto
        qed
      qed
    qed
  qed
qed

section \<open>The offer and the whole transfer\<close>

fun offer_entry :: "u8 \<Rightarrow> file_offer_value \<Rightarrow> bus_log \<Rightarrow> bool" where
  "offer_entry dst offer (LSend d m) = (d = dst \<and> m = MReq offer)"
| "offer_entry dst offer (LRecv k src body) = (k = KAck \<and> src = dst)"

lemma ack_wait_offer:
  "ack_wait_loop n (logging ops) R (b, l) dst tid = Some (r, (b', l')) \<Longrightarrow>
   \<exists>es. l' = l @ es \<and> (\<forall>e \<in> set es. offer_entry dst offer e) \<and>
     (\<forall>k. r = Ok k \<longrightarrow> ack_transfer_id k = tid)"
proof (induction n arbitrary: b l)
  case (Suc n)
  obtain ev b1 where recv: "bus_recv ops b KAck dst = (ev, b1)" by (cases "bus_recv ops b KAck dst")
  show ?case
  proof (cases "\<exists>body k. ev = Arrived body \<and> decode_file_ack R body = Ok k \<and> ack_transfer_id k \<noteq> tid")
    case True
    then obtain body where ev: "ev = Arrived body"
      and rec: "ack_wait_loop n (logging ops) R (b1, l @ [LRecv KAck dst body]) dst tid = Some (r, (b', l'))"
      using Suc.prems recv by auto
    from Suc.IH [OF rec] show ?thesis by (metis append.assoc append_Cons append_Nil offer_entry.simps(2) set_ConsD)
  next
    case False
    then show ?thesis using Suc.prems recv
      by (cases ev) (fastforce split: result.splits if_splits)+
  qed
qed simp

lemma offer_loop_log:
  "offer_loop n rt (logging ops) R (b, l) dst offer tid tmo max_r k0 = Some (r, (b', l')) \<Longrightarrow>
   \<exists>es. l' = l @ es \<and> (\<forall>e \<in> set es. offer_entry dst offer e) \<and>
     (\<forall>a. r = Ok a \<longrightarrow> ack_transfer_id a = tid \<and> ack_kind a = Accept)"
proof (induction n arbitrary: b l k0)
  case (Suc n)
  obtain q b1 where send: "bus_send ops b dst (MReq offer) tmo = (q, b1)" by (cases "bus_send ops b dst (MReq offer) tmo")
  let ?l1 = "l @ [LSend dst (MReq offer)]"
  show ?case
  proof (cases "offer_send_failure q")
    case (Some e)
    then show ?thesis using Suc.prems send
      by (intro exI [of _ "[LSend dst (MReq offer)]"]) (auto simp: send_to_with_timeout_def)
  next
    case None
    then obtain v b2 l2 where wait: "wait_for_transfer_ack n rt (logging ops) R (b1, ?l1) dst tid tmo = Some (v, (b2, l2))"
      using Suc.prems send by (cases "wait_for_transfer_ack n rt (logging ops) R (b1, ?l1) dst tid tmo") (auto simp: send_to_with_timeout_def)
    then obtain es where es: "l2 = ?l1 @ es" "\<forall>e \<in> set es. offer_entry dst offer e" "\<forall>k. v = Ok k \<longrightarrow> ack_transfer_id k = tid"
      using ack_wait_offer [of n ops R "bus_deadline ops b1 (runtime_timeout rt tmo)" ?l1 dst tid v b2 l2 offer]
      by (auto simp: wait_for_transfer_ack_def)
    have go: ?thesis if "offer_loop n rt (logging ops) R (b2, l2) dst offer tid tmo max_r k1 = Some (r, (b', l'))" for k1
    proof -
      from Suc.IH [OF that] obtain es' where "l' = l2 @ es'" "\<forall>e \<in> set es'. offer_entry dst offer e"
        "\<forall>a. r = Ok a \<longrightarrow> ack_transfer_id a = tid \<and> ack_kind a = Accept" by blast
      then show ?thesis using es(1,2) by (intro exI [of _ "LSend dst (MReq offer) # es @ es'"]) (simp add: ball_Un)
    qed
    have stop: ?thesis if "l' = l2" "\<forall>a. r = Ok a \<longrightarrow> v = Ok a \<and> ack_kind a = Accept"
    proof -
      have "l' = l @ (LSend dst (MReq offer) # es)" using that(1) es(1) by simp
      moreover have "\<forall>e \<in> set (LSend dst (MReq offer) # es). offer_entry dst offer e" using es(2) by simp
      moreover have "\<forall>a. r = Ok a \<longrightarrow> ack_transfer_id a = tid \<and> ack_kind a = Accept" using es(3) that(2) by blast
      ultimately show ?thesis by blast
    qed
    show ?thesis
    proof (cases v)
      case (Err e)
      then show ?thesis using Suc.prems send None wait go stop by (auto simp: send_to_with_timeout_def split: if_splits)
    next
      case (Ok a)
      then show ?thesis using Suc.prems send None wait go stop
        by (cases "ack_kind a") (auto simp: send_to_with_timeout_def)
    qed
  qed
qed simp

text \<open>The log of a whole send: offers first, then the chunks of the transfer.\<close>

definition sent_log ::
    "'ce capnp_reader \<Rightarrow> u8 \<Rightarrow> u32 \<Rightarrow> bytes \<Rightarrow> file_offer_value \<Rightarrow> send_config \<Rightarrow> (send_file_result, error) result \<Rightarrow> bus_log list \<Rightarrow> bool" where
  "sent_log R dst tid bytes offer config r l \<longleftrightarrow>
     (\<exists>pre post. l = pre @ post \<and> (\<forall>e \<in> set pre. offer_entry dst offer e) \<and>
        (post = [] \<and> is_err r \<or>
         (\<exists>cs. 0 < cs \<and> cs \<le> sender_max_chunk_size config \<and>
            window_ok R dst tid bytes cs (window_chunks config) 0 post \<and>
            (\<forall>res. r = Ok res \<longrightarrow> acked_after R tid 0 post = length bytes \<and>
               sfr_transfer_id res = tid \<and> sfr_total_len res = length bytes \<and> sfr_chunk_size res = cs \<and>
               sfr_chunks_sent res = chunk_count post \<and> sfr_retries res \<le> max_retries config))))"

lemma send_accepted_log:
  assumes run: "send_accepted n rt (logging ops) R (b, l) dst tid bytes tmo config acc = Some (r, (b', l'))"
    and w: "0 < window_chunks config" and small: "length bytes < 2 ^ 32"
  shows "\<exists>post. l' = l @ post \<and> (post = [] \<and> is_err r \<or>
     (\<exists>cs. 0 < cs \<and> cs \<le> sender_max_chunk_size config \<and>
        window_ok R dst tid bytes cs (window_chunks config) 0 post \<and>
        (\<forall>res. r = Ok res \<longrightarrow> acked_after R tid 0 post = length bytes \<and>
           sfr_transfer_id res = tid \<and> sfr_total_len res = length bytes \<and> sfr_chunk_size res = cs \<and>
           sfr_chunks_sent res = chunk_count post \<and> sfr_retries res \<le> max_retries config)))"
proof -
  let ?cs = "unat (ack_chunk_size acc)"
  let ?s0 = "\<lparr>xf_chunks_sent = 0, xf_retries = 0, last_acked = 0, next_to_send = 0\<rparr>"
  show ?thesis
  proof (cases "?cs = 0 \<or> ?cs > sender_max_chunk_size config")
    case True
    then show ?thesis using run by (auto simp: send_accepted_def)
  next
    case False
    then obtain q b1 l1 where loop: "transfer_loop n rt (logging ops) R (b, l) dst tid bytes ?cs (window_chunks config)
        (max_retries config) tmo ?s0 = Some (q, (b1, l1))"
      using run by (cases "transfer_loop n rt (logging ops) R (b, l) dst tid bytes ?cs (window_chunks config) (max_retries config) tmo ?s0")
        (auto simp: send_accepted_def)
    have cs: "0 < ?cs" using False by simp
    from transfer_loop_log [OF cs w small _ _ loop] obtain es where es: "l1 = l @ es" "window_ok R dst tid bytes ?cs (window_chunks config) 0 es"
      "\<forall>s'. q = Ok s' \<longrightarrow> acked_after R tid 0 es = length bytes \<and> xf_retries s' \<le> max_retries config \<and> xf_chunks_sent s' = chunk_count es"
      by (auto simp: xfer_inv_def)
    have out: "l' = l1" "r = (case q of Ok s \<Rightarrow> Ok \<lparr>sfr_transfer_id = tid, sfr_total_len = length bytes, sfr_chunk_size = ?cs,
        sfr_chunks_sent = xf_chunks_sent s, sfr_retries = xf_retries s\<rparr> | Err e \<Rightarrow> Err e)"
      using run loop False by (auto simp: send_accepted_def split: result.splits)
    show ?thesis using es out False by (intro exI [of _ es] conjI disjI2 exI [of _ ?cs]) (auto split: result.splits)
  qed
qed

lemma send_file_with_id_log:
  assumes run: "send_file_with_id_impl n rt sha256 (logging ops) R (b, []) dst st tid bytes tmo config = Some (r, st', (b', l))"
  shows "sent_log R dst tid bytes
     (file_offer tid (word_of_nat (length bytes)) (word_of_nat (sender_max_chunk_size config)) [] Sha256 (sha256 bytes)) config r l"
proof -
  let ?offer = "file_offer tid (word_of_nat (length bytes)) (word_of_nat (sender_max_chunk_size config)) [] Sha256 (sha256 bytes)"
  have early: ?thesis if "l = []" "is_err r" using that by (auto simp: sent_log_def)
  show ?thesis
  proof (cases "0 < sender_max_chunk_size config \<and> 0 < window_chunks config \<and> length bytes < 2 ^ 32 \<and> sender_max_chunk_size config < 2 ^ 32")
    case False
    then have "l = [] \<and> is_err r"
      using run by (auto simp: send_file_with_id_impl_def send_config_validate_def u32_try_from_def Let_def split: if_splits)
    then show ?thesis using early by simp
  next
    case True
    let ?o = "offer_loop n rt (logging ops) R (b, []) dst ?offer tid tmo (max_retries config) 0"
    have eq: "send_file_with_id_impl n rt sha256 (logging ops) R (b, []) dst st tid bytes tmo config =
        (case ?o of None \<Rightarrow> None
         | Some (Err e, b1) \<Rightarrow> Some (Err e, observe_transfer_id st tid, b1)
         | Some (Ok accept, b1) \<Rightarrow> map_option (\<lambda>(r, b2). (r, observe_transfer_id st tid, b2))
             (send_accepted n rt (logging ops) R b1 dst tid bytes tmo config accept))"
      using True by (simp add: send_file_with_id_impl_def send_config_validate_def u32_try_from_def Let_def)
    then obtain q b1 l1 where offer: "?o = Some (q, (b1, l1))" using run by (cases ?o) auto
    from offer_loop_log [OF offer] have pre: "\<forall>e \<in> set l1. offer_entry dst ?offer e" by auto
    show ?thesis
    proof (cases q)
      case (Err e)
      then have "l = l1" "is_err r" using run eq offer by auto
      then show ?thesis using pre by (auto simp: sent_log_def)
    next
      case (Ok accept)
      then have "send_accepted n rt (logging ops) R (b1, l1) dst tid bytes tmo config accept = Some (r, (b', l))"
        using run eq offer by auto
      from send_accepted_log [OF this] True show ?thesis using pre by (auto simp: sent_log_def)
    qed
  qed
qed

section \<open>Properties\<close>

text \<open>A bus that accepts every message and delivers a script of events; when the script is over the
  timers fire.\<close>

fun script_recv :: "recv_event list \<Rightarrow> ft_kind \<Rightarrow> u8 \<Rightarrow> recv_event \<times> recv_event list" where
  "script_recv [] k src = (Elapsed, [])"
| "script_recv (ev # evs) k src = (ev, evs)"

definition script_bus :: "recv_event list bus_ops" where
  "script_bus = \<lparr>bus_send = \<lambda>b dst m tmo. (Ok (), b), bus_deadline = \<lambda>b tmo. b, bus_recv = script_recv,
     bus_recv_req = \<lambda>b src. None\<rparr>"

definition ack_event :: "u32 \<Rightarrow> file_ack_kind \<Rightarrow> u32 \<Rightarrow> u32 \<Rightarrow> recv_event" where
  "ack_event tid k next_offset cs = Arrived (flat_ack (file_ack_value_new tid k next_offset cs NoError))"

lemmas decode_flat_ack [simp] = decode_file_ack_fields_eq [OF rd_ack_flat]

lemmas sender_run_simps = send_file_with_id_impl_def send_accepted_def script_bus_def send_config_validate_def
  observe_transfer_id_def send_state_new_def u32_try_from_def wait_for_transfer_ack_def send_to_with_timeout_def
  offer_send_failure_def ack_event_def inflight_chunk_count_def advance_next_def on_ack_def file_ack_value_new_def
  Let_def slice_of_def div_ceil_def checked_add_def timeout_def





text \<open>Transfer ids: a send with an allocated id leaves the counter just behind that id, so that consecutive
  sends count through all 32-bit ids; after a send with a caller's id the next allocated id differs from it.\<close>

lemma transfer_ids_advance:
  assumes "send_file_impl n rt sha256 ops R b dst st bytes tmo config = Some (r, st', b')"
    and "send_config_validate config = Ok config"
    and "send_file_with_id_impl n rt sha256 ops R b dst st tid bytes tmo config = Some (r2, st2, b2)"
  shows "next_transfer_id st' = next_transfer_id st + 1 \<and> fst (alloc_transfer_id st2) \<noteq> tid"
proof -
  have obs: "s' = observe_transfer_id s i"
    if "send_file_with_id_impl n rt sha256 ops R b dst s i bytes tmo config = Some (q, s', c)" for s s' i q c
    using that assms(2) unfolding send_file_with_id_impl_def
    by (auto simp: Let_def split: option.splits result.splits prod.splits)
  have ne: "(i :: u32) \<noteq> i + 1" for i by simp
  have "st' = observe_transfer_id (st\<lparr>next_transfer_id := next_transfer_id st + 1\<rparr>) (next_transfer_id st)"
    using obs assms(1) by (simp add: send_file_impl_def alloc_transfer_id_def Let_def)
  moreover have "st2 = observe_transfer_id st tid" by (rule obs [OF assms(3)])
  ultimately show ?thesis using ne [of tid] by (auto simp: observe_transfer_id_def alloc_transfer_id_def Let_def)
qed

end
