(* ===== verification/FT_Receiver.thy ===== *)
theory FT_Receiver
  imports FT_Sender
begin

text \<open>
  The receiving side of \<open>thincan-file-transfer/src/tokio_impl.rs\<close>: \<open>recv_file_impl\<close> and its variant
  without allocation \<open>recv_file_no_alloc_impl\<close>. The store (the trait \<open>AsyncFileStore\<close>) is a record of
  operations on a state of its own, the incremental SHA-256 of the \<open>sha2\<close> crate a record of its three
  operations. Each receive is cut where the code has a block: reading and checking the request,
  opening the file, one iteration of the chunk loop, storing one chunk.
\<close>

section \<open>The store and the hasher\<close>

record ('s, 'h, 'se) store_ops =
  st_begin_write :: "'s \<Rightarrow> u32 \<Rightarrow> u32 \<Rightarrow> ('h, 'se) result \<times> 's"
  st_write_at :: "'s \<Rightarrow> 'h \<Rightarrow> u32 \<Rightarrow> bytes \<Rightarrow> (unit, 'se) result \<times> 'h \<times> 's"
  st_commit :: "'s \<Rightarrow> 'h \<Rightarrow> (unit, 'se) result \<times> 's"
  st_abort :: "'s \<Rightarrow> 'h \<Rightarrow> 's"

record 'hs hasher_ops =
  hs_new :: 'hs
  hs_update :: "'hs \<Rightarrow> bytes \<Rightarrow> 'hs"
  hs_finalize :: "'hs \<Rightarrow> bytes"

text \<open>The digest of the \<open>digest\<close> crates: updating piecewise and finalizing gives the digest of the whole.\<close>

definition hasher_laws :: "'hs hasher_ops \<Rightarrow> (bytes \<Rightarrow> bytes) \<Rightarrow> bool" where
  "hasher_laws H sha256 \<longleftrightarrow> (\<forall>pieces. hs_finalize H (foldl (hs_update H) (hs_new H) pieces) = sha256 (concat pieces))"

datatype ('se, 'ce) ft_error = FtStore 'se | FtProtocol | FtCapnp 'ce

section \<open>Requests\<close>

definition SHA256_HASH_LEN :: usize where "SHA256_HASH_LEN = 32"

definition PROGRESS_ACK_EVERY_CHUNKS :: u32 where "PROGRESS_ACK_EVERY_CHUNKS = 1"

definition validate_sha256_file_hash :: "bytes \<Rightarrow> (bytes, file_ack_error) result" where
  "validate_sha256_file_hash hash =
     (if hash = [] then Err HashMissing
      else if length hash \<noteq> SHA256_HASH_LEN then Err HashInvalidLength
      else Ok (copy_into (replicate SHA256_HASH_LEN 0) hash))"

definition negotiate_chunk_size :: "u32 \<Rightarrow> u32 \<Rightarrow> u32" where
  "negotiate_chunk_size r s =
     (if r = 0 \<and> s = 0 then 0 else if r = 0 then s else if s = 0 then r else min r s)"

record recv_request =
  rr_transfer_id :: u32
  rr_total_len :: u32
  rr_sender_max_chunk_size :: u32
  rr_negotiated :: u32
  rr_metadata :: bytes
  rr_file_hash_algo :: file_hash_algo
  rr_file_hash :: bytes

record recv_file_result =
  rfr_transfer_id :: u32
  rfr_total_len :: u32
  rfr_received_len :: u32
  rfr_sender_max_chunk_size :: u32
  rfr_negotiated_chunk_size :: u32
  rfr_metadata :: bytes
  rfr_file_hash_algo :: file_hash_algo
  rfr_file_hash :: bytes

definition recv_result :: "recv_request \<Rightarrow> u32 \<Rightarrow> recv_file_result" where
  "recv_result q received =
     \<lparr>rfr_transfer_id = rr_transfer_id q, rfr_total_len = rr_total_len q, rfr_received_len = received,
      rfr_sender_max_chunk_size = rr_sender_max_chunk_size q, rfr_negotiated_chunk_size = rr_negotiated q,
      rfr_metadata = rr_metadata q, rfr_file_hash_algo = rr_file_hash_algo q, rfr_file_hash = rr_file_hash q\<rparr>"

text \<open>A rejection is sent on a best-effort basis: \<open>let _ = send_to_with_timeout(..)\<close>.\<close>

definition send_reject :: "'b bus_ops \<Rightarrow> 'b \<Rightarrow> u8 \<Rightarrow> u32 \<Rightarrow> file_ack_error \<Rightarrow> duration \<Rightarrow> 'b" where
  "send_reject ops b src tid err tmo = snd (send_to_with_timeout ops b src (MAck (file_ack_reject tid err)) tmo)"

definition unwrap_bytes :: "bytes option \<Rightarrow> bytes" where
  "unwrap_bytes x = (case x of None \<Rightarrow> [] | Some bs \<Rightarrow> bs)"

text \<open>Reading and checking the request, up to the negotiated chunk size. \<open>None\<close>: no request ever comes.\<close>

definition recv_request_alloc ::
    "'b bus_ops \<Rightarrow> 'ce capnp_reader \<Rightarrow> 'b \<Rightarrow> u8 \<Rightarrow> duration \<Rightarrow> receiver_config \<Rightarrow>
     ((recv_request, ('se, 'ce) ft_error) result \<times> 'b) option" where
  "recv_request_alloc ops R b src tmo receiver =
     (case bus_recv_req ops b src of
        None \<Rightarrow> None
      | Some (Err _, b1) \<Rightarrow> Some (Err FtProtocol, b1)
      | Some (Ok body, b1) \<Rightarrow>
          (case rd_req R body of
             Err e \<Rightarrow> Some (Err (FtCapnp e), b1)
           | Ok root \<Rightarrow>
               let tid = rq_transfer_id root; metadata = unwrap_bytes (rq_file_metadata root);
                   file_hash = unwrap_bytes (rq_file_hash root) in
               (case rq_file_hash_algo root of
                  None \<Rightarrow> Some (Err FtProtocol, send_reject ops b1 src tid HashAlgoUnsupported tmo)
                | Some algo \<Rightarrow>
                    if algo \<noteq> Sha256 then Some (Err FtProtocol, send_reject ops b1 src tid HashAlgoUnsupported tmo)
                    else (case validate_sha256_file_hash file_hash of
                            Err e \<Rightarrow> Some (Err FtProtocol, send_reject ops b1 src tid e tmo)
                          | Ok expected \<Rightarrow>
                              let negotiated = negotiate_chunk_size (max_chunk_size receiver) (rq_sender_max_chunk_size root) in
                              if negotiated = 0 then Some (Err FtProtocol, send_reject ops b1 src tid ChunkSizeTooSmall tmo)
                              else Some (Ok \<lparr>rr_transfer_id = tid, rr_total_len = rq_total_len root,
                                     rr_sender_max_chunk_size = rq_sender_max_chunk_size root, rr_negotiated = negotiated,
                                     rr_metadata = metadata, rr_file_hash_algo = algo, rr_file_hash = expected\<rparr>, b1)))))"

section \<open>Chunks\<close>

fun chunk_wait_loop ::
    "nat \<Rightarrow> 'b bus_ops \<Rightarrow> 'ce capnp_reader \<Rightarrow> 'b \<Rightarrow> u8 \<Rightarrow> u32 \<Rightarrow> ((bytes, error) result \<times> 'b) option" where
  "chunk_wait_loop 0 ops R b src transfer_id = None"
| "chunk_wait_loop (Suc n) ops R b src transfer_id =
     (case bus_recv ops b KChunk src of
        (Elapsed, b1) \<Rightarrow> Some (Err timeout, b1)
      | (RecvFailed e, b1) \<Rightarrow> Some (Err e, b1)
      | (Arrived body, b1) \<Rightarrow>
          (case chunk_transfer_id R body of
             Err e \<Rightarrow> Some (Err e, b1)
           | Ok i \<Rightarrow> if i = transfer_id then Some (Ok body, b1) else chunk_wait_loop n ops R b1 src transfer_id))"

definition wait_for_transfer_chunk ::
    "nat \<Rightarrow> runtime \<Rightarrow> 'b bus_ops \<Rightarrow> 'ce capnp_reader \<Rightarrow> 'b \<Rightarrow> u8 \<Rightarrow> u32 \<Rightarrow> duration \<Rightarrow>
     ((bytes, error) result \<times> 'b) option" where
  "wait_for_transfer_chunk n rt ops R b src transfer_id tmo =
     chunk_wait_loop n ops R (bus_deadline ops b (runtime_timeout rt tmo)) src transfer_id"

record ('h, 'hs) rx_xfer =
  rx_handle :: 'h
  rx_hasher :: 'hs
  rx_next_offset :: u32
  rx_last_progress :: u32

datatype ('h, 'hs, 'se, 'ce) chunk_step =
    StepReturn "(recv_file_result, ('se, 'ce) ft_error) result"
  | StepContinue "('h, 'hs) rx_xfer"

text \<open>Abort the file, then tell the sender, best effort.\<close>

definition abort_and_tell ::
    "'b bus_ops \<Rightarrow> ('s, 'h, 'se) store_ops \<Rightarrow> 'b \<Rightarrow> 's \<Rightarrow> 'h \<Rightarrow> u8 \<Rightarrow> u32 \<Rightarrow> u32 \<Rightarrow> file_ack_error \<Rightarrow> duration \<Rightarrow> 'b \<times> 's" where
  "abort_and_tell ops S b st h src tid offset err tmo =
     (let st1 = st_abort S st h;
          (_, b1) = send_to_with_timeout ops b src (MAck (file_ack_value_new tid Abort offset 0 err)) tmo
      in (b1, st1))"

text \<open>The end of the file: compare the digest, commit, send the completion.\<close>

definition finish_file ::
    "'b bus_ops \<Rightarrow> ('s, 'h, 'se) store_ops \<Rightarrow> 'hs hasher_ops \<Rightarrow> recv_request \<Rightarrow> u8 \<Rightarrow> duration \<Rightarrow> ('h, 'hs) rx_xfer \<Rightarrow> 'b \<Rightarrow> 's \<Rightarrow>
     (recv_file_result, ('se, 'ce) ft_error) result \<times> 'b \<times> 's" where
  "finish_file ops S H q src tmo x b st =
     (let computed = hs_finalize H (rx_hasher x) in
      if computed \<noteq> rr_file_hash q then
        let (b1, st1) = abort_and_tell ops S b st (rx_handle x) src (rr_transfer_id q) (rr_total_len q) HashMismatch tmo
        in (Err FtProtocol, b1, st1)
      else
        (case st_commit S st (rx_handle x) of
           (Err e, st1) \<Rightarrow> (Err (FtStore e), b, st1)
         | (Ok _, st1) \<Rightarrow>
             (case send_to_with_timeout ops b src
                     (MAck (file_ack_value_new (rr_transfer_id q) Complete (rr_total_len q) 0 NoError)) tmo of
                (Err _, b1) \<Rightarrow> (Err FtProtocol, b1, st1)
              | (Ok _, b1) \<Rightarrow> (Ok (recv_result q (rr_total_len q)), b1, st1))))"

text \<open>Storing the accepted bytes of a chunk, and the progress acknowledgement.\<close>

definition store_chunk ::
    "'b bus_ops \<Rightarrow> ('s, 'h, 'se) store_ops \<Rightarrow> 'hs hasher_ops \<Rightarrow> recv_request \<Rightarrow> u8 \<Rightarrow> duration \<Rightarrow> ('h, 'hs) rx_xfer \<Rightarrow> bytes \<Rightarrow> 'b \<Rightarrow> 's \<Rightarrow>
     ('h, 'hs, 'se, 'ce) chunk_step \<times> 'b \<times> 's" where
  "store_chunk ops S H q src tmo x piece b st =
     (case st_write_at S st (rx_handle x) (rx_next_offset x) piece of
        (Err e, h1, st1) \<Rightarrow> (StepReturn (Err (FtStore e)), b, st_abort S st1 h1)
      | (Ok _, h1, st1) \<Rightarrow>
          let next_offset = saturating_add (rx_next_offset x) (word_of_nat (length piece));
              x1 = x\<lparr>rx_handle := h1, rx_hasher := hs_update H (rx_hasher x) piece, rx_next_offset := next_offset\<rparr> in
          if next_offset \<ge> rr_total_len q then
            let (r, b1, st2) = finish_file ops S H q src tmo x1 b st1 in (StepReturn r, b1, st2)
          else if saturating_sub next_offset (rx_last_progress x)
                  \<ge> saturating_mul (rr_negotiated q) PROGRESS_ACK_EVERY_CHUNKS then
            (case send_to_with_timeout ops b src (MAck (file_ack_progress (rr_transfer_id q) next_offset)) tmo of
               (Err _, b1) \<Rightarrow> (StepReturn (Err FtProtocol), b1, st_abort S st1 h1)
             | (Ok _, b1) \<Rightarrow> (StepContinue (x1\<lparr>rx_last_progress := next_offset\<rparr>), b1, st1))
          else (StepContinue x1, b, st1))"

text \<open>The reaction to a chunk that does not continue the file: tell the sender where the file ends.\<close>

definition resync ::
    "'b bus_ops \<Rightarrow> ('s, 'h, 'se) store_ops \<Rightarrow> recv_request \<Rightarrow> u8 \<Rightarrow> duration \<Rightarrow> ('h, 'hs) rx_xfer \<Rightarrow> 'b \<Rightarrow> 's \<Rightarrow>
     ('h, 'hs, 'se, 'ce) chunk_step \<times> 'b \<times> 's" where
  "resync ops S q src tmo x b st =
     (case send_to_with_timeout ops b src (MAck (file_ack_progress (rr_transfer_id q) (rx_next_offset x))) tmo of
        (Err _, b1) \<Rightarrow> (StepReturn (Err FtProtocol), b1, st_abort S st (rx_handle x))
      | (Ok _, b1) \<Rightarrow> (StepContinue (x\<lparr>rx_last_progress := rx_next_offset x\<rparr>), b1, st))"

definition recv_chunk ::
    "'b bus_ops \<Rightarrow> 'ce capnp_reader \<Rightarrow> ('s, 'h, 'se) store_ops \<Rightarrow> 'hs hasher_ops \<Rightarrow> recv_request \<Rightarrow> u8 \<Rightarrow> duration \<Rightarrow>
     ('h, 'hs) rx_xfer \<Rightarrow> bytes \<Rightarrow> 'b \<Rightarrow> 's \<Rightarrow> ('h, 'hs, 'se, 'ce) chunk_step \<times> 'b \<times> 's" where
  "recv_chunk ops R S H q src tmo x body b st =
     (let tid = rr_transfer_id q; next = rx_next_offset x in
      case rd_chunk R body of
        Err e \<Rightarrow>
          let (b1, st1) = abort_and_tell ops S b st (rx_handle x) src tid next InvalidRequest tmo
          in (StepReturn (Err (FtCapnp e)), b1, st1)
      | Ok root \<Rightarrow>
          let data = unwrap_bytes (ck_data root) in
          if ck_transfer_id root \<noteq> tid then
            let (b1, st1) = abort_and_tell ops S b st (rx_handle x) src tid next InvalidRequest tmo
            in (StepReturn (Err FtProtocol), b1, st1)
          else if word_of_nat (length data) > rr_negotiated q then
            let (b1, st1) = abort_and_tell ops S b st (rx_handle x) src tid next ChunkSizeTooLarge tmo
            in (StepReturn (Err FtProtocol), b1, st1)
          else if ck_offset root \<noteq> next then resync ops S q src tmo x b st
          else
            let remaining = saturating_sub (rr_total_len q) next;
                write_len = unat (min (word_of_nat (length data)) remaining) in
            if write_len = 0 then (StepContinue x, b, st)
            else store_chunk ops S H q src tmo x (take write_len data) b st)"

section \<open>The receive\<close>

fun recv_loop ::
    "nat \<Rightarrow> runtime \<Rightarrow> 'b bus_ops \<Rightarrow> 'ce capnp_reader \<Rightarrow> ('s, 'h, 'se) store_ops \<Rightarrow> 'hs hasher_ops \<Rightarrow> recv_request \<Rightarrow> u8 \<Rightarrow> duration \<Rightarrow>
     ('h, 'hs) rx_xfer \<Rightarrow> 'b \<Rightarrow> 's \<Rightarrow> ((recv_file_result, ('se, 'ce) ft_error) result \<times> 'b \<times> 's) option" where
  "recv_loop 0 rt ops R S H q src tmo x b st = None"
| "recv_loop (Suc n) rt ops R S H q src tmo x b st =
     (if rx_next_offset x < rr_total_len q then
        (case wait_for_transfer_chunk n rt ops R b src (rr_transfer_id q) tmo of
           None \<Rightarrow> None
         | Some (Err _, b1) \<Rightarrow> Some (Err FtProtocol, b1, st_abort S st (rx_handle x))
         | Some (Ok body, b1) \<Rightarrow>
             (case recv_chunk ops R S H q src tmo x body b1 st of
                (StepReturn r, b2, st2) \<Rightarrow> Some (r, b2, st2)
              | (StepContinue x1, b2, st2) \<Rightarrow> recv_loop n rt ops R S H q src tmo x1 b2 st2))
      else Some (Err FtProtocol, b, st))"

text \<open>Opening the file and accepting the offer. An empty file is finished here, without a completion.\<close>

datatype ('h, 'hs, 'se, 'ce) open_step =
    OpenReturn "(recv_file_result, ('se, 'ce) ft_error) result"
  | OpenReady "('h, 'hs) rx_xfer"

definition open_file ::
    "'b bus_ops \<Rightarrow> ('s, 'h, 'se) store_ops \<Rightarrow> 'hs hasher_ops \<Rightarrow> recv_request \<Rightarrow> u8 \<Rightarrow> duration \<Rightarrow> 'b \<Rightarrow> 's \<Rightarrow>
     ('h, 'hs, 'se, 'ce) open_step \<times> 'b \<times> 's" where
  "open_file ops S H q src tmo b st =
     (case st_begin_write S st (rr_transfer_id q) (rr_total_len q) of
        (Err e, st1) \<Rightarrow> (OpenReturn (Err (FtStore e)), b, st1)
      | (Ok h, st1) \<Rightarrow>
          let hasher = hs_new H in
          (case send_to_with_timeout ops b src (MAck (file_ack_accept (rr_transfer_id q) (rr_negotiated q))) tmo of
             (Err _, b1) \<Rightarrow> (OpenReturn (Err FtProtocol), b1, st_abort S st1 h)
           | (Ok _, b1) \<Rightarrow>
               if rr_total_len q = 0 then
                 if hs_finalize H hasher \<noteq> rr_file_hash q then
                   let (b2, st2) = abort_and_tell ops S b1 st1 h src (rr_transfer_id q) 0 HashMismatch tmo
                   in (OpenReturn (Err FtProtocol), b2, st2)
                 else
                   (case st_commit S st1 h of
                      (Err e, st2) \<Rightarrow> (OpenReturn (Err (FtStore e)), b1, st2)
                    | (Ok _, st2) \<Rightarrow> (OpenReturn (Ok (recv_result q 0)), b1, st2))
               else (OpenReady \<lparr>rx_handle = h, rx_hasher = hasher, rx_next_offset = 0, rx_last_progress = 0\<rparr>, b1, st1)))"

definition recv_file_impl ::
    "nat \<Rightarrow> runtime \<Rightarrow> 'b bus_ops \<Rightarrow> 'ce capnp_reader \<Rightarrow> ('s, 'h, 'se) store_ops \<Rightarrow> 'hs hasher_ops \<Rightarrow> 'b \<Rightarrow> u8 \<Rightarrow> 's \<Rightarrow> duration \<Rightarrow>
     receiver_config \<Rightarrow> ((recv_file_result, ('se, 'ce) ft_error) result \<times> 'b \<times> 's) option" where
  "recv_file_impl n rt ops R S H b src st tmo receiver =
     (case recv_request_alloc ops R b src tmo receiver of
        None \<Rightarrow> None
      | Some (Err e, b1) \<Rightarrow> Some (Err e, b1, st)
      | Some (Ok q, b1) \<Rightarrow>
          (case open_file ops S H q src tmo b1 st of
             (OpenReturn r, b2, st2) \<Rightarrow> Some (r, b2, st2)
           | (OpenReady x, b2, st2) \<Rightarrow> recv_loop n rt ops R S H q src tmo x b2 st2))"

definition recv_file ::
    "nat \<Rightarrow> runtime \<Rightarrow> 'b bus_ops \<Rightarrow> 'ce capnp_reader \<Rightarrow> ('s, 'h, 'se) store_ops \<Rightarrow> 'hs hasher_ops \<Rightarrow> 'b file_transfer_bundle_instance \<Rightarrow>
     u8 \<Rightarrow> 's \<Rightarrow> duration \<Rightarrow> receiver_config \<Rightarrow>
     ((recv_file_result, ('se, 'ce) ft_error) result \<times> 'b file_transfer_bundle_instance \<times> 's) option" where
  "recv_file n rt ops R S H self src st tmo receiver =
     map_option (\<lambda>(r, b, st'). (r, self\<lparr>fti_bus := b\<rparr>, st'))
       (recv_file_impl n rt ops R S H (fti_bus self) src st tmo receiver)"

end
