(* ===== verification/FT_Receiver_No_Alloc.thy ===== *)
theory FT_Receiver_No_Alloc
  imports FT_Receiver
begin

text \<open>
  \<open>recv_file_no_alloc_impl\<close> of \<open>thincan-file-transfer/src/tokio_impl.rs\<close>: the receive for targets
  without an allocator. The code is a second copy of \<open>recv_file_impl\<close> with vectors of fixed capacity
  for the metadata and the hash and a fixed array for the chunk; the definitions follow that copy, and
  the lemmas relate it to the first one.
\<close>

section \<open>The request\<close>

text \<open>\<open>heapless::Vec::extend_from_slice\<close> on an empty vector of capacity \<open>cap\<close>: the slice, or the vector as it
  was and an error.\<close>

definition heapless_extend :: "usize \<Rightarrow> bytes \<Rightarrow> bytes \<times> bool" where
  "heapless_extend cap bs = (if length bs \<le> cap then (bs, True) else ([], False))"

definition recv_request_no_alloc ::
    "usize \<Rightarrow> 'b bus_ops \<Rightarrow> 'ce capnp_reader \<Rightarrow> 'b \<Rightarrow> u8 \<Rightarrow> duration \<Rightarrow> receiver_config \<Rightarrow>
     ((recv_request, ('se, 'ce) ft_error) result \<times> 'b) option" where
  "recv_request_no_alloc MAX_METADATA ops R b src tmo receiver =
     (case bus_recv_req ops b src of
        None \<Rightarrow> None
      | Some (Err _, b1) \<Rightarrow> Some (Err FtProtocol, b1)
      | Some (Ok body, b1) \<Rightarrow>
          (case rd_req R body of
             Err e \<Rightarrow> Some (Err (FtCapnp e), b1)
           | Ok root \<Rightarrow>
               let tid = rq_transfer_id root;
                   (metadata, metadata_fits) = heapless_extend MAX_METADATA (unwrap_bytes (rq_file_metadata root));
                   (file_hash, file_hash_fits) = heapless_extend SHA256_HASH_LEN (unwrap_bytes (rq_file_hash root)) in
               if \<not> metadata_fits then Some (Err FtProtocol, send_reject ops b1 src tid InvalidRequest tmo)
               else if \<not> file_hash_fits then Some (Err FtProtocol, send_reject ops b1 src tid HashInvalidLength tmo)
               else
               (case rq_file_hash_algo root of
                  None \<Rightarrow> Some (Err FtProtocol, send_reject ops b1 src tid HashAlgoUnsupported tmo)
                | Some algo \<Rightarrow>
                    if algo \<noteq> Sha256 then Some (Err FtProtocol, send_reject ops b1 src tid HashAlgoUnsupported tmo)
                    else (case validate_sha256_file_hash file_hash of
                            Err e \<Rightarrow> Some (Err FtProtocol, send_reject ops b1 src tid e tmo)
                          | Ok expected \<Rightarrow>
                              let negotiated = negotiate_chunk_size (max_chunk_size receiver) (rq_sender_max_chunk_size root) in
                              if negotiated = 0 then Some (Err FtProtocol, send_reject ops b1 src tid ChunkSizeTooSmall tmo)
                              else Some (Ok \<lparr>rr_transfer_id = tid, rr_total_len = rq_total_len root,
                                     rr_sender_max_chunk_size = rq_sender_max_chunk_size root, rr_negotiated = negotiated,
                                     rr_metadata = metadata, rr_file_hash_algo = algo, rr_file_hash = expected\<rparr>, b1)))))"

section \<open>Chunks\<close>

definition finish_file_no_alloc ::
    "'b bus_ops \<Rightarrow> ('s, 'h, 'se) store_ops \<Rightarrow> 'hs hasher_ops \<Rightarrow> recv_request \<Rightarrow> u8 \<Rightarrow> duration \<Rightarrow> ('h, 'hs) rx_xfer \<Rightarrow> 'b \<Rightarrow> 's \<Rightarrow>
     (recv_file_result, ('se, 'ce) ft_error) result \<times> 'b \<times> 's" where
  "finish_file_no_alloc ops S H q src tmo x b st =
     (let computed = hs_finalize H (rx_hasher x) in
      if computed \<noteq> rr_file_hash q then
        let (b1, st1) = abort_and_tell ops S b st (rx_handle x) src (rr_transfer_id q) (rr_total_len q) HashMismatch tmo
        in (Err FtProtocol, b1, st1)
      else
        (case st_commit S st (rx_handle x) of
           (Err e, st1) \<Rightarrow> (Err (FtStore e), b, st1)
         | (Ok _, st1) \<Rightarrow>
             (case send_to_with_timeout ops b src
                     (MAck (file_ack_value_new (rr_transfer_id q) Complete (rr_total_len q) 0 NoError)) tmo of
                (Err _, b1) \<Rightarrow> (Err FtProtocol, b1, st1)
              | (Ok _, b1) \<Rightarrow> (Ok (recv_result q (rr_total_len q)), b1, st1))))"

definition store_chunk_no_alloc ::
    "'b bus_ops \<Rightarrow> ('s, 'h, 'se) store_ops \<Rightarrow> 'hs hasher_ops \<Rightarrow> recv_request \<Rightarrow> u8 \<Rightarrow> duration \<Rightarrow> ('h, 'hs) rx_xfer \<Rightarrow> bytes \<Rightarrow> 'b \<Rightarrow> 's \<Rightarrow>
     ('h, 'hs, 'se, 'ce) chunk_step \<times> 'b \<times> 's" where
  "store_chunk_no_alloc ops S H q src tmo x piece b st =
     (case st_write_at S st (rx_handle x) (rx_next_offset x) piece of
        (Err e, h1, st1) \<Rightarrow> (StepReturn (Err (FtStore e)), b, st_abort S st1 h1)
      | (Ok _, h1, st1) \<Rightarrow>
          let next_offset = saturating_add (rx_next_offset x) (word_of_nat (length piece));
              x1 = x\<lparr>rx_handle := h1, rx_hasher := hs_update H (rx_hasher x) piece, rx_next_offset := next_offset\<rparr> in
          if next_offset \<ge> rr_total_len q then
            let (r, b1, st2) = finish_file_no_alloc ops S H q src tmo x1 b st1 in (StepReturn r, b1, st2)
          else if saturating_sub next_offset (rx_last_progress x)
                  \<ge> saturating_mul (rr_negotiated q) PROGRESS_ACK_EVERY_CHUNKS then
            (case send_to_with_timeout ops b src (MAck (file_ack_progress (rr_transfer_id q) next_offset)) tmo of
               (Err _, b1) \<Rightarrow> (StepReturn (Err FtProtocol), b1, st_abort S st1 h1)
             | (Ok _, b1) \<Rightarrow> (StepContinue (x1\<lparr>rx_last_progress := next_offset\<rparr>), b1, st1))
          else (StepContinue x1, b, st1))"

definition resync_no_alloc ::
    "'b bus_ops \<Rightarrow> ('s, 'h, 'se) store_ops \<Rightarrow> recv_request \<Rightarrow> u8 \<Rightarrow> duration \<Rightarrow> ('h, 'hs) rx_xfer \<Rightarrow> 'b \<Rightarrow> 's \<Rightarrow>
     ('h, 'hs, 'se, 'ce) chunk_step \<times> 'b \<times> 's" where
  "resync_no_alloc ops S q src tmo x b st =
     (case send_to_with_timeout ops b src (MAck (file_ack_progress (rr_transfer_id q) (rx_next_offset x))) tmo of
        (Err _, b1) \<Rightarrow> (StepReturn (Err FtProtocol), b1, st_abort S st (rx_handle x))
      | (Ok _, b1) \<Rightarrow> (StepContinue (x\<lparr>rx_last_progress := rx_next_offset x\<rparr>), b1, st))"

definition recv_chunk_no_alloc ::
    "usize \<Rightarrow> 'b bus_ops \<Rightarrow> 'ce capnp_reader \<Rightarrow> ('s, 'h, 'se) store_ops \<Rightarrow> 'hs hasher_ops \<Rightarrow> recv_request \<Rightarrow> u8 \<Rightarrow> duration \<Rightarrow>
     ('h, 'hs) rx_xfer \<Rightarrow> bytes \<Rightarrow> 'b \<Rightarrow> 's \<Rightarrow> ('h, 'hs, 'se, 'ce) chunk_step \<times> 'b \<times> 's" where
  "recv_chunk_no_alloc MAX_CHUNK ops R S H q src tmo x body b st =
     (let tid = rr_transfer_id q; next = rx_next_offset x in
      case rd_chunk R body of
        Err e \<Rightarrow>
          let (b1, st1) = abort_and_tell ops S b st (rx_handle x) src tid next InvalidRequest tmo
          in (StepReturn (Err (FtCapnp e)), b1, st1)
      | Ok root \<Rightarrow>
          let data = unwrap_bytes (ck_data root);
              data_len = length data;
              copy_len = min data_len MAX_CHUNK;
              chunk_data = copy_into (replicate MAX_CHUNK 0) (take copy_len data) in
          if ck_transfer_id root \<noteq> tid then
            let (b1, st1) = abort_and_tell ops S b st (rx_handle x) src tid next InvalidRequest tmo
            in (StepReturn (Err FtProtocol), b1, st1)
          else if data_len > MAX_CHUNK \<or> word_of_nat data_len > rr_negotiated q then
            let (b1, st1) = abort_and_tell ops S b st (rx_handle x) src tid next ChunkSizeTooLarge tmo
            in (StepReturn (Err FtProtocol), b1, st1)
          else if ck_offset root \<noteq> next then resync_no_alloc ops S q src tmo x b st
          else
            let remaining = saturating_sub (rr_total_len q) next;
                write_len = min copy_len (unat remaining) in
            if write_len = 0 then (StepContinue x, b, st)
            else store_chunk_no_alloc ops S H q src tmo x (take write_len chunk_data) b st)"

section \<open>The receive\<close>

fun recv_loop_no_alloc ::
    "nat \<Rightarrow> usize \<Rightarrow> runtime \<Rightarrow> 'b bus_ops \<Rightarrow> 'ce capnp_reader \<Rightarrow> ('s, 'h, 'se) store_ops \<Rightarrow> 'hs hasher_ops \<Rightarrow> recv_request \<Rightarrow> u8 \<Rightarrow> duration \<Rightarrow>
     ('h, 'hs) rx_xfer \<Rightarrow> 'b \<Rightarrow> 's \<Rightarrow> ((recv_file_result, ('se, 'ce) ft_error) result \<times> 'b \<times> 's) option" where
  "recv_loop_no_alloc 0 MAX_CHUNK rt ops R S H q src tmo x b st = None"
| "recv_loop_no_alloc (Suc n) MAX_CHUNK rt ops R S H q src tmo x b st =
     (if rx_next_offset x < rr_total_len q then
        (case wait_for_transfer_chunk n rt ops R b src (rr_transfer_id q) tmo of
           None \<Rightarrow> None
         | Some (Err _, b1) \<Rightarrow> Some (Err FtProtocol, b1, st_abort S st (rx_handle x))
         | Some (Ok body, b1) \<Rightarrow>
             (case recv_chunk_no_alloc MAX_CHUNK ops R S H q src tmo x body b1 st of
                (StepReturn r, b2, st2) \<Rightarrow> Some (r, b2, st2)
              | (StepContinue x1, b2, st2) \<Rightarrow> recv_loop_no_alloc n MAX_CHUNK rt ops R S H q src tmo x1 b2 st2))
      else Some (Err FtProtocol, b, st))"

definition open_file_no_alloc ::
    "'b bus_ops \<Rightarrow> ('s, 'h, 'se) store_ops \<Rightarrow> 'hs hasher_ops \<Rightarrow> recv_request \<Rightarrow> u8 \<Rightarrow> duration \<Rightarrow> 'b \<Rightarrow> 's \<Rightarrow>
     ('h, 'hs, 'se, 'ce) open_step \<times> 'b \<times> 's" where
  "open_file_no_alloc ops S H q src tmo b st =
     (case st_begin_write S st (rr_transfer_id q) (rr_total_len q) of
        (Err e, st1) \<Rightarrow> (OpenReturn (Err (FtStore e)), b, st1)
      | (Ok h, st1) \<Rightarrow>
          let hasher = hs_new H in
          (case send_to_with_timeout ops b src (MAck (file_ack_accept (rr_transfer_id q) (rr_negotiated q))) tmo of
             (Err _, b1) \<Rightarrow> (OpenReturn (Err FtProtocol), b1, st_abort S st1 h)
           | (Ok _, b1) \<Rightarrow>
               if rr_total_len q = 0 then
                 if hs_finalize H hasher \<noteq> rr_file_hash q then
                   let (b2, st2) = abort_and_tell ops S b1 st1 h src (rr_transfer_id q) 0 HashMismatch tmo
                   in (OpenReturn (Err FtProtocol), b2, st2)
                 else
                   (case st_commit S st1 h of
                      (Err e, st2) \<Rightarrow> (OpenReturn (Err (FtStore e)), b1, st2)
                    | (Ok _, st2) \<Rightarrow> (OpenReturn (Ok (recv_result q 0)), b1, st2))
               else (OpenReady \<lparr>rx_handle = h, rx_hasher = hasher, rx_next_offset = 0, rx_last_progress = 0\<rparr>, b1, st1)))"

definition recv_file_no_alloc_impl ::
    "nat \<Rightarrow> usize \<Rightarrow> usize \<Rightarrow> runtime \<Rightarrow> 'b bus_ops \<Rightarrow> 'ce capnp_reader \<Rightarrow> ('s, 'h, 'se) store_ops \<Rightarrow> 'hs hasher_ops \<Rightarrow> 'b \<Rightarrow> u8 \<Rightarrow> 's \<Rightarrow> duration \<Rightarrow>
     receiver_config \<Rightarrow> ((recv_file_result, ('se, 'ce) ft_error) result \<times> 'b \<times> 's) option" where
  "recv_file_no_alloc_impl n MAX_METADATA MAX_CHUNK rt ops R S H b src st tmo receiver =
     (case recv_request_no_alloc MAX_METADATA ops R b src tmo receiver of
        None \<Rightarrow> None
      | Some (Err e, b1) \<Rightarrow> Some (Err e, b1, st)
      | Some (Ok q, b1) \<Rightarrow>
          (case open_file_no_alloc ops S H q src tmo b1 st of
             (OpenReturn r, b2, st2) \<Rightarrow> Some (r, b2, st2)
           | (OpenReady x, b2, st2) \<Rightarrow> recv_loop_no_alloc n MAX_CHUNK rt ops R S H q src tmo x b2 st2))"

definition recv_file_no_alloc ::
    "nat \<Rightarrow> usize \<Rightarrow> usize \<Rightarrow> runtime \<Rightarrow> 'b bus_ops \<Rightarrow> 'ce capnp_reader \<Rightarrow> ('s, 'h, 'se) store_ops \<Rightarrow> 'hs hasher_ops \<Rightarrow>
     'b file_transfer_bundle_instance \<Rightarrow> u8 \<Rightarrow> 's \<Rightarrow> duration \<Rightarrow> receiver_config \<Rightarrow>
     ((recv_file_result, ('se, 'ce) ft_error) result \<times> 'b file_transfer_bundle_instance \<times> 's) option" where
  "recv_file_no_alloc n MAX_METADATA MAX_CHUNK rt ops R S H self src st tmo receiver =
     map_option (\<lambda>(r, b, st'). (r, self\<lparr>fti_bus := b\<rparr>, st'))
       (recv_file_no_alloc_impl n MAX_METADATA MAX_CHUNK rt ops R S H (fti_bus self) src st tmo receiver)"

section \<open>Equivalence with the allocating receive\<close>

lemma finish_file_no_alloc_eq: "finish_file_no_alloc = finish_file"
  by (intro ext) (simp add: finish_file_no_alloc_def finish_file_def)

lemma store_chunk_no_alloc_eq: "store_chunk_no_alloc = store_chunk"
  unfolding store_chunk_no_alloc_def [abs_def] store_chunk_def [abs_def] finish_file_no_alloc_eq by (rule refl)

lemma resync_no_alloc_eq: "resync_no_alloc = resync"
  by (intro ext) (simp add: resync_no_alloc_def resync_def)

lemma open_file_no_alloc_eq: "open_file_no_alloc = open_file"
  by (intro ext) (simp add: open_file_no_alloc_def open_file_def)

lemmas no_alloc_copies = finish_file_no_alloc_eq store_chunk_no_alloc_eq resync_no_alloc_eq open_file_no_alloc_eq

text \<open>Cap'n Proto lists have fewer than \<open>2 ^ 29\<close> elements.\<close>

definition reader_bounded :: "'ce capnp_reader \<Rightarrow> bool" where
  "reader_bounded R \<longleftrightarrow> (\<forall>body root. rd_chunk R body = Ok root \<longrightarrow> length (unwrap_bytes (ck_data root)) < 2 ^ 29)"

lemma recv_chunk_no_alloc_eq:
  assumes R: "reader_bounded R" and big: "unat (rr_negotiated q) \<le> MAX_CHUNK"
  shows "recv_chunk_no_alloc MAX_CHUNK ops R S H q src tmo x body b st = recv_chunk ops R S H q src tmo x body b st"
proof (cases "rd_chunk R body")
  case (Err e)
  then show ?thesis by (simp add: recv_chunk_no_alloc_def recv_chunk_def no_alloc_copies)
next
  case (Ok root)
  let ?data = "unwrap_bytes (ck_data root)"
  have "length ?data < 2 ^ 29" using R Ok by (auto simp: reader_bounded_def)
  then have len: "unat (word_of_nat (length ?data) :: u32) = length ?data" by (intro unat_of_nat32) simp
  have guard: "(length ?data > MAX_CHUNK \<or> word_of_nat (length ?data) > rr_negotiated q) = (word_of_nat (length ?data) > rr_negotiated q)"
    using big len by (auto simp: word_less_nat_alt)
  have piece: "take (min (min (length ?data) MAX_CHUNK) k) (copy_into (replicate MAX_CHUNK 0) (take (min (length ?data) MAX_CHUNK) ?data))
      = take (min (length ?data) k) ?data"
    if "\<not> word_of_nat (length ?data) > rr_negotiated q" for k
  proof -
    have "length ?data \<le> MAX_CHUNK" using that big len by (simp add: word_less_nat_alt)
    then show ?thesis by (simp add: copy_into_def min_def)
  qed
  have wl: "unat (min (word_of_nat (length ?data)) y) = min (length ?data) (unat y)" for y :: u32
    using len by (simp add: min_def word_le_nat_alt)
  show ?thesis
  proof (cases "word_of_nat (length ?data) > rr_negotiated q")
    case True
    then show ?thesis using Ok by (simp add: recv_chunk_no_alloc_def recv_chunk_def no_alloc_copies Let_def)
  next
    case False
    have "length ?data \<le> MAX_CHUNK" using False big len by (simp add: word_less_nat_alt)
    moreover have "min (length d) k = 0 \<longleftrightarrow> d = [] \<or> k = 0" for d :: bytes and k by (auto simp: min_def)
    ultimately show ?thesis using Ok False piece [OF False]
      by (auto simp: recv_chunk_no_alloc_def recv_chunk_def no_alloc_copies Let_def wl)
  qed
qed

lemma recv_loop_no_alloc_eq:
  assumes "reader_bounded R" and "unat (rr_negotiated q) \<le> MAX_CHUNK"
  shows "recv_loop_no_alloc n MAX_CHUNK rt ops R S H q src tmo x b st = recv_loop n rt ops R S H q src tmo x b st"
proof (induction n arbitrary: x b st)
  case (Suc n)
  show ?case
    unfolding recv_loop_no_alloc.simps recv_loop.simps recv_chunk_no_alloc_eq [OF assms] Suc.IH by (rule refl)
qed simp

end
