(* ===== verification/FT_Receiver_Props.thy ===== *)
theory FT_Receiver_Props
  imports FT_Receiver_No_Alloc FT_Sender_Props
begin

text \<open>
  What the receiver of \<open>tokio_impl.rs\<close> does to the store. The wrapper \<open>log_store\<close> records every call the
  receiver makes on the store and whether it succeeded. The protocol the trait \<open>AsyncFileStore\<close> is used
  with is an automaton over these records: a file is opened once, written from the front without gaps,
  and closed once, by a commit of the complete and verified file or by an abort.
\<close>

section \<open>The log of the store\<close>

datatype store_log = SBegin u32 u32 bool | SWrite u32 bytes bool | SCommit bool | SAbort

definition log_store :: "('s, 'h, 'se) store_ops \<Rightarrow> ('s \<times> store_log list, 'h, 'se) store_ops" where
  "log_store S =
     \<lparr>st_begin_write = \<lambda>(st, l) tid n. case st_begin_write S st tid n of (r, st') \<Rightarrow> (r, st', l @ [SBegin tid n (is_ok r)]),
      st_write_at = \<lambda>(st, l) h off bs. case st_write_at S st h off bs of (r, h', st') \<Rightarrow> (r, h', st', l @ [SWrite off bs (is_ok r)]),
      st_commit = \<lambda>(st, l) h. case st_commit S st h of (r, st') \<Rightarrow> (r, st', l @ [SCommit (is_ok r)]),
      st_abort = \<lambda>(st, l) h. (st_abort S st h, l @ [SAbort])\<rparr>"

datatype store_phase = PIdle | PRefused | PWriting bytes | PBroken | PAborted | PCommitted bytes bool

fun store_step :: "(bytes \<Rightarrow> bytes) \<Rightarrow> recv_request \<Rightarrow> store_phase \<Rightarrow> store_log \<Rightarrow> store_phase option" where
  "store_step sha256 q PIdle (SBegin tid n ok) =
     (if tid = rr_transfer_id q \<and> n = rr_total_len q then Some (if ok then PWriting [] else PRefused) else None)"
| "store_step sha256 q (PWriting acc) (SWrite off bs ok) =
     (if unat off = length acc \<and> bs \<noteq> [] \<and> length acc + length bs \<le> unat (rr_total_len q)
      then Some (if ok then PWriting (acc @ bs) else PBroken) else None)"
| "store_step sha256 q (PWriting acc) (SCommit ok) =
     (if length acc = unat (rr_total_len q) \<and> sha256 acc = rr_file_hash q then Some (PCommitted acc ok) else None)"
| "store_step sha256 q (PWriting acc) SAbort = Some PAborted"
| "store_step sha256 q PBroken SAbort = Some PAborted"
| "store_step sha256 q _ _ = None"

fun store_run :: "(bytes \<Rightarrow> bytes) \<Rightarrow> recv_request \<Rightarrow> store_phase \<Rightarrow> store_log list \<Rightarrow> store_phase option" where
  "store_run sha256 q p [] = Some p"
| "store_run sha256 q p (e # es) = (case store_step sha256 q p e of None \<Rightarrow> None | Some p' \<Rightarrow> store_run sha256 q p' es)"

fun closed :: "store_phase \<Rightarrow> bool" where
  "closed PRefused = True"
| "closed PAborted = True"
| "closed (PCommitted acc ok) = True"
| "closed _ = False"

lemma store_run_append:
  "store_run sha256 q p (xs @ ys) = (case store_run sha256 q p xs of None \<Rightarrow> None | Some p' \<Rightarrow> store_run sha256 q p' ys)"
  by (induction xs arbitrary: p) (auto split: option.splits)

lemma log_store_simps [simp]:
  "st_begin_write S st tid n = (r, st') \<Longrightarrow> st_begin_write (log_store S) (st, l) tid n = (r, st', l @ [SBegin tid n (is_ok r)])"
  "st_write_at S st h off bs = (r2, h', st') \<Longrightarrow> st_write_at (log_store S) (st, l) h off bs = (r2, h', st', l @ [SWrite off bs (is_ok r2)])"
  "st_commit S st h = (r2, st') \<Longrightarrow> st_commit (log_store S) (st, l) h = (r2, st', l @ [SCommit (is_ok r2)])"
  "st_abort (log_store S) (st, l) h = (st_abort S st h, l @ [SAbort])"
  by (simp_all add: log_store_def)

section \<open>Invariants\<close>

definition rx_inv :: "'hs hasher_ops \<Rightarrow> (bytes \<Rightarrow> bytes) \<Rightarrow> recv_request \<Rightarrow> ('h, 'hs) rx_xfer \<Rightarrow> store_log list \<Rightarrow> bool" where
  "rx_inv H sha256 q x l \<longleftrightarrow>
     (\<exists>pieces. store_run sha256 q PIdle l = Some (PWriting (concat pieces)) \<and>
        rx_hasher x = foldl (hs_update H) (hs_new H) pieces \<and>
        unat (rx_next_offset x) = length (concat pieces) \<and> rx_next_offset x < rr_total_len q)"

definition rx_final :: "(bytes \<Rightarrow> bytes) \<Rightarrow> recv_request \<Rightarrow> (recv_file_result, 'e) result \<Rightarrow> store_log list \<Rightarrow> bool" where
  "rx_final sha256 q r l \<longleftrightarrow>
     (\<exists>p. store_run sha256 q PIdle l = Some p \<and> closed p \<and>
        (\<forall>res. r = Ok res \<longrightarrow> res = recv_result q (rr_total_len q) \<and> (\<exists>file. p = PCommitted file True)))"

lemma rx_final_abort:
  "store_run sha256 q PIdle l = Some (PWriting acc) \<Longrightarrow> rx_final sha256 q (Err e) (l @ [SAbort])"
  by (simp add: rx_final_def store_run_append)

lemma abort_and_tell_log:
  "abort_and_tell ops (log_store S) b (st, l) h src tid off err tmo = (b', st', l') \<Longrightarrow> l' = l @ [SAbort]"
  by (auto simp: abort_and_tell_def Let_def split: prod.splits)

lemma finish_file_final:
  assumes H: "hasher_laws H sha256"
    and run: "store_run sha256 q PIdle l = Some (PWriting (concat pieces))"
    and hs: "rx_hasher x = foldl (hs_update H) (hs_new H) pieces" and len: "length (concat pieces) = unat (rr_total_len q)"
    and fin: "finish_file ops (log_store S) H q src tmo x b (st, l) = (r, b', (st', l'))"
  shows "rx_final sha256 q r l'"
proof -
  have dig: "hs_finalize H (rx_hasher x) = sha256 (concat pieces)" using H hs by (simp add: hasher_laws_def)
  obtain r2 st1 where commit: "st_commit S st (rx_handle x) = (r2, st1)" by (cases "st_commit S st (rx_handle x)")
  show ?thesis
  proof (cases "sha256 (concat pieces) = rr_file_hash q")
    case False
    then have "r = Err FtProtocol" "l' = l @ [SAbort]"
      using fin dig by (auto simp: finish_file_def Let_def dest: abort_and_tell_log split: prod.splits)
    then show ?thesis using rx_final_abort [OF run] by simp
  next
    case True
    have step: "store_run sha256 q PIdle (l @ [SCommit ok]) = Some (PCommitted (concat pieces) ok)" for ok
      using run len True by (simp add: store_run_append)
    have "l' = l @ [SCommit (is_ok r2)]" and "\<forall>res. r = Ok res \<longrightarrow> res = recv_result q (rr_total_len q) \<and> is_ok r2"
      using fin dig True commit by (auto simp: finish_file_def Let_def split: prod.splits result.splits)
    then show ?thesis using step by (auto simp: rx_final_def)
  qed
qed

lemma store_chunk_log:
  fixes step :: "('h, 'hs, 'se, 'ce) chunk_step"
  assumes H: "hasher_laws H sha256" and inv: "rx_inv H sha256 q x l"
    and piece: "piece \<noteq> []" "unat (rx_next_offset x) + length piece \<le> unat (rr_total_len q)"
    and run: "store_chunk ops (log_store S) H q src tmo x piece b (st, l) = (step, b', (st', l'))"
  shows "case step of StepReturn r \<Rightarrow> rx_final sha256 q r l' | StepContinue x' \<Rightarrow> rx_inv H sha256 q x' l'"
proof -
  obtain pieces where p: "store_run sha256 q PIdle l = Some (PWriting (concat pieces))"
    "rx_hasher x = foldl (hs_update H) (hs_new H) pieces" "unat (rx_next_offset x) = length (concat pieces)"
    using inv by (auto simp: rx_inv_def)
  obtain w h1 st1 where wr: "st_write_at S st (rx_handle x) (rx_next_offset x) piece = (w, h1, st1)" by (metis prod_cases3)
  let ?l1 = "l @ [SWrite (rx_next_offset x) piece (is_ok w)]"
  have l1: "store_run sha256 q PIdle ?l1 = Some (if is_ok w then PWriting (concat (pieces @ [piece])) else PBroken)"
    using p piece by (simp add: store_run_append)
  show ?thesis
  proof (cases w)
    case (Err e)
    have "l' = ?l1 @ [SAbort]" "step = StepReturn (Err (FtStore e))" using run wr Err by (auto simp: store_chunk_def)
    moreover have "store_run sha256 q PIdle (?l1 @ [SAbort]) = Some PAborted"
      using l1 Err by (simp only: store_run_append) simp
    ultimately show ?thesis by (simp add: rx_final_def)
  next
    case (Ok u)
    let ?n = "saturating_add (rx_next_offset x) (word_of_nat (length piece))"
    let ?x1 = "x\<lparr>rx_handle := h1, rx_hasher := hs_update H (rx_hasher x) piece, rx_next_offset := ?n\<rparr>"
    have lt: "unat (rr_total_len q) < 2 ^ 32" using unsigned_less [of "rr_total_len q"] by simp
    have len: "unat (word_of_nat (length piece) :: u32) = length piece" using piece(2) lt by (intro unat_of_nat32) simp
    have n: "unat ?n = length (concat (pieces @ [piece]))"
      using p(3) piece(2) lt len by (simp add: unat_saturating_add)
    have hs: "rx_hasher ?x1 = foldl (hs_update H) (hs_new H) (pieces @ [piece])" using p(2) by simp
    show ?thesis
    proof (cases "?n \<ge> rr_total_len q")
      case True
      obtain r :: "(recv_file_result, ('se, 'ce) ft_error) result" and b1 st2 l2
        where fin: "finish_file ops (log_store S) H q src tmo ?x1 b (st1, ?l1) = (r, b1, (st2, l2))" by (metis prod_cases4)
      have "length (concat (pieces @ [piece])) = unat (rr_total_len q)" using n True piece(2) p(3) by (simp add: word_le_nat_alt)
      from finish_file_final [OF H _ hs this fin] l1 Ok have "rx_final sha256 q r l2" by simp
      moreover have "step = StepReturn r" "l' = l2" using run wr Ok True fin by (simp_all add: store_chunk_def Let_def)
      ultimately show ?thesis by simp
    next
      case False
      then have inv': "rx_inv H sha256 q (?x1\<lparr>rx_last_progress := y\<rparr>) ?l1" "rx_inv H sha256 q ?x1 ?l1" for y
        using l1 Ok hs n by (auto simp: rx_inv_def intro!: exI [of _ "pieces @ [piece]"])
      have ab: "rx_final sha256 q (Err e) (?l1 @ [SAbort])" for e using l1 Ok by (intro rx_final_abort) simp
      show ?thesis
      proof (cases "saturating_sub ?n (rx_last_progress x) \<ge> saturating_mul (rr_negotiated q) PROGRESS_ACK_EVERY_CHUNKS")
        case True
        obtain s b1 where "send_to_with_timeout ops b src (MAck (file_ack_progress (rr_transfer_id q) ?n)) tmo = (s, b1)" by (metis surj_pair)
        then show ?thesis using run wr Ok False True inv'(1) ab by (cases s) (auto simp: store_chunk_def Let_def)
      next
        case no_ack: False
        then show ?thesis using run wr Ok False inv'(2) by (auto simp: store_chunk_def Let_def)
      qed
    qed
  qed
qed

lemma recv_chunk_log:
  assumes H: "hasher_laws H sha256" and inv: "rx_inv H sha256 q x l"
    and run: "recv_chunk ops R (log_store S) H q src tmo x body b (st, l) = (step, b', (st', l'))"
  shows "case step of StepReturn r \<Rightarrow> rx_final sha256 q r l' | StepContinue x' \<Rightarrow> rx_inv H sha256 q x' l'"
proof -
  obtain pieces where p: "store_run sha256 q PIdle l = Some (PWriting (concat pieces))" and lt: "rx_next_offset x < rr_total_len q"
    using inv by (auto simp: rx_inv_def)
  have abort: ?thesis if "abort_and_tell ops (log_store S) b (st, l) (rx_handle x) src (rr_transfer_id q) off err tmo = (b', (st', l'))"
    "step = StepReturn (Err e)" for off err e
    using that rx_final_abort [OF p] abort_and_tell_log [OF that(1)] by simp
  show ?thesis
  proof (cases "rd_chunk R body")
    case (Err e)
    then show ?thesis using run abort by (auto simp: recv_chunk_def Let_def split: prod.splits)
  next
    case (Ok root)
    let ?data = "unwrap_bytes (ck_data root)"
    let ?rem = "saturating_sub (rr_total_len q) (rx_next_offset x)"
    let ?wl = "unat (min (word_of_nat (length ?data)) ?rem)"
    consider (bad) "ck_transfer_id root \<noteq> rr_transfer_id q \<or> word_of_nat (length ?data) > rr_negotiated q"
      | (skip) "\<not> (ck_transfer_id root \<noteq> rr_transfer_id q \<or> word_of_nat (length ?data) > rr_negotiated q)" "ck_offset root \<noteq> rx_next_offset x"
      | (none) "\<not> (ck_transfer_id root \<noteq> rr_transfer_id q \<or> word_of_nat (length ?data) > rr_negotiated q)" "ck_offset root = rx_next_offset x" "?wl = 0"
      | (some) "\<not> (ck_transfer_id root \<noteq> rr_transfer_id q \<or> word_of_nat (length ?data) > rr_negotiated q)" "ck_offset root = rx_next_offset x" "?wl \<noteq> 0"
      by blast
    then show ?thesis
    proof cases
      case bad
      then show ?thesis using run Ok abort by (auto simp: recv_chunk_def Let_def split: prod.splits if_splits)
    next
      case skip
      then have res: "resync ops (log_store S) q src tmo x b (st, l) = (step, b', (st', l'))"
        using run Ok by (simp add: recv_chunk_def Let_def)
      obtain s b1 where send: "send_to_with_timeout ops b src (MAck (file_ack_progress (rr_transfer_id q) (rx_next_offset x))) tmo = (s, b1)"
        by (metis surj_pair)
      have "rx_inv H sha256 q (x\<lparr>rx_last_progress := y\<rparr>) l" for y using inv by (simp add: rx_inv_def)
      then show ?thesis using res send rx_final_abort [OF p] by (cases s) (auto simp: resync_def)
    next
      case none
      then show ?thesis using run Ok inv by (auto simp: recv_chunk_def Let_def)
    next
      case some
      then have st: "store_chunk ops (log_store S) H q src tmo x (take ?wl ?data) b (st, l) = (step, b', (st', l'))"
        using run Ok by (simp add: recv_chunk_def Let_def)
      have rem: "?wl \<le> unat (rr_total_len q) - unat (rx_next_offset x)"
        by (metis min.cobounded2 unat_saturating_sub word_le_nat_alt)
      have "take ?wl ?data \<noteq> []" using some(3) by (auto simp: min_def split: if_splits)
      then show ?thesis using store_chunk_log [OF H inv _ _ st] rem lt by (auto simp: word_less_nat_alt)
    qed
  qed
qed

lemma recv_loop_log:
  assumes H: "hasher_laws H sha256"
  shows "rx_inv H sha256 q x l \<Longrightarrow> recv_loop n rt ops R (log_store S) H q src tmo x b (st, l) = Some (r, b', (st', l')) \<Longrightarrow>
     rx_final sha256 q r l'"
proof (induction n arbitrary: x b st l)
  case (Suc n)
  obtain pieces where p: "store_run sha256 q PIdle l = Some (PWriting (concat pieces))" and lt: "rx_next_offset x < rr_total_len q"
    using Suc.prems(1) by (auto simp: rx_inv_def)
  obtain w b1 where wait: "wait_for_transfer_chunk n rt ops R b src (rr_transfer_id q) tmo = Some (w, b1)"
    using Suc.prems(2) lt by (cases "wait_for_transfer_chunk n rt ops R b src (rr_transfer_id q) tmo") auto
  show ?case
  proof (cases w)
    case (Err e)
    then show ?thesis using Suc.prems(2) lt wait rx_final_abort [OF p] by auto
  next
    case (Ok body)
    obtain step b2 st2 l2 where chunk: "recv_chunk ops R (log_store S) H q src tmo x body b1 (st, l) = (step, b2, (st2, l2))"
      by (metis prod_cases4)
    note res = recv_chunk_log [OF H Suc.prems(1) chunk]
    show ?thesis
    proof (cases step)
      case (StepReturn r2)
      then show ?thesis using Suc.prems(2) lt wait Ok chunk res by simp
    next
      case (StepContinue x2)
      then have "rx_inv H sha256 q x2 l2" using res by simp
      moreover have "recv_loop n rt ops R (log_store S) H q src tmo x2 b2 (st2, l2) = Some (r, b', (st', l'))"
        using Suc.prems(2) lt wait Ok chunk StepContinue by simp
      ultimately show ?thesis by (rule Suc.IH)
    qed
  qed
qed simp

lemma open_file_log:
  assumes H: "hasher_laws H sha256"
    and run: "open_file ops (log_store S) H q src tmo b (st, []) = (step, b', (st', l'))"
  shows "case step of OpenReturn r \<Rightarrow> rx_final sha256 q r l' | OpenReady x \<Rightarrow> rx_inv H sha256 q x l'"
proof -
  obtain h0 st1 where beg: "st_begin_write S st (rr_transfer_id q) (rr_total_len q) = (h0, st1)" by (metis surj_pair)
  show ?thesis
  proof (cases h0)
    case (Err e)
    then show ?thesis using run beg by (auto simp: open_file_def rx_final_def)
  next
    case (Ok h)
    let ?l1 = "[SBegin (rr_transfer_id q) (rr_total_len q) True]"
    have p: "store_run sha256 q PIdle ?l1 = Some (PWriting [])" by simp
    have dig: "hs_finalize H (hs_new H) = sha256 []" using H [unfolded hasher_laws_def, THEN spec, of "[]"] by simp
    obtain s b1 where send: "send_to_with_timeout ops b src (MAck (file_ack_accept (rr_transfer_id q) (rr_negotiated q))) tmo = (s, b1)"
      by (metis surj_pair)
    show ?thesis
    proof (cases s)
      case (Err e)
      then show ?thesis using run beg Ok send rx_final_abort [OF p] by (auto simp: open_file_def Let_def)
    next
      case ok: (Ok u)
      show ?thesis
      proof (cases "rr_total_len q = 0")
        case False
        have "rx_inv H sha256 q \<lparr>rx_handle = h, rx_hasher = hs_new H, rx_next_offset = 0, rx_last_progress = 0\<rparr> ?l1"
          using p False by (auto simp: rx_inv_def word_gt_0 intro!: exI [of _ "[]"])
        then show ?thesis using run beg Ok send ok False by (auto simp: open_file_def Let_def)
      next
        case True
        obtain c st2 where commit: "st_commit S st1 h = (c, st2)" by (metis surj_pair)
        show ?thesis
        proof (cases "sha256 [] = rr_file_hash q")
          case False
          obtain b2 st2 l2 where tell: "abort_and_tell ops (log_store S) b1 (st1, ?l1) h src (rr_transfer_id q) 0 HashMismatch tmo = (b2, (st2, l2))"
            by (metis prod_cases3)
          then have "l2 = ?l1 @ [SAbort]" by (rule abort_and_tell_log)
          then show ?thesis using run beg Ok send ok True False tell dig rx_final_abort [OF p]
            by (auto simp: open_file_def Let_def)
        next
          case same: True
          then show ?thesis using run beg Ok send ok True dig commit
            by (cases c) (auto simp: open_file_def Let_def rx_final_def store_run_append)
        qed
      qed
    qed
  qed
qed

lemma recv_file_log:
  fixes r :: "(recv_file_result, ('se, 'ce) ft_error) result" and S :: "('s, 'h, 'se) store_ops" and H :: "'hs hasher_ops"
  assumes H: "hasher_laws H sha256"
    and run: "recv_file_impl n rt ops R (log_store S) H b src (st, []) tmo receiver = Some (r, b', (st', l))"
  shows "l = [] \<and> is_err r \<or> (\<exists>q b1. recv_request_alloc ops R b src tmo receiver = Some (Ok q :: (_, ('se, 'ce) ft_error) result, b1) \<and> rx_final sha256 q r l)"
proof -
  obtain q0 :: "(recv_request, ('se, 'ce) ft_error) result" and b1 where req: "recv_request_alloc ops R b src tmo receiver = Some (q0, b1)"
    using run by (cases "recv_request_alloc ops R b src tmo receiver :: ((recv_request, ('se, 'ce) ft_error) result \<times> _) option")
      (auto simp: recv_file_impl_def)
  show ?thesis
  proof (cases q0)
    case (Err e)
    then show ?thesis using run req by (auto simp: recv_file_impl_def)
  next
    case (Ok q)
    obtain step :: "('h, 'hs, 'se, 'ce) open_step" and b2 st2 l2 where opn: "open_file ops (log_store S) H q src tmo b1 (st, []) = (step, b2, (st2, l2))" by (metis prod_cases4)
    note res = open_file_log [OF H opn]
    have "rx_final sha256 q r l"
    proof (cases step)
      case (OpenReturn r2)
      then show ?thesis using run req Ok opn res by (simp add: recv_file_impl_def)
    next
      case (OpenReady x)
      then have "recv_loop n rt ops R (log_store S) H q src tmo x b2 (st2, l2) = Some (r, b', (st', l))"
        using run req Ok opn by (simp add: recv_file_impl_def)
      then show ?thesis using recv_loop_log [OF H] res OpenReady by auto
    qed
    then show ?thesis using req Ok by blast
  qed
qed

section \<open>The committed file\<close>

fun written :: "store_log list \<Rightarrow> bytes" where
  "written [] = []"
| "written (SWrite off bs ok # l) = (if ok then bs else []) @ written l"
| "written (e # l) = written l"

lemma store_run_stuck:
  "store_run sha256 q PAborted l \<noteq> Some (PCommitted f ok)" "store_run sha256 q PBroken l \<noteq> Some (PCommitted f ok)"
proof -
  show a: "store_run sha256 q PAborted l \<noteq> Some (PCommitted f ok)" for l by (cases l) auto
  show "store_run sha256 q PBroken l \<noteq> Some (PCommitted f ok)"
  proof (cases l)
    case (Cons e l')
    then show ?thesis using a [of l'] by (cases e) auto
  qed simp
qed

lemma store_run_writing:
  "store_run sha256 q (PWriting acc) l = Some (PCommitted f ok) \<Longrightarrow>
   f = acc @ written l \<and> length f = unat (rr_total_len q) \<and> sha256 f = rr_file_hash q"
proof (induction l arbitrary: acc)
  case (Cons e l)
  show ?case
  proof (cases e)
    case (SWrite off bs w)
    then show ?thesis using Cons.prems Cons.IH [of "acc @ bs"] store_run_stuck(2) [of sha256 q l f ok] by (auto split: if_splits)
  next
    case (SCommit w)
    then show ?thesis using Cons.prems by (cases l) (auto split: if_splits)
  next
    case SAbort
    then show ?thesis using Cons.prems by (cases l) auto
  qed (use Cons.prems in simp)
qed simp

lemma store_run_committed:
  assumes "store_run sha256 q PIdle l = Some (PCommitted f ok)"
  shows "f = written l \<and> length f = unat (rr_total_len q) \<and> sha256 f = rr_file_hash q"
proof (cases l)
  case (Cons e l')
  have "store_run sha256 q PRefused l' \<noteq> Some (PCommitted f ok)" by (cases l') auto
  then show ?thesis using assms Cons store_run_writing [of sha256 q "[]" l' f ok] by (cases e) (auto split: if_splits)
qed (use assms in simp)

section \<open>Properties\<close>

text \<open>For the examples: a bus that delivers one request and a script of chunks, a store that keeps the bytes
  of one file, and a 32-byte checksum in the place of the digest.\<close>

definition req_bus :: "(bytes option \<times> recv_event list) bus_ops" where
  "req_bus = \<lparr>bus_send = \<lambda>b dst m tmo. (Ok (), b), bus_deadline = \<lambda>b tmo. b,
     bus_recv = \<lambda>(q, evs) k src. case script_recv evs k src of (ev, evs') \<Rightarrow> (ev, q, evs'),
     bus_recv_req = \<lambda>(q, evs) src. map_option (\<lambda>body. (Ok body, None, evs)) q\<rparr>"

definition byte_store :: "(bytes, unit, unit) store_ops" where
  "byte_store = \<lparr>st_begin_write = \<lambda>st tid n. (Ok (), []), st_write_at = \<lambda>st h off bs. (Ok (), (), st @ bs),
     st_commit = \<lambda>st h. (Ok (), st), st_abort = \<lambda>st h. []\<rparr>"

definition checksum :: "bytes \<Rightarrow> bytes" where
  "checksum bs = take 32 (bs @ replicate 32 0)"

definition checksum_hasher :: "bytes hasher_ops" where
  "checksum_hasher = \<lparr>hs_new = [], hs_update = (@), hs_finalize = checksum\<rparr>"

lemma checksum_laws: "hasher_laws checksum_hasher checksum"
proof -
  have "foldl (@) acc pieces = acc @ concat pieces" for acc :: bytes and pieces by (induction pieces arbitrary: acc) auto
  then show ?thesis by (simp add: hasher_laws_def checksum_hasher_def)
qed

definition example_req :: bytes where
  "example_req = flat_req (file_offer 3 3 2 [] Sha256 (checksum [10, 11, 12]))"

definition chunk_event :: "u32 \<Rightarrow> u32 \<Rightarrow> bytes \<Rightarrow> recv_event" where
  "chunk_event tid off data = Arrived (flat_chunk (file_chunk tid off data))"

lemma rd_example_req: "rd_req flat_reader example_req = Ok (req_fields (file_offer 3 3 2 [] Sha256 (checksum [10, 11, 12])))"
  unfolding example_req_def by (rule rd_req_flat) (simp_all add: file_offer_def checksum_def)

lemma rd_chunk_small: "length data < 2 ^ 29 \<Longrightarrow> rd_chunk flat_reader (flat_chunk (file_chunk tid off data)) =
    Ok \<lparr>ck_transfer_id = tid, ck_offset = off, ck_data = Some data\<rparr>"
  using rd_chunk_flat [of "file_chunk tid off data"] by (simp add: chunk_fields_def file_chunk_def)

lemmas receiver_run_simps = recv_request_alloc_def open_file_def recv_chunk_def store_chunk_def
  finish_file_def resync_def abort_and_tell_def wait_for_transfer_chunk_def chunk_transfer_id_def chunk_event_def rd_chunk_small
  send_to_with_timeout_def req_bus_def byte_store_def log_store_def checksum_hasher_def rd_example_req req_fields_def file_offer_def
  validate_sha256_file_hash_def SHA256_HASH_LEN_def PROGRESS_ACK_EVERY_CHUNKS_def negotiate_chunk_size_def unwrap_bytes_def
  recv_result_def copy_into_def saturating_sub_def saturating_add_def saturating_mul_def Let_def

lemma example_receive:
  "recv_file_impl (Suc (Suc (Suc (Suc (Suc 0))))) Tokio req_bus flat_reader (log_store byte_store) checksum_hasher
      (Some example_req, [chunk_event 3 0 [10, 11], chunk_event 3 0 [10, 11], chunk_event 3 2 [12]]) 7 ([], []) 5 \<lparr>max_chunk_size = 0\<rparr> =
    Some (Ok \<lparr>rfr_transfer_id = 3, rfr_total_len = 3, rfr_received_len = 3, rfr_sender_max_chunk_size = 2, rfr_negotiated_chunk_size = 2,
        rfr_metadata = [], rfr_file_hash_algo = Sha256, rfr_file_hash = checksum [10, 11, 12]\<rparr>, (None, []),
      ([10, 11, 12], [SBegin 3 3 True, SWrite 0 [10, 11] True, SWrite 2 [12] True, SCommit True]))"
  by (simp add: recv_file_impl_def receiver_run_simps checksum_def)

text \<open>C3: Whatever the bus, the sender and the store do, a receive uses the store by its protocol: the file is
  opened once with the announced length, written contiguously from offset 0 and never beyond that
  length, and closed exactly once, by an abort, or by a commit that happens only when all bytes are
  there and their SHA-256 is the hash of the offer.\<close>

theorem recv_file_store_protocol:
  fixes r :: "(recv_file_result, ('se, 'ce) ft_error) result" and S :: "('s, 'h, 'se) store_ops" and H :: "'hs hasher_ops"
  assumes "hasher_laws H sha256"
    and "recv_file_impl n rt ops R (log_store S) H b src (st, []) tmo receiver = Some (r, b', (st', l))"
  shows "l = [] \<and> is_err r \<or>
     (\<exists>q b1 p. recv_request_alloc ops R b src tmo receiver = Some (Ok q :: (_, ('se, 'ce) ft_error) result, b1) \<and>
        store_run sha256 q PIdle l = Some p \<and> closed p)"
  using recv_file_log [OF assms] by (auto simp: rx_final_def)

theorem recv_file_store_protocol_witness:
  "\<exists>q p. store_run checksum q PIdle [SBegin 3 3 True, SWrite 0 [10, 11] True, SWrite 2 [12] True, SCommit True] = Some p \<and> closed p"
  using recv_file_store_protocol [OF checksum_laws example_receive] by blast







end
