(* ===== verification/Queue_Tokio.thy ===== *)
theory Queue_Tokio
  imports Interface
begin

text \<open>
  The queue endpoint of \<open>can-isotp-queue\<close>: \<open>common.rs\<close> (configuration, errors, hooks) and \<open>tokio.rs\<close>
  (the endpoint, the channels and the actor that owns the real transport node).
  Clients and the actor are tasks that run interleaved; every await point of the sources is a boundary
  between two steps of the model: a send first waits for room in the request channel, then for its
  one-shot reply; the actor takes a request, sends it on the node, replies, and between two bursts
  polls the node once and forwards what it received. The channels are lists with their bound. The
  transport node is a record of operations. The hooks, which have no influence on the actor, are a log.
  The endpoint's \<open>recv_one_into\<close> is an instance of the locale \<open>recv_into_endpoint\<close>.
\<close>

section \<open>common.rs\<close>

datatype 'e queue_error =
    PayloadTooLarge usize usize
  | Transport 'e
  | ChannelClosed

datatype queue_kind = TxReq | TxResp | RxEvt

record actor_config =
  recv_poll_timeout :: duration
  tx_burst_limit :: usize
  fixed_reply_to :: "u8 option"
  allowed_reply_from :: "u8 option"

definition actor_config_new :: "duration \<Rightarrow> usize \<Rightarrow> u8 option \<Rightarrow> actor_config" where
  "actor_config_new poll limit fixed =
     \<lparr>recv_poll_timeout = poll, tx_burst_limit = limit, fixed_reply_to = fixed, allowed_reply_from = None\<rparr>"

definition with_fixed_reply_to :: "actor_config \<Rightarrow> u8 option \<Rightarrow> actor_config" where
  "with_fixed_reply_to cfg fixed = cfg\<lparr>fixed_reply_to := fixed\<rparr>"

definition with_allowed_reply_from :: "actor_config \<Rightarrow> u8 option \<Rightarrow> actor_config" where
  "with_allowed_reply_from cfg allowed = cfg\<lparr>allowed_reply_from := allowed\<rparr>"

definition normalized_tx_burst_limit :: "actor_config \<Rightarrow> usize" where
  "normalized_tx_burst_limit cfg = (if tx_burst_limit cfg = 0 then 1 else tx_burst_limit cfg)"

definition actor_config_default :: actor_config where
  "actor_config_default =
     \<lparr>recv_poll_timeout = 1000000, tx_burst_limit = 8, fixed_reply_to = None, allowed_reply_from = None\<rparr>"

type_synonym 'e tx_result = "(unit, 'e queue_error send_error) result"

datatype 'e hook_call =
    OnActorStarted
  | OnTxRequest u8 bool usize duration
  | OnTxResult "'e tx_result"
  | OnRxDelivered u8 usize
  | OnRxFilteredSource u8 u8 usize
  | OnRxBufferTooSmall usize usize
  | OnRxBackendError 'e
  | OnQueueBackpressure queue_kind duration

definition BACKPRESSURE_LOG_THRESHOLD :: duration where
  "BACKPRESSURE_LOG_THRESHOLD = 1000000"

section \<open>Channels and endpoints\<close>

record tok_request =
  tq_to :: u8
  tq_functional_to :: bool
  tq_timeout :: duration
  tq_payload :: bytes
  tq_done :: nat

datatype 'e tok_rx_event =
    TokDelivered u8 bytes
  | TokBufferTooSmall usize usize
  | TokBackend 'e

text \<open>What the endpoints and the actor share. \<open>tc_done\<close> holds the values of the one-shot channels that
  have been sent, \<open>tc_next\<close> counts the one-shot channels made, and \<open>tc_ports\<close> says whether the actor
  still holds its ports; \<open>tc_endpoints\<close> says whether an endpoint still exists.\<close>

record 'e tok_channels =
  tc_max_payload :: usize
  tc_tx_depth :: usize
  tc_rx_depth :: usize
  tc_tx_req :: "tok_request list"
  tc_rx_evt :: "'e tok_rx_event list"
  tc_done :: "nat \<Rightarrow> 'e tx_result option"
  tc_next :: nat
  tc_ports :: bool
  tc_endpoints :: bool

definition make_endpoints :: "usize \<Rightarrow> usize \<Rightarrow> usize \<Rightarrow> 'e tok_channels" where
  "make_endpoints max_payload tx_depth rx_depth =
     \<lparr>tc_max_payload = max_payload, tc_tx_depth = max tx_depth 1, tc_rx_depth = max rx_depth 1,
      tc_tx_req = [], tc_rx_evt = [], tc_done = Map.empty, tc_next = 0, tc_ports = True, tc_endpoints = True\<rparr>"

section \<open>Sending\<close>

text \<open>A send in progress: it waits for room in the request channel, for its reply, or has returned.\<close>

datatype 'e tok_send =
    TokQueueing tok_request
  | TokWaiting nat
  | TokSent "'e tx_result"

definition tok_send_with ::
    "bool \<Rightarrow> 'e tok_channels \<Rightarrow> u8 \<Rightarrow> bytes \<Rightarrow> duration \<Rightarrow> 'e tok_send \<times> 'e tok_channels" where
  "tok_send_with functional c dst payload tmo =
     (if length payload > tc_max_payload c
      then (TokSent (Err (SendBackend (PayloadTooLarge (length payload) (tc_max_payload c)))), c)
      else (TokQueueing \<lparr>tq_to = dst, tq_functional_to = functional, tq_timeout = tmo, tq_payload = payload,
                         tq_done = tc_next c\<rparr>,
            c\<lparr>tc_next := tc_next c + 1\<rparr>))"

definition tok_send_to :: "'e tok_channels \<Rightarrow> u8 \<Rightarrow> bytes \<Rightarrow> duration \<Rightarrow> 'e tok_send \<times> 'e tok_channels" where
  "tok_send_to c dst payload tmo = tok_send_with False c dst payload tmo"

definition tok_send_functional_to :: "'e tok_channels \<Rightarrow> u8 \<Rightarrow> bytes \<Rightarrow> duration \<Rightarrow> 'e tok_send \<times> 'e tok_channels" where
  "tok_send_functional_to c functional_to payload tmo = tok_send_with True c functional_to payload tmo"

text \<open>One poll of the future: \<open>tx_req.send(req).await\<close>, then \<open>done_rx.await\<close>. A one-shot receiver whose
  sender is gone without a value fails; senders live in requests, which the actor's ports own.\<close>

fun tok_send_poll :: "'e tok_channels \<Rightarrow> 'e tok_send \<Rightarrow> 'e tok_send \<times> 'e tok_channels" where
  "tok_send_poll c (TokQueueing req) =
     (if \<not> tc_ports c then (TokSent (Err (SendBackend ChannelClosed)), c)
      else if length (tc_tx_req c) < tc_tx_depth c then (TokWaiting (tq_done req), c\<lparr>tc_tx_req := tc_tx_req c @ [req]\<rparr>)
      else (TokQueueing req, c))"
| "tok_send_poll c (TokWaiting i) =
     (case tc_done c i of
        Some r \<Rightarrow> (TokSent r, c)
      | None \<Rightarrow> if tc_ports c then (TokWaiting i, c) else (TokSent (Err (SendBackend ChannelClosed)), c))"
| "tok_send_poll c (TokSent r) = (TokSent r, c)"

section \<open>Receiving\<close>

text \<open>\<open>tokio::time::timeout(timeout, rx.recv())\<close> on the channel as it is when the wait ends: an event,
  \<open>Some None\<close> for a closed and empty channel, \<open>None\<close> when the time elapsed.\<close>

definition tok_wait :: "'e tok_channels \<Rightarrow> 'e tok_rx_event option option \<times> 'e tok_channels" where
  "tok_wait c =
     (case tc_rx_evt c of
        e # es \<Rightarrow> (Some (Some e), c\<lparr>tc_rx_evt := es\<rparr>)
      | [] \<Rightarrow> (if tc_ports c then None else Some None, c))"

text \<open>\<open>recv_one\<close> with a callback \<open>cb\<close> that threads a state of its own.\<close>

definition tok_recv_one ::
    "('s \<Rightarrow> recv_meta \<Rightarrow> bytes \<Rightarrow> (recv_control, 'e queue_error) result \<times> 's) \<Rightarrow> 's \<Rightarrow> 'e tok_channels \<Rightarrow> duration \<Rightarrow>
     (recv_status, 'e queue_error recv_error) result \<times> 's \<times> 'e tok_channels" where
  "tok_recv_one cb st c tmo =
     (case tok_wait c of
        (Some (Some (TokDelivered src payload)), c1) \<Rightarrow>
          (case cb st \<lparr>reply_to = src\<rparr> payload of
             (Err e, st1) \<Rightarrow> (Err (RecvBackend e), st1, c1)
           | (Ok _, st1) \<Rightarrow> (Ok RecvDeliveredOne, st1, c1))
      | (Some (Some (TokBufferTooSmall n g)), c1) \<Rightarrow> (Err (RecvBufferTooSmall n g), st, c1)
      | (Some (Some (TokBackend e)), c1) \<Rightarrow> (Err (RecvBackend (Transport e)), st, c1)
      | (Some None, c1) \<Rightarrow> (Err (RecvBackend ChannelClosed), st, c1)
      | (None, c1) \<Rightarrow> (Ok RecvTimedOut, st, c1))"

definition tok_recv_one_into :: "('e tok_channels, 'e queue_error) recv_into_fn" where
  "tok_recv_one_into c tmo out =
     (case tok_wait c of
        (Some (Some (TokDelivered src payload)), c1) \<Rightarrow>
          if length out < length payload then (Err (RecvBufferTooSmall (length payload) (length out)), out, c1)
          else (Ok (IntoDeliveredOne \<lparr>reply_to = src\<rparr> (length payload)), copy_into out payload, c1)
      | (Some (Some (TokBufferTooSmall n g)), c1) \<Rightarrow> (Err (RecvBufferTooSmall n g), out, c1)
      | (Some (Some (TokBackend e)), c1) \<Rightarrow> (Err (RecvBackend (Transport e)), out, c1)
      | (Some None, c1) \<Rightarrow> (Err (RecvBackend ChannelClosed), out, c1)
      | (None, c1) \<Rightarrow> (Ok IntoTimedOut, out, c1))"

section \<open>The actor\<close>

text \<open>The transport node the actor owns. \<open>recv_one\<close> is called with a callback that records the payload
  and never fails; the operation returns the callback's calls in order beside its result.\<close>

record ('n, 'e) transport =
  tr_send_to :: "('n, 'e) send_fn"
  tr_send_functional_to :: "('n, 'e) send_fn"
  tr_recv_one :: "'n \<Rightarrow> duration \<Rightarrow> (recv_status, 'e recv_error) result \<times> (recv_meta \<times> bytes) list \<times> 'n"

datatype 'e tok_pc =
    TokTx usize
  | TokSending usize tok_request
  | TokPolling
  | TokPushing "'e tok_rx_event"

record ('n, 'e) tok_actor =
  ta_node :: 'n
  ta_pc :: "'e tok_pc"
  ta_hooks :: "'e hook_call list"

definition tok_actor_start :: "'n \<Rightarrow> ('n, 'e) tok_actor" where
  "tok_actor_start n = \<lparr>ta_node = n, ta_pc = TokTx 0, ta_hooks = [OnActorStarted]\<rparr>"

definition map_tx_error :: "(unit, 'e send_error) result \<Rightarrow> 'e tx_result" where
  "map_tx_error r =
     (case r of
        Ok _ \<Rightarrow> Ok ()
      | Err SendTimeout \<Rightarrow> Err SendTimeout
      | Err (SendBackend e) \<Rightarrow> Err (SendBackend (Transport e)))"

definition tok_node_send :: "('n, 'e) transport \<Rightarrow> 'n \<Rightarrow> tok_request \<Rightarrow> 'e tx_result \<times> 'n" where
  "tok_node_send N n req =
     (let (r, n1) =
        (if tq_functional_to req then tr_send_functional_to N n (tq_to req) (tq_payload req) (tq_timeout req)
         else tr_send_to N n (tq_to req) (tq_payload req) (tq_timeout req))
      in (map_tx_error r, n1))"

text \<open>What the actor does with one result of \<open>recv_one\<close>: the event to forward, and the hook it calls.\<close>

definition tok_rx_event_of ::
    "actor_config \<Rightarrow> (recv_status, 'e recv_error) result \<Rightarrow> (recv_meta \<times> bytes) list \<Rightarrow>
     'e tok_rx_event option \<times> 'e hook_call list" where
  "tok_rx_event_of cfg r calls =
     (case r of
        Ok RecvTimedOut \<Rightarrow> (None, [])
      | Ok RecvDeliveredOne \<Rightarrow>
          if calls = [] then (None, [])
          else let (meta, payload) = last calls; from_meta = reply_to meta in
            (case allowed_reply_from cfg of
               Some expected_from \<Rightarrow>
                 if from_meta \<noteq> expected_from then (None, [OnRxFilteredSource expected_from from_meta (length payload)])
                 else let src = (case fixed_reply_to cfg of Some f \<Rightarrow> f | None \<Rightarrow> from_meta)
                      in (Some (TokDelivered src payload), [OnRxDelivered src (length payload)])
             | None \<Rightarrow>
                 let src = (case fixed_reply_to cfg of Some f \<Rightarrow> f | None \<Rightarrow> from_meta)
                 in (Some (TokDelivered src payload), [OnRxDelivered src (length payload)]))
      | Err (RecvBufferTooSmall n g) \<Rightarrow> (Some (TokBufferTooSmall n g), [OnRxBufferTooSmall n g])
      | Err (RecvBackend e) \<Rightarrow> (Some (TokBackend e), [OnRxBackendError e]))"

text \<open>\<open>send_rx_event\<close>: \<open>None\<close> while the channel is full; \<open>blocked_for\<close> is the time the send took.\<close>

definition tok_send_rx_event ::
    "'e tok_channels \<Rightarrow> 'e tok_rx_event \<Rightarrow> duration \<Rightarrow> ('e tok_channels \<times> 'e hook_call list) option" where
  "tok_send_rx_event c evt blocked_for =
     (if \<not> tc_endpoints c then Some (c, [])
      else if length (tc_rx_evt c) < tc_rx_depth c then
        Some (c\<lparr>tc_rx_evt := tc_rx_evt c @ [evt]\<rparr>,
              if blocked_for \<ge> BACKPRESSURE_LOG_THRESHOLD then [OnQueueBackpressure RxEvt blocked_for] else [])
      else None)"

fun tok_actor_step ::
    "('n, 'e) transport \<Rightarrow> actor_config \<Rightarrow> duration \<Rightarrow> 'e tok_channels \<Rightarrow> ('n, 'e) tok_actor \<Rightarrow>
     'e tok_channels \<times> ('n, 'e) tok_actor" where
  "tok_actor_step N cfg blocked_for c a =
     (case ta_pc a of
        TokTx tx_processed \<Rightarrow>
          if tx_processed < normalized_tx_burst_limit cfg then
            (case tc_tx_req c of
               req # reqs \<Rightarrow>
                 (c\<lparr>tc_tx_req := reqs\<rparr>,
                  a\<lparr>ta_pc := TokSending (tx_processed + 1) req,
                    ta_hooks := ta_hooks a @
                      [OnTxRequest (tq_to req) (tq_functional_to req) (length (tq_payload req)) (tq_timeout req)]\<rparr>)
             | [] \<Rightarrow> (c, a\<lparr>ta_pc := TokPolling\<rparr>))
          else (c, a\<lparr>ta_pc := TokPolling\<rparr>)
      | TokSending tx_processed req \<Rightarrow>
          let (mapped, n1) = tok_node_send N (ta_node a) req in
          (c\<lparr>tc_done := (tc_done c)(tq_done req \<mapsto> mapped)\<rparr>,
           a\<lparr>ta_node := n1, ta_pc := TokTx tx_processed, ta_hooks := ta_hooks a @ [OnTxResult mapped]\<rparr>)
      | TokPolling \<Rightarrow>
          let (r, calls, n1) = tr_recv_one N (ta_node a) (recv_poll_timeout cfg);
              (evt, hooks) = tok_rx_event_of cfg r calls
          in (c, a\<lparr>ta_node := n1, ta_hooks := ta_hooks a @ hooks,
                   ta_pc := (case evt of None \<Rightarrow> TokTx 0 | Some e \<Rightarrow> TokPushing e)\<rparr>)
      | TokPushing e \<Rightarrow>
          (case tok_send_rx_event c e blocked_for of
             None \<Rightarrow> (c, a)
           | Some (c1, hooks) \<Rightarrow> (c1, a\<lparr>ta_pc := TokTx 0, ta_hooks := ta_hooks a @ hooks\<rparr>)))"

declare tok_actor_step.simps [simp del]

text \<open>Dropping the actor drops its ports and with them the queued requests; the request it was sending
  is dropped too, and its reply never comes.\<close>

definition tok_actor_drop :: "'e tok_channels \<Rightarrow> 'e tok_channels" where
  "tok_actor_drop c = c\<lparr>tc_tx_req := [], tc_ports := False\<rparr>"

section \<open>The contract of the receive\<close>

lemma tok_wait_cases:
  obtains (event) e es where "tc_rx_evt c = e # es" "tok_wait c = (Some (Some e), c\<lparr>tc_rx_evt := es\<rparr>)"
  | (closed) "tc_rx_evt c = []" "tok_wait c = (Some None, c)"
  | (elapsed) "tc_rx_evt c = []" "tok_wait c = (None, c)"
  by (cases "tc_rx_evt c"; cases "tc_ports c") (auto simp: tok_wait_def)

interpretation tok: recv_into_endpoint tok_recv_one_into
proof unfold_locales
  fix c c' :: "'e tok_channels" and t out out' and r :: "(recv_meta_into_status, 'e queue_error recv_error) result"
  assume run: "tok_recv_one_into c t out = (r, out', c')"
  show "length out' = length out"
  proof (cases c rule: tok_wait_cases)
    case (event e es)
    then show ?thesis using run
      by (cases e) (auto simp: tok_recv_one_into_def length_copy_into split: if_splits)
  qed (use run in \<open>auto simp: tok_recv_one_into_def\<close>)
next
  fix c c' :: "'e tok_channels" and t out out' meta len
  assume run: "tok_recv_one_into c t out = (Ok (IntoDeliveredOne meta len), out', c')"
  show "len \<le> length out"
  proof (cases c rule: tok_wait_cases)
    case (event e es)
    then show ?thesis using run by (cases e) (auto simp: tok_recv_one_into_def split: if_splits)
  qed (use run in \<open>auto simp: tok_recv_one_into_def\<close>)
qed

section \<open>Runs of clients and actor\<close>

text \<open>Any number of sends (numbered in the order they start) and receives run interleaved with the
  actor. Beside the state, a run keeps the arguments of the sends, the requests that entered the channel, the requests the node
  sent with their results, the events the node's receives gave, and the events handed to a receiver.\<close>

datatype tok_event =
    EvSend bool u8 bytes duration
  | EvPoll nat
  | EvActor duration
  | EvRecv
  | EvDropActor

record ('n, 'e) tok_run =
  tr_chan :: "'e tok_channels"
  tr_actor :: "('n, 'e) tok_actor"
  tr_calls :: "(bool \<times> u8 \<times> bytes \<times> duration) list"
  tr_sends :: "'e tok_send list"
  tr_enqueued :: "tok_request list"
  tr_sent :: "(tok_request \<times> 'e tx_result) list"
  tr_received :: "'e tok_rx_event list"
  tr_delivered :: "'e tok_rx_event list"

definition tok_run_start :: "'e tok_channels \<Rightarrow> 'n \<Rightarrow> ('n, 'e) tok_run" where
  "tok_run_start c n =
     \<lparr>tr_chan = c, tr_actor = tok_actor_start n, tr_calls = [], tr_sends = [], tr_enqueued = [], tr_sent = [],
      tr_received = [], tr_delivered = []\<rparr>"

definition run_poll :: "('n, 'e) tok_run \<Rightarrow> nat \<Rightarrow> ('n, 'e) tok_run" where
  "run_poll s i =
     (if i < length (tr_sends s) then
        let (t, c) = tok_send_poll (tr_chan s) (tr_sends s ! i)
        in s\<lparr>tr_chan := c, tr_sends := (tr_sends s)[i := t],
             tr_enqueued := tr_enqueued s @ drop (length (tc_tx_req (tr_chan s))) (tc_tx_req c)\<rparr>
      else s)"

definition run_actor :: "('n, 'e) transport \<Rightarrow> actor_config \<Rightarrow> ('n, 'e) tok_run \<Rightarrow> duration \<Rightarrow> ('n, 'e) tok_run" where
  "run_actor N cfg s blocked =
     (if tc_ports (tr_chan s) then
        let (c, a) = tok_actor_step N cfg blocked (tr_chan s) (tr_actor s)
        in s\<lparr>tr_chan := c, tr_actor := a,
             tr_sent := tr_sent s @ (case ta_pc (tr_actor s) of
                 TokSending _ req \<Rightarrow> [(req, fst (tok_node_send N (ta_node (tr_actor s)) req))] | _ \<Rightarrow> []),
             tr_received := tr_received s @ (case (ta_pc (tr_actor s), ta_pc a) of
                 (TokPolling, TokPushing e) \<Rightarrow> [e] | _ \<Rightarrow> [])\<rparr>
      else s)"

definition run_recv :: "('n, 'e) tok_run \<Rightarrow> ('n, 'e) tok_run" where
  "run_recv s =
     (case tok_wait (tr_chan s) of
        (Some (Some e), c) \<Rightarrow> s\<lparr>tr_chan := c, tr_delivered := tr_delivered s @ [e]\<rparr>
      | (_, c) \<Rightarrow> s\<lparr>tr_chan := c\<rparr>)"

fun tok_step :: "('n, 'e) transport \<Rightarrow> actor_config \<Rightarrow> ('n, 'e) tok_run \<Rightarrow> tok_event \<Rightarrow> ('n, 'e) tok_run" where
  "tok_step N cfg s (EvSend functional dst payload tmo) =
     (let (t, c) = (if functional then tok_send_functional_to (tr_chan s) dst payload tmo
                    else tok_send_to (tr_chan s) dst payload tmo)
      in s\<lparr>tr_chan := c, tr_calls := tr_calls s @ [(functional, dst, payload, tmo)], tr_sends := tr_sends s @ [t]\<rparr>)"
| "tok_step N cfg s (EvPoll i) = run_poll s i"
| "tok_step N cfg s (EvActor blocked) = run_actor N cfg s blocked"
| "tok_step N cfg s EvRecv = run_recv s"
| "tok_step N cfg s EvDropActor = s\<lparr>tr_chan := tok_actor_drop (tr_chan s)\<rparr>"

fun sending :: "'e tok_pc \<Rightarrow> tok_request list" where
  "sending (TokSending _ req) = [req]"
| "sending _ = []"

fun pushing :: "'e tok_pc \<Rightarrow> 'e tok_rx_event list" where
  "pushing (TokPushing e) = [e]"
| "pushing _ = []"

definition call_of :: "tok_request \<Rightarrow> bool \<times> u8 \<times> bytes \<times> duration" where
  "call_of q = (tq_functional_to q, tq_to q, tq_payload q, tq_timeout q)"

text \<open>A send in progress carries, or waits for, the request made of its own arguments; one that returned
  has the node's result for that request, or an error of the queue that fits the situation.\<close>

fun send_ok ::
    "usize \<Rightarrow> bool \<Rightarrow> tok_request list \<Rightarrow> (tok_request \<times> 'e tx_result) list \<Rightarrow> nat \<Rightarrow>
     bool \<times> u8 \<times> bytes \<times> duration \<Rightarrow> 'e tok_send \<Rightarrow> bool" where
  "send_ok mp ports enq sent k call (TokQueueing req) = (tq_done req < k \<and> call_of req = call)"
| "send_ok mp ports enq sent k call (TokWaiting i) = (\<exists>q\<in>set enq. tq_done q = i \<and> call_of q = call)"
| "send_ok mp ports enq sent k call (TokSent r) =
     ((\<exists>q. (q, r) \<in> set sent \<and> call_of q = call) \<or>
      \<not> ports \<and> r = Err (SendBackend ChannelClosed) \<or>
      (case call of (_, _, payload, _) \<Rightarrow>
         length payload > mp \<and> r = Err (SendBackend (PayloadTooLarge (length payload) mp))))"

fun own_done :: "'e tok_send \<Rightarrow> nat list" where
  "own_done (TokQueueing req) = [tq_done req]"
| "own_done _ = []"

definition dones_distinct :: "tok_request list \<Rightarrow> 'e tok_send list \<Rightarrow> bool" where
  "dones_distinct enq ts \<longleftrightarrow> distinct (map tq_done enq @ concat (map own_done ts))"

definition tok_inv :: "usize \<Rightarrow> usize \<Rightarrow> usize \<Rightarrow> ('n, 'e) tok_run \<Rightarrow> bool" where
  "tok_inv mp tx_depth rx_depth s \<longleftrightarrow>
     (let c = tr_chan s; pc = ta_pc (tr_actor s) in
      tc_max_payload c = mp \<and> tc_tx_depth c = tx_depth \<and> tc_rx_depth c = rx_depth \<and> tc_endpoints c \<and>
      length (tc_tx_req c) \<le> tx_depth \<and> length (tc_rx_evt c) \<le> rx_depth \<and>
      (tc_ports c \<longrightarrow> tr_enqueued s = map fst (tr_sent s) @ sending pc @ tc_tx_req c) \<and>
      (\<exists>rest. tr_enqueued s = map fst (tr_sent s) @ rest) \<and>
      dones_distinct (tr_enqueued s) (tr_sends s) \<and>
      (\<forall>q\<in>set (tr_enqueued s). tq_done q < tc_next c) \<and>
      tc_done c = map_of (map (\<lambda>(q, r). (tq_done q, r)) (tr_sent s)) \<and>
      list_all2 (send_ok mp (tc_ports c) (tr_enqueued s) (tr_sent s) (tc_next c)) (tr_calls s) (tr_sends s) \<and>
      tr_received s = tr_delivered s @ tc_rx_evt c @ pushing pc)"

section \<open>Lemmas\<close>

lemma map_of_snoc: "k \<notin> fst ` set xs \<Longrightarrow> map_of (xs @ [(k, v)]) = (map_of xs)(k \<mapsto> v)"
  by (induction xs) auto

lemma send_ok_mono:
  assumes "send_ok mp ports enq sent k call t" and "set enq \<subseteq> set enq'" and "set sent \<subseteq> set sent'"
    and "k \<le> k'" and "ports' \<longrightarrow> ports"
  shows "send_ok mp ports' enq' sent' k' call t"
  using assms by (cases t) auto

lemma sends_ok_mono:
  assumes "list_all2 (send_ok mp ports enq sent k) calls ts" and "set enq \<subseteq> set enq'" and "set sent \<subseteq> set sent'"
    and "k \<le> k'" and "ports' \<longrightarrow> ports"
  shows "list_all2 (send_ok mp ports' enq' sent' k') calls ts"
  using assms(1) by (rule list_all2_mono) (rule send_ok_mono [OF _ assms(2-5)])

lemma sends_ok_update:
  assumes "list_all2 (send_ok mp ports enq sent k) calls ts"
    and "i < length ts" and "send_ok mp ports enq sent k (calls ! i) t"
  shows "list_all2 (send_ok mp ports enq sent k) calls (ts[i := t])"
proof -
  have "list_all2 (send_ok mp ports enq sent k) (calls[i := calls ! i]) (ts[i := t])"
    using assms by (intro list_all2_update_cong)
  then show ?thesis by simp
qed

lemma own_done_less:
  fixes ts :: "'e tok_send list"
  assumes "list_all2 (send_ok mp ports enq sent k) calls ts"
  shows "d \<in> set (concat (map own_done ts)) \<Longrightarrow> d < k"
proof -
  have one: "send_ok mp ports enq sent k call t \<Longrightarrow> d \<in> set (own_done t) \<Longrightarrow> d < k" for call and t :: "'e tok_send"
    by (cases t) auto
  from assms show "d \<in> set (concat (map own_done ts)) \<Longrightarrow> d < k"
    by (induction rule: list_all2_induct) (auto dest: one)
qed

lemma own_done_update:
  assumes "i < length ts" and "own_done t = []"
  shows "\<exists>a b. concat (map own_done ts) = a @ own_done (ts ! i) @ b \<and> concat (map own_done (ts[i := t])) = a @ b"
proof (intro exI conjI)
  show "concat (map own_done ts) = concat (map own_done (take i ts)) @ own_done (ts ! i) @ concat (map own_done (drop (Suc i) ts))"
    using assms(1) by (metis append.assoc concat.simps(2) concat_append id_take_nth_drop list.simps(9) map_append)
  show "concat (map own_done (ts[i := t])) = concat (map own_done (take i ts)) @ concat (map own_done (drop (Suc i) ts))"
    using assms by (simp add: upd_conv_take_nth_drop)
qed

lemma start_inv: "tok_inv mp (max td 1) (max rd 1) (tok_run_start (make_endpoints mp td rd) n)"
  by (simp add: tok_inv_def tok_run_start_def make_endpoints_def tok_actor_start_def dones_distinct_def Let_def)

lemma send_inv:
  assumes "tok_inv mp td rd s"
  shows "tok_inv mp td rd (tok_step N cfg s (EvSend functional dst payload tmo))"
proof -
  let ?c = "tr_chan s"
  have ok: "list_all2 (send_ok mp (tc_ports ?c) (tr_enqueued s) (tr_sent s) (tc_next ?c)) (tr_calls s) (tr_sends s)"
    and mp: "tc_max_payload ?c = mp"
    using assms by (simp_all add: tok_inv_def Let_def)
  show ?thesis
  proof (cases "length payload > mp")
    case True
    then show ?thesis using assms mp ok
      by (auto simp: tok_inv_def Let_def tok_send_to_def tok_send_functional_to_def tok_send_with_def dones_distinct_def
          list_all2_appendI)
  next
    case False
    have "tc_next ?c \<notin> set (concat (map own_done (tr_sends s)))" using own_done_less [OF ok] by blast
    moreover have "tc_next ?c \<notin> tq_done ` set (tr_enqueued s)" using assms by (auto simp: tok_inv_def Let_def)
    moreover have "list_all2 (send_ok mp (tc_ports ?c) (tr_enqueued s) (tr_sent s) (tc_next ?c + 1)) (tr_calls s) (tr_sends s)"
      by (rule sends_ok_mono [OF ok]) auto
    ultimately show ?thesis using assms mp False
      by (auto simp: tok_inv_def Let_def tok_send_to_def tok_send_functional_to_def tok_send_with_def call_of_def
          dones_distinct_def less_SucI intro!: list_all2_appendI)
  qed
qed

text \<open>The value of a one-shot channel is the result of the request that carries it.\<close>

lemma done_own_result:
  assumes "tok_inv mp td rd s" and "q \<in> set (tr_enqueued s)" and "tc_done (tr_chan s) (tq_done q) = Some r"
  shows "(q, r) \<in> set (tr_sent s)"
proof -
  obtain q' where q': "(q', r) \<in> set (tr_sent s)" "tq_done q' = tq_done q"
    using assms(1,3) by (auto simp: tok_inv_def Let_def dest!: map_of_SomeD)
  obtain rest where "tr_enqueued s = map fst (tr_sent s) @ rest" using assms(1) by (auto simp: tok_inv_def Let_def)
  then have "q' \<in> set (tr_enqueued s)" using q'(1) image_eqI [of q' fst "(q', r)" "set (tr_sent s)"] by simp
  moreover have "inj_on tq_done (set (tr_enqueued s))"
    using assms(1) by (auto simp: tok_inv_def Let_def dones_distinct_def distinct_map)
  ultimately show ?thesis using q' assms(2) by (metis inj_onD)
qed

lemma poll_inv:
  assumes inv: "tok_inv mp td rd s"
  shows "tok_inv mp td rd (run_poll s i)"
proof (cases "i < length (tr_sends s)")
  case True
  let ?c = "tr_chan s"
  let ?P = "send_ok mp (tc_ports ?c) (tr_enqueued s) (tr_sent s) (tc_next ?c)"
  have all: "list_all2 ?P (tr_calls s) (tr_sends s)" and mp: "tc_max_payload ?c = mp"
    and dist: "dones_distinct (tr_enqueued s) (tr_sends s)"
    using inv by (simp_all add: tok_inv_def Let_def)
  have ok: "?P (tr_calls s ! i) (tr_sends s ! i)" using all True by (simp add: list_all2_conv_all_nth)
  have keep: "tok_inv mp td rd (s\<lparr>tr_sends := (tr_sends s)[i := t]\<rparr>)"
    if "?P (tr_calls s ! i) t" and "own_done t = []" for t
  proof -
    obtain a b where "concat (map own_done (tr_sends s)) = a @ own_done (tr_sends s ! i) @ b"
      and "concat (map own_done ((tr_sends s)[i := t])) = a @ b"
      using own_done_update [OF True \<open>own_done t = []\<close>] by blast
    then show ?thesis using inv dist sends_ok_update [OF all True that(1)] by (auto simp: tok_inv_def Let_def dones_distinct_def)
  qed
  show ?thesis
  proof (cases "tr_sends s ! i")
    case (TokSent r)
    then have "(tr_sends s)[i := TokSent r] = tr_sends s" by (metis list_update_id)
    then show ?thesis using True inv TokSent by (simp add: run_poll_def)
  next
    case (TokWaiting d)
    then obtain q where q: "q \<in> set (tr_enqueued s)" "tq_done q = d" "call_of q = tr_calls s ! i" using ok by auto
    have "tc_done ?c d = Some r \<Longrightarrow> (q, r) \<in> set (tr_sent s)" for r
      using done_own_result [OF inv q(1)] q(2) by simp
    then have "tok_inv mp td rd (s\<lparr>tr_sends := (tr_sends s)[i := fst (tok_send_poll ?c (TokWaiting d))]\<rparr>)"
      using q by (intro keep) (auto split: option.splits)
    then show ?thesis using True TokWaiting by (auto simp: run_poll_def split: option.splits)
  next
    case (TokQueueing req)
    then have req: "tq_done req < tc_next ?c" "call_of req = tr_calls s ! i" using ok by auto
    consider (closed) "\<not> tc_ports ?c" | (room) "tc_ports ?c" "length (tc_tx_req ?c) < tc_tx_depth ?c"
      | (full) "tc_ports ?c" "\<not> length (tc_tx_req ?c) < tc_tx_depth ?c" by blast
    then show ?thesis
    proof cases
      case closed
      have "tok_inv mp td rd (s\<lparr>tr_sends := (tr_sends s)[i := TokSent (Err (SendBackend ChannelClosed))]\<rparr>)"
        using closed by (intro keep) auto
      then show ?thesis using True TokQueueing closed by (simp add: run_poll_def)
    next
      case full
      have "(tr_sends s)[i := TokQueueing req] = tr_sends s" using TokQueueing by (metis list_update_id)
      then show ?thesis using True TokQueueing inv full by (simp add: run_poll_def)
    next
      case room
      obtain a b where ab: "concat (map own_done (tr_sends s)) = a @ tq_done req # b"
        and ab': "concat (map own_done ((tr_sends s)[i := TokWaiting (tq_done req)])) = a @ b"
        using own_done_update [OF True, of "TokWaiting (tq_done req)"] TokQueueing by auto
      have "list_all2 (send_ok mp (tc_ports ?c) (tr_enqueued s @ [req]) (tr_sent s) (tc_next ?c)) (tr_calls s) (tr_sends s)"
        by (rule sends_ok_mono [OF all]) auto
      then have "list_all2 (send_ok mp (tc_ports ?c) (tr_enqueued s @ [req]) (tr_sent s) (tc_next ?c))
          (tr_calls s) ((tr_sends s)[i := TokWaiting (tq_done req)])"
        by (rule sends_ok_update [OF _ True]) (use req in auto)
      then show ?thesis using True TokQueueing room inv dist ab ab' req
        by (auto simp: run_poll_def tok_inv_def Let_def dones_distinct_def)
    qed
  qed
qed (use inv in \<open>simp add: run_poll_def\<close>)

lemma recv_inv:
  assumes "tok_inv mp td rd s"
  shows "tok_inv mp td rd (run_recv s)"
  using assms by (cases "tr_chan s" rule: tok_wait_cases) (auto simp: run_recv_def tok_inv_def Let_def)

lemma drop_inv:
  assumes "tok_inv mp td rd s"
  shows "tok_inv mp td rd (s\<lparr>tr_chan := tok_actor_drop (tr_chan s)\<rparr>)"
proof -
  let ?c = "tr_chan s"
  have "list_all2 (send_ok mp False (tr_enqueued s) (tr_sent s) (tc_next ?c)) (tr_calls s) (tr_sends s)"
    by (rule sends_ok_mono [of mp "tc_ports ?c"]) (use assms in \<open>auto simp: tok_inv_def Let_def\<close>)
  then show ?thesis using assms by (auto simp: tok_inv_def tok_actor_drop_def Let_def)
qed

lemma actor_inv:
  assumes inv: "tok_inv mp td rd s"
  shows "tok_inv mp td rd (run_actor N cfg s blocked)"
proof (cases "tc_ports (tr_chan s)")
  case True
  let ?c = "tr_chan s" and ?a = "tr_actor s"
  have enq: "tr_enqueued s = map fst (tr_sent s) @ sending (ta_pc ?a) @ tc_tx_req ?c"
    and all: "list_all2 (send_ok mp (tc_ports ?c) (tr_enqueued s) (tr_sent s) (tc_next ?c)) (tr_calls s) (tr_sends s)"
    and dist: "dones_distinct (tr_enqueued s) (tr_sends s)"
    using inv True unfolding tok_inv_def Let_def by blast+
  show ?thesis
  proof (cases "ta_pc ?a")
    case (TokTx k)
    then show ?thesis using inv True
      by (cases "tc_tx_req ?c") (auto simp: run_actor_def tok_actor_step.simps tok_inv_def Let_def)
  next
    case (TokSending k req)
    obtain m n1 where send: "tok_node_send N (ta_node ?a) req = (m, n1)" by (cases "tok_node_send N (ta_node ?a) req")
    have fresh: "tq_done req \<notin> fst ` set (map (\<lambda>(q, r). (tq_done q, r)) (tr_sent s))"
      using dist enq TokSending by (force simp: dones_distinct_def)
    have "map_of (map (\<lambda>(q, r). (tq_done q, r)) (tr_sent s @ [(req, m)])) =
        (map_of (map (\<lambda>(q, r). (tq_done q, r)) (tr_sent s)))(tq_done req \<mapsto> m)"
      using map_of_snoc [OF fresh, of m] by simp
    moreover have "list_all2 (send_ok mp (tc_ports ?c) (tr_enqueued s) (tr_sent s @ [(req, m)]) (tc_next ?c))
        (tr_calls s) (tr_sends s)"
      by (rule sends_ok_mono [OF all]) auto
    ultimately show ?thesis using inv True TokSending send enq
      by (auto simp: run_actor_def tok_actor_step.simps tok_inv_def Let_def)
  next
    case TokPolling
    obtain r calls n1 where poll: "tr_recv_one N (ta_node ?a) (recv_poll_timeout cfg) = (r, calls, n1)"
      using prod_cases3 by blast
    obtain evt hooks where "tok_rx_event_of cfg r calls = (evt, hooks)" by (cases "tok_rx_event_of cfg r calls")
    then show ?thesis using inv True TokPolling poll
      by (cases evt) (auto simp: run_actor_def tok_actor_step.simps tok_inv_def Let_def)
  next
    case (TokPushing e)
    then show ?thesis using inv True
      by (auto simp: run_actor_def tok_actor_step.simps tok_send_rx_event_def tok_inv_def Let_def)
  qed
qed (use inv in \<open>simp add: run_actor_def\<close>)

interpretation tok_runs: run_invariant "tok_step N cfg" "tok_inv mp td rd" "\<lambda>_. True" for N cfg mp td rd
proof unfold_locales
  fix s :: "('a, 'b) tok_run" and e
  assume "tok_inv mp td rd s"
  then show "tok_inv mp td rd (tok_step N cfg s e)"
    by (cases e) (simp_all add: send_inv poll_inv recv_inv drop_inv actor_inv del: tok_step.simps(1))
qed

section \<open>Properties\<close>

text \<open>A node that accepts every send and delivers one payload per poll.\<close>

definition echo_node :: "(nat, unit) transport" where
  "echo_node =
     \<lparr>tr_send_to = \<lambda>n dst p t. (Ok (), n), tr_send_functional_to = \<lambda>n dst p t. (Err SendTimeout, n),
      tr_recv_one = \<lambda>n t. (Ok RecvDeliveredOne, [(\<lparr>reply_to = 5\<rparr>, [of_nat n])], Suc n)\<rparr>"

definition example_events :: "tok_event list" where
  "example_events =
     [EvSend False 34 [1, 2] 9, EvSend True 35 [3] 9, EvPoll 1, EvPoll 0, EvActor 0, EvActor 0, EvActor 0, EvPoll 1, EvPoll 0,
      EvActor 0, EvActor 0, EvActor 0, EvActor 0, EvPoll 0]"

lemmas tok_run_simps = example_events_def echo_node_def actor_config_default_def normalized_tx_burst_limit_def
  tok_run_start_def make_endpoints_def tok_actor_start_def tok_send_to_def tok_send_functional_to_def tok_send_with_def
  run_poll_def run_actor_def tok_actor_step.simps tok_node_send_def map_tx_error_def tok_rx_event_of_def
  tok_send_rx_event_def Let_def

lemma example_run:
  "let s = run_steps (tok_step echo_node actor_config_default) (tok_run_start (make_endpoints 4 1 1) 0) example_events
   in tr_sends s = [TokSent (Ok ()), TokSent (Err SendTimeout)] \<and> tc_ports (tr_chan s) \<and>
      tr_calls s = [(False, 34, [1, 2], 9), (True, 35, [3], 9)] \<and>
      map tq_to (tr_enqueued s) = [35, 34] \<and> map snd (tr_sent s) = [Err SendTimeout, Ok ()]"
  by (simp add: tok_run_simps)

lemma actor_polls_from:
  assumes "ta_pc a = TokTx j" and "j \<le> normalized_tx_burst_limit cfg"
    and "2 * (normalized_tx_burst_limit cfg - j) + 1 \<le> length cs"
  shows "\<exists>k \<le> length cs. ta_pc (run_steps (\<lambda>a c. snd (tok_actor_step N cfg b c a)) a (take k cs)) = TokPolling"
  using assms
proof (induction "normalized_tx_burst_limit cfg - j" arbitrary: j a cs)
  case 0
  then obtain c cs' where "cs = c # cs'" by (cases cs) auto
  then show ?case using 0 by (intro exI [of _ 1]) (simp add: tok_actor_step.simps)
next
  case (Suc m)
  then obtain c c' cs' where cs: "cs = c # c' # cs'" by (cases cs; cases "tl cs") auto
  let ?f = "\<lambda>a c. snd (tok_actor_step N cfg b c a)"
  show ?case
  proof (cases "tc_tx_req c")
    case Nil
    then show ?thesis using Suc cs by (intro exI [of _ 1]) (simp add: tok_actor_step.simps)
  next
    case (Cons req reqs)
    let ?a = "?f (?f a c) c'"
    have "j < normalized_tx_burst_limit cfg" using Suc(2) by simp
    then have "ta_pc ?a = TokTx (j + 1)"
      using Suc(3) Cons by (simp add: tok_actor_step.simps Let_def split: prod.splits)
    moreover have "m = normalized_tx_burst_limit cfg - (j + 1)" "j + 1 \<le> normalized_tx_burst_limit cfg"
      "2 * (normalized_tx_burst_limit cfg - (j + 1)) + 1 \<le> length cs'"
      using Suc cs by auto
    ultimately obtain k where "k \<le> length cs'" "ta_pc (run_steps ?f ?a (take k cs')) = TokPolling"
      using Suc(1) [of "j + 1" ?a cs'] by blast
    then show ?thesis using cs by (intro exI [of _ "k + 2"]) simp
  qed
qed





text \<open>C39: The receive side is not starved by senders: from the start of a burst the actor polls the transport
  within \<open>2 * limit + 1\<close> of its steps, whatever the request channel holds at each of them.\<close>

theorem queue_receive_not_starved:
  assumes "ta_pc a = TokTx 0" and "length cs = 2 * normalized_tx_burst_limit cfg + 1"
  shows "\<exists>k \<le> length cs. ta_pc (run_steps (\<lambda>a c. snd (tok_actor_step N cfg b c a)) a (take k cs)) = TokPolling"
  by (rule actor_polls_from [OF assms(1)]) (use assms(2) in auto)

theorem queue_receive_not_starved_witness:
  "\<exists>k \<le> 3. ta_pc (run_steps (\<lambda>a c. snd (tok_actor_step echo_node (actor_config_new 0 0 None) 0 c a)) (tok_actor_start 0)
     (take k (replicate 3 ((make_endpoints 1 1 1)\<lparr>tc_tx_req :=
        [\<lparr>tq_to = 1, tq_functional_to = False, tq_timeout = 0, tq_payload = [], tq_done = 0\<rparr>]\<rparr>)))) = TokPolling"
  using queue_receive_not_starved [of "tok_actor_start 0"
      "replicate 3 ((make_endpoints 1 1 1)\<lparr>tc_tx_req := [\<lparr>tq_to = 1, tq_functional_to = False, tq_timeout = 0, tq_payload = [], tq_done = 0\<rparr>]\<rparr>)"
      "actor_config_new 0 0 None" echo_node 0]
  by (simp add: tok_actor_start_def actor_config_new_def normalized_tx_burst_limit_def)

text \<open>The ingest pump over a queue endpoint never panics and keeps its receive buffer, and it ingests
  exactly the oldest payload the actor queued, under the sender the actor gave it; a payload longer
  than the buffer is consumed and reported.\<close>

lemma pump_over_queue:
  fixes E :: "('e tok_channels, 'e queue_error) isotp_endpoint"
  assumes "pump_ingest_once (E\<lparr>ep_recv_one_into := tok_recv_one_into\<rparr>) W ids D B ifc tmo buf = (q, buf', ifc')"
  shows "q \<noteq> Panic \<and> length buf' = length buf \<and>
     (\<forall>src p es. tc_rx_evt (rx_transport ifc) = TokDelivered src p # es \<longrightarrow>
        (let ifc1 = ifc\<lparr>rx_transport := (rx_transport ifc)\<lparr>tc_rx_evt := es\<rparr>\<rparr> in
         if length p \<le> length buf then
           (q, ifc') = (case ingest W ids D B ifc1 src p of
                          (Ok oc, ifc2) \<Rightarrow> (Return (Ok (PumpDelivered oc)), ifc2)
                        | (Err e, ifc2) \<Rightarrow> (Return (Err (PumpIngest e)), ifc2))
         else (q, ifc') = (Return (Err (PumpRecvBufferTooSmall (length p) (length buf))), ifc1)))"
proof (intro conjI allI impI)
  show "q \<noteq> Panic" and "length buf' = length buf"
    using tok.pump_returns [OF _ assms] by simp_all
next
  fix src p es
  assume "tc_rx_evt (rx_transport ifc) = TokDelivered src p # es"
  then show "let ifc1 = ifc\<lparr>rx_transport := (rx_transport ifc)\<lparr>tc_rx_evt := es\<rparr>\<rparr> in
         if length p \<le> length buf then
           (q, ifc') = (case ingest W ids D B ifc1 src p of
                          (Ok oc, ifc2) \<Rightarrow> (Return (Ok (PumpDelivered oc)), ifc2)
                        | (Err e, ifc2) \<Rightarrow> (Return (Err (PumpIngest e)), ifc2))
         else (q, ifc') = (Return (Err (PumpRecvBufferTooSmall (length p) (length buf))), ifc1)"
    using assms
    by (auto simp: pump_ingest_once_def tok_recv_one_into_def tok_wait_def take_copy_into length_copy_into Let_def
        split: result.splits prod.splits if_splits)
qed

end
