(* ===== verification/Queue_Embassy.thy ===== *)
theory Queue_Embassy
  imports Queue_Tokio
begin

text \<open>
  The queue endpoint of \<open>can-isotp-queue\<close> for embassy (\<open>embassy.rs\<close>): channels in static memory, fixed
  payload arrays, and one response channel shared by all senders under a lock. As for tokio, every await
  point separates two steps of the model; a future can also be dropped at an await point, which releases
  the lock if it holds it. The const parameters of the resources are fields of the record. The clock of
  \<open>embassy-time\<close> is a record of two conversions. An \<open>unreachable!\<close> or a slice out of range puts the actor
  in the state \<open>EmbPanicked\<close>.
\<close>

section \<open>Resources\<close>

record emb_request =
  eq_to :: u8
  eq_functional :: bool
  eq_timeout :: duration
  eq_len :: usize
  eq_payload :: bytes

datatype 'e emb_response = EmbOk | EmbTimeout | EmbBackend 'e

datatype 'e emb_rx_event =
    EmbDelivered u8 usize bytes
  | EmbBufferTooSmall usize usize
  | EmbRxBackend 'e

record 'e queue_resources =
  qr_max_payload :: usize
  qr_tx_req_depth :: usize
  qr_tx_resp_depth :: usize
  qr_rx_evt_depth :: usize
  qr_tx_req :: "emb_request list"
  qr_tx_resp :: "'e emb_response list"
  qr_rx_evt :: "'e emb_rx_event list"
  qr_tx_rpc_lock :: bool

definition queue_resources_new :: "usize \<Rightarrow> usize \<Rightarrow> usize \<Rightarrow> usize \<Rightarrow> 'e queue_resources" where
  "queue_resources_new mp td pd rd =
     \<lparr>qr_max_payload = mp, qr_tx_req_depth = td, qr_tx_resp_depth = pd, qr_rx_evt_depth = rd,
      qr_tx_req = [], qr_tx_resp = [], qr_rx_evt = [], qr_tx_rpc_lock = False\<rparr>"

section \<open>Time\<close>

record emb_clock =
  ec_from_micros :: "u64 \<Rightarrow> nat"
  ec_as_micros :: "nat \<Rightarrow> u64"

definition core_to_embassy_duration :: "emb_clock \<Rightarrow> duration \<Rightarrow> nat" where
  "core_to_embassy_duration C dur = (let micros = word_of_nat (min (dur div 1000) (2 ^ 64 - 1)) in ec_from_micros C micros)"

definition embassy_to_core_duration :: "emb_clock \<Rightarrow> nat \<Rightarrow> duration" where
  "embassy_to_core_duration C dur = unat (ec_as_micros C dur) * 1000"

text \<open>The hook after a send on a channel that took \<open>blocked\<close> ticks, if the clock did not go back.\<close>

definition emb_backpressure :: "emb_clock \<Rightarrow> queue_kind \<Rightarrow> nat option \<Rightarrow> 'e hook_call list" where
  "emb_backpressure C what blocked =
     (case blocked of
        Some t \<Rightarrow> if t \<ge> core_to_embassy_duration C BACKPRESSURE_LOG_THRESHOLD
                  then [OnQueueBackpressure what (embassy_to_core_duration C t)] else []
      | None \<Rightarrow> [])"

section \<open>Sending\<close>

fun map_tx_response :: "'e emb_response \<Rightarrow> 'e tx_result" where
  "map_tx_response EmbOk = Ok ()"
| "map_tx_response EmbTimeout = Err SendTimeout"
| "map_tx_response (EmbBackend e) = Err (SendBackend (Transport e))"

text \<open>A send in progress: waiting for the lock, for room in the request channel, for a response; returned; or
  dropped before that.\<close>

datatype 'e emb_send =
    EmbLocking emb_request
  | EmbQueueing emb_request
  | EmbWaiting
  | EmbSent "'e tx_result"
  | EmbDropped

definition emb_send_with :: "bool \<Rightarrow> 'e queue_resources \<Rightarrow> u8 \<Rightarrow> bytes \<Rightarrow> duration \<Rightarrow> 'e emb_send" where
  "emb_send_with functional q dst payload tmo =
     (if length payload > qr_max_payload q
      then EmbSent (Err (SendBackend (PayloadTooLarge (length payload) (qr_max_payload q))))
      else let req_payload = copy_into (replicate (qr_max_payload q) 0) payload
           in EmbLocking \<lparr>eq_to = dst, eq_functional = functional, eq_timeout = tmo, eq_len = length payload,
                          eq_payload = req_payload\<rparr>)"

definition emb_send_to :: "'e queue_resources \<Rightarrow> u8 \<Rightarrow> bytes \<Rightarrow> duration \<Rightarrow> 'e emb_send" where
  "emb_send_to q dst payload tmo = emb_send_with False q dst payload tmo"

definition emb_send_functional_to :: "'e queue_resources \<Rightarrow> u8 \<Rightarrow> bytes \<Rightarrow> duration \<Rightarrow> 'e emb_send" where
  "emb_send_functional_to q functional_to payload tmo = emb_send_with True q functional_to payload tmo"

text \<open>One poll: take the lock and drain the response channel; put the request in its channel; take a response
  and give the lock back.\<close>

fun emb_send_poll :: "'e queue_resources \<Rightarrow> 'e emb_send \<Rightarrow> 'e emb_send \<times> 'e queue_resources" where
  "emb_send_poll q (EmbLocking req) =
     (if qr_tx_rpc_lock q then (EmbLocking req, q) else (EmbQueueing req, q\<lparr>qr_tx_resp := [], qr_tx_rpc_lock := True\<rparr>))"
| "emb_send_poll q (EmbQueueing req) =
     (if length (qr_tx_req q) < qr_tx_req_depth q then (EmbWaiting, q\<lparr>qr_tx_req := qr_tx_req q @ [req]\<rparr>)
      else (EmbQueueing req, q))"
| "emb_send_poll q EmbWaiting =
     (case qr_tx_resp q of
        resp # rest \<Rightarrow> (EmbSent (map_tx_response resp), q\<lparr>qr_tx_resp := rest, qr_tx_rpc_lock := False\<rparr>)
      | [] \<Rightarrow> (EmbWaiting, q))"
| "emb_send_poll q t = (t, q)"

text \<open>Dropping the future: the guard, if it has one, unlocks.\<close>

fun emb_send_drop :: "'e queue_resources \<Rightarrow> 'e emb_send \<Rightarrow> 'e emb_send \<times> 'e queue_resources" where
  "emb_send_drop q (EmbSent r) = (EmbSent r, q)"
| "emb_send_drop q (EmbQueueing req) = (EmbDropped, q\<lparr>qr_tx_rpc_lock := False\<rparr>)"
| "emb_send_drop q EmbWaiting = (EmbDropped, q\<lparr>qr_tx_rpc_lock := False\<rparr>)"
| "emb_send_drop q t = (EmbDropped, q)"

section \<open>Receiving\<close>

text \<open>\<open>with_timeout(timeout, rx_evt.receive())\<close> on the channel as it is when the wait ends.\<close>

definition emb_wait :: "'e queue_resources \<Rightarrow> 'e emb_rx_event option \<times> 'e queue_resources" where
  "emb_wait q = (case qr_rx_evt q of e # es \<Rightarrow> (Some e, q\<lparr>qr_rx_evt := es\<rparr>) | [] \<Rightarrow> (None, q))"

definition emb_recv_one_into :: "('e queue_resources, 'e queue_error) recv_into_fn" where
  "emb_recv_one_into q tmo out =
     (case emb_wait q of
        (None, q1) \<Rightarrow> (Ok IntoTimedOut, out, q1)
      | (Some (EmbDelivered src n payload), q1) \<Rightarrow>
          if length out < n then (Err (RecvBufferTooSmall n (length out)), out, q1)
          else (Ok (IntoDeliveredOne \<lparr>reply_to = src\<rparr> n), copy_into out (take n payload), q1)
      | (Some (EmbBufferTooSmall n g), q1) \<Rightarrow> (Err (RecvBufferTooSmall n g), out, q1)
      | (Some (EmbRxBackend e), q1) \<Rightarrow> (Err (RecvBackend (Transport e)), out, q1))"

definition emb_recv_one ::
    "('s \<Rightarrow> recv_meta \<Rightarrow> bytes \<Rightarrow> (recv_control, 'e queue_error) result \<times> 's) \<Rightarrow> 's \<Rightarrow> 'e queue_resources \<Rightarrow> duration \<Rightarrow>
     (recv_status, 'e queue_error recv_error) result \<times> 's \<times> 'e queue_resources" where
  "emb_recv_one cb st q tmo =
     (case emb_recv_one_into q tmo (replicate (qr_max_payload q) 0) of
        (Err e, tmp, q1) \<Rightarrow> (Err e, st, q1)
      | (Ok IntoTimedOut, tmp, q1) \<Rightarrow> (Ok RecvTimedOut, st, q1)
      | (Ok (IntoDeliveredOne meta n), tmp, q1) \<Rightarrow>
          (case cb st meta (take n tmp) of
             (Err e, st1) \<Rightarrow> (Err (RecvBackend e), st1, q1)
           | (Ok _, st1) \<Rightarrow> (Ok RecvDeliveredOne, st1, q1)))"

interpretation emb: recv_into_endpoint emb_recv_one_into
proof unfold_locales
  fix q q' :: "'e queue_resources" and t out out' and r :: "(recv_meta_into_status, 'e queue_error recv_error) result"
  assume "emb_recv_one_into q t out = (r, out', q')"
  then show "length out' = length out"
    by (cases "qr_rx_evt q"; cases "hd (qr_rx_evt q)")
       (auto simp: emb_recv_one_into_def emb_wait_def length_copy_into split: if_splits)
next
  fix q q' :: "'e queue_resources" and t out out' meta n
  assume "emb_recv_one_into q t out = (Ok (IntoDeliveredOne meta n), out', q')"
  then show "n \<le> length out"
    by (cases "qr_rx_evt q"; cases "hd (qr_rx_evt q)") (auto simp: emb_recv_one_into_def emb_wait_def split: if_splits)
qed

section \<open>The actor\<close>

datatype 'e emb_pc =
    EmbTx usize
  | EmbSending usize emb_request
  | EmbReplying usize "'e emb_response"
  | EmbPolling
  | EmbPushing "'e emb_rx_event"
  | EmbPanicked

record ('n, 'e) emb_actor =
  ea_node :: 'n
  ea_rx_buf :: bytes
  ea_pc :: "'e emb_pc"
  ea_hooks :: "'e hook_call list"

definition emb_actor_start :: "'e queue_resources \<Rightarrow> 'n \<Rightarrow> ('n, 'e) emb_actor" where
  "emb_actor_start q n = \<lparr>ea_node = n, ea_rx_buf = replicate (qr_max_payload q) 0, ea_pc = EmbTx 0, ea_hooks = [OnActorStarted]\<rparr>"

text \<open>The send on the node, with its result mapped; \<open>Panic\<close> for a length beyond the array.\<close>

definition emb_node_send :: "('n, 'e) isotp_endpoint \<Rightarrow> 'n \<Rightarrow> emb_request \<Rightarrow> ('e tx_result \<times> 'n) outcome" where
  "emb_node_send N n req =
     (if eq_len req > length (eq_payload req) then Panic
      else let payload = take (eq_len req) (eq_payload req);
               (r, n1) = (if eq_functional req then ep_send_functional_to N n (eq_to req) payload (eq_timeout req)
                          else ep_send_to N n (eq_to req) payload (eq_timeout req))
           in Return (map_tx_error r, n1))"

fun emb_response_of :: "'e tx_result \<Rightarrow> 'e emb_response outcome" where
  "emb_response_of (Ok _) = Return EmbOk"
| "emb_response_of (Err SendTimeout) = Return EmbTimeout"
| "emb_response_of (Err (SendBackend (Transport e))) = Return (EmbBackend e)"
| "emb_response_of (Err (SendBackend (PayloadTooLarge _ _))) = Panic"
| "emb_response_of (Err (SendBackend ChannelClosed)) = Panic"

text \<open>A payload that passes the source filter, copied from the receive buffer into an array of its own.\<close>

definition emb_deliver ::
    "actor_config \<Rightarrow> usize \<Rightarrow> recv_meta \<Rightarrow> usize \<Rightarrow> bytes \<Rightarrow> ('e emb_rx_event option \<times> 'e hook_call list) outcome" where
  "emb_deliver cfg mp meta n rx_buf =
     (let src = (case fixed_reply_to cfg of Some f \<Rightarrow> f | None \<Rightarrow> reply_to meta) in
      if n > mp \<or> n > length rx_buf then Panic
      else Return (Some (EmbDelivered src n (copy_into (replicate mp 0) (take n rx_buf))), [OnRxDelivered src n]))"

text \<open>What the actor does with a result of \<open>recv_one_into\<close>: the event to forward and the hooks.\<close>

definition emb_rx_event_of ::
    "actor_config \<Rightarrow> usize \<Rightarrow> (recv_meta_into_status, 'e recv_error) result \<Rightarrow> bytes \<Rightarrow>
     ('e emb_rx_event option \<times> 'e hook_call list) outcome" where
  "emb_rx_event_of cfg mp r rx_buf =
     (case r of
        Ok IntoTimedOut \<Rightarrow> Return (None, [])
      | Ok (IntoDeliveredOne meta n) \<Rightarrow>
          (case allowed_reply_from cfg of
             Some expected_from \<Rightarrow>
               if reply_to meta \<noteq> expected_from then Return (None, [OnRxFilteredSource expected_from (reply_to meta) n])
               else emb_deliver cfg mp meta n rx_buf
           | None \<Rightarrow> emb_deliver cfg mp meta n rx_buf)
      | Err (RecvBufferTooSmall n g) \<Rightarrow> Return (Some (EmbBufferTooSmall n g), [OnRxBufferTooSmall n g])
      | Err (RecvBackend e) \<Rightarrow> Return (Some (EmbRxBackend e), [OnRxBackendError e]))"

definition emb_send_rx_event ::
    "emb_clock \<Rightarrow> 'e queue_resources \<Rightarrow> 'e emb_rx_event \<Rightarrow> nat option \<Rightarrow> ('e queue_resources \<times> 'e hook_call list) option" where
  "emb_send_rx_event C q evt blocked =
     (if length (qr_rx_evt q) < qr_rx_evt_depth q then
        Some (q\<lparr>qr_rx_evt := qr_rx_evt q @ [evt]\<rparr>, emb_backpressure C RxEvt blocked)
      else None)"

definition emb_actor_step ::
    "emb_clock \<Rightarrow> ('n, 'e) isotp_endpoint \<Rightarrow> actor_config \<Rightarrow> nat option \<Rightarrow> 'e queue_resources \<Rightarrow> ('n, 'e) emb_actor \<Rightarrow>
     'e queue_resources \<times> ('n, 'e) emb_actor" where
  "emb_actor_step C N cfg blocked q a =
     (case ea_pc a of
        EmbTx tx_processed \<Rightarrow>
          if tx_processed < normalized_tx_burst_limit cfg then
            (case qr_tx_req q of
               req # reqs \<Rightarrow>
                 (q\<lparr>qr_tx_req := reqs\<rparr>,
                  a\<lparr>ea_pc := EmbSending (tx_processed + 1) req,
                    ea_hooks := ea_hooks a @ [OnTxRequest (eq_to req) (eq_functional req) (eq_len req) (eq_timeout req)]\<rparr>)
             | [] \<Rightarrow> (q, a\<lparr>ea_pc := EmbPolling\<rparr>))
          else (q, a\<lparr>ea_pc := EmbPolling\<rparr>)
      | EmbSending tx_processed req \<Rightarrow>
          (case emb_node_send N (ea_node a) req of
             Panic \<Rightarrow> (q, a\<lparr>ea_pc := EmbPanicked\<rparr>)
           | Return (mapped, n1) \<Rightarrow>
               (q, a\<lparr>ea_node := n1, ea_hooks := ea_hooks a @ [OnTxResult mapped],
                     ea_pc := (case emb_response_of mapped of Return rsp \<Rightarrow> EmbReplying tx_processed rsp | Panic \<Rightarrow> EmbPanicked)\<rparr>))
      | EmbReplying tx_processed rsp \<Rightarrow>
          if length (qr_tx_resp q) < qr_tx_resp_depth q then
            (q\<lparr>qr_tx_resp := qr_tx_resp q @ [rsp]\<rparr>,
             a\<lparr>ea_pc := EmbTx tx_processed, ea_hooks := ea_hooks a @ emb_backpressure C TxResp blocked\<rparr>)
          else (q, a)
      | EmbPolling \<Rightarrow>
          let (r, buf, n1) = ep_recv_one_into N (ea_node a) (recv_poll_timeout cfg) (ea_rx_buf a);
              a1 = a\<lparr>ea_node := n1, ea_rx_buf := buf\<rparr>
          in (case emb_rx_event_of cfg (qr_max_payload q) r buf of
                Panic \<Rightarrow> (q, a1\<lparr>ea_pc := EmbPanicked\<rparr>)
              | Return (evt, hooks) \<Rightarrow>
                  (q, a1\<lparr>ea_hooks := ea_hooks a1 @ hooks, ea_pc := (case evt of None \<Rightarrow> EmbTx 0 | Some e \<Rightarrow> EmbPushing e)\<rparr>))
      | EmbPushing e \<Rightarrow>
          (case emb_send_rx_event C q e blocked of
             None \<Rightarrow> (q, a)
           | Some (q1, hooks) \<Rightarrow> (q1, a\<lparr>ea_pc := EmbTx 0, ea_hooks := ea_hooks a @ hooks\<rparr>))
      | EmbPanicked \<Rightarrow> (q, a))"

section \<open>Runs of senders, receivers and actor\<close>

text \<open>Beside the state, a run keeps the arguments of the sends, the requests the node sent with their results, the
  events its receives gave, and those handed to a receiver.\<close>

datatype emb_event =
    EmSend bool u8 bytes duration
  | EmPoll nat
  | EmDrop nat
  | EmActor "nat option"
  | EmRecv

record ('n, 'e) emb_run =
  er_res :: "'e queue_resources"
  er_actor :: "('n, 'e) emb_actor"
  er_calls :: "(bool \<times> u8 \<times> bytes \<times> duration) list"
  er_sends :: "'e emb_send list"
  er_sent :: "(emb_request \<times> 'e tx_result) list"
  er_received :: "'e emb_rx_event list"
  er_delivered :: "'e emb_rx_event list"

definition emb_run_start :: "'e queue_resources \<Rightarrow> 'n \<Rightarrow> ('n, 'e) emb_run" where
  "emb_run_start q n =
     \<lparr>er_res = q, er_actor = emb_actor_start q n, er_calls = [], er_sends = [], er_sent = [], er_received = [], er_delivered = []\<rparr>"

definition emb_run_send :: "('n, 'e) emb_run \<Rightarrow> bool \<Rightarrow> u8 \<Rightarrow> bytes \<Rightarrow> duration \<Rightarrow> ('n, 'e) emb_run" where
  "emb_run_send s functional dst payload tmo =
     s\<lparr>er_calls := er_calls s @ [(functional, dst, payload, tmo)],
       er_sends := er_sends s @ [if functional then emb_send_functional_to (er_res s) dst payload tmo
                                 else emb_send_to (er_res s) dst payload tmo]\<rparr>"

definition emb_run_task ::
    "('e queue_resources \<Rightarrow> 'e emb_send \<Rightarrow> 'e emb_send \<times> 'e queue_resources) \<Rightarrow> ('n, 'e) emb_run \<Rightarrow> nat \<Rightarrow> ('n, 'e) emb_run" where
  "emb_run_task f s i =
     (if i < length (er_sends s) then
        let (t, q) = f (er_res s) (er_sends s ! i) in s\<lparr>er_res := q, er_sends := (er_sends s)[i := t]\<rparr>
      else s)"

definition emb_run_actor ::
    "emb_clock \<Rightarrow> ('n, 'e) isotp_endpoint \<Rightarrow> actor_config \<Rightarrow> ('n, 'e) emb_run \<Rightarrow> nat option \<Rightarrow> ('n, 'e) emb_run" where
  "emb_run_actor C N cfg s blocked =
     (let (q, a) = emb_actor_step C N cfg blocked (er_res s) (er_actor s)
      in s\<lparr>er_res := q, er_actor := a,
           er_sent := er_sent s @ (case ea_pc (er_actor s) of
               EmbSending _ req \<Rightarrow> (case emb_node_send N (ea_node (er_actor s)) req of Return (m, _) \<Rightarrow> [(req, m)] | Panic \<Rightarrow> [])
             | _ \<Rightarrow> []),
           er_received := er_received s @ (case (ea_pc (er_actor s), ea_pc a) of (EmbPolling, EmbPushing e) \<Rightarrow> [e] | _ \<Rightarrow> [])\<rparr>)"

definition emb_run_recv :: "('n, 'e) emb_run \<Rightarrow> ('n, 'e) emb_run" where
  "emb_run_recv s =
     (case emb_wait (er_res s) of
        (Some e, q) \<Rightarrow> s\<lparr>er_res := q, er_delivered := er_delivered s @ [e]\<rparr>
      | (None, q) \<Rightarrow> s\<lparr>er_res := q\<rparr>)"

fun emb_step :: "emb_clock \<Rightarrow> ('n, 'e) isotp_endpoint \<Rightarrow> actor_config \<Rightarrow> ('n, 'e) emb_run \<Rightarrow> emb_event \<Rightarrow> ('n, 'e) emb_run" where
  "emb_step C N cfg s (EmSend functional dst payload tmo) = emb_run_send s functional dst payload tmo"
| "emb_step C N cfg s (EmPoll i) = emb_run_task emb_send_poll s i"
| "emb_step C N cfg s (EmDrop i) = emb_run_task emb_send_drop s i"
| "emb_step C N cfg s (EmActor blocked) = emb_run_actor C N cfg s blocked"
| "emb_step C N cfg s EmRecv = emb_run_recv s"

end
