(* ===== verification/Queue_Embassy_Props.thy ===== *)
theory Queue_Embassy_Props
  imports Queue_Embassy
begin

text \<open>
  Properties of the embassy queue: the actor does not panic, events stay in order and channels within
  their depth, whatever sends are dropped; as long as no send is dropped, every send returns the result
  of its own request; after a dropped send, another send can return the result of the dropped one.
\<close>

section \<open>Safety\<close>

fun emb_sending :: "'e emb_pc \<Rightarrow> emb_request list" where
  "emb_sending (EmbSending _ req) = [req]"
| "emb_sending _ = []"

fun emb_replying :: "'e emb_pc \<Rightarrow> 'e emb_response list" where
  "emb_replying (EmbReplying _ rsp) = [rsp]"
| "emb_replying _ = []"

fun emb_pushing :: "'e emb_pc \<Rightarrow> 'e emb_rx_event list" where
  "emb_pushing (EmbPushing e) = [e]"
| "emb_pushing _ = []"

fun emb_held :: "'e emb_send \<Rightarrow> emb_request list" where
  "emb_held (EmbLocking req) = [req]"
| "emb_held (EmbQueueing req) = [req]"
| "emb_held _ = []"

definition req_wf :: "usize \<Rightarrow> emb_request \<Rightarrow> bool" where
  "req_wf mp req \<longleftrightarrow> eq_len req \<le> mp \<and> length (eq_payload req) = mp"

fun evt_wf :: "usize \<Rightarrow> 'e emb_rx_event \<Rightarrow> bool" where
  "evt_wf mp (EmbDelivered src n payload) = (n \<le> mp \<and> length payload = mp)"
| "evt_wf mp _ = True"

definition emb_safe :: "usize \<Rightarrow> usize \<Rightarrow> usize \<Rightarrow> usize \<Rightarrow> ('n, 'e) emb_run \<Rightarrow> bool" where
  "emb_safe mp td pd rd s \<longleftrightarrow>
     (let q = er_res s; a = er_actor s in
      qr_max_payload q = mp \<and> qr_tx_req_depth q = td \<and> qr_tx_resp_depth q = pd \<and> qr_rx_evt_depth q = rd \<and>
      length (qr_tx_req q) \<le> td \<and> length (qr_tx_resp q) \<le> pd \<and> length (qr_rx_evt q) \<le> rd \<and>
      length (ea_rx_buf a) = mp \<and> ea_pc a \<noteq> EmbPanicked \<and>
      (\<forall>t\<in>set (er_sends s). list_all (req_wf mp) (emb_held t)) \<and> list_all (req_wf mp) (qr_tx_req q @ emb_sending (ea_pc a)) \<and>
      er_received s = er_delivered s @ qr_rx_evt q @ emb_pushing (ea_pc a) \<and> list_all (evt_wf mp) (er_received s))"

lemma emb_safe_start: "emb_safe mp td pd rd (emb_run_start (queue_resources_new mp td pd rd) n)"
  by (simp add: emb_safe_def emb_run_start_def queue_resources_new_def emb_actor_start_def Let_def)

lemma emb_send_with_wf: "list_all (req_wf (qr_max_payload q)) (emb_held (emb_send_with functional q dst payload tmo))"
  by (simp add: emb_send_with_def req_wf_def length_copy_into Let_def)

lemma emb_safe_send:
  assumes "emb_safe mp td pd rd s"
  shows "emb_safe mp td pd rd (emb_run_send s functional dst payload tmo)"
proof -
  let ?t = "if functional then emb_send_functional_to (er_res s) dst payload tmo else emb_send_to (er_res s) dst payload tmo"
  have "qr_max_payload (er_res s) = mp" using assms by (simp add: emb_safe_def Let_def)
  then have "list_all (req_wf mp) (emb_held ?t)"
    using emb_send_with_wf [of "er_res s" functional dst payload tmo]
    by (cases functional) (simp_all add: emb_send_to_def emb_send_functional_to_def)
  then show ?thesis using assms by (auto simp: emb_safe_def emb_run_send_def Let_def)
qed

text \<open>A task changes its own state and what the senders share.\<close>

lemma emb_safe_task:
  assumes safe: "emb_safe mp td pd rd s" and i: "i < length (er_sends s)" and t: "list_all (req_wf mp) (emb_held t)"
    and b: "length reqs \<le> td" "length resps \<le> pd" "list_all (req_wf mp) reqs"
  shows "emb_safe mp td pd rd
    (s\<lparr>er_res := (er_res s)\<lparr>qr_tx_req := reqs, qr_tx_resp := resps, qr_tx_rpc_lock := l\<rparr>, er_sends := (er_sends s)[i := t]\<rparr>)"
proof -
  have "\<forall>u\<in>set (er_sends s). list_all (req_wf mp) (emb_held u)" using safe by (simp add: emb_safe_def Let_def)
  then have "\<forall>u\<in>set ((er_sends s)[i := t]). list_all (req_wf mp) (emb_held u)"
    using t set_update_subset_insert [of "er_sends s" i t] by blast
  then show ?thesis using safe b by (auto simp: emb_safe_def Let_def)
qed

lemma emb_safe_held: "emb_safe mp td pd rd s \<Longrightarrow> i < length (er_sends s) \<Longrightarrow> list_all (req_wf mp) (emb_held (er_sends s ! i))"
  by (simp add: emb_safe_def Let_def)

lemma emb_safe_bounds:
  assumes "emb_safe mp td pd rd s"
  shows "length (qr_tx_req (er_res s)) \<le> td" "length (qr_tx_resp (er_res s)) \<le> pd" "list_all (req_wf mp) (qr_tx_req (er_res s))"
    "qr_tx_req_depth (er_res s) = td"
  using assms by (simp_all add: emb_safe_def Let_def)

lemma emb_safe_same: "i < length (er_sends s) \<Longrightarrow> er_sends s ! i = t \<Longrightarrow> s\<lparr>er_res := er_res s, er_sends := (er_sends s)[i := t]\<rparr> = s"
  by auto

lemma emb_safe_poll:
  assumes safe: "emb_safe mp td pd rd s"
  shows "emb_safe mp td pd rd (emb_run_task emb_send_poll s i)"
proof (cases "i < length (er_sends s)")
  case i: True
  note task = emb_safe_task [OF safe i] and b = emb_safe_bounds [OF safe] and held = emb_safe_held [OF safe i]
  note same = emb_safe_same [OF i]
  show ?thesis
  proof (cases "er_sends s ! i")
    case (EmbLocking req)
    then show ?thesis using i b held same task [of "EmbQueueing req" "qr_tx_req (er_res s)" "[]" True] safe
      by (simp add: emb_run_task_def)
  next
    case (EmbQueueing req)
    then show ?thesis using i b held same safe
        task [of EmbWaiting "qr_tx_req (er_res s) @ [req]" "qr_tx_resp (er_res s)" "qr_tx_rpc_lock (er_res s)"]
      by (simp add: emb_run_task_def)
  next
    case EmbWaiting
    then show ?thesis using i b held same safe
        task [of "EmbSent (map_tx_response (hd (qr_tx_resp (er_res s))))" "qr_tx_req (er_res s)" "tl (qr_tx_resp (er_res s))" False]
      by (cases "qr_tx_resp (er_res s)") (simp_all add: emb_run_task_def)
  qed (use i same safe in \<open>simp_all add: emb_run_task_def\<close>)
qed (use safe in \<open>simp add: emb_run_task_def\<close>)

lemma emb_safe_drop:
  assumes safe: "emb_safe mp td pd rd s"
  shows "emb_safe mp td pd rd (emb_run_task emb_send_drop s i)"
proof (cases "i < length (er_sends s)")
  case i: True
  note task = emb_safe_task [OF safe i, of EmbDropped "qr_tx_req (er_res s)" "qr_tx_resp (er_res s)"]
    and b = emb_safe_bounds [OF safe] and same = emb_safe_same [OF i]
  show ?thesis using i b same safe task [of False] task [of "qr_tx_rpc_lock (er_res s)"]
    by (cases "er_sends s ! i") (simp_all add: emb_run_task_def)
qed (use safe in \<open>simp add: emb_run_task_def\<close>)

lemma emb_safe_recv: "emb_safe mp td pd rd s \<Longrightarrow> emb_safe mp td pd rd (emb_run_recv s)"
  by (cases "qr_rx_evt (er_res s)") (auto simp: emb_run_recv_def emb_wait_def emb_safe_def Let_def)

lemma map_tx_error_response: "\<exists>rsp. emb_response_of (map_tx_error r) = Return rsp \<and> map_tx_response rsp = map_tx_error r"
  by (cases r; cases "case r of Err e \<Rightarrow> e") (auto simp: map_tx_error_def split: send_error.splits)

lemma emb_node_send_wf:
  assumes "req_wf mp req"
  shows "\<exists>m n1 rsp. emb_node_send N n req = Return (m, n1) \<and> emb_response_of m = Return rsp \<and> map_tx_response rsp = m"
  using assms map_tx_error_response by (auto simp: emb_node_send_def req_wf_def Let_def split: prod.splits)

lemma emb_rx_event_of_wf:
  assumes "length buf = mp" and "\<And>meta n. r = Ok (IntoDeliveredOne meta n) \<Longrightarrow> n \<le> mp"
  shows "\<exists>evt hooks. emb_rx_event_of cfg mp r buf = Return (evt, hooks) \<and> (\<forall>e. evt = Some e \<longrightarrow> evt_wf mp e)"
  using assms by (auto simp: emb_rx_event_of_def emb_deliver_def Let_def length_copy_into
      split: result.splits recv_meta_into_status.splits recv_error.splits option.splits)

lemma emb_safe_actor:
  assumes N: "recv_into_endpoint (ep_recv_one_into N)" and safe: "emb_safe mp td pd rd s"
  shows "emb_safe mp td pd rd (emb_run_actor C N cfg s blocked)"
proof -
  let ?q = "er_res s" and ?a = "er_actor s"
  show ?thesis
  proof (cases "ea_pc ?a")
    case (EmbTx k)
    then show ?thesis using safe by (cases "qr_tx_req ?q") (auto simp: emb_run_actor_def emb_actor_step_def emb_safe_def Let_def)
  next
    case (EmbSending k req)
    then have "req_wf mp req" using safe by (simp add: emb_safe_def Let_def)
    then obtain m n1 rsp where "emb_node_send N (ea_node ?a) req = Return (m, n1)" "emb_response_of m = Return rsp"
      using emb_node_send_wf [of mp req N "ea_node ?a"] by auto
    then show ?thesis using safe EmbSending by (auto simp: emb_run_actor_def emb_actor_step_def emb_safe_def Let_def)
  next
    case (EmbReplying k rsp)
    then show ?thesis using safe by (auto simp: emb_run_actor_def emb_actor_step_def emb_safe_def Let_def)
  next
    case EmbPolling
    obtain r buf n1 where rcv: "ep_recv_one_into N (ea_node ?a) (recv_poll_timeout cfg) (ea_rx_buf ?a) = (r, buf, n1)"
      using prod_cases3 by blast
    have rx: "length (ea_rx_buf ?a) = mp" using safe by (simp add: emb_safe_def Let_def)
    have "length buf = mp" using recv_into_endpoint.recv_keeps_buffer [OF N rcv] rx by simp
    moreover have "n \<le> mp" if "r = Ok (IntoDeliveredOne meta n)" for meta n
      using recv_into_endpoint.recv_fits [OF N rcv [unfolded that]] rx by simp
    ultimately obtain evt hooks where evt: "emb_rx_event_of cfg mp r buf = Return (evt, hooks)" "\<forall>e. evt = Some e \<longrightarrow> evt_wf mp e" "length buf = mp"
      using emb_rx_event_of_wf by blast
    have mp: "qr_max_payload ?q = mp" using safe by (simp add: emb_safe_def Let_def)
    show ?thesis using safe EmbPolling rcv evt mp
      by (cases evt) (auto simp: emb_run_actor_def emb_actor_step_def emb_safe_def Let_def)
  next
    case (EmbPushing e)
    then show ?thesis using safe by (auto simp: emb_run_actor_def emb_actor_step_def emb_send_rx_event_def emb_safe_def Let_def)
  next
    case EmbPanicked
    then show ?thesis using safe by (simp add: emb_safe_def Let_def)
  qed
qed

lemma emb_safe_step:
  assumes "recv_into_endpoint (ep_recv_one_into N)" and "emb_safe mp td pd rd s"
  shows "emb_safe mp td pd rd (emb_step C N cfg s e)"
  using assms by (cases e) (simp_all add: emb_safe_send emb_safe_poll emb_safe_drop emb_safe_actor emb_safe_recv)


section \<open>Own results\<close>

definition emb_call :: "emb_request \<Rightarrow> bool \<times> u8 \<times> bytes \<times> duration" where
  "emb_call q = (eq_functional q, eq_to q, take (eq_len q) (eq_payload q), eq_timeout q)"

fun emb_active :: "'e emb_send \<Rightarrow> bool" where
  "emb_active (EmbQueueing _) = True"
| "emb_active EmbWaiting = True"
| "emb_active _ = False"

text \<open>What is between the request channel and the response channel.\<close>

definition emb_flight :: "('n, 'e) emb_run \<Rightarrow> (emb_request + 'e emb_response) list" where
  "emb_flight s =
     map Inl (qr_tx_req (er_res s)) @ map Inl (emb_sending (ea_pc (er_actor s))) @
     map Inr (emb_replying (ea_pc (er_actor s))) @ map Inr (qr_tx_resp (er_res s))"

text \<open>A send that has not started or has returned, as seen from its arguments.\<close>

fun emb_own ::
    "usize \<Rightarrow> (emb_request \<times> 'e tx_result) list \<Rightarrow> bool \<times> u8 \<times> bytes \<times> duration \<Rightarrow> 'e emb_send \<Rightarrow> bool" where
  "emb_own mp sent call (EmbLocking req) = (emb_call req = call)"
| "emb_own mp sent call (EmbQueueing req) = (emb_call req = call)"
| "emb_own mp sent call EmbWaiting = True"
| "emb_own mp sent call EmbDropped = False"
| "emb_own mp sent call (EmbSent r) =
     ((\<exists>q. (q, r) \<in> set sent \<and> emb_call q = call) \<or>
      (case call of (_, _, payload, _) \<Rightarrow> length payload > mp \<and> r = Err (SendBackend (PayloadTooLarge (length payload) mp))))"

text \<open>The one send that holds the lock: nothing is in flight until its request is queued, and from then on
  exactly its request or the response to it.\<close>

fun emb_holder :: "('n, 'e) emb_run \<Rightarrow> nat option \<Rightarrow> bool" where
  "emb_holder s None \<longleftrightarrow> emb_flight s = []"
| "emb_holder s (Some i) \<longleftrightarrow> i < length (er_sends s) \<and>
     (case er_sends s ! i of
        EmbQueueing req \<Rightarrow> emb_flight s = []
      | EmbWaiting \<Rightarrow> (\<exists>q. emb_call q = er_calls s ! i \<and>
          (emb_flight s = [Inl q] \<or> (\<exists>rsp. emb_flight s = [Inr rsp] \<and> (q, map_tx_response rsp) \<in> set (er_sent s))))
      | _ \<Rightarrow> False)"

definition emb_inv :: "usize \<Rightarrow> ('n, 'e) emb_run \<Rightarrow> nat option \<Rightarrow> bool" where
  "emb_inv mp s h \<longleftrightarrow>
     qr_max_payload (er_res s) = mp \<and> list_all2 (emb_own mp (er_sent s)) (er_calls s) (er_sends s) \<and>
     (qr_tx_rpc_lock (er_res s) \<longleftrightarrow> h \<noteq> None) \<and> (\<forall>i < length (er_sends s). emb_active (er_sends s ! i) \<longleftrightarrow> h = Some i) \<and>
     emb_holder s h"

lemma emb_own_mono: "emb_own mp sent call t \<Longrightarrow> emb_own mp (sent @ new) call t"
  by (cases t) auto

lemma emb_inv_start: "emb_inv mp (emb_run_start (queue_resources_new mp td pd rd) n) None"
  by (simp add: emb_inv_def emb_run_start_def queue_resources_new_def emb_actor_start_def emb_flight_def)

lemma emb_send_with_own: "emb_own (qr_max_payload q) sent (functional, dst, payload, tmo) (emb_send_with functional q dst payload tmo)
    \<and> \<not> emb_active (emb_send_with functional q dst payload tmo)"
  by (simp add: emb_send_with_def emb_call_def take_copy_into Let_def)

lemma emb_inv_send:
  assumes inv: "emb_inv mp s h"
  shows "emb_inv mp (emb_run_send s functional dst payload tmo) h"
proof -
  let ?t = "emb_send_with functional (er_res s) dst payload tmo"
  have eq: "emb_run_send s functional dst payload tmo = s\<lparr>er_calls := er_calls s @ [(functional, dst, payload, tmo)], er_sends := er_sends s @ [?t]\<rparr>"
    by (cases functional) (simp_all add: emb_run_send_def emb_send_to_def emb_send_functional_to_def)
  have t: "emb_own mp (er_sent s) (functional, dst, payload, tmo) ?t" "\<not> emb_active ?t"
    using emb_send_with_own [of "er_res s"] inv by (auto simp: emb_inv_def)
  have len: "length (er_calls s) = length (er_sends s)" using inv by (auto simp: emb_inv_def dest: list_all2_lengthD)
  have fl: "emb_flight (emb_run_send s functional dst payload tmo) = emb_flight s" by (simp add: eq emb_flight_def)
  have "emb_holder (emb_run_send s functional dst payload tmo) h"
    using inv len fl by (cases h) (auto simp: emb_inv_def eq nth_append split: emb_send.splits)
  then show ?thesis using inv t len
    by (cases h) (auto simp: emb_inv_def eq nth_append less_Suc_eq list_all2_appendI)
qed

text \<open>A step that changes one send and nothing that the others look at.\<close>

lemma emb_own_update:
  assumes "list_all2 (emb_own mp sent) calls ts" and "i < length ts" and "emb_own mp sent (calls ! i) t"
  shows "list_all2 (emb_own mp sent) calls (ts[i := t])"
proof -
  have "list_all2 (emb_own mp sent) (calls[i := calls ! i]) (ts[i := t])" using assms by (intro list_all2_update_cong)
  then show ?thesis by simp
qed

lemma emb_inv_poll:
  assumes inv: "emb_inv mp s h"
  shows "\<exists>h'. emb_inv mp (emb_run_task emb_send_poll s i) h'"
proof (cases "i < length (er_sends s)")
  case i: True
  have all: "list_all2 (emb_own mp (er_sent s)) (er_calls s) (er_sends s)" using inv by (simp add: emb_inv_def)
  have own: "emb_own mp (er_sent s) (er_calls s ! i) (er_sends s ! i)" using all i by (simp add: list_all2_conv_all_nth)
  note upd = emb_own_update [OF all i]
  note same = emb_safe_same [OF i]
  have act: "emb_active (er_sends s ! i) \<longleftrightarrow> h = Some i" using inv i by (simp add: emb_inv_def)
  show ?thesis
  proof (cases "er_sends s ! i")
    case (EmbLocking req)
    show ?thesis
    proof (cases "qr_tx_rpc_lock (er_res s)")
      case False
      then have h: "h = None" using inv by (auto simp: emb_inv_def)
      let ?s = "s\<lparr>er_res := (er_res s)\<lparr>qr_tx_resp := [], qr_tx_rpc_lock := True\<rparr>, er_sends := (er_sends s)[i := EmbQueueing req]\<rparr>"
      have "emb_flight ?s = []" using inv h by (simp add: emb_inv_def emb_flight_def)
      then have "emb_inv mp ?s (Some i)" using inv h i upd [of "EmbQueueing req"] own EmbLocking
        by (auto simp: emb_inv_def nth_list_update)
      then show ?thesis using i EmbLocking False by (auto simp: emb_run_task_def)
    qed (use i EmbLocking same inv in \<open>auto simp: emb_run_task_def\<close>)
  next
    case (EmbQueueing req)
    then have h: "h = Some i" using act by simp
    show ?thesis
    proof (cases "length (qr_tx_req (er_res s)) < qr_tx_req_depth (er_res s)")
      case True
      let ?s = "s\<lparr>er_res := (er_res s)\<lparr>qr_tx_req := qr_tx_req (er_res s) @ [req]\<rparr>, er_sends := (er_sends s)[i := EmbWaiting]\<rparr>"
      have "emb_flight ?s = [Inl req]" using inv h EmbQueueing by (simp add: emb_inv_def emb_flight_def)
      then have "emb_inv mp ?s (Some i)" using inv h i upd [of EmbWaiting] own EmbQueueing
        by (auto simp: emb_inv_def nth_list_update)
      then show ?thesis using i EmbQueueing True by (auto simp: emb_run_task_def)
    qed (use i EmbQueueing same inv in \<open>auto simp: emb_run_task_def\<close>)
  next
    case EmbWaiting
    then have h: "h = Some i" using act by simp
    show ?thesis
    proof (cases "qr_tx_resp (er_res s)")
      case (Cons rsp rest)
      obtain q where q: "emb_call q = er_calls s ! i" "emb_flight s = [Inr rsp]" "(q, map_tx_response rsp) \<in> set (er_sent s)"
        using inv h EmbWaiting Cons by (auto simp: emb_inv_def emb_flight_def append_eq_Cons_conv)
      let ?s = "s\<lparr>er_res := (er_res s)\<lparr>qr_tx_resp := rest, qr_tx_rpc_lock := False\<rparr>, er_sends := (er_sends s)[i := EmbSent (map_tx_response rsp)]\<rparr>"
      have "emb_flight ?s = []" using q(2) Cons by (simp add: emb_flight_def append_eq_Cons_conv)
      then have "emb_inv mp ?s None" using inv h i upd [of "EmbSent (map_tx_response rsp)"] q
        by (auto simp: emb_inv_def nth_list_update)
      then show ?thesis using i EmbWaiting Cons by (auto simp: emb_run_task_def)
    qed (use i EmbWaiting same inv in \<open>auto simp: emb_run_task_def\<close>)
  qed (use i same inv in \<open>auto simp: emb_run_task_def\<close>)
qed (use inv in \<open>auto simp: emb_run_task_def\<close>)

lemma emb_inv_recv: "emb_inv mp s h \<Longrightarrow> emb_inv mp (emb_run_recv s) h"
  by (cases "qr_rx_evt (er_res s)"; cases h)
     (auto simp: emb_run_recv_def emb_wait_def emb_inv_def emb_flight_def split: emb_send.splits)

text \<open>The actor moves what is in flight one place on, and records the result when it sends.\<close>

lemma emb_inv_flight:
  assumes inv: "emb_inv mp s h" and s': "er_sends s' = er_sends s" "er_calls s' = er_calls s" "er_sent s' = er_sent s @ new"
      "qr_tx_rpc_lock (er_res s') = qr_tx_rpc_lock (er_res s)" "qr_max_payload (er_res s') = qr_max_payload (er_res s)"
    and fl: "emb_flight s' = emb_flight s \<or>
      (\<exists>q rsp. emb_flight s = [Inl q] \<and> emb_flight s' = [Inr rsp] \<and> (q, map_tx_response rsp) \<in> set new)"
  shows "emb_inv mp s' h"
proof -
  have all: "list_all2 (emb_own mp (er_sent s')) (er_calls s') (er_sends s')"
    using inv unfolding emb_inv_def s' by (auto elim: list_all2_mono simp: emb_own_mono)
  have "emb_holder s' h"
  proof (cases h)
    case None
    then show ?thesis using inv fl by (auto simp: emb_inv_def)
  next
    case (Some i)
    then show ?thesis using inv fl s' by (auto simp: emb_inv_def split: emb_send.splits)
  qed
  then show ?thesis using inv all s' by (simp add: emb_inv_def)
qed

lemma emb_inv_actor:
  assumes inv: "emb_inv mp s h" and safe: "emb_safe mp td pd rd s"
  shows "emb_inv mp (emb_run_actor C N cfg s blocked) h"
proof -
  let ?q = "er_res s" and ?a = "er_actor s" and ?s = "emb_run_actor C N cfg s blocked"
  have short: "length (emb_flight s) \<le> 1" using inv by (cases h) (auto simp: emb_inv_def split: emb_send.splits)
  show ?thesis
  proof (cases "ea_pc ?a")
    case (EmbTx k)
    show ?thesis
      by (rule emb_inv_flight [OF inv, where new = "[]"])
         (use EmbTx short in \<open>cases "qr_tx_req ?q"; auto simp: emb_run_actor_def emb_actor_step_def emb_flight_def\<close>)+
  next
    case (EmbSending k req)
    then have "req_wf mp req" using safe by (simp add: emb_safe_def Let_def)
    then obtain m n1 rsp where m: "emb_node_send N (ea_node ?a) req = Return (m, n1)" "emb_response_of m = Return rsp" "map_tx_response rsp = m"
      using emb_node_send_wf [of mp req N "ea_node ?a"] by auto
    have f: "emb_flight s = [Inl req]" using EmbSending short by (auto simp: emb_flight_def)
    have "emb_flight ?s = [Inr rsp]" using EmbSending short m by (auto simp: emb_flight_def emb_run_actor_def emb_actor_step_def)
    then show ?thesis
      by (intro emb_inv_flight [OF inv, where new = "[(req, m)]"])
         (use EmbSending m f in \<open>auto simp: emb_run_actor_def emb_actor_step_def\<close>)
  next
    case (EmbReplying k rsp)
    show ?thesis
      by (rule emb_inv_flight [OF inv, where new = "[]"])
         (use EmbReplying short in \<open>auto simp: emb_run_actor_def emb_actor_step_def emb_flight_def\<close>)
  next
    case EmbPolling
    obtain r buf n1 where rcv: "ep_recv_one_into N (ea_node ?a) (recv_poll_timeout cfg) (ea_rx_buf ?a) = (r, buf, n1)"
      using prod_cases3 by blast
    show ?thesis
      by (rule emb_inv_flight [OF inv, where new = "[]"])
         (use EmbPolling rcv in \<open>auto simp: emb_run_actor_def emb_actor_step_def emb_flight_def Let_def split: outcome.splits option.splits\<close>)
  next
    case (EmbPushing e)
    show ?thesis
      by (rule emb_inv_flight [OF inv, where new = "[]"])
         (use EmbPushing in \<open>auto simp: emb_run_actor_def emb_actor_step_def emb_send_rx_event_def emb_flight_def\<close>)
  next
    case EmbPanicked
    then show ?thesis using safe by (simp add: emb_safe_def Let_def)
  qed
qed

fun is_drop :: "emb_event \<Rightarrow> bool" where
  "is_drop (EmDrop i) = True"
| "is_drop _ = False"

interpretation emb_runs: run_invariant "emb_step C N cfg"
  "\<lambda>s. recv_into_endpoint (ep_recv_one_into N) \<and> emb_safe mp td pd rd s" "\<lambda>_. True" for C N cfg mp td pd rd
  by unfold_locales (simp add: emb_safe_step)

interpretation emb_own_runs: run_invariant "emb_step C N cfg"
  "\<lambda>s. recv_into_endpoint (ep_recv_one_into N) \<and> emb_safe mp td pd rd s \<and> (\<exists>h. emb_inv mp s h)" "\<lambda>e. \<not> is_drop e"
  for C N cfg mp td pd rd
proof unfold_locales
  fix s :: "('a, 'b) emb_run" and e
  assume "recv_into_endpoint (ep_recv_one_into N) \<and> emb_safe mp td pd rd s \<and> (\<exists>h. emb_inv mp s h)" and e: "\<not> is_drop e"
  then obtain h where inv: "emb_inv mp s h" and safe: "emb_safe mp td pd rd s" and N: "recv_into_endpoint (ep_recv_one_into N)" by blast
  have "\<exists>h'. emb_inv mp (emb_step C N cfg s e) h'"
    using e emb_inv_send [OF inv] emb_inv_poll [OF inv] emb_inv_actor [OF inv safe] emb_inv_recv [OF inv] by (cases e) (auto intro: exI [of _ h])
  then show "recv_into_endpoint (ep_recv_one_into N) \<and> emb_safe mp td pd rd (emb_step C N cfg s e) \<and> (\<exists>h. emb_inv mp (emb_step C N cfg s e) h)"
    using N emb_safe_step [OF N safe] by blast
qed

section \<open>Properties\<close>

text \<open>A node that accepts plain sends, lets functional ones time out, and delivers nothing.\<close>

definition quiet_node :: "(unit, unit) isotp_endpoint" where
  "quiet_node =
     \<lparr>ep_send_to = \<lambda>n dst p t. (Ok (), n), ep_send_functional_to = \<lambda>n dst p t. (Err SendTimeout, n),
      ep_recv_one_into = \<lambda>n t out. (Ok IntoTimedOut, out, n)\<rparr>"

lemma quiet_node_contract: "recv_into_endpoint (ep_recv_one_into quiet_node)"
  by unfold_locales (simp_all add: quiet_node_def)

definition micro_clock :: emb_clock where
  "micro_clock = \<lparr>ec_from_micros = unat, ec_as_micros = word_of_nat\<rparr>"

definition emb_example_events :: "emb_event list" where
  "emb_example_events =
     [EmSend False 34 [1, 2] 9, EmSend True 35 [3] 9, EmPoll 1, EmPoll 0, EmPoll 1, EmActor None, EmPoll 0, EmActor None, EmActor None,
      EmPoll 1, EmPoll 0, EmPoll 0, EmActor None, EmActor None, EmActor None, EmPoll 0]"

lemmas emb_run_simps = quiet_node_def micro_clock_def actor_config_default_def normalized_tx_burst_limit_def
  queue_resources_new_def emb_run_start_def emb_actor_start_def emb_run_send_def emb_send_to_def emb_send_functional_to_def
  emb_send_with_def emb_run_task_def emb_run_actor_def emb_actor_step_def emb_node_send_def map_tx_error_def
  emb_backpressure_def Let_def

lemma emb_example_run:
  "let s = run_steps (emb_step micro_clock quiet_node actor_config_default) (emb_run_start (queue_resources_new 4 1 1 1) ()) emb_example_events
   in er_sends s = [EmbSent (Ok ()), EmbSent (Err SendTimeout)] \<and> er_calls s = [(False, 34, [1, 2], 9), (True, 35, [3], 9)]"
  by (simp add: emb_run_simps emb_example_events_def copy_into_def)

text \<open>C15: As long as no send is dropped, every send through the embassy queue returns the transport's result for its own request,
  with its payload, whatever the interleaving, although all sends share one response channel; the only
  other result is the error of a payload over the limit.\<close>

theorem embassy_send_own_result:
  assumes N: "recv_into_endpoint (ep_recv_one_into N)" and evs: "list_all (\<lambda>e. \<not> is_drop e) evs"
    and s: "s = run_steps (emb_step C N cfg) (emb_run_start (queue_resources_new mp td pd rd) n) evs"
    and i: "i < length (er_sends s)" "er_sends s ! i = EmbSent r" "er_calls s ! i = (functional, dst, payload, tmo)"
  shows "(\<exists>q. (q, r) \<in> set (er_sent s) \<and> eq_to q = dst \<and> eq_functional q = functional \<and>
              take (eq_len q) (eq_payload q) = payload \<and> eq_timeout q = tmo)
     \<or> length payload > mp \<and> r = Err (SendBackend (PayloadTooLarge (length payload) mp))"
proof -
  obtain h where "emb_inv mp s h"
    using emb_own_runs.run_inv [OF _ evs, of N mp td pd rd "emb_run_start (queue_resources_new mp td pd rd) n" C cfg] N
      emb_safe_start [of mp td pd rd n] emb_inv_start [of mp td pd rd n] s by blast
  then have "emb_own mp (er_sent s) (er_calls s ! i) (er_sends s ! i)"
    using i(1) by (auto simp: emb_inv_def list_all2_conv_all_nth)
  then show ?thesis using i(2,3) by (auto simp: emb_call_def)
qed

theorem embassy_send_own_result_witness:
  "let s = run_steps (emb_step micro_clock quiet_node actor_config_default) (emb_run_start (queue_resources_new 4 1 1 1) ()) emb_example_events
   in er_sends s ! 1 = EmbSent (Err SendTimeout) \<and>
      (\<exists>q. (q, Err SendTimeout) \<in> set (er_sent s) \<and> eq_to q = 35 \<and> eq_functional q \<and> take (eq_len q) (eq_payload q) = [3] \<and> eq_timeout q = 9)"
proof -
  let ?s = "run_steps (emb_step micro_clock quiet_node actor_config_default) (emb_run_start (queue_resources_new 4 1 1 1) ()) emb_example_events"
  have "1 < length (er_sends ?s)" "er_sends ?s ! 1 = EmbSent (Err SendTimeout)" "er_calls ?s ! 1 = (True, 35, [3], 9)"
    using emb_example_run by (auto simp: Let_def)
  moreover have "list_all (\<lambda>e. \<not> is_drop e) emb_example_events" by (simp add: emb_example_events_def)
  ultimately show ?thesis using embassy_send_own_result [OF quiet_node_contract _ refl, of emb_example_events 1 micro_clock actor_config_default
        4 1 1 1 "()" "Err SendTimeout" True 35 "[3]" 9] by (auto simp: Let_def)
qed



text \<open>C33: After a dropped send the guarantee is lost: the request of the dropped send is still carried out, and a second send,
  started after the drop, returns the result of the first one, before its own request has been sent.\<close>

theorem embassy_stale_response:
  assumes "length p1 \<le> mp" and "length p2 \<le> mp" and "0 < td" and "0 < pd"
  shows "let s = run_steps (emb_step C N cfg) (emb_run_start (queue_resources_new mp td pd rd) n)
           [EmSend f1 d1 p1 t1, EmPoll 0, EmPoll 0, EmDrop 0, EmSend f2 d2 p2 t2, EmPoll 1, EmActor b1, EmPoll 1, EmActor b2, EmActor b3, EmPoll 1]
         in \<exists>q r. er_sent s = [(q, r)] \<and> emb_call q = (f1, d1, p1, t1) \<and> er_sends s = [EmbDropped, EmbSent r]"
proof -
  let ?q1 = "\<lparr>eq_to = d1, eq_functional = f1, eq_timeout = t1, eq_len = length p1, eq_payload = copy_into (replicate mp 0) p1\<rparr>"
  have wf: "req_wf mp ?q1" using assms(1) by (simp add: req_wf_def length_copy_into)
  obtain m n1 rsp where m: "emb_node_send N n ?q1 = Return (m, n1)" "emb_response_of m = Return rsp" "map_tx_response rsp = m"
    using emb_node_send_wf [OF wf, of N n] by auto
  have lim: "0 < normalized_tx_burst_limit cfg" by (simp add: normalized_tx_burst_limit_def)
  have call: "emb_call ?q1 = (f1, d1, p1, t1)" using assms(1) by (simp add: emb_call_def take_copy_into)
  have w: "emb_send_with f q d p t = EmbLocking \<lparr>eq_to = d, eq_functional = f, eq_timeout = t, eq_len = length p,
      eq_payload = copy_into (replicate mp 0) p\<rparr>" if "qr_max_payload q = mp" "length p \<le> mp" for f and q :: "'b queue_resources" and d p t
    using that by (simp add: emb_send_with_def Let_def)
  have sd: "(if f then emb_send_functional_to q d p t else emb_send_to q d p t) = emb_send_with f q d p t"
    for f and q :: "'b queue_resources" and d p t by (simp add: emb_send_to_def emb_send_functional_to_def)
  show ?thesis using assms lim m call
    by (simp add: emb_run_start_def queue_resources_new_def emb_actor_start_def emb_run_send_def sd w emb_run_task_def emb_run_actor_def
        emb_actor_step_def Let_def)
qed

theorem embassy_stale_response_witness:
  "let s = run_steps (emb_step micro_clock quiet_node actor_config_default) (emb_run_start (queue_resources_new 4 1 1 1) ())
       [EmSend True 1 [7] 9, EmPoll 0, EmPoll 0, EmDrop 0, EmSend False 2 [8] 9, EmPoll 1, EmActor None, EmPoll 1, EmActor None, EmActor None, EmPoll 1]
   in \<exists>q r. er_sent s = [(q, r)] \<and> emb_call q = (True, 1, [7], 9) \<and> er_sends s = [EmbDropped, EmbSent r]"
  using embassy_stale_response [of "[7]" 4 "[8]" 1 1 micro_clock quiet_node actor_config_default 1 "()" True 1 9 False 2 9 None None None] by simp

end
