(* ===== verification/Unix_Wire.thy ===== *)
theory Unix_Wire
  imports Prelude
begin

text \<open>
  Frames and messages of \<open>embedded-can-unix-socket\<close>: \<open>frame.rs\<close> and \<open>wire.rs\<close>. The identifier types
  \<open>StandardId\<close> and \<open>ExtendedId\<close> of the \<open>embedded-can\<close> crate are a record of their constructors and
  accessors with the laws \<open>can_id_laws\<close>; readers and writers of \<open>std::io\<close> are functions on a stream
  state. The fixed output arrays are lists written in place.
\<close>

section \<open>Identifiers and frames\<close>

unbundle bit_operations_syntax

record ('s, 'e) can_id_api =
  std_new :: "u16 \<Rightarrow> 's option"
  std_raw :: "'s \<Rightarrow> u16"
  ext_new :: "u32 \<Rightarrow> 'e option"
  ext_raw :: "'e \<Rightarrow> u32"

text \<open>The raw value of an identifier is accepted by its constructor and gives it back; the constructor
  keeps the raw value.\<close>

definition can_id_laws :: "('s, 'e) can_id_api \<Rightarrow> bool" where
  "can_id_laws A \<longleftrightarrow>
     (\<forall>i. std_new A (std_raw A i) = Some i) \<and> (\<forall>i. ext_new A (ext_raw A i) = Some i) \<and>
     (\<forall>r i. std_new A r = Some i \<longrightarrow> std_raw A i = r) \<and> (\<forall>r i. ext_new A r = Some i \<longrightarrow> ext_raw A i = r)"

datatype ('s, 'e) can_id = Standard 's | Extended 'e

definition MAX_DLC :: usize where "MAX_DLC = 64"

record ('s, 'e) unix_frame =
  uf_id :: "('s, 'e) can_id"
  uf_data :: bytes
  uf_dlc :: u8
  uf_remote :: bool

definition unix_frame_new :: "('s, 'e) can_id \<Rightarrow> bytes \<Rightarrow> ('s, 'e) unix_frame option" where
  "unix_frame_new i data =
     (if length data > MAX_DLC then None
      else let buf = copy_into (replicate MAX_DLC 0) data
           in Some \<lparr>uf_id = i, uf_data = buf, uf_dlc = word_of_nat (length data), uf_remote = False\<rparr>)"

definition unix_frame_new_remote :: "('s, 'e) can_id \<Rightarrow> usize \<Rightarrow> ('s, 'e) unix_frame option" where
  "unix_frame_new_remote i dlc =
     (if dlc > MAX_DLC then None
      else Some \<lparr>uf_id = i, uf_data = replicate MAX_DLC 0, uf_dlc = word_of_nat dlc, uf_remote = True\<rparr>)"

fun is_extended_id :: "('s, 'e) can_id \<Rightarrow> bool" where
  "is_extended_id (Extended _) = True"
| "is_extended_id (Standard _) = False"

definition unix_frame_data :: "('s, 'e) unix_frame \<Rightarrow> bytes" where
  "unix_frame_data f = (if uf_remote f then [] else take (unat (uf_dlc f)) (uf_data f))"

definition unix_frame_from_parts :: "('s, 'e) can_id \<Rightarrow> u8 \<Rightarrow> bytes \<Rightarrow> bool \<Rightarrow> ('s, 'e) unix_frame option" where
  "unix_frame_from_parts i dlc data remote =
     (if unat dlc > MAX_DLC then None else Some \<lparr>uf_id = i, uf_data = data, uf_dlc = dlc, uf_remote = remote\<rparr>)"

section \<open>Messages\<close>

definition MSG_SEND_FRAME :: u8 where "MSG_SEND_FRAME = 1"
definition MSG_FRAME :: u8 where "MSG_FRAME = 2"
definition MSG_ACK :: u8 where "MSG_ACK = 3"
definition MSG_SET_FILTERS :: u8 where "MSG_SET_FILTERS = 4"
definition MSG_HELLO :: u8 where "MSG_HELLO = 5"
definition MSG_FILTERS_ACK :: u8 where "MSG_FILTERS_ACK = 6"

definition ACK_OK :: u8 where "ACK_OK = 0"
definition ACK_NO_ACK :: u8 where "ACK_NO_ACK = 1"
definition ACK_BAD_FRAME :: u8 where "ACK_BAD_FRAME = 2"
definition ACK_SERVER_ERR :: u8 where "ACK_SERVER_ERR = 3"

definition FLAG_REMOTE :: u8 where "FLAG_REMOTE = 1"
definition FLAG_EXTENDED :: u8 where "FLAG_EXTENDED = 2"
definition FLAG_EXPECT_ACK :: u8 where "FLAG_EXPECT_ACK = 4"

definition MAX_PAYLOAD_LEN :: usize where "MAX_PAYLOAD_LEN = 4096"
definition MAX_DATA_LEN :: usize where "MAX_DATA_LEN = 64"
definition SEND_FRAME_HDR_LEN :: usize where "SEND_FRAME_HDR_LEN = 14"
definition FRAME_HDR_LEN :: usize where "FRAME_HDR_LEN = 6"
definition ACK_LEN :: usize where "ACK_LEN = 9"

lemmas wire_consts = MSG_SEND_FRAME_def MSG_FRAME_def MSG_ACK_def MSG_SET_FILTERS_def MSG_HELLO_def MSG_FILTERS_ACK_def
  ACK_OK_def ACK_NO_ACK_def ACK_BAD_FRAME_def ACK_SERVER_ERR_def FLAG_REMOTE_def FLAG_EXTENDED_def FLAG_EXPECT_ACK_def
  MAX_PAYLOAD_LEN_def MAX_DATA_LEN_def SEND_FRAME_HDR_LEN_def FRAME_HDR_LEN_def ACK_LEN_def MAX_DLC_def

datatype 'x io_error = InvalidInput | InvalidData | OsError 'x

text \<open>\<open>Write::write_all\<close> and \<open>Read::read_exact\<close> as functions on the stream.\<close>

definition write_msg ::
    "('w \<Rightarrow> bytes \<Rightarrow> (unit, 'x io_error) result \<times> 'w) \<Rightarrow> 'w \<Rightarrow> u8 \<Rightarrow> bytes \<Rightarrow> (unit, 'x io_error) result \<times> 'w" where
  "write_msg write_all w msg_type payload =
     (if length payload > 2 ^ 32 - 1 then (Err InvalidInput, w)
      else let header = copy_at 1 ((replicate 5 0)[0 := msg_type]) (u32_to_le_bytes (word_of_nat (length payload))) in
        (case write_all w header of
           (Err e, w1) \<Rightarrow> (Err e, w1)
         | (Ok _, w1) \<Rightarrow> write_all w1 payload))"

definition read_msg_into ::
    "('r \<Rightarrow> usize \<Rightarrow> (bytes, 'x io_error) result \<times> 'r) \<Rightarrow> 'r \<Rightarrow> (u8 \<times> bytes, 'x io_error) result \<times> 'r" where
  "read_msg_into read_exact r =
     (case read_exact r 5 of
        (Err e, r1) \<Rightarrow> (Err e, r1)
      | (Ok header, r1) \<Rightarrow>
          let msg_type = header ! 0; len = unat (u32_from_le_bytes (slice_of 1 5 header)) in
          if len > MAX_PAYLOAD_LEN then (Err InvalidData, r1)
          else (case read_exact r1 len of
                  (Err e, r2) \<Rightarrow> (Err e, r2)
                | (Ok payload, r2) \<Rightarrow> (Ok (msg_type, payload), r2)))"

section \<open>Frames on the wire\<close>

definition frame_flags :: "('s, 'e) unix_frame \<Rightarrow> bool \<Rightarrow> u8" where
  "frame_flags f expect_ack =
     (let flags = 0;
          flags = (if uf_remote f then flags OR FLAG_REMOTE else flags);
          flags = (if is_extended_id (uf_id f) then flags OR FLAG_EXTENDED else flags);
          flags = (if expect_ack then flags OR FLAG_EXPECT_ACK else flags)
      in flags)"

fun frame_id_raw :: "('s, 'e) can_id_api \<Rightarrow> ('s, 'e) can_id \<Rightarrow> u32" where
  "frame_id_raw A (Standard i) = ucast (std_raw A i)"
| "frame_id_raw A (Extended i) = ext_raw A i"

definition decode_frame_from_parts ::
    "('s, 'e) can_id_api \<Rightarrow> u8 \<Rightarrow> u32 \<Rightarrow> u8 \<Rightarrow> bytes \<Rightarrow> (('s, 'e) unix_frame, string) result" where
  "decode_frame_from_parts A flags id_raw dlc data =
     (let remote = (flags AND FLAG_REMOTE \<noteq> 0) in
      try_res
        (if flags AND FLAG_EXTENDED \<noteq> 0
         then try_res (ok_or (ext_new A id_raw) ''invalid extended id'') (\<lambda>i. Ok (Extended i))
         else try_res (ok_or (std_new A (ucast id_raw)) ''invalid standard id'') (\<lambda>i. Ok (Standard i)))
        (\<lambda>i. ok_or (unix_frame_from_parts i dlc data remote) ''invalid frame''))"

record ('s, 'e) send_frame =
  sf_seq :: u64
  sf_expect_ack :: bool
  sf_frame :: "('s, 'e) unix_frame"

definition encode_send_frame_into ::
    "('s, 'e) can_id_api \<Rightarrow> bytes \<Rightarrow> u64 \<Rightarrow> bool \<Rightarrow> ('s, 'e) unix_frame \<Rightarrow> usize \<times> bytes" where
  "encode_send_frame_into A out seq expect_ack f =
     (let out = copy_at 0 out (u64_to_le_bytes seq);
          out = out[8 := frame_flags f expect_ack];
          out = copy_at 9 out (u32_to_le_bytes (frame_id_raw A (uf_id f)));
          out = out[13 := uf_dlc f];
          dlc = unat (uf_dlc f);
          out = copy_at 14 out (take dlc (uf_data f))
      in (SEND_FRAME_HDR_LEN + dlc, out))"

definition decode_send_frame :: "('s, 'e) can_id_api \<Rightarrow> bytes \<Rightarrow> (('s, 'e) send_frame, string) result" where
  "decode_send_frame A payload =
     (if length payload < SEND_FRAME_HDR_LEN then Err ''invalid send frame payload length''
      else
        let seq = u64_from_le_bytes (slice_of 0 8 payload); flags = payload ! 8;
            id_raw = u32_from_le_bytes (slice_of 9 13 payload); dlc = payload ! 13; dlc_usize = unat dlc in
        if dlc_usize > MAX_DATA_LEN then Err ''invalid dlc''
        else if length payload \<noteq> SEND_FRAME_HDR_LEN + dlc_usize then Err ''invalid send frame payload length''
        else
          let data = copy_into (replicate MAX_DATA_LEN 0) (slice_of 14 (14 + dlc_usize) payload) in
          try_res (decode_frame_from_parts A flags id_raw dlc data) (\<lambda>f.
            Ok \<lparr>sf_seq = seq, sf_expect_ack = (flags AND FLAG_EXPECT_ACK \<noteq> 0), sf_frame = f\<rparr>))"

definition encode_frame_into :: "('s, 'e) can_id_api \<Rightarrow> bytes \<Rightarrow> ('s, 'e) unix_frame \<Rightarrow> usize \<times> bytes" where
  "encode_frame_into A out f =
     (let out = out[0 := frame_flags f False];
          out = copy_at 1 out (u32_to_le_bytes (frame_id_raw A (uf_id f)));
          out = out[5 := uf_dlc f];
          dlc = unat (uf_dlc f);
          out = copy_at 6 out (take dlc (uf_data f))
      in (FRAME_HDR_LEN + dlc, out))"

definition decode_frame :: "('s, 'e) can_id_api \<Rightarrow> bytes \<Rightarrow> (('s, 'e) unix_frame, string) result" where
  "decode_frame A payload =
     (if length payload < FRAME_HDR_LEN then Err ''invalid frame payload length''
      else
        let flags = payload ! 0; id_raw = u32_from_le_bytes (slice_of 1 5 payload); dlc = payload ! 5; dlc_usize = unat dlc in
        if dlc_usize > MAX_DATA_LEN then Err ''invalid dlc''
        else if length payload \<noteq> FRAME_HDR_LEN + dlc_usize then Err ''invalid frame payload length''
        else
          let data = copy_into (replicate MAX_DATA_LEN 0) (slice_of 6 (6 + dlc_usize) payload)
          in decode_frame_from_parts A flags id_raw dlc data)"

section \<open>Acknowledgements and filters\<close>

definition encode_ack_into :: "bytes \<Rightarrow> u64 \<Rightarrow> u8 \<Rightarrow> bytes" where
  "encode_ack_into out seq status = (let out = copy_at 0 out (u64_to_le_bytes seq) in out[8 := status])"

definition decode_ack :: "bytes \<Rightarrow> (u64 \<times> u8, string) result" where
  "decode_ack payload =
     (if length payload \<noteq> ACK_LEN then Err ''invalid ack payload length''
      else Ok (u64_from_le_bytes (slice_of 0 8 payload), payload ! 8))"

datatype id_mask = MaskStandard u16 | MaskExtended u32

record ('s, 'e) id_mask_filter =
  flt_id :: "('s, 'e) can_id"
  flt_mask :: id_mask

fun filter_words :: "('s, 'e) can_id_api \<Rightarrow> ('s, 'e) can_id \<Rightarrow> id_mask \<Rightarrow> u8 \<times> u32 \<times> u32" where
  "filter_words A (Standard i) (MaskStandard m) = (0, ucast (std_raw A i), ucast m)"
| "filter_words A (Standard i) (MaskExtended _) = (0, ucast (std_raw A i), 0)"
| "filter_words A (Extended i) (MaskExtended m) = (FLAG_EXTENDED, ext_raw A i, m)"
| "filter_words A (Extended i) (MaskStandard _) = (FLAG_EXTENDED, ext_raw A i, 0)"

fun push_filters :: "('s, 'e) can_id_api \<Rightarrow> bytes \<Rightarrow> ('s, 'e) id_mask_filter list \<Rightarrow> bytes" where
  "push_filters A payload [] = payload"
| "push_filters A payload (f # fs) =
     (let (flags, id_raw, mask_raw) = filter_words A (flt_id f) (flt_mask f)
      in push_filters A (payload @ [flags] @ u32_to_le_bytes id_raw @ u32_to_le_bytes mask_raw) fs)"

definition encode_filters :: "('s, 'e) can_id_api \<Rightarrow> u64 \<Rightarrow> ('s, 'e) id_mask_filter list \<Rightarrow> bytes" where
  "encode_filters A seq filters =
     (let count = word_of_nat (length filters) :: u16
      in push_filters A (u64_to_le_bytes seq @ u16_to_le_bytes count) filters)"

definition decode_filter :: "('s, 'e) can_id_api \<Rightarrow> u8 \<Rightarrow> u32 \<Rightarrow> u32 \<Rightarrow> (('s, 'e) id_mask_filter, string) result" where
  "decode_filter A flags id_raw mask_raw =
     (if flags AND FLAG_EXTENDED \<noteq> 0
      then try_res (ok_or (ext_new A id_raw) ''invalid extended id'') (\<lambda>i. Ok \<lparr>flt_id = Extended i, flt_mask = MaskExtended mask_raw\<rparr>)
      else try_res (ok_or (std_new A (ucast id_raw)) ''invalid standard id'')
             (\<lambda>i. Ok \<lparr>flt_id = Standard i, flt_mask = MaskStandard (ucast mask_raw)\<rparr>))"

fun decode_filters_from ::
    "('s, 'e) can_id_api \<Rightarrow> bytes \<Rightarrow> nat \<Rightarrow> nat \<Rightarrow> ('s, 'e) id_mask_filter list \<Rightarrow> (('s, 'e) id_mask_filter list, string) result" where
  "decode_filters_from A payload 0 offset filters = Ok filters"
| "decode_filters_from A payload (Suc n) offset filters =
     (let flags = payload ! offset;
          id_raw = u32_from_le_bytes (slice_of (offset + 1) (offset + 5) payload);
          mask_raw = u32_from_le_bytes (slice_of (offset + 5) (offset + 9) payload)
      in try_res (decode_filter A flags id_raw mask_raw) (\<lambda>f. decode_filters_from A payload n (offset + 9) (filters @ [f])))"

definition decode_filters :: "('s, 'e) can_id_api \<Rightarrow> bytes \<Rightarrow> (u64 \<times> ('s, 'e) id_mask_filter list, string) result" where
  "decode_filters A payload =
     (if length payload < 10 then Err ''invalid filters payload length''
      else
        let seq = u64_from_le_bytes (slice_of 0 8 payload); count = unat (u16_from_le_bytes (slice_of 8 10 payload));
            expected = 10 + count * 9 in
        if length payload \<noteq> expected then Err ''invalid filters payload length''
        else try_res (decode_filters_from A payload count 10 []) (\<lambda>filters. Ok (seq, filters)))"

section \<open>Well-formed frames\<close>

text \<open>Every frame that the crate builds: 64 bytes of data, zero beyond its length.\<close>

definition frame_wf :: "('s, 'e) unix_frame \<Rightarrow> bool" where
  "frame_wf f \<longleftrightarrow> length (uf_data f) = 64 \<and> unat (uf_dlc f) \<le> 64 \<and>
     drop (unat (uf_dlc f)) (uf_data f) = replicate (64 - unat (uf_dlc f)) 0"

lemma frame_wf_data: "frame_wf f \<Longrightarrow> take (unat (uf_dlc f)) (uf_data f) @ replicate (64 - unat (uf_dlc f)) 0 = uf_data f"
  by (metis append_take_drop_id frame_wf_def)

lemma unat_of_nat8: "n \<le> 64 \<Longrightarrow> unat (word_of_nat n :: u8) = n"
  by (simp add: unat_of_nat take_bit_nat_eq_self)

lemma unix_frame_new_wf: "unix_frame_new i data = Some f \<Longrightarrow> frame_wf f \<and> unix_frame_data f = data"
  by (auto simp: unix_frame_new_def frame_wf_def unix_frame_data_def MAX_DLC_def copy_into_def unat_of_nat8 Let_def
        split: if_splits)

lemma unix_frame_new_remote_wf: "unix_frame_new_remote i n = Some f \<Longrightarrow> frame_wf f \<and> unix_frame_data f = [] \<and> unat (uf_dlc f) = n"
  by (auto simp: unix_frame_new_remote_def frame_wf_def unix_frame_data_def MAX_DLC_def unat_of_nat8 split: if_splits)

lemma flags_read [simp]:
  "(frame_flags f x AND FLAG_REMOTE \<noteq> 0) = uf_remote f"
  "(frame_flags f x AND FLAG_EXTENDED \<noteq> 0) = is_extended_id (uf_id f)"
  "(frame_flags f x AND FLAG_EXPECT_ACK \<noteq> 0) = x"
  by (simp_all add: frame_flags_def Let_def FLAG_REMOTE_def FLAG_EXTENDED_def FLAG_EXPECT_ACK_def)

lemma decode_frame_from_parts_encoded:
  assumes A: "can_id_laws A" and f: "frame_wf f"
  shows "decode_frame_from_parts A (frame_flags f x) (frame_id_raw A (uf_id f)) (uf_dlc f) (uf_data f) = Ok f"
proof -
  have cast: "ucast (ucast (std_raw A i) :: u32) = std_raw A i" for i by (rule bit_word_eqI) (simp add: bit_simps)
  have "unat (uf_dlc f) \<le> 64" using f by (simp add: frame_wf_def)
  then show ?thesis using A
    by (cases "uf_id f") (simp_all add: decode_frame_from_parts_def unix_frame_from_parts_def MAX_DLC_def can_id_laws_def cast)
qed

text \<open>The bytes that the encoders leave in front of the output array.\<close>

lemma encode_frame_bytes:
  assumes f: "frame_wf f" and out: "length out = 70" and e: "encode_frame_into A out f = (n, out')"
  shows "take n out' = [frame_flags f False] @ u32_to_le_bytes (frame_id_raw A (uf_id f)) @ [uf_dlc f] @ take (unat (uf_dlc f)) (uf_data f)"
    and "length out' = 70"
proof -
  let ?d = "take (unat (uf_dlc f)) (uf_data f)"
  have d: "unat (uf_dlc f) \<le> 64" "length ?d = unat (uf_dlc f)" using f by (auto simp: frame_wf_def)
  have s1: "out[0 := frame_flags f False] = [frame_flags f False] @ drop 1 out"
    using update_append [of "[]" 0 out] out by (cases out) simp_all
  have s2: "copy_at 1 ([frame_flags f False] @ drop 1 out) (u32_to_le_bytes (frame_id_raw A (uf_id f))) =
      ([frame_flags f False] @ u32_to_le_bytes (frame_id_raw A (uf_id f))) @ drop 5 out"
    using copy_at_append [of "[frame_flags f False]" 1] by simp
  have s3: "(([frame_flags f False] @ u32_to_le_bytes (frame_id_raw A (uf_id f))) @ drop 5 out)[5 := uf_dlc f] =
      ([frame_flags f False] @ u32_to_le_bytes (frame_id_raw A (uf_id f)) @ [uf_dlc f]) @ drop 6 out"
    using out by (subst update_append) simp_all
  have s4: "copy_at 6 (([frame_flags f False] @ u32_to_le_bytes (frame_id_raw A (uf_id f)) @ [uf_dlc f]) @ drop 6 out) ?d =
      ([frame_flags f False] @ u32_to_le_bytes (frame_id_raw A (uf_id f)) @ [uf_dlc f]) @ ?d @ drop (length ?d) (drop 6 out)"
    by (rule copy_at_append) simp
  have n: "n = 6 + unat (uf_dlc f)"
    and o': "out' = ([frame_flags f False] @ u32_to_le_bytes (frame_id_raw A (uf_id f)) @ [uf_dlc f]) @ ?d @ drop (length ?d) (drop 6 out)"
    using e unfolding encode_frame_into_def Let_def s1 s2 s3 s4 FRAME_HDR_LEN_def by simp_all
  show "take n out' = [frame_flags f False] @ u32_to_le_bytes (frame_id_raw A (uf_id f)) @ [uf_dlc f] @ ?d"
    using take_front [of "([frame_flags f False] @ u32_to_le_bytes (frame_id_raw A (uf_id f)) @ [uf_dlc f]) @ ?d" n "drop (length ?d) (drop 6 out)"] n o' d(2)
    by (simp only: append_assoc length_append le_lengths) simp
  show "length out' = 70" using o' d out by simp
qed

lemma encode_send_frame_bytes:
  assumes f: "frame_wf f" and out: "length out = 78" and e: "encode_send_frame_into A out seq x f = (n, out')"
  shows "take n out' = u64_to_le_bytes seq @ [frame_flags f x] @ u32_to_le_bytes (frame_id_raw A (uf_id f)) @ [uf_dlc f] @ take (unat (uf_dlc f)) (uf_data f)"
    and "length out' = 78"
proof -
  let ?d = "take (unat (uf_dlc f)) (uf_data f)" and ?s = "u64_to_le_bytes seq" and ?fl = "[frame_flags f x]"
  let ?i = "u32_to_le_bytes (frame_id_raw A (uf_id f))"
  have d: "unat (uf_dlc f) \<le> 64" "length ?d = unat (uf_dlc f)" using f by (auto simp: frame_wf_def)
  have s1: "copy_at 0 out ?s = ?s @ drop 8 out" using copy_at_append [of "[]" 0 out ?s] by simp
  have s2: "(?s @ drop 8 out)[8 := frame_flags f x] = (?s @ ?fl) @ drop 9 out" using out by (subst update_append) simp_all
  have s3: "copy_at 9 ((?s @ ?fl) @ drop 9 out) ?i = (?s @ ?fl @ ?i) @ drop 13 out" by (subst copy_at_append) simp_all
  have s4: "((?s @ ?fl @ ?i) @ drop 13 out)[13 := uf_dlc f] = (?s @ ?fl @ ?i @ [uf_dlc f]) @ drop 14 out"
    using out by (subst update_append) simp_all
  have s5: "copy_at 14 ((?s @ ?fl @ ?i @ [uf_dlc f]) @ drop 14 out) ?d = (?s @ ?fl @ ?i @ [uf_dlc f]) @ ?d @ drop (length ?d) (drop 14 out)"
    by (rule copy_at_append) simp
  have n: "n = 14 + unat (uf_dlc f)" and o': "out' = (?s @ ?fl @ ?i @ [uf_dlc f]) @ ?d @ drop (length ?d) (drop 14 out)"
    using e unfolding encode_send_frame_into_def Let_def s1 s2 s3 s4 s5 SEND_FRAME_HDR_LEN_def by simp_all
  show "take n out' = ?s @ ?fl @ ?i @ [uf_dlc f] @ ?d"
    using take_front [of "(?s @ ?fl @ ?i @ [uf_dlc f]) @ ?d" n "drop (length ?d) (drop 14 out)"] n o' d(2)
    by (simp only: append_assoc length_append le_lengths) simp
  show "length out' = 78" using o' d out by simp
qed

lemma encode_ack_bytes: "length out = 9 \<Longrightarrow> encode_ack_into out seq status = u64_to_le_bytes seq @ [status]"
  using copy_at_append [of "[]" 0 out "u64_to_le_bytes seq"]
  by (simp add: encode_ack_into_def Let_def update_append)

section \<open>Round trips\<close>

lemma decode_frame_encoded:
  assumes A: "can_id_laws A" and f: "frame_wf f"
  shows "decode_frame A ([frame_flags f False] @ u32_to_le_bytes (frame_id_raw A (uf_id f)) @ [uf_dlc f] @ take (unat (uf_dlc f)) (uf_data f)) = Ok f"
proof -
  let ?d = "take (unat (uf_dlc f)) (uf_data f)" and ?i = "u32_to_le_bytes (frame_id_raw A (uf_id f))"
  let ?p = "[frame_flags f False] @ ?i @ [uf_dlc f] @ ?d"
  have d: "unat (uf_dlc f) \<le> 64" "length ?d = unat (uf_dlc f)" using f by (auto simp: frame_wf_def)
  have p: "?p ! 0 = frame_flags f False" "slice_of 1 5 ?p = ?i" "?p ! 5 = uf_dlc f" "slice_of 6 (6 + unat (uf_dlc f)) ?p = ?d"
    "length ?p = 6 + unat (uf_dlc f)"
    using d by (simp_all add: slice_of_def nth_append)
  have data: "copy_into (replicate 64 0) ?d = uf_data f" using frame_wf_data [OF f] d by (simp add: copy_into_def)
  show ?thesis
    unfolding decode_frame_def Let_def p FRAME_HDR_LEN_def MAX_DATA_LEN_def data
    using d decode_frame_from_parts_encoded [OF A f, of False] by simp
qed

lemma decode_send_frame_encoded:
  assumes A: "can_id_laws A" and f: "frame_wf f"
  shows "decode_send_frame A (u64_to_le_bytes seq @ [frame_flags f x] @ u32_to_le_bytes (frame_id_raw A (uf_id f)) @ [uf_dlc f] @ take (unat (uf_dlc f)) (uf_data f))
     = Ok \<lparr>sf_seq = seq, sf_expect_ack = x, sf_frame = f\<rparr>"
proof -
  let ?d = "take (unat (uf_dlc f)) (uf_data f)" and ?i = "u32_to_le_bytes (frame_id_raw A (uf_id f))"
  let ?p = "u64_to_le_bytes seq @ [frame_flags f x] @ ?i @ [uf_dlc f] @ ?d"
  have d: "unat (uf_dlc f) \<le> 64" "length ?d = unat (uf_dlc f)" using f by (auto simp: frame_wf_def)
  have p: "slice_of 0 8 ?p = u64_to_le_bytes seq" "?p ! 8 = frame_flags f x" "slice_of 9 13 ?p = ?i" "?p ! 13 = uf_dlc f"
    "slice_of 14 (14 + unat (uf_dlc f)) ?p = ?d" "length ?p = 14 + unat (uf_dlc f)"
    using d by (simp_all add: slice_of_def nth_append)
  have data: "copy_into (replicate 64 0) ?d = uf_data f" using frame_wf_data [OF f] d by (simp add: copy_into_def)
  show ?thesis
    unfolding decode_send_frame_def Let_def p SEND_FRAME_HDR_LEN_def MAX_DATA_LEN_def data
    using d decode_frame_from_parts_encoded [OF A f, of x] by simp
qed

lemma decode_ack_encoded: "decode_ack (u64_to_le_bytes seq @ [status]) = Ok (seq, status)"
  by (simp add: decode_ack_def ACK_LEN_def slice_of_def nth_append)

text \<open>The decoders only give well-formed frames.\<close>

lemma decode_frame_from_parts_wf:
  "decode_frame_from_parts A flags i dlc (copy_into (replicate 64 0) d) = Ok f \<Longrightarrow> length d = unat dlc \<Longrightarrow> unat dlc \<le> 64 \<Longrightarrow> frame_wf f"
  by (auto simp: decode_frame_from_parts_def unix_frame_from_parts_def frame_wf_def copy_into_def split: if_splits)

lemma decode_frame_wf: "decode_frame A p = Ok f \<Longrightarrow> frame_wf f"
  by (rule decode_frame_from_parts_wf [where d = "slice_of 6 (6 + unat (p ! 5)) p"])
     (auto simp: decode_frame_def Let_def FRAME_HDR_LEN_def MAX_DATA_LEN_def slice_simps split: if_splits)

lemma decode_send_frame_wf:
  assumes "decode_send_frame A p = Ok sf"
  shows "frame_wf (sf_frame sf)"
proof -
  let ?d = "slice_of 14 (14 + unat (p ! 13)) p"
  have len: "length p = 14 + unat (p ! 13)" "unat (p ! 13) \<le> 64"
    using assms by (auto simp: decode_send_frame_def Let_def SEND_FRAME_HDR_LEN_def MAX_DATA_LEN_def split: if_splits)
  have "decode_frame_from_parts A (p ! 8) (u32_from_le_bytes (slice_of 9 13 p)) (p ! 13) (copy_into (replicate 64 0) ?d) = Ok (sf_frame sf)"
    using assms by (auto simp: decode_send_frame_def Let_def SEND_FRAME_HDR_LEN_def MAX_DATA_LEN_def split: if_splits)
  then show ?thesis by (rule decode_frame_from_parts_wf) (use len in \<open>simp_all add: slice_simps\<close>)
qed

section \<open>Filters\<close>

definition filter_bytes :: "('s, 'e) can_id_api \<Rightarrow> ('s, 'e) id_mask_filter \<Rightarrow> bytes" where
  "filter_bytes A f = (let (flags, i, m) = filter_words A (flt_id f) (flt_mask f) in [flags] @ u32_to_le_bytes i @ u32_to_le_bytes m)"

lemma length_filter_bytes [simp]: "length (filter_bytes A f) = 9"
  by (simp add: filter_bytes_def split: prod.split)

lemma push_filters_eq: "push_filters A p fs = p @ concat (map (filter_bytes A) fs)"
  by (induction fs arbitrary: p) (simp_all add: filter_bytes_def Let_def split: prod.split)

lemma length_concat_filters: "length (concat (map (filter_bytes A) fs)) = 9 * length fs"
  by (induction fs) simp_all

text \<open>A mask of the other kind than the identifier is sent as 0.\<close>

fun wire_filter :: "('s, 'e) id_mask_filter \<Rightarrow> ('s, 'e) id_mask_filter" where
  "wire_filter f =
     (case (flt_id f, flt_mask f) of
        (Standard i, MaskExtended _) \<Rightarrow> \<lparr>flt_id = Standard i, flt_mask = MaskStandard 0\<rparr>
      | (Extended i, MaskStandard _) \<Rightarrow> \<lparr>flt_id = Extended i, flt_mask = MaskExtended 0\<rparr>
      | _ \<Rightarrow> f)"

lemma decode_filter_bytes:
  assumes A: "can_id_laws A" and w: "filter_words A (flt_id f) (flt_mask f) = (fl, i, m)"
  shows "decode_filter A fl i m = Ok (wire_filter f)"
proof -
  have cast: "ucast (ucast x :: u32) = x" for x :: u16 by (rule bit_word_eqI) (simp add: bit_simps)
  show ?thesis using A w
    by (cases "flt_id f"; cases "flt_mask f")
       (auto simp: decode_filter_def can_id_laws_def FLAG_EXTENDED_def cast)
qed

lemma decode_filters_from_encoded:
  assumes A: "can_id_laws A"
  shows "length pre = off \<Longrightarrow>
     decode_filters_from A (pre @ concat (map (filter_bytes A) fs) @ post) (length fs) off acc = Ok (acc @ map wire_filter fs)"
proof (induction fs arbitrary: pre off acc)
  case (Cons f fs)
  obtain fl i m where w: "filter_words A (flt_id f) (flt_mask f) = (fl, i, m)" by (metis prod_cases3)
  let ?rest = "concat (map (filter_bytes A) fs) @ post"
  let ?p = "pre @ filter_bytes A f @ ?rest"
  have fb: "filter_bytes A f = [fl] @ u32_to_le_bytes i @ u32_to_le_bytes m" using w by (simp add: filter_bytes_def)
  have r: "?p ! off = fl" "slice_of (off + 1) (off + 5) ?p = u32_to_le_bytes i" "slice_of (off + 5) (off + 9) ?p = u32_to_le_bytes m"
    using Cons.prems by (simp_all add: fb slice_of_def nth_append)
  have "decode_filters_from A ?p (Suc (length fs)) off acc = decode_filters_from A ?p (length fs) (off + 9) (acc @ [wire_filter f])"
    unfolding decode_filters_from.simps Let_def r using decode_filter_bytes [OF A w] by (simp del: wire_filter.simps)
  moreover have "decode_filters_from A ((pre @ filter_bytes A f) @ ?rest) (length fs) (off + 9) (acc @ [wire_filter f]) =
      Ok ((acc @ [wire_filter f]) @ map wire_filter fs)"
    using Cons.prems by (intro Cons.IH) simp
  ultimately show ?case by (simp del: wire_filter.simps decode_filters_from.simps)
qed simp

lemma decode_filters_encoded:
  assumes A: "can_id_laws A" and n: "length fs < 2 ^ 16"
  shows "decode_filters A (encode_filters A seq fs) = Ok (seq, map wire_filter fs)" and "length (encode_filters A seq fs) = 10 + 9 * length fs"
proof -
  let ?c = "word_of_nat (length fs) :: u16"
  let ?p = "(u64_to_le_bytes seq @ u16_to_le_bytes ?c) @ concat (map (filter_bytes A) fs) @ []"
  have e: "encode_filters A seq fs = ?p" by (simp add: encode_filters_def push_filters_eq)
  have c: "unat ?c = length fs" using n by (simp add: unat_of_nat take_bit_nat_eq_self)
  show len: "length (encode_filters A seq fs) = 10 + 9 * length fs" unfolding e by (simp add: length_concat_filters)
  have r: "slice_of 0 8 ?p = u64_to_le_bytes seq" "slice_of 8 10 ?p = u16_to_le_bytes ?c" by (simp_all add: slice_of_def)
  have d: "decode_filters_from A ?p (length fs) 10 [] = Ok ([] @ map wire_filter fs)"
    by (rule decode_filters_from_encoded [OF A]) simp
  have "length ?p = 10 + 9 * length fs" using len e by simp
  then show "decode_filters A (encode_filters A seq fs) = Ok (seq, map wire_filter fs)"
    unfolding decode_filters_def Let_def e r le_round_trips c d by (simp del: wire_filter.simps)
qed

section \<open>Messages over a stream\<close>

text \<open>A stream of bytes: writing appends, reading takes from the front.\<close>

definition pipe_write_all :: "bytes \<Rightarrow> bytes \<Rightarrow> (unit, unit io_error) result \<times> bytes" where
  "pipe_write_all w bs = (Ok (), w @ bs)"

definition pipe_read_exact :: "bytes \<Rightarrow> usize \<Rightarrow> (bytes, unit io_error) result \<times> bytes" where
  "pipe_read_exact r n = (if length r < n then (Err (OsError ()), []) else (Ok (take n r), drop n r))"

definition msg_bytes :: "u8 \<Rightarrow> bytes \<Rightarrow> bytes" where
  "msg_bytes t payload = [t] @ u32_to_le_bytes (word_of_nat (length payload)) @ payload"

lemma msg_header: "copy_at 1 ((replicate 5 0)[0 := t]) (u32_to_le_bytes w) = [t] @ u32_to_le_bytes w"
  by (simp add: copy_at_def numeral_eq_Suc)

lemma write_msg_pipe: "length payload < 2 ^ 32 \<Longrightarrow> write_msg pipe_write_all w t payload = (Ok (), w @ msg_bytes t payload)"
  unfolding write_msg_def msg_header by (simp add: pipe_write_all_def msg_bytes_def)

lemma read_msg_pipe:
  assumes "length payload \<le> 4096"
  shows "read_msg_into pipe_read_exact (msg_bytes t payload @ rest) = (Ok (t, payload), rest)"
proof -
  let ?l = "word_of_nat (length payload) :: u32"
  have l: "unat ?l = length payload" using assms by (intro unat_of_nat32) simp
  have h: "pipe_read_exact (msg_bytes t payload @ rest) 5 = (Ok ([t] @ u32_to_le_bytes ?l), payload @ rest)"
    by (simp add: pipe_read_exact_def msg_bytes_def)
  have p: "pipe_read_exact (payload @ rest) (length payload) = (Ok payload, rest)" by (simp add: pipe_read_exact_def)
  have r: "([t] @ u32_to_le_bytes ?l) ! 0 = t" "slice_of 1 5 ([t] @ u32_to_le_bytes ?l) = u32_to_le_bytes ?l"
    by (simp_all add: slice_of_def)
  show ?thesis unfolding read_msg_into_def h Let_def split result.case prod.case r le_round_trips l MAX_PAYLOAD_LEN_def
    using assms p by simp
qed

section \<open>Properties\<close>

definition bit_id_api :: "(11 word, 29 word) can_id_api" where
  "bit_id_api = \<lparr>std_new = \<lambda>r. if unat r < 2 ^ 11 then Some (ucast r) else None, std_raw = ucast,
     ext_new = \<lambda>r. if unat r < 2 ^ 29 then Some (ucast r) else None, ext_raw = ucast\<rparr>"

lemma bit_id_laws: "can_id_laws bit_id_api"
proof -
  have s: "ucast (ucast i :: u16) = i" "unat (ucast i :: u16) < 2 ^ 11" for i :: "11 word"
  proof -
    have "unat i < 2 ^ LENGTH(11)" by (rule unsigned_less)
    then show "unat (ucast i :: u16) < 2 ^ 11" by (simp add: unsigned_ucast_eq take_bit_nat_eq_self)
    show "ucast (ucast i :: u16) = i" by (rule bit_word_eqI) (simp add: bit_simps)
  qed
  have e: "ucast (ucast i :: u32) = i" "unat (ucast i :: u32) < 2 ^ 29" for i :: "29 word"
  proof -
    have "unat i < 2 ^ LENGTH(29)" by (rule unsigned_less)
    then show "unat (ucast i :: u32) < 2 ^ 29" by (simp add: unsigned_ucast_eq take_bit_nat_eq_self)
    show "ucast (ucast i :: u32) = i" by (rule bit_word_eqI) (simp add: bit_simps)
  qed
  have s2: "ucast (ucast r :: 11 word) = r" if "unat r < 2 ^ 11" for r :: u16
    using that by (simp add: word_unat_eq_iff unsigned_ucast_eq unsigned_take_bit_eq take_bit_nat_eq_self)
  have e2: "ucast (ucast r :: 29 word) = r" if "unat r < 2 ^ 29" for r :: u32
    using that by (simp add: word_unat_eq_iff unsigned_ucast_eq unsigned_take_bit_eq take_bit_nat_eq_self)
  show ?thesis using s e s2 e2 by (auto simp: can_id_laws_def bit_id_api_def split: if_splits)
qed

text \<open>A frame sent by a client arrives at the server as it was: encoded into the send buffer, framed by
  \<open>write_msg\<close>, read by \<open>read_msg_into\<close> from a stream with anything behind it, and decoded. The same holds
  for a frame that the server forwards.\<close>

lemma frame_over_stream:
  assumes A: "can_id_laws A" and f: "frame_wf f"
    and send: "length out = 78" "encode_send_frame_into A out seq x f = (n, out1)"
    and fwd: "length buf = 70" "encode_frame_into A buf f = (m, buf1)"
  shows "(\<exists>bs p. write_msg pipe_write_all [] MSG_SEND_FRAME (take n out1) = (Ok (), bs) \<and>
       read_msg_into pipe_read_exact (bs @ rest) = (Ok (MSG_SEND_FRAME, p), rest) \<and>
       decode_send_frame A p = Ok \<lparr>sf_seq = seq, sf_expect_ack = x, sf_frame = f\<rparr>) \<and>
     (\<exists>bs p. write_msg pipe_write_all [] MSG_FRAME (take m buf1) = (Ok (), bs) \<and>
       read_msg_into pipe_read_exact (bs @ rest) = (Ok (MSG_FRAME, p), rest) \<and> decode_frame A p = Ok f)"
proof (intro conjI)
  have d: "unat (uf_dlc f) \<le> 64" using f by (simp add: frame_wf_def)
  note e1 = encode_send_frame_bytes [OF f send] and e2 = encode_frame_bytes [OF f fwd]
  have l1: "length (take n out1) \<le> 4096" and l2: "length (take m buf1) \<le> 4096" using e1(2) e2(2) by simp_all
  have "write_msg pipe_write_all [] MSG_SEND_FRAME (take n out1) = (Ok (), [] @ msg_bytes MSG_SEND_FRAME (take n out1))"
    using l1 by (intro write_msg_pipe) (simp del: length_take)
  then show "\<exists>bs p. write_msg pipe_write_all [] MSG_SEND_FRAME (take n out1) = (Ok (), bs) \<and>
       read_msg_into pipe_read_exact (bs @ rest) = (Ok (MSG_SEND_FRAME, p), rest) \<and>
       decode_send_frame A p = Ok \<lparr>sf_seq = seq, sf_expect_ack = x, sf_frame = f\<rparr>"
    using read_msg_pipe [OF l1] decode_send_frame_encoded [OF A f] e1(1) by auto
  have "write_msg pipe_write_all [] MSG_FRAME (take m buf1) = (Ok (), [] @ msg_bytes MSG_FRAME (take m buf1))"
    using l2 by (intro write_msg_pipe) (simp del: length_take)
  then show "\<exists>bs p. write_msg pipe_write_all [] MSG_FRAME (take m buf1) = (Ok (), bs) \<and>
       read_msg_into pipe_read_exact (bs @ rest) = (Ok (MSG_FRAME, p), rest) \<and> decode_frame A p = Ok f"
    using read_msg_pipe [OF l2] decode_frame_encoded [OF A f] e2(1) by auto
qed

definition example_frame :: "(11 word, 29 word) unix_frame" where
  "example_frame = \<lparr>uf_id = Standard 291, uf_data = [1, 2] @ replicate 62 0, uf_dlc = 2, uf_remote = False\<rparr>"

lemma example_frame_wf: "frame_wf example_frame"
  by (simp add: frame_wf_def example_frame_def)

text \<open>C22: A filter update of at most 454 filters reaches the server as the filters it was made of, with a mask of
  the wrong kind read as 0; from 455 filters on the message is larger than the server reads, and it
  reports invalid data.\<close>

theorem filters_over_stream:
  assumes A: "can_id_laws A" and n: "length fs < 2 ^ 16"
  shows "\<exists>bs. write_msg pipe_write_all [] MSG_SET_FILTERS (encode_filters A seq fs) = (Ok (), bs) \<and>
     (if length fs \<le> 454
      then read_msg_into pipe_read_exact (bs @ rest) = (Ok (MSG_SET_FILTERS, encode_filters A seq fs), rest) \<and>
           decode_filters A (encode_filters A seq fs) = Ok (seq, map wire_filter fs)
      else fst (read_msg_into pipe_read_exact (bs @ rest)) = Err InvalidData)"
proof -
  let ?p = "encode_filters A seq fs" and ?bs = "msg_bytes MSG_SET_FILTERS (encode_filters A seq fs)"
  have len: "length ?p = 10 + 9 * length fs" by (rule decode_filters_encoded(2) [OF A n])
  have w: "write_msg pipe_write_all [] MSG_SET_FILTERS ?p = (Ok (), ?bs)" using write_msg_pipe [of ?p "[]"] len n by simp
  have u: "unat (word_of_nat (length ?p) :: u32) = length ?p" using len n by (intro unat_of_nat32) simp
  have big: "fst (read_msg_into pipe_read_exact (?bs @ rest)) = Err InvalidData" if "454 < length fs"
  proof -
    have h: "pipe_read_exact (?bs @ rest) 5 = (Ok ([MSG_SET_FILTERS] @ u32_to_le_bytes (word_of_nat (length ?p))), ?p @ rest)"
      by (simp add: pipe_read_exact_def msg_bytes_def)
    have r: "slice_of 1 5 ([MSG_SET_FILTERS] @ u32_to_le_bytes w) = u32_to_le_bytes w" for w by (simp add: slice_of_def)
    show ?thesis unfolding read_msg_into_def h Let_def split result.case prod.case r le_round_trips u MAX_PAYLOAD_LEN_def
      using that len by simp
  qed
  show ?thesis
  proof (cases "length fs \<le> 454")
    case True
    then show ?thesis using w read_msg_pipe [of ?p MSG_SET_FILTERS rest] len decode_filters_encoded(1) [OF A n] by auto
  next
    case False
    then show ?thesis using w big by auto
  qed
qed

theorem filters_over_stream_witness:
  "decode_filters bit_id_api (encode_filters bit_id_api 9 [\<lparr>flt_id = Standard 5, flt_mask = MaskExtended 7\<rparr>]) =
     Ok (9, [\<lparr>flt_id = Standard 5, flt_mask = MaskStandard 0\<rparr>])"
  using filters_over_stream [OF bit_id_laws, of "[\<lparr>flt_id = Standard 5, flt_mask = MaskExtended 7\<rparr>]" 9 "[]"] by auto

text \<open>For a standard frame only the low 16 bits of the identifier field count: a message with any bits set
  above them is accepted as the frame with those bits cleared.\<close>

lemma standard_id_truncated:
  assumes "flags AND FLAG_EXTENDED = 0"
  shows "decode_frame_from_parts A flags id_raw dlc data = decode_frame_from_parts A flags (id_raw AND 0xFFFF) dlc data"
proof -
  have "ucast (id_raw AND 0xFFFF) = (ucast id_raw :: u16)"
    by (rule bit_word_eqI) (auto simp: bit_simps bit_numeral_rec numeral_eq_Suc less_Suc_eq)
  then show ?thesis using assms by (simp add: decode_frame_from_parts_def)
qed

end
