(* ===== verification/IsoTp_Linux.thy ===== *)
theory IsoTp_Linux
  imports IsoTp_Interface Unix_Wire
begin

text \<open>
  The kernel ISO-TP socket of \<open>linux-socketcan-iso-tp\<close> (\<open>linux.rs\<close>): options and their conversions, the
  blocking endpoint, the tokio endpoint and the demultiplexer that opens one socket per peer.
  The system calls are a record of operations on the state of the system; \<open>libc::recv\<close> gives a datagram,
  cut to the buffer. Loops that retry system calls take fuel and give \<open>None\<close> without it. The identifier
  encoding of \<open>can_uds::uds29\<close> and the identifier types of \<open>embedded_can\<close> are parameters.
\<close>

unbundle bit_operations_syntax

section \<open>Errors and options\<close>

datatype 'x isotp_error =
    IoOs "'x os_error"
  | IoUnexpectedEof string
  | IoOther string
  | InvalidConfig string

record isotp_socket_options =
  so_flags :: u32
  so_frame_txtime :: "duration option"
  so_ext_address :: "u8 option"
  so_tx_padding :: "u8 option"
  so_rx_padding :: "u8 option"
  so_rx_ext_address :: "u8 option"

record isotp_flow_control_options =
  fo_block_size :: u8
  fo_st_min :: u8
  fo_wft_max :: u8

definition flow_control_options_new :: "u8 \<Rightarrow> u8 \<Rightarrow> u8 \<Rightarrow> isotp_flow_control_options" where
  "flow_control_options_new bs st wft = \<lparr>fo_block_size = bs, fo_st_min = st, fo_wft_max = wft\<rparr>"

record isotp_link_layer_options =
  lo_mtu :: u8
  lo_tx_dl :: u8
  lo_tx_flags :: u8

definition link_layer_options_new :: "u8 \<Rightarrow> u8 \<Rightarrow> u8 \<Rightarrow> isotp_link_layer_options" where
  "link_layer_options_new m dl fl = \<lparr>lo_mtu = m, lo_tx_dl = dl, lo_tx_flags = fl\<rparr>"

record isotp_kernel_options =
  ko_max_rx_payload :: usize
  ko_socket :: isotp_socket_options
  ko_flow_control :: "isotp_flow_control_options option"
  ko_link_layer :: "isotp_link_layer_options option"
  ko_force_tx_stmin :: "duration option"
  ko_force_rx_stmin :: "duration option"

definition socket_options_default :: isotp_socket_options where
  "socket_options_default =
     \<lparr>so_flags = 0, so_frame_txtime = None, so_ext_address = None, so_tx_padding = None, so_rx_padding = None,
      so_rx_ext_address = None\<rparr>"

definition kernel_options_default :: isotp_kernel_options where
  "kernel_options_default =
     \<lparr>ko_max_rx_payload = 4095, ko_socket = socket_options_default, ko_flow_control = None, ko_link_layer = None,
      ko_force_tx_stmin = None, ko_force_rx_stmin = None\<rparr>"

definition CAN_ISOTP_EXTEND_ADDR :: u32 where "CAN_ISOTP_EXTEND_ADDR = 0x0002"
definition CAN_ISOTP_TX_PADDING :: u32 where "CAN_ISOTP_TX_PADDING = 0x0004"
definition CAN_ISOTP_RX_PADDING :: u32 where "CAN_ISOTP_RX_PADDING = 0x0008"
definition CAN_ISOTP_FORCE_TXSTMIN :: u32 where "CAN_ISOTP_FORCE_TXSTMIN = 0x0080"
definition CAN_ISOTP_FORCE_RXSTMIN :: u32 where "CAN_ISOTP_FORCE_RXSTMIN = 0x0100"
definition CAN_ISOTP_RX_EXT_ADDR :: u32 where "CAN_ISOTP_RX_EXT_ADDR = 0x0200"

lemmas isotp_flags = CAN_ISOTP_EXTEND_ADDR_def CAN_ISOTP_TX_PADDING_def CAN_ISOTP_RX_PADDING_def CAN_ISOTP_FORCE_TXSTMIN_def
  CAN_ISOTP_FORCE_RXSTMIN_def CAN_ISOTP_RX_EXT_ADDR_def

text \<open>The structures passed to the kernel.\<close>

record can_isotp_options =
  co_flags :: u32
  co_frame_txtime :: u32
  co_ext_address :: u8
  co_txpad_content :: u8
  co_rxpad_content :: u8
  co_rx_ext_address :: u8

record can_isotp_fc_options =
  fc_bs :: u8
  fc_stmin :: u8
  fc_wftmax :: u8

record can_isotp_ll_options =
  ll_mtu :: u8
  ll_tx_dl :: u8
  ll_tx_flags :: u8

datatype sock_opt =
    SoTxTime u32
  | IsotpOpts can_isotp_options
  | IsotpRecvFc can_isotp_fc_options
  | IsotpTxStmin u32
  | IsotpRxStmin u32
  | IsotpLlOpts can_isotp_ll_options

section \<open>Conversions\<close>

definition duration_to_poll_timeout :: "duration \<Rightarrow> int" where
  "duration_to_poll_timeout tmo = (let ms = tmo div 1000000 in if ms \<le> 2 ^ 31 - 1 then int ms else 2 ^ 31 - 1)"

definition duration_to_nanos_u32 :: "duration \<Rightarrow> u32" where
  "duration_to_nanos_u32 d = word_of_nat (min d (2 ^ 32 - 1))"

definition isotp_stmin_to_duration :: "u8 \<Rightarrow> duration option" where
  "isotp_stmin_to_duration raw =
     (if raw \<le> 0x7F then Some (unat raw * 1000000)
      else if 0xF1 \<le> raw \<and> raw \<le> 0xF9 then Some ((unat raw - 0xF0) * 100 * 1000)
      else None)"

definition duration_to_isotp_stmin :: "duration \<Rightarrow> u8" where
  "duration_to_isotp_stmin d =
     (let micros = d div 1000 in
      if micros = 0 then 0
      else if 100 \<le> micros \<and> micros \<le> 900 \<and> micros mod 100 = 0 then 0xF0 + word_of_nat (micros div 100)
      else let millis = d div 1000000 in if millis \<le> 0x7F then word_of_nat millis else 0x7F)"

definition build_can_isotp_options :: "isotp_socket_options \<Rightarrow> can_isotp_options" where
  "build_can_isotp_options opts =
     (let flags = so_flags opts;
          flags = (if so_ext_address opts \<noteq> None then flags OR CAN_ISOTP_EXTEND_ADDR else flags);
          flags = (if so_tx_padding opts \<noteq> None then flags OR CAN_ISOTP_TX_PADDING else flags);
          flags = (if so_rx_padding opts \<noteq> None then flags OR CAN_ISOTP_RX_PADDING else flags);
          flags = (if so_rx_ext_address opts \<noteq> None then flags OR CAN_ISOTP_RX_EXT_ADDR else flags)
      in \<lparr>co_flags = flags,
          co_frame_txtime = (case so_frame_txtime opts of Some t \<Rightarrow> duration_to_nanos_u32 t | None \<Rightarrow> 0),
          co_ext_address = (case so_ext_address opts of Some a \<Rightarrow> a | None \<Rightarrow> 0),
          co_txpad_content = (case so_tx_padding opts of Some p \<Rightarrow> p | None \<Rightarrow> 0),
          co_rxpad_content = (case so_rx_padding opts of Some p \<Rightarrow> p | None \<Rightarrow> 0),
          co_rx_ext_address = (case so_rx_ext_address opts of Some a \<Rightarrow> a | None \<Rightarrow> 0)\<rparr>)"

section \<open>System calls\<close>

record poll_event =
  pe_in :: bool
  pe_err :: bool

text \<open>\<open>lo_recv\<close> gives the next datagram; \<open>lo_poll\<close> the number of ready descriptors and their events;
  \<open>lo_ready\<close> waits for readiness under tokio, \<open>None\<close> if the surrounding timeout elapses first.\<close>

record ('s, 'e, 'k, 'x) linux_ops =
  lo_socket :: "'k \<Rightarrow> (nat, 'x os_error) result \<times> 'k"
  lo_nonblocking :: "'k \<Rightarrow> nat \<Rightarrow> (unit, 'x os_error) result \<times> 'k"
  lo_setsockopt :: "'k \<Rightarrow> nat \<Rightarrow> sock_opt \<Rightarrow> (unit, 'x os_error) result \<times> 'k"
  lo_bind :: "'k \<Rightarrow> nat \<Rightarrow> string \<Rightarrow> ('s, 'e) can_id \<Rightarrow> ('s, 'e) can_id \<Rightarrow> (unit, 'x os_error) result \<times> 'k"
  lo_send :: "'k \<Rightarrow> nat \<Rightarrow> bytes \<Rightarrow> (nat, 'x os_error) result \<times> 'k"
  lo_recv :: "'k \<Rightarrow> nat \<Rightarrow> (bytes, 'x os_error) result \<times> 'k"
  lo_poll :: "'k \<Rightarrow> (nat \<times> bool) list \<Rightarrow> int \<Rightarrow> (nat \<times> poll_event list, 'x os_error) result \<times> 'k"
  lo_now :: "'k \<Rightarrow> nat \<times> 'k"
  lo_sleep :: "'k \<Rightarrow> duration \<Rightarrow> 'k"
  lo_ready :: "'k \<Rightarrow> nat \<Rightarrow> bool \<Rightarrow> (unit, 'x os_error) result option \<times> 'k"

text \<open>\<open>libc::recv\<close> into a buffer of \<open>cap\<close> bytes: what is stored, and the return value, which with \<open>MSG_TRUNC\<close> is
  the length of the datagram.\<close>

definition sys_recv ::
    "('s, 'e, 'k, 'x) linux_ops \<Rightarrow> 'k \<Rightarrow> nat \<Rightarrow> usize \<Rightarrow> bool \<Rightarrow> (bytes \<times> usize, 'x os_error) result \<times> 'k" where
  "sys_recv S k fd cap trunc =
     (case lo_recv S k fd of
        (Err e, k1) \<Rightarrow> (Err e, k1)
      | (Ok dgram, k1) \<Rightarrow> (Ok (take cap dgram, if trunc then length dgram else length (take cap dgram)), k1))"

fun poll_fds ::
    "nat \<Rightarrow> ('s, 'e, 'k, 'x) linux_ops \<Rightarrow> 'k \<Rightarrow> (nat \<times> bool) list \<Rightarrow> duration \<Rightarrow>
     ((nat \<times> poll_event list, 'x os_error) result \<times> 'k) option" where
  "poll_fds 0 S k fds tmo = None"
| "poll_fds (Suc n) S k fds tmo =
     (case lo_poll S k fds (duration_to_poll_timeout tmo) of
        (Ok r, k1) \<Rightarrow> Some (Ok r, k1)
      | (Err err, k1) \<Rightarrow> if err = EInterrupted then poll_fds n S k1 fds tmo else Some (Err err, k1))"

definition poll_fd ::
    "nat \<Rightarrow> ('s, 'e, 'k, 'x) linux_ops \<Rightarrow> 'k \<Rightarrow> nat \<Rightarrow> bool \<Rightarrow> duration \<Rightarrow> ((bool, 'x os_error) result \<times> 'k) option" where
  "poll_fd n S k fd writing tmo =
     map_option (\<lambda>(r, k1). (map_res (\<lambda>(res, _). res > 0) r, k1)) (poll_fds n S k [(fd, writing)] tmo)"

section \<open>Opening\<close>

text \<open>One \<open>setsockopt\<close> with its error mapped, a chain of them with \<open>?\<close>, and one under \<open>if let Some\<close>.\<close>

definition set_opt :: "('s, 'e, 'k, 'x) linux_ops \<Rightarrow> nat \<Rightarrow> sock_opt \<Rightarrow> 'k \<Rightarrow> (unit, 'x isotp_error) result \<times> 'k" where
  "set_opt S fd opt k = (case lo_setsockopt S k fd opt of (Ok _, k1) \<Rightarrow> (Ok (), k1) | (Err e, k1) \<Rightarrow> (Err (IoOs e), k1))"

fun and_then :: "(unit, 'y) result \<times> 'k \<Rightarrow> ('k \<Rightarrow> (unit, 'y) result \<times> 'k) \<Rightarrow> (unit, 'y) result \<times> 'k" where
  "and_then (Ok _, k) f = f k"
| "and_then (Err e, k) f = (Err e, k)"

fun if_some :: "'v option \<Rightarrow> ('v \<Rightarrow> 'k \<Rightarrow> (unit, 'y) result \<times> 'k) \<Rightarrow> 'k \<Rightarrow> (unit, 'y) result \<times> 'k" where
  "if_some (Some v) f k = f v k"
| "if_some None f k = (Ok (), k)"

definition apply_kernel_options ::
    "('s, 'e, 'k, 'x) linux_ops \<Rightarrow> 'k \<Rightarrow> nat \<Rightarrow> isotp_kernel_options \<Rightarrow> (unit, 'x isotp_error) result \<times> 'k" where
  "apply_kernel_options S k fd opts =
     and_then (if_some (so_frame_txtime (ko_socket opts)) (\<lambda>txtime. set_opt S fd (SoTxTime (duration_to_nanos_u32 txtime))) k)
     (\<lambda>k. and_then (set_opt S fd (IsotpOpts (build_can_isotp_options (ko_socket opts))) k)
     (\<lambda>k. and_then (if_some (ko_flow_control opts)
         (\<lambda>fc. set_opt S fd (IsotpRecvFc \<lparr>fc_bs = fo_block_size fc, fc_stmin = fo_st_min fc, fc_wftmax = fo_wft_max fc\<rparr>)) k)
     (\<lambda>k. and_then (if_some (ko_force_tx_stmin opts) (\<lambda>st. set_opt S fd (IsotpTxStmin (duration_to_nanos_u32 st))) k)
     (\<lambda>k. and_then (if_some (ko_force_rx_stmin opts) (\<lambda>st. set_opt S fd (IsotpRxStmin (duration_to_nanos_u32 st))) k)
     (\<lambda>k. if_some (ko_link_layer opts)
         (\<lambda>l. set_opt S fd (IsotpLlOpts \<lparr>ll_mtu = lo_mtu l, ll_tx_dl = lo_tx_dl l, ll_tx_flags = lo_tx_flags l\<rparr>)) k)))))"

record socket_can_isotp =
  sk_fd :: nat
  sk_rx_buf :: bytes
  sk_wft_max :: u8

definition isotp_open ::
    "('s, 'e, 'k, 'x) linux_ops \<Rightarrow> 'k \<Rightarrow> string \<Rightarrow> ('s, 'e) can_id \<Rightarrow> ('s, 'e) can_id \<Rightarrow> isotp_kernel_options \<Rightarrow>
     (socket_can_isotp, 'x isotp_error) result \<times> 'k" where
  "isotp_open S k ifn rx_id tx_id opts =
     (if ko_max_rx_payload opts = 0 then (Err (InvalidConfig ''max_rx_payload must be > 0''), k)
      else
        (case lo_socket S k of
           (Err e, k1) \<Rightarrow> (Err (IoOs e), k1)
         | (Ok fd, k1) \<Rightarrow>
             (case lo_nonblocking S k1 fd of
                (Err e, k2) \<Rightarrow> (Err (IoOs e), k2)
              | (Ok _, k2) \<Rightarrow>
                  (case apply_kernel_options S k2 fd opts of
                     (Err e, k3) \<Rightarrow> (Err e, k3)
                   | (Ok _, k3) \<Rightarrow>
                       (case lo_bind S k3 fd ifn rx_id tx_id of
                          (Err e, k4) \<Rightarrow> (Err (IoOs e), k4)
                        | (Ok _, k4) \<Rightarrow>
                            (Ok \<lparr>sk_fd = fd, sk_rx_buf = replicate (ko_max_rx_payload opts) 0,
                                 sk_wft_max = (case ko_flow_control opts of Some fc \<Rightarrow> fo_wft_max fc | None \<Rightarrow> 0)\<rparr>, k4))))))"

definition sk_set_rx_flow_control ::
    "('s, 'e, 'k, 'x) linux_ops \<Rightarrow> 'k \<Rightarrow> socket_can_isotp \<Rightarrow> rx_flow_control \<Rightarrow> (unit, 'x isotp_error) result \<times> 'k" where
  "sk_set_rx_flow_control S k sk fc =
     (case lo_setsockopt S k (sk_fd sk)
             (IsotpRecvFc \<lparr>fc_bs = rf_block_size fc, fc_stmin = duration_to_isotp_stmin (rf_st_min fc), fc_wftmax = sk_wft_max sk\<rparr>) of
        (Err e, k1) \<Rightarrow> (Err (IoOs e), k1)
      | (Ok _, k1) \<Rightarrow> (Ok (), k1))"

section \<open>The blocking endpoint\<close>

text \<open>A callback threads a state of its own.\<close>

type_synonym ('c, 'x) on_payload = "'c \<Rightarrow> recv_meta \<Rightarrow> bytes \<Rightarrow> (recv_control, 'x isotp_error) result \<times> 'c"

definition deliver ::
    "('c, 'x) on_payload \<Rightarrow> 'c \<Rightarrow> recv_meta \<Rightarrow> bytes \<Rightarrow> (recv_status, 'x isotp_error recv_error) result \<times> 'c" where
  "deliver cb c meta payload =
     (case cb c meta payload of
        (Err e, c1) \<Rightarrow> (Err (RecvBackend e), c1)
      | (Ok _, c1) \<Rightarrow> (Ok RecvDeliveredOne, c1))"

definition recv_one_ready ::
    "('s, 'e, 'k, 'x) linux_ops \<Rightarrow> 'k \<Rightarrow> ('c, 'x) on_payload \<Rightarrow> 'c \<Rightarrow> u8 \<Rightarrow> socket_can_isotp \<Rightarrow>
     (recv_status, 'x isotp_error recv_error) result \<times> 'c \<times> socket_can_isotp \<times> 'k" where
  "recv_one_ready S k cb c src sk =
     (case sys_recv S k (sk_fd sk) (length (sk_rx_buf sk)) False of
        (Err err, k1) \<Rightarrow>
          if err = EWouldBlock then (Ok RecvTimedOut, c, sk, k1) else (Err (RecvBackend (IoOs err)), c, sk, k1)
      | (Ok (data, n), k1) \<Rightarrow>
          let sk1 = sk\<lparr>sk_rx_buf := copy_into (sk_rx_buf sk) data\<rparr> in
          if n = 0 then (Err (RecvBackend (IoUnexpectedEof ''iso-tp socket returned 0 bytes'')), c, sk1, k1)
          else let (r, c1) = deliver cb c \<lparr>reply_to = src\<rparr> (take n (sk_rx_buf sk1)) in (r, c1, sk1, k1))"

fun sk_send_loop ::
    "nat \<Rightarrow> ('s, 'e, 'k, 'x) linux_ops \<Rightarrow> 'k \<Rightarrow> nat \<Rightarrow> bytes \<Rightarrow> nat \<Rightarrow> ((unit, 'x isotp_error send_error) result \<times> 'k) option" where
  "sk_send_loop 0 S k fd payload deadline = None"
| "sk_send_loop (Suc n) S k fd payload deadline =
     (case lo_send S k fd payload of
        (Ok sent, k1) \<Rightarrow> Some (Ok (), k1)
      | (Err err, k1) \<Rightarrow>
          if err = EInterrupted then sk_send_loop n S k1 fd payload deadline
          else if err \<noteq> EWouldBlock then Some (Err (SendBackend (IoOs err)), k1)
          else let (now, k2) = lo_now S k1 in
            if now \<ge> deadline then Some (Err SendTimeout, k2)
            else (case poll_fd n S k2 fd True (deadline - now) of
                    None \<Rightarrow> None
                  | Some (Err e, k3) \<Rightarrow> Some (Err (SendBackend (IoOs e)), k3)
                  | Some (Ok ready, k3) \<Rightarrow>
                      if \<not> ready then Some (Err SendTimeout, k3) else sk_send_loop n S k3 fd payload deadline))"

definition sk_send_to ::
    "nat \<Rightarrow> ('s, 'e, 'k, 'x) linux_ops \<Rightarrow> 'k \<Rightarrow> socket_can_isotp \<Rightarrow> u8 \<Rightarrow> bytes \<Rightarrow> duration \<Rightarrow>
     ((unit, 'x isotp_error send_error) result \<times> 'k) option" where
  "sk_send_to n S k sk dst payload tmo =
     (let (now, k1) = lo_now S k in sk_send_loop n S k1 (sk_fd sk) payload (now + tmo))"

definition sk_send_functional_to ::
    "nat \<Rightarrow> ('s, 'e, 'k, 'x) linux_ops \<Rightarrow> 'k \<Rightarrow> socket_can_isotp \<Rightarrow> u8 \<Rightarrow> bytes \<Rightarrow> duration \<Rightarrow>
     ((unit, 'x isotp_error send_error) result \<times> 'k) option" where
  "sk_send_functional_to n S k sk functional_to payload tmo = sk_send_to n S k sk 0 payload tmo"

fun sk_recv_loop ::
    "nat \<Rightarrow> ('s, 'e, 'k, 'x) linux_ops \<Rightarrow> 'k \<Rightarrow> ('c, 'x) on_payload \<Rightarrow> 'c \<Rightarrow> socket_can_isotp \<Rightarrow> nat \<Rightarrow>
     ((recv_status, 'x isotp_error recv_error) result \<times> 'c \<times> socket_can_isotp \<times> 'k) option" where
  "sk_recv_loop 0 S k cb c sk deadline = None"
| "sk_recv_loop (Suc n) S k cb c sk deadline =
     (case sys_recv S k (sk_fd sk) (length (sk_rx_buf sk)) False of
        (Ok (data, r), k1) \<Rightarrow>
          let sk1 = sk\<lparr>sk_rx_buf := copy_into (sk_rx_buf sk) data\<rparr> in
          if r = 0 then Some (Err (RecvBackend (IoUnexpectedEof ''iso-tp socket returned 0 bytes'')), c, sk1, k1)
          else let (st, c1) = deliver cb c \<lparr>reply_to = 0\<rparr> (take r (sk_rx_buf sk1)) in Some (st, c1, sk1, k1)
      | (Err err, k1) \<Rightarrow>
          if err = EInterrupted then sk_recv_loop n S k1 cb c sk deadline
          else if err \<noteq> EWouldBlock then Some (Err (RecvBackend (IoOs err)), c, sk, k1)
          else let (now, k2) = lo_now S k1 in
            if now \<ge> deadline then Some (Ok RecvTimedOut, c, sk, k2)
            else (case poll_fd n S k2 (sk_fd sk) False (deadline - now) of
                    None \<Rightarrow> None
                  | Some (Err e, k3) \<Rightarrow> Some (Err (RecvBackend (IoOs e)), c, sk, k3)
                  | Some (Ok ready, k3) \<Rightarrow>
                      if \<not> ready then Some (Ok RecvTimedOut, c, sk, k3) else sk_recv_loop n S k3 cb c sk deadline))"

definition sk_recv_one ::
    "nat \<Rightarrow> ('s, 'e, 'k, 'x) linux_ops \<Rightarrow> 'k \<Rightarrow> ('c, 'x) on_payload \<Rightarrow> 'c \<Rightarrow> socket_can_isotp \<Rightarrow> duration \<Rightarrow>
     ((recv_status, 'x isotp_error recv_error) result \<times> 'c \<times> socket_can_isotp \<times> 'k) option" where
  "sk_recv_one n S k cb c sk tmo = (let (now, k1) = lo_now S k in sk_recv_loop n S k1 cb c sk (now + tmo))"

section \<open>The tokio endpoint\<close>

text \<open>\<open>AsyncFd::new\<close> registers the descriptor with the reactor and may fail; the socket is dropped then.\<close>

definition tk_open ::
    "('k \<Rightarrow> nat \<Rightarrow> (unit, 'x os_error) result \<times> 'k) \<Rightarrow> ('s, 'e, 'k, 'x) linux_ops \<Rightarrow> 'k \<Rightarrow> string \<Rightarrow>
     ('s, 'e) can_id \<Rightarrow> ('s, 'e) can_id \<Rightarrow> isotp_kernel_options \<Rightarrow> (socket_can_isotp, 'x isotp_error) result \<times> 'k" where
  "tk_open async_fd_new S k ifn rx_id tx_id opts =
     (case isotp_open S k ifn rx_id tx_id opts of
        (Err e, k1) \<Rightarrow> (Err e, k1)
      | (Ok inner, k1) \<Rightarrow>
          (case async_fd_new k1 (sk_fd inner) of
             (Err e, k2) \<Rightarrow> (Err (IoOs e), k2)
           | (Ok _, k2) \<Rightarrow> (Ok inner, k2)))"

definition tk_set_rx_flow_control ::
    "('s, 'e, 'k, 'x) linux_ops \<Rightarrow> 'k \<Rightarrow> socket_can_isotp \<Rightarrow> rx_flow_control \<Rightarrow> (unit, 'x isotp_error) result \<times> 'k" where
  "tk_set_rx_flow_control S k sk fc = sk_set_rx_flow_control S k sk fc"

text \<open>\<open>tokio::time::timeout\<close> around a loop: the loop ends with the timeout when it waits and the time elapses.\<close>

fun tk_send_to ::
    "nat \<Rightarrow> ('s, 'e, 'k, 'x) linux_ops \<Rightarrow> 'k \<Rightarrow> socket_can_isotp \<Rightarrow> u8 \<Rightarrow> bytes \<Rightarrow>
     ((unit, 'x isotp_error send_error) result \<times> 'k) option" where
  "tk_send_to 0 S k sk dst payload = None"
| "tk_send_to (Suc n) S k sk dst payload =
     (case lo_send S k (sk_fd sk) payload of
        (Ok sent, k1) \<Rightarrow> Some (Ok (), k1)
      | (Err err, k1) \<Rightarrow>
          if err = EInterrupted then tk_send_to n S k1 sk dst payload
          else if err \<noteq> EWouldBlock then Some (Err (SendBackend (IoOs err)), k1)
          else (case lo_ready S k1 (sk_fd sk) True of
                  (None, k2) \<Rightarrow> Some (Err SendTimeout, k2)
                | (Some (Err e), k2) \<Rightarrow> Some (Err (SendBackend (IoOs e)), k2)
                | (Some (Ok _), k2) \<Rightarrow> tk_send_to n S k2 sk dst payload))"

definition tk_send_functional_to ::
    "nat \<Rightarrow> ('s, 'e, 'k, 'x) linux_ops \<Rightarrow> 'k \<Rightarrow> socket_can_isotp \<Rightarrow> u8 \<Rightarrow> bytes \<Rightarrow>
     ((unit, 'x isotp_error send_error) result \<times> 'k) option" where
  "tk_send_functional_to n S k sk functional_to payload = tk_send_to n S k sk 0 payload"

fun tk_recv_one ::
    "nat \<Rightarrow> ('s, 'e, 'k, 'x) linux_ops \<Rightarrow> 'k \<Rightarrow> ('c, 'x) on_payload \<Rightarrow> 'c \<Rightarrow> socket_can_isotp \<Rightarrow>
     ((recv_status, 'x isotp_error recv_error) result \<times> 'c \<times> socket_can_isotp \<times> 'k) option" where
  "tk_recv_one 0 S k cb c sk = None"
| "tk_recv_one (Suc n) S k cb c sk =
     (case recv_one_ready S k cb c 0 sk of
        (Ok RecvDeliveredOne, c1, sk1, k1) \<Rightarrow> Some (Ok RecvDeliveredOne, c1, sk1, k1)
      | (Ok RecvTimedOut, c1, sk1, k1) \<Rightarrow>
          (case lo_ready S k1 (sk_fd sk1) False of
             (None, k2) \<Rightarrow> Some (Ok RecvTimedOut, c1, sk1, k2)
           | (Some (Err e), k2) \<Rightarrow> Some (Err (RecvBackend (IoOs e)), c1, sk1, k2)
           | (Some (Ok _), k2) \<Rightarrow> tk_recv_one n S k2 cb c1 sk1)
      | (Err e, c1, sk1, k1) \<Rightarrow> Some (Err e, c1, sk1, k1))"

text \<open>\<open>recv_one_into\<close> waits first; \<open>try_io\<close> turns a blocking read into another wait.\<close>

fun tk_recv_one_into ::
    "nat \<Rightarrow> ('s, 'e, 'k, 'x) linux_ops \<Rightarrow> 'k \<Rightarrow> socket_can_isotp \<Rightarrow> bytes \<Rightarrow>
     ((recv_meta_into_status, 'x isotp_error recv_error) result \<times> bytes \<times> 'k) option" where
  "tk_recv_one_into 0 S k sk out = None"
| "tk_recv_one_into (Suc n) S k sk out =
     (case lo_ready S k (sk_fd sk) False of
        (None, k1) \<Rightarrow> Some (Ok IntoTimedOut, out, k1)
      | (Some (Err e), k1) \<Rightarrow> Some (Err (RecvBackend (IoOs e)), out, k1)
      | (Some (Ok _), k1) \<Rightarrow>
          (case sys_recv S k1 (sk_fd sk) (length out) True of
             (Ok (data, r), k2) \<Rightarrow>
               let out1 = copy_into out data in
               if r = 0 then Some (Err (RecvBackend (IoUnexpectedEof ''iso-tp socket returned 0 bytes'')), out1, k2)
               else if r > length out then Some (Err (RecvBufferTooSmall r (length out)), out1, k2)
               else Some (Ok (IntoDeliveredOne \<lparr>reply_to = 0\<rparr> r), out1, k2)
           | (Err err, k2) \<Rightarrow>
               if err = EInterrupted \<or> err = EWouldBlock then tk_recv_one_into n S k2 sk out
               else Some (Err (RecvBackend (IoOs err)), out, k2)))"

section \<open>The demultiplexer\<close>

record kernel_uds_demux =
  kd_iface :: string
  kd_local_addr :: u8
  kd_options :: isotp_kernel_options
  kd_rx_flow_control :: rx_flow_control
  kd_peers :: "(u8 \<times> socket_can_isotp) list"

definition kernel_uds_demux_new :: "string \<Rightarrow> u8 \<Rightarrow> isotp_kernel_options \<Rightarrow> kernel_uds_demux" where
  "kernel_uds_demux_new ifn local_addr opts =
     (let fc = (case ko_flow_control opts of
          Some fc \<Rightarrow> \<lparr>rf_block_size = fo_block_size fc,
                      rf_st_min = (case isotp_stmin_to_duration (fo_st_min fc) of Some d \<Rightarrow> d | None \<Rightarrow> 0)\<rparr>
        | None \<Rightarrow> \<lparr>rf_block_size = 0, rf_st_min = 0\<rparr>)
      in \<lparr>kd_iface = ifn, kd_local_addr = local_addr, kd_options = opts, kd_rx_flow_control = fc, kd_peers = []\<rparr>)"

text \<open>\<open>expect\<close> on the identifier: \<open>Panic\<close> if the raw value is not a 29-bit identifier.\<close>

definition uds_phys_id :: "(u8 \<Rightarrow> u8 \<Rightarrow> u32) \<Rightarrow> ('s, 'e) can_id_api \<Rightarrow> u8 \<Rightarrow> u8 \<Rightarrow> ('s, 'e) can_id outcome" where
  "uds_phys_id encode_phys_id_raw A target source =
     (case ext_new A (encode_phys_id_raw target source) of None \<Rightarrow> Panic | Some ext \<Rightarrow> Return (Extended ext))"

text \<open>The result is the index of the peer's socket.\<close>

definition ensure_peer ::
    "(u8 \<Rightarrow> u8 \<Rightarrow> u32) \<Rightarrow> ('s, 'e) can_id_api \<Rightarrow> ('s, 'e, 'k, 'x) linux_ops \<Rightarrow> 'k \<Rightarrow> kernel_uds_demux \<Rightarrow> u8 \<Rightarrow>
     ((nat, 'x isotp_error) result \<times> kernel_uds_demux \<times> 'k) outcome" where
  "ensure_peer U A S k d peer =
     (if peer = kd_local_addr d then Return (Err (InvalidConfig ''peer address must differ from local_addr''), d, k)
      else
        (case position (\<lambda>(addr, _). addr = peer) (kd_peers d) of
           Some idx \<Rightarrow> Return (Ok idx, d, k)
         | None \<Rightarrow>
             (case uds_phys_id U A (kd_local_addr d) peer of
                Panic \<Rightarrow> Panic
              | Return rx_id \<Rightarrow>
                  (case uds_phys_id U A peer (kd_local_addr d) of
                     Panic \<Rightarrow> Panic
                   | Return tx_id \<Rightarrow>
                       (case isotp_open S k (kd_iface d) rx_id tx_id (kd_options d) of
                          (Err e, k1) \<Rightarrow> Return (Err e, d, k1)
                        | (Ok sk, k1) \<Rightarrow>
                            let (_, k2) = sk_set_rx_flow_control S k1 sk (kd_rx_flow_control d);
                                d1 = d\<lparr>kd_peers := kd_peers d @ [(peer, sk)]\<rparr>
                            in Return (Ok (length (kd_peers d1) - 1), d1, k2))))))"

definition register_peer ::
    "(u8 \<Rightarrow> u8 \<Rightarrow> u32) \<Rightarrow> ('s, 'e) can_id_api \<Rightarrow> ('s, 'e, 'k, 'x) linux_ops \<Rightarrow> 'k \<Rightarrow> kernel_uds_demux \<Rightarrow> u8 \<Rightarrow>
     ((unit, 'x isotp_error) result \<times> kernel_uds_demux \<times> 'k) outcome" where
  "register_peer U A S k d peer =
     (case ensure_peer U A S k d peer of
        Panic \<Rightarrow> Panic
      | Return (r, d1, k1) \<Rightarrow> Return (map_res (\<lambda>_. ()) r, d1, k1))"

fun set_all_flow_control ::
    "('s, 'e, 'k, 'x) linux_ops \<Rightarrow> 'k \<Rightarrow> (u8 \<times> socket_can_isotp) list \<Rightarrow> rx_flow_control \<Rightarrow> (unit, 'x isotp_error) result \<times> 'k" where
  "set_all_flow_control S k [] fc = (Ok (), k)"
| "set_all_flow_control S k ((_, sk) # ps) fc =
     (case sk_set_rx_flow_control S k sk fc of
        (Err e, k1) \<Rightarrow> (Err e, k1)
      | (Ok _, k1) \<Rightarrow> set_all_flow_control S k1 ps fc)"

definition kd_set_rx_flow_control ::
    "('s, 'e, 'k, 'x) linux_ops \<Rightarrow> 'k \<Rightarrow> kernel_uds_demux \<Rightarrow> rx_flow_control \<Rightarrow>
     (unit, 'x isotp_error) result \<times> kernel_uds_demux \<times> 'k" where
  "kd_set_rx_flow_control S k d fc =
     (let d1 = d\<lparr>kd_rx_flow_control := fc\<rparr>; (r, k1) = set_all_flow_control S k (kd_peers d1) fc in (r, d1, k1))"

definition kd_send_to ::
    "nat \<Rightarrow> (u8 \<Rightarrow> u8 \<Rightarrow> u32) \<Rightarrow> ('s, 'e) can_id_api \<Rightarrow> ('s, 'e, 'k, 'x) linux_ops \<Rightarrow> 'k \<Rightarrow> kernel_uds_demux \<Rightarrow> u8 \<Rightarrow> bytes \<Rightarrow> duration \<Rightarrow>
     ((unit, 'x isotp_error send_error) result \<times> kernel_uds_demux \<times> 'k) outcome option" where
  "kd_send_to n U A S k d dst payload tmo =
     (case ensure_peer U A S k d dst of
        Panic \<Rightarrow> Some Panic
      | Return (Err e, d1, k1) \<Rightarrow> Some (Return (Err (SendBackend e), d1, k1))
      | Return (Ok idx, d1, k1) \<Rightarrow>
          map_option (\<lambda>(r, k2). Return (r, d1, k2)) (sk_send_to n S k1 (snd (kd_peers d1 ! idx)) dst payload tmo))"

definition kd_send_functional_to :: "kernel_uds_demux \<Rightarrow> u8 \<Rightarrow> bytes \<Rightarrow> duration \<Rightarrow> (unit, 'x isotp_error send_error) result" where
  "kd_send_functional_to d functional_to payload tmo =
     Err (SendBackend (InvalidConfig ''functional send is not supported by KernelUdsDemux''))"

text \<open>The scan over the polled events: the first readable socket, or an error before one.\<close>

fun kd_scan :: "poll_event list \<Rightarrow> nat \<Rightarrow> (nat, unit) result option" where
  "kd_scan [] idx = None"
| "kd_scan (e # es) idx = (if pe_in e then Some (Ok idx) else if pe_err e then Some (Err ()) else kd_scan es (Suc idx))"

definition kd_recv_one ::
    "nat \<Rightarrow> ('s, 'e, 'k, 'x) linux_ops \<Rightarrow> 'k \<Rightarrow> ('c, 'x) on_payload \<Rightarrow> 'c \<Rightarrow> kernel_uds_demux \<Rightarrow> duration \<Rightarrow>
     ((recv_status, 'x isotp_error recv_error) result \<times> 'c \<times> kernel_uds_demux \<times> 'k) option" where
  "kd_recv_one n S k cb c d tmo =
     (if kd_peers d = [] then Some (Ok RecvTimedOut, c, d, lo_sleep S k tmo)
      else
        (case poll_fds n S k (map (\<lambda>(_, sk). (sk_fd sk, False)) (kd_peers d)) tmo of
           None \<Rightarrow> None
         | Some (Err e, k1) \<Rightarrow> Some (Err (RecvBackend (IoOs e)), c, d, k1)
         | Some (Ok (ready, evs), k1) \<Rightarrow>
             if ready = 0 then Some (Ok RecvTimedOut, c, d, k1)
             else
               (case kd_scan evs 0 of
                  None \<Rightarrow> Some (Ok RecvTimedOut, c, d, k1)
                | Some (Err _) \<Rightarrow> Some (Err (RecvBackend (IoOther ''poll error on iso-tp socket'')), c, d, k1)
                | Some (Ok idx) \<Rightarrow>
                    let (addr, sk) = kd_peers d ! idx;
                        (r, c1, sk1, k2) = recv_one_ready S k1 cb c addr sk
                    in Some (r, c1, d\<lparr>kd_peers := (kd_peers d)[idx := (addr, sk1)]\<rparr>, k2))))"

end
