(* ===== verification/IsoTp_Linux_Props.thy ===== *)
theory IsoTp_Linux_Props
  imports IsoTp_Linux
begin

text \<open>
  The conversion of separation times of the kernel ISO-TP sockets, and the options set on a new socket.
\<close>

unbundle bit_operations_syntax

section \<open>Separation times\<close>

lemma stmin_decode_encode:
  assumes "isotp_stmin_to_duration raw = Some d"
  shows "duration_to_isotp_stmin d = raw"
proof (cases "raw \<le> 0x7F")
  case True
  then have "unat raw \<le> 127" and d: "d = unat raw * 1000000"
    using assms by (auto simp: isotp_stmin_to_duration_def word_le_nat_alt)
  moreover have "unat raw * 1000000 div 1000 = unat raw * 1000" by simp
  moreover have "unat raw = 0 \<or> unat raw * 1000 > 900" by arith
  ultimately show ?thesis by (auto simp: duration_to_isotp_stmin_def unat_eq_zero Let_def)
next
  case False
  then have r: "0xF1 \<le> raw" "raw \<le> 0xF9" and d: "d = (unat raw - 240) * 100 * 1000"
    using assms by (auto simp: isotp_stmin_to_duration_def split: if_splits)
  define m where "m = unat raw - 240"
  have m: "1 \<le> m" "m \<le> 9" "unat raw = 240 + m" using r by (auto simp: m_def word_le_nat_alt)
  have "d div 1000 = m * 100" using d m_def by simp
  moreover have "0xF0 + word_of_nat m = raw"
  proof -
    have "raw = word_of_nat (unat raw)" by simp
    then show ?thesis unfolding m(3) by simp
  qed
  ultimately show ?thesis using m by (simp add: duration_to_isotp_stmin_def Let_def)
qed

lemma stmin_encode_decode:
  "\<exists>d'. isotp_stmin_to_duration (duration_to_isotp_stmin d) = Some d' \<and> d' \<le> d \<and> (d < 1000000 \<and> d div 1000 mod 100 \<noteq> 0 \<longrightarrow> d' = 0)"
proof -
  consider (zero) "d div 1000 = 0" | (small) "d div 1000 \<noteq> 0" "100 \<le> d div 1000 \<and> d div 1000 \<le> 900 \<and> d div 1000 mod 100 = 0"
    | (millis) "d div 1000 \<noteq> 0" "\<not> (100 \<le> d div 1000 \<and> d div 1000 \<le> 900 \<and> d div 1000 mod 100 = 0)" "d div 1000000 \<le> 127"
    | (long) "d div 1000 \<noteq> 0" "\<not> (100 \<le> d div 1000 \<and> d div 1000 \<le> 900 \<and> d div 1000 mod 100 = 0)" "\<not> d div 1000000 \<le> 127" by blast
  then show ?thesis
  proof cases
    case zero
    then show ?thesis by (simp add: duration_to_isotp_stmin_def isotp_stmin_to_duration_def)
  next
    case small
    define m where "m = d div 1000 div 100"
    have m3: "d div 1000 = m * 100" using small div_mult_mod_eq [of "d div 1000" 100] unfolding m_def by linarith
    have m: "1 \<le> m" "m \<le> 9" "d div 1000 = m * 100" using small m3 by linarith+
    have u: "unat (0xF0 + word_of_nat m :: u8) = 240 + m"
      using m by (subst unat_add_no_overflow) (simp_all add: unat_of_nat take_bit_nat_eq_self)
    have "isotp_stmin_to_duration (0xF0 + word_of_nat m) = Some (m * 100 * 1000)"
      using u m by (simp add: isotp_stmin_to_duration_def word_le_nat_alt)
    moreover have "m * 100 * 1000 \<le> d" using m(3) div_times_less_eq_dividend [of d 1000] by simp
    moreover have "duration_to_isotp_stmin d = 0xF0 + word_of_nat m"
      using small unfolding duration_to_isotp_stmin_def Let_def m_def by simp
    ultimately show ?thesis using small by simp
  next
    case millis
    have u: "unat (word_of_nat (d div 1000000) :: u8) = d div 1000000" using millis(3) by (simp add: unat_of_nat take_bit_nat_eq_self)
    have "isotp_stmin_to_duration (word_of_nat (d div 1000000)) = Some (d div 1000000 * 1000000)"
      using u millis(3) by (simp add: isotp_stmin_to_duration_def word_le_nat_alt)
    moreover have "duration_to_isotp_stmin d = word_of_nat (d div 1000000)"
      using millis unfolding duration_to_isotp_stmin_def Let_def by auto
    ultimately show ?thesis by (auto simp: div_times_less_eq_dividend)
  next
    case long
    have "duration_to_isotp_stmin d = 0x7F" using long unfolding duration_to_isotp_stmin_def Let_def by auto
    moreover have "127000000 \<le> d" using long(3) by linarith
    ultimately show ?thesis by (simp add: isotp_stmin_to_duration_def)
  qed
qed

section \<open>Options\<close>

fun set_all_opts :: "('s, 'e, 'k, 'x) linux_ops \<Rightarrow> nat \<Rightarrow> sock_opt list \<Rightarrow> 'k \<Rightarrow> (unit, 'x isotp_error) result \<times> 'k" where
  "set_all_opts S fd [] k = (Ok (), k)"
| "set_all_opts S fd (opt # opts) k = and_then (set_opt S fd opt k) (set_all_opts S fd opts)"

definition list_of_option :: "'a option \<Rightarrow> 'a list" where
  "list_of_option v = (case v of None \<Rightarrow> [] | Some a \<Rightarrow> [a])"

definition kernel_opts :: "isotp_kernel_options \<Rightarrow> sock_opt list" where
  "kernel_opts opts =
     map (SoTxTime \<circ> duration_to_nanos_u32) (list_of_option (so_frame_txtime (ko_socket opts))) @
     [IsotpOpts (build_can_isotp_options (ko_socket opts))] @
     map (\<lambda>fc. IsotpRecvFc \<lparr>fc_bs = fo_block_size fc, fc_stmin = fo_st_min fc, fc_wftmax = fo_wft_max fc\<rparr>) (list_of_option (ko_flow_control opts)) @
     map (IsotpTxStmin \<circ> duration_to_nanos_u32) (list_of_option (ko_force_tx_stmin opts)) @
     map (IsotpRxStmin \<circ> duration_to_nanos_u32) (list_of_option (ko_force_rx_stmin opts)) @
     map (\<lambda>l. IsotpLlOpts \<lparr>ll_mtu = lo_mtu l, ll_tx_dl = lo_tx_dl l, ll_tx_flags = lo_tx_flags l\<rparr>) (list_of_option (ko_link_layer opts))"

lemma and_then_assoc: "and_then (and_then x f) g = and_then x (\<lambda>k. and_then (f k) g)"
  by (cases x; cases "fst x") auto

lemma and_then_ok [simp]: "and_then x (\<lambda>k. (Ok (), k)) = x"
  by (cases x; cases "fst x") auto

lemma set_all_append: "set_all_opts S fd (xs @ ys) k = and_then (set_all_opts S fd xs k) (set_all_opts S fd ys)"
proof (induction xs arbitrary: k)
  case (Cons x xs)
  have "set_all_opts S fd (xs @ ys) = (\<lambda>k. and_then (set_all_opts S fd xs k) (set_all_opts S fd ys))" using Cons.IH by (rule ext)
  then show ?case by (simp add: and_then_assoc)
qed simp

lemma set_all_option:
  "set_all_opts S fd (map f (list_of_option v)) k = if_some v (\<lambda>a. set_opt S fd (f a)) k"
proof (cases v)
  case (Some a)
  have "set_all_opts S fd [] = (\<lambda>k. (Ok (), k))" by (rule ext) simp
  then show ?thesis using Some by (simp add: list_of_option_def)
qed (simp add: list_of_option_def)

lemma apply_kernel_options_list: "apply_kernel_options S k fd opts = set_all_opts S fd (kernel_opts opts) k"
proof -
  have nil: "set_all_opts S fd [] = (\<lambda>k. (Ok (), k))" by (rule ext) simp
  show ?thesis
    unfolding apply_kernel_options_def kernel_opts_def set_all_append set_all_option [abs_def] append_Cons append_Nil set_all_opts.simps(2)
      comp_def by (simp only: set_all_append set_all_option nil)
qed

lemma isotp_option_flags:
  "co_flags (build_can_isotp_options opts) = so_flags opts OR (if so_ext_address opts \<noteq> None then CAN_ISOTP_EXTEND_ADDR else 0)
     OR (if so_tx_padding opts \<noteq> None then CAN_ISOTP_TX_PADDING else 0) OR (if so_rx_padding opts \<noteq> None then CAN_ISOTP_RX_PADDING else 0)
     OR (if so_rx_ext_address opts \<noteq> None then CAN_ISOTP_RX_EXT_ADDR else 0)"
  by (simp add: build_can_isotp_options_def Let_def or.assoc)

lemma isotp_force_flags:
  "co_flags (build_can_isotp_options opts) AND (CAN_ISOTP_FORCE_TXSTMIN OR CAN_ISOTP_FORCE_RXSTMIN) =
   so_flags opts AND (CAN_ISOTP_FORCE_TXSTMIN OR CAN_ISOTP_FORCE_RXSTMIN)"
  unfolding isotp_option_flags isotp_flags by (simp add: bit.conj_disj_distrib2)

section \<open>Properties\<close>

text \<open>C34: Separation times: every STmin byte that ISO-TP defines survives the way to a duration and back. Every duration is
  encoded as a defined byte that stands for at most this duration; it is never rounded up, and a
  duration below a millisecond that is not a multiple of 100 microseconds becomes zero.\<close>

theorem stmin_round_trip:
  "(isotp_stmin_to_duration raw = Some d \<longrightarrow> duration_to_isotp_stmin d = raw) \<and>
   (\<exists>t'. isotp_stmin_to_duration (duration_to_isotp_stmin t) = Some t' \<and> t' \<le> t \<and>
      (t < 1000000 \<and> t div 1000 mod 100 \<noteq> 0 \<longrightarrow> t' = 0))"
  using stmin_decode_encode stmin_encode_decode by blast

theorem stmin_round_trip_witness:
  "duration_to_isotp_stmin 400000 = 0xF4 \<and> isotp_stmin_to_duration (duration_to_isotp_stmin 950000) = Some 0"
  using stmin_round_trip [of "0xF4" 400000 950000] by (auto simp: isotp_stmin_to_duration_def)

text \<open>The options of a new socket are set one after the other until the first that fails: transmit time, base options, flow
  control, the two forced separation times, link layer, those not configured left out. The base options
  carry the flags the caller gave and those of the addresses and paddings given; the flags that make the
  kernel use a forced separation time are those the caller gave.\<close>

lemma kernel_options_applied:
  "apply_kernel_options S k fd opts = set_all_opts S fd (kernel_opts opts) k \<and>
   co_flags (build_can_isotp_options (ko_socket opts)) =
     so_flags (ko_socket opts) OR (if so_ext_address (ko_socket opts) \<noteq> None then CAN_ISOTP_EXTEND_ADDR else 0)
     OR (if so_tx_padding (ko_socket opts) \<noteq> None then CAN_ISOTP_TX_PADDING else 0)
     OR (if so_rx_padding (ko_socket opts) \<noteq> None then CAN_ISOTP_RX_PADDING else 0)
     OR (if so_rx_ext_address (ko_socket opts) \<noteq> None then CAN_ISOTP_RX_EXT_ADDR else 0) \<and>
   co_flags (build_can_isotp_options (ko_socket opts)) AND (CAN_ISOTP_FORCE_TXSTMIN OR CAN_ISOTP_FORCE_RXSTMIN) =
     so_flags (ko_socket opts) AND (CAN_ISOTP_FORCE_TXSTMIN OR CAN_ISOTP_FORCE_RXSTMIN)"
  by (intro conjI apply_kernel_options_list isotp_option_flags isotp_force_flags)

end
