(* ===== verification/IsoTp_Demux.thy ===== *)
theory IsoTp_Demux
  imports IsoTp_Linux
begin

text \<open>
  The demultiplexer \<open>KernelUdsDemux\<close> over any sequence of its operations, and the receive of the tokio
  endpoint. A logging system records successful binds, sends and receives; what the demultiplexer reports
  is compared with the log.
\<close>

section \<open>A logging system\<close>

datatype ('s, 'e) sys_event =
    LBind nat string "('s, 'e) can_id" "('s, 'e) can_id"
  | LSend nat bytes
  | LRecv nat bytes

definition logged_linux :: "('s, 'e, 'k, 'x) linux_ops \<Rightarrow> ('s, 'e, 'k \<times> ('s, 'e) sys_event list, 'x) linux_ops" where
  "logged_linux S =
     \<lparr>lo_socket = \<lambda>(k, l). case lo_socket S k of (r, k1) \<Rightarrow> (r, (k1, l)),
      lo_nonblocking = \<lambda>(k, l) fd. case lo_nonblocking S k fd of (r, k1) \<Rightarrow> (r, (k1, l)),
      lo_setsockopt = \<lambda>(k, l) fd opt. case lo_setsockopt S k fd opt of (r, k1) \<Rightarrow> (r, (k1, l)),
      lo_bind = \<lambda>(k, l) fd ifn rx tx. case lo_bind S k fd ifn rx tx of
        (r, k1) \<Rightarrow> (r, (k1, l @ (case r of Ok _ \<Rightarrow> [LBind fd ifn rx tx] | Err _ \<Rightarrow> []))),
      lo_send = \<lambda>(k, l) fd p. case lo_send S k fd p of
        (r, k1) \<Rightarrow> (r, (k1, l @ (case r of Ok _ \<Rightarrow> [LSend fd p] | Err _ \<Rightarrow> []))),
      lo_recv = \<lambda>(k, l) fd. case lo_recv S k fd of
        (r, k1) \<Rightarrow> (r, (k1, l @ (case r of Ok g \<Rightarrow> [LRecv fd g] | Err _ \<Rightarrow> []))),
      lo_poll = \<lambda>(k, l) fds t. case lo_poll S k fds t of (r, k1) \<Rightarrow> (r, (k1, l)),
      lo_now = \<lambda>(k, l). case lo_now S k of (t, k1) \<Rightarrow> (t, (k1, l)),
      lo_sleep = \<lambda>(k, l) t. (lo_sleep S k t, l),
      lo_ready = \<lambda>(k, l) fd w. case lo_ready S k fd w of (r, k1) \<Rightarrow> (r, (k1, l))\<rparr>"

abbreviation sys_log :: "'k \<times> ('s, 'e) sys_event list \<Rightarrow> ('s, 'e) sys_event list" where "sys_log \<equiv> snd"

lemma log_quiet:
  "lo_socket (logged_linux S) k = (r1, k') \<Longrightarrow> sys_log k' = sys_log k"
  "lo_nonblocking (logged_linux S) k fd = (r2, k') \<Longrightarrow> sys_log k' = sys_log k"
  "lo_setsockopt (logged_linux S) k fd opt = (r3, k') \<Longrightarrow> sys_log k' = sys_log k"
  "lo_poll (logged_linux S) k fds t = (r4, k') \<Longrightarrow> sys_log k' = sys_log k"
  "lo_now (logged_linux S) k = (r5, k') \<Longrightarrow> sys_log k' = sys_log k"
  "lo_ready (logged_linux S) k fd w = (r6, k') \<Longrightarrow> sys_log k' = sys_log k"
  "sys_log (lo_sleep (logged_linux S) k d) = sys_log k"
  by (cases k; auto simp: logged_linux_def split: prod.splits)+

lemma log_bind:
  "lo_bind (logged_linux S) k fd ifn rx tx = (r, k') \<Longrightarrow> sys_log k' = sys_log k @ (case r of Ok _ \<Rightarrow> [LBind fd ifn rx tx] | Err _ \<Rightarrow> [])"
  by (cases k) (auto simp: logged_linux_def split: prod.splits)

lemma log_send:
  "lo_send (logged_linux S) k fd p = (r, k') \<Longrightarrow> sys_log k' = sys_log k @ (case r of Ok _ \<Rightarrow> [LSend fd p] | Err _ \<Rightarrow> [])"
  by (cases k) (auto simp: logged_linux_def split: prod.splits)

lemma log_recv:
  "lo_recv (logged_linux S) k fd = (r, k') \<Longrightarrow> sys_log k' = sys_log k @ (case r of Ok g \<Rightarrow> [LRecv fd g] | Err _ \<Rightarrow> [])"
  by (cases k) (auto simp: logged_linux_def split: prod.splits)

lemma log_set_opt: "set_opt (logged_linux S) fd opt k = (r, k') \<Longrightarrow> sys_log k' = sys_log k"
  using log_quiet(3) [of S k fd opt] by (auto simp: set_opt_def split: prod.splits result.splits)

lemma log_set_opt': "sys_log (snd (set_opt (logged_linux S) fd opt k)) = sys_log k"
  using log_set_opt by (metis prod.collapse)

lemma log_if_set: "sys_log (snd (if_some v (\<lambda>a. set_opt (logged_linux S) fd (g a)) k)) = sys_log k"
  by (cases v) (simp_all add: log_set_opt')

lemma log_and_then': "(\<And>k. sys_log (snd (f k)) = sys_log k) \<Longrightarrow> sys_log (snd (and_then x f)) = sys_log (snd x)"
  by (cases x; cases "fst x") auto

lemma log_apply: "apply_kernel_options (logged_linux S) k fd opts = (r, k') \<Longrightarrow> sys_log k' = sys_log k"
proof -
  have "sys_log (snd (apply_kernel_options (logged_linux S) k fd opts)) = sys_log k"
    unfolding apply_kernel_options_def by (simp add: log_and_then' log_if_set log_set_opt')
  then show "apply_kernel_options (logged_linux S) k fd opts = (r, k') \<Longrightarrow> sys_log k' = sys_log k" by (metis snd_conv)
qed

lemma log_open:
  assumes "isotp_open (logged_linux S) k ifn rx tx opts = (r, k')"
  shows "sys_log k' = sys_log k @ (case r of Ok sk \<Rightarrow> [LBind (sk_fd sk) ifn rx tx] | Err _ \<Rightarrow> []) \<and>
    (\<forall>sk. r = Ok sk \<longrightarrow> length (sk_rx_buf sk) = ko_max_rx_payload opts)"
proof (cases "ko_max_rx_payload opts = 0")
  case False
  obtain r1 k1 where s: "lo_socket (logged_linux S) k = (r1, k1)" by (cases "lo_socket (logged_linux S) k")
  note l1 = log_quiet(1) [OF s]
  show ?thesis
  proof (cases r1)
    case (Ok fd)
    obtain r2 k2 where nb: "lo_nonblocking (logged_linux S) k1 fd = (r2, k2)" by (cases "lo_nonblocking (logged_linux S) k1 fd")
    obtain r3 k3 where ap: "apply_kernel_options (logged_linux S) k2 fd opts = (r3, k3)" by (cases "apply_kernel_options (logged_linux S) k2 fd opts")
    obtain r4 k4 where b: "lo_bind (logged_linux S) k3 fd ifn rx tx = (r4, k4)" by (cases "lo_bind (logged_linux S) k3 fd ifn rx tx")
    show ?thesis using assms False s Ok nb ap b l1 log_quiet(2) [OF nb] log_apply [OF ap] log_bind [OF b]
      by (auto simp: isotp_open_def split: result.splits)
  qed (use assms False s l1 in \<open>auto simp: isotp_open_def\<close>)
qed (use assms in \<open>auto simp: isotp_open_def\<close>)

lemma log_set_fc: "sk_set_rx_flow_control (logged_linux S) k sk fc = (r, k') \<Longrightarrow> sys_log k' = sys_log k"
  using log_quiet(3) [of S k] by (auto simp: sk_set_rx_flow_control_def split: prod.splits result.splits)

lemma log_set_all_fc: "set_all_flow_control (logged_linux S) k ps fc = (r, k') \<Longrightarrow> sys_log k' = sys_log k"
  by (induction "logged_linux S" k ps fc rule: set_all_flow_control.induct) (auto dest: log_set_fc split: prod.splits result.splits)

lemma log_poll: "poll_fds n (logged_linux S) k fds t = Some (r, k') \<Longrightarrow> sys_log k' = sys_log k"
proof (induction n arbitrary: k)
  case (Suc n)
  obtain q k1 where p: "lo_poll (logged_linux S) k fds (duration_to_poll_timeout t) = (q, k1)"
    by (cases "lo_poll (logged_linux S) k fds (duration_to_poll_timeout t)")
  show ?case using Suc.prems Suc.IH [of k1] p log_quiet(4) [OF p] by (auto split: result.splits if_splits)
qed simp

lemma log_poll_fd: "poll_fd n (logged_linux S) k fd w t = Some (r, k') \<Longrightarrow> sys_log k' = sys_log k"
  by (auto simp: poll_fd_def dest: log_poll)

text \<open>A send that succeeds has sent the payload once; one that fails has sent nothing.\<close>

lemma log_send_loop:
  "sk_send_loop n (logged_linux S) k fd p d = Some (r, k') \<Longrightarrow>
   sys_log k' = sys_log k @ (case r of Ok _ \<Rightarrow> [LSend fd p] | Err _ \<Rightarrow> [])"
proof (induction n arbitrary: k)
  case (Suc n)
  obtain q k1 where s: "lo_send (logged_linux S) k fd p = (q, k1)" by (cases "lo_send (logged_linux S) k fd p")
  note l1 = log_send [OF s]
  show ?case
  proof (cases q)
    case (Err e)
    obtain now k2 where t: "lo_now (logged_linux S) k1 = (now, k2)" by (cases "lo_now (logged_linux S) k1")
    note l2 = log_quiet(5) [OF t]
    show ?thesis
    proof (cases "poll_fd n (logged_linux S) k2 fd True (d - now)")
      case None
      then show ?thesis using Suc s Err t l1 l2 by (auto split: if_splits)
    next
      case (Some ready)
      obtain b k3 where b: "ready = (b, k3)" by (cases ready)
      have l3: "sys_log k3 = sys_log k2" using log_poll_fd Some b by blast
      show ?thesis using Suc.prems Suc.IH [of k1] Suc.IH [of k3] s Err t l1 l2 l3 Some b
        by (auto split: if_splits result.splits)
    qed
  qed (use Suc.prems s l1 in auto)
qed simp

lemma log_sk_send_to:
  "sk_send_to n (logged_linux S) k sk dst p t = Some (r, k') \<Longrightarrow>
   sys_log k' = sys_log k @ (case r of Ok _ \<Rightarrow> [LSend (sk_fd sk) p] | Err _ \<Rightarrow> [])"
  using log_quiet(5) [of S k] log_send_loop [of n S] by (auto simp: sk_send_to_def split: prod.splits)

lemma log_sys_recv:
  "sys_recv (logged_linux S) k fd cap trunc = (r, k') \<Longrightarrow>
   (case r of
      Err _ \<Rightarrow> sys_log k' = sys_log k
    | Ok (data, n) \<Rightarrow> \<exists>g. sys_log k' = sys_log k @ [LRecv fd g] \<and> data = take cap g \<and> n = (if trunc then length g else min cap (length g)))"
  using log_recv [of S k fd] by (auto simp: sys_recv_def min.commute split: prod.splits result.splits)

section \<open>Runs of the demultiplexer\<close>

text \<open>A run collects the sends that succeeded and what the callback was given.\<close>

datatype kd_op =
    KdSend u8 bytes duration
  | KdSendFunctional u8 bytes duration
  | KdRegister u8
  | KdFlowControl rx_flow_control
  | KdRecv duration

record 'k kd_state =
  ks_demux :: kernel_uds_demux
  ks_sys :: 'k
  ks_sent :: "(u8 \<times> bytes) list"
  ks_got :: "(u8 \<times> bytes) list"

definition record_payload :: "((u8 \<times> bytes) list, 'x) on_payload" where
  "record_payload c meta payload = (Ok RecvContinue, c @ [(reply_to meta, payload)])"

fun kd_step ::
    "nat \<Rightarrow> (u8 \<Rightarrow> u8 \<Rightarrow> u32) \<Rightarrow> ('s, 'e) can_id_api \<Rightarrow> ('s, 'e, 'k, 'x) linux_ops \<Rightarrow> 'k kd_state \<Rightarrow> kd_op \<Rightarrow> 'k kd_state outcome option" where
  "kd_step n U A S st (KdSend dst p t) =
     (case kd_send_to n U A S (ks_sys st) (ks_demux st) dst p t of
        None \<Rightarrow> None
      | Some Panic \<Rightarrow> Some Panic
      | Some (Return (r, d, k)) \<Rightarrow>
          Some (Return (st\<lparr>ks_demux := d, ks_sys := k, ks_sent := ks_sent st @ (case r of Ok _ \<Rightarrow> [(dst, p)] | Err _ \<Rightarrow> [])\<rparr>)))"
| "kd_step n U A S st (KdSendFunctional dst p t) =
     (case kd_send_functional_to (ks_demux st) dst p t :: (unit, unit isotp_error send_error) result of
        Ok _ \<Rightarrow> Some (Return (st\<lparr>ks_sent := ks_sent st @ [(dst, p)]\<rparr>))
      | Err _ \<Rightarrow> Some (Return st))"
| "kd_step n U A S st (KdRegister peer) =
     (case register_peer U A S (ks_sys st) (ks_demux st) peer of
        Panic \<Rightarrow> Some Panic
      | Return (r, d, k) \<Rightarrow> Some (Return (st\<lparr>ks_demux := d, ks_sys := k\<rparr>)))"
| "kd_step n U A S st (KdFlowControl fc) =
     (let (r, d, k) = kd_set_rx_flow_control S (ks_sys st) (ks_demux st) fc in Some (Return (st\<lparr>ks_demux := d, ks_sys := k\<rparr>)))"
| "kd_step n U A S st (KdRecv t) =
     map_option (\<lambda>(r, c, d, k). Return (st\<lparr>ks_demux := d, ks_sys := k, ks_got := c\<rparr>))
       (kd_recv_one n S (ks_sys st) record_payload (ks_got st) (ks_demux st) t)"

fun kd_run ::
    "nat \<Rightarrow> (u8 \<Rightarrow> u8 \<Rightarrow> u32) \<Rightarrow> ('s, 'e) can_id_api \<Rightarrow> ('s, 'e, 'k, 'x) linux_ops \<Rightarrow> 'k kd_state \<Rightarrow> kd_op list \<Rightarrow> 'k kd_state outcome option" where
  "kd_run n U A S st [] = Some (Return st)"
| "kd_run n U A S st (op # ops) =
     (case kd_step n U A S st op of
        None \<Rightarrow> None
      | Some Panic \<Rightarrow> Some Panic
      | Some (Return st1) \<Rightarrow> kd_run n U A S st1 ops)"

definition kd_start :: "kernel_uds_demux \<Rightarrow> 'k \<Rightarrow> 'k kd_state" where
  "kd_start d k = \<lparr>ks_demux = d, ks_sys = k, ks_sent = [], ks_got = []\<rparr>"

section \<open>The invariant\<close>

fun sends_in :: "('s, 'e) sys_event list \<Rightarrow> (nat \<times> bytes) list" where
  "sends_in [] = []"
| "sends_in (LSend fd p # l) = (fd, p) # sends_in l"
| "sends_in (_ # l) = sends_in l"

text \<open>An empty datagram is an error and is not delivered.\<close>

fun recvs_in :: "('s, 'e) sys_event list \<Rightarrow> (nat \<times> bytes) list" where
  "recvs_in [] = []"
| "recvs_in (LRecv fd g # l) = (if g = [] then recvs_in l else (fd, g) # recvs_in l)"
| "recvs_in (_ # l) = recvs_in l"

lemma sends_in_append [simp]: "sends_in (l @ m) = sends_in l @ sends_in m"
  by (induction l rule: sends_in.induct) auto

lemma recvs_in_append [simp]: "recvs_in (l @ m) = recvs_in l @ recvs_in m"
  by (induction l rule: recvs_in.induct) auto

definition peer_fd :: "kernel_uds_demux \<Rightarrow> u8 \<Rightarrow> nat option" where
  "peer_fd d = map_of (map (\<lambda>(p, sk). (p, sk_fd sk)) (kd_peers d))"

definition routed :: "kernel_uds_demux \<Rightarrow> nat \<times> bytes \<Rightarrow> u8 \<times> bytes \<Rightarrow> bool" where
  "routed d e x \<longleftrightarrow> peer_fd d (fst x) = Some (fst e) \<and> snd x = snd e"

definition sourced :: "kernel_uds_demux \<Rightarrow> nat \<times> bytes \<Rightarrow> u8 \<times> bytes \<Rightarrow> bool" where
  "sourced d e x \<longleftrightarrow> peer_fd d (fst x) = Some (fst e) \<and> snd x = take (ko_max_rx_payload (kd_options d)) (snd e)"

definition bound_peer :: "(u8 \<Rightarrow> u8 \<Rightarrow> u32) \<Rightarrow> ('s, 'e) can_id_api \<Rightarrow> kernel_uds_demux \<Rightarrow> ('s, 'e) sys_event list \<Rightarrow> u8 \<times> socket_can_isotp \<Rightarrow> bool" where
  "bound_peer U A d l x \<longleftrightarrow>
     fst x \<noteq> kd_local_addr d \<and> length (sk_rx_buf (snd x)) = ko_max_rx_payload (kd_options d) \<and> 0 < ko_max_rx_payload (kd_options d) \<and>
     (\<exists>rx tx. uds_phys_id U A (kd_local_addr d) (fst x) = Return rx \<and> uds_phys_id U A (fst x) (kd_local_addr d) = Return tx \<and>
        LBind (sk_fd (snd x)) (kd_iface d) rx tx \<in> set l)"

definition kd_inv ::
    "(u8 \<Rightarrow> u8 \<Rightarrow> u32) \<Rightarrow> ('s, 'e) can_id_api \<Rightarrow> kernel_uds_demux \<Rightarrow> ('s, 'e) sys_event list \<Rightarrow> (u8 \<times> bytes) list \<Rightarrow> (u8 \<times> bytes) list \<Rightarrow> bool" where
  "kd_inv U A d l sent got \<longleftrightarrow>
     distinct (map fst (kd_peers d)) \<and> (\<forall>x\<in>set (kd_peers d). bound_peer U A d l x) \<and>
     list_all2 (routed d) (sends_in l) sent \<and> list_all2 (sourced d) (recvs_in l) got"

lemma bound_peer_mono: "bound_peer U A d l x \<Longrightarrow> bound_peer U A d (l @ m) x"
  by (auto simp: bound_peer_def)

lemma kd_inv_quiet: "kd_inv U A d l sent got \<Longrightarrow> sends_in m = [] \<Longrightarrow> recvs_in m = [] \<Longrightarrow> kd_inv U A d (l @ m) sent got"
  by (auto simp: kd_inv_def bound_peer_mono)

lemma kd_inv_send:
  assumes "kd_inv U A d l sent got" and "peer_fd d dst = Some fd"
  shows "kd_inv U A d (l @ [LSend fd p]) (sent @ [(dst, p)]) got"
  using assms by (auto simp: kd_inv_def bound_peer_mono routed_def intro!: list_all2_appendI)

lemma peer_fd_nth: "distinct (map fst (kd_peers d)) \<Longrightarrow> i < length (kd_peers d) \<Longrightarrow> peer_fd d (fst (kd_peers d ! i)) = Some (sk_fd (snd (kd_peers d ! i)))"
  unfolding peer_fd_def by (rule map_of_is_SomeI) (auto simp: comp_def case_prod_unfold intro!: image_eqI [of _ _ "kd_peers d ! i"])

text \<open>A new peer gets a socket bound to its pair of identifiers.\<close>

lemma kd_inv_new_peer:
  assumes inv: "kd_inv U A d l sent got" and new: "peer \<notin> fst ` set (kd_peers d)"
    and sk: "bound_peer U A d (l @ [b]) (peer, sk)" and b: "sends_in [b] = []" "recvs_in [b] = []"
  shows "kd_inv U A (d\<lparr>kd_peers := kd_peers d @ [(peer, sk)]\<rparr>) (l @ [b]) sent got"
proof -
  let ?d = "d\<lparr>kd_peers := kd_peers d @ [(peer, sk)]\<rparr>"
  have bp: "bound_peer U A ?d m x = bound_peer U A d m x" for m x by (simp add: bound_peer_def)
  have fd: "peer_fd d p = Some f \<Longrightarrow> peer_fd ?d p = Some f" for p f by (auto simp: peer_fd_def map_add_def)
  have r: "routed d e x \<Longrightarrow> routed ?d e x" "sourced d e x \<Longrightarrow> sourced ?d e x" for e x using fd by (auto simp: routed_def sourced_def)
  have "list_all2 (routed ?d) (sends_in l) sent" "list_all2 (sourced ?d) (recvs_in l) got"
    using inv r unfolding kd_inv_def by (auto elim: list_all2_mono)
  then show ?thesis using inv new sk b unfolding kd_inv_def by (auto simp: bp bound_peer_mono simp del: sends_in.simps recvs_in.simps)
qed

lemma ensure_peer_inv:
  assumes inv: "kd_inv U A d (sys_log k) sent got" and run: "ensure_peer U A (logged_linux S) k d peer = Return (r, d', k')"
  shows "kd_inv U A d' (sys_log k') sent got \<and> (\<forall>i. r = Ok i \<longrightarrow> i < length (kd_peers d') \<and> fst (kd_peers d' ! i) = peer)"
proof (cases "peer = kd_local_addr d")
  case False
  show ?thesis
  proof (cases "position (\<lambda>(addr, _). addr = peer) (kd_peers d)")
    case (Some i)
    then show ?thesis using position_Some [OF Some] inv run False by (auto simp: ensure_peer_def)
  next
    case None
    then have new: "peer \<notin> fst ` set (kd_peers d)" by (auto simp: position_None)
    obtain rx tx where ids: "uds_phys_id U A (kd_local_addr d) peer = Return rx" "uds_phys_id U A peer (kd_local_addr d) = Return tx"
      using run False None by (auto simp: ensure_peer_def split: outcome.splits)
    obtain q k1 where op: "isotp_open (logged_linux S) k (kd_iface d) rx tx (kd_options d) = (q, k1)"
      by (cases "isotp_open (logged_linux S) k (kd_iface d) rx tx (kd_options d)")
    note l1 = log_open [OF op]
    show ?thesis
    proof (cases q)
      case (Ok sk)
      obtain z k2 where fc: "sk_set_rx_flow_control (logged_linux S) k1 sk (kd_rx_flow_control d) = (z, k2)"
        by (cases "sk_set_rx_flow_control (logged_linux S) k1 sk (kd_rx_flow_control d)")
      have pos: "0 < ko_max_rx_payload (kd_options d)" using op Ok by (auto simp: isotp_open_def split: if_splits)
      have l2: "sys_log k2 = sys_log k @ [LBind (sk_fd sk) (kd_iface d) rx tx]" using log_set_fc [OF fc] l1 Ok by simp
      have d': "d' = d\<lparr>kd_peers := kd_peers d @ [(peer, sk)]\<rparr>" "k' = k2" "r = result.Ok (length (kd_peers d))"
        using run False None ids op Ok fc by (auto simp: ensure_peer_def)
      have "bound_peer U A d (sys_log k2) (peer, sk)" using False ids l1 l2 Ok pos by (auto simp: bound_peer_def)
      from kd_inv_new_peer [OF inv new this [unfolded l2]] show ?thesis using d' l2 by simp
    next
      case (Err e)
      then show ?thesis using run False None ids op l1 inv by (auto simp: ensure_peer_def)
    qed
  qed
qed (use inv run in \<open>auto simp: ensure_peer_def\<close>)

lemma recv_one_ready_log:
  assumes run: "recv_one_ready (logged_linux S) k record_payload c src sk = (r, c', sk', k')"
    and pos: "0 < length (sk_rx_buf sk)"
  shows "sk_fd sk' = sk_fd sk \<and> length (sk_rx_buf sk') = length (sk_rx_buf sk) \<and>
    (sys_log k' = sys_log k \<and> c' = c \<or>
     (\<exists>g. sys_log k' = sys_log k @ [LRecv (sk_fd sk) g] \<and> c' = c @ (if g = [] then [] else [(src, take (length (sk_rx_buf sk)) g)])))"
proof -
  let ?M = "length (sk_rx_buf sk)"
  obtain q k1 where rc: "sys_recv (logged_linux S) k (sk_fd sk) ?M False = (q, k1)" by (cases "sys_recv (logged_linux S) k (sk_fd sk) ?M False")
  note l = log_sys_recv [OF rc]
  show ?thesis
  proof (cases q)
    case (Ok dn)
    then obtain g where g: "sys_log k1 = sys_log k @ [LRecv (sk_fd sk) g]" "dn = (take ?M g, min ?M (length g))"
      using l by (cases dn) auto
    have n: "min ?M (length g) = 0 \<longleftrightarrow> g = []" using pos by (cases g) (auto simp: min_def split: if_splits)
    have p: "take (min ?M (length g)) (copy_into (sk_rx_buf sk) (take ?M g)) = take ?M g"
      using take_copy_into [of "take ?M g" "sk_rx_buf sk"] by (simp add: min.commute)
    have len: "length (copy_into (sk_rx_buf sk) (take ?M g)) = ?M" by (simp add: length_copy_into)
    show ?thesis using run rc Ok g n p len
      by (cases "g = []") (auto simp: recv_one_ready_def deliver_def record_payload_def Let_def)
  qed (use run rc l in \<open>auto simp: recv_one_ready_def split: if_splits\<close>)
qed

lemma kd_inv_buffer:
  assumes inv: "kd_inv U A d l sent got" and i: "i < length (kd_peers d)" "kd_peers d ! i = (a, sk)"
    and sk': "sk_fd sk' = sk_fd sk" "length (sk_rx_buf sk') = length (sk_rx_buf sk)"
  shows "kd_inv U A (d\<lparr>kd_peers := (kd_peers d)[i := (a, sk')]\<rparr>) l sent got \<and>
    peer_fd (d\<lparr>kd_peers := (kd_peers d)[i := (a, sk')]\<rparr>) = peer_fd d"
proof -
  let ?d = "d\<lparr>kd_peers := (kd_peers d)[i := (a, sk')]\<rparr>"
  have fds: "map (\<lambda>(p, sk). (p, sk_fd sk)) (kd_peers ?d) = map (\<lambda>(p, sk). (p, sk_fd sk)) (kd_peers d)"
    using i sk' by (simp add: map_update list_update_same_conv)
  have fst: "map fst (kd_peers ?d) = map fst (kd_peers d)" using i by (simp add: map_update list_update_same_conv)
  have pf: "peer_fd ?d = peer_fd d" unfolding peer_fd_def fds ..
  have "bound_peer U A d l (a, sk)" using inv i nth_mem [OF i(1)] by (auto simp: kd_inv_def)
  then have "bound_peer U A ?d l (a, sk')" using sk' by (simp add: bound_peer_def)
  moreover have "bound_peer U A ?d l x = bound_peer U A d l x" for x by (simp add: bound_peer_def)
  ultimately have "\<forall>x\<in>set (kd_peers ?d). bound_peer U A ?d l x"
    using inv set_update_subset_insert [of "kd_peers d" i "(a, sk')"] by (auto simp: kd_inv_def)
  moreover have "routed ?d = routed d" "sourced ?d = sourced d" by (intro ext; simp add: routed_def sourced_def pf)+
  ultimately show ?thesis using inv fst pf unfolding kd_inv_def by metis
qed

text \<open>\<open>poll\<close> reports one event per descriptor.\<close>

definition poll_laws :: "('s, 'e, 'k, 'x) linux_ops \<Rightarrow> bool" where
  "poll_laws S \<longleftrightarrow> (\<forall>k fds t n evs k'. lo_poll S k fds t = (Ok (n, evs), k') \<longrightarrow> length evs = length fds)"

lemma poll_fds_length:
  assumes "poll_laws S"
  shows "poll_fds n (logged_linux S) k fds t = Some (Ok (m, evs), k') \<Longrightarrow> length evs = length fds"
proof (induction n arbitrary: k)
  case (Suc n)
  obtain q k1 where p: "lo_poll (logged_linux S) k fds (duration_to_poll_timeout t) = (q, k1)"
    by (cases "lo_poll (logged_linux S) k fds (duration_to_poll_timeout t)")
  then obtain k2 where "lo_poll S (fst k) fds (duration_to_poll_timeout t) = (q, k2)"
    by (cases k) (auto simp: logged_linux_def split: prod.splits)
  then have "q = Ok (m, evs) \<Longrightarrow> length evs = length fds" using assms unfolding poll_laws_def by blast
  then show ?case using Suc.prems Suc.IH [of k1] p by (auto split: result.splits if_splits)
qed simp

lemma kd_scan_bound: "kd_scan evs i = Some (Ok j) \<Longrightarrow> i \<le> j \<and> j < i + length evs"
  by (induction evs i rule: kd_scan.induct) (auto split: if_splits)

lemma kd_recv_inv:
  assumes S: "poll_laws S" and inv: "kd_inv U A d (sys_log k) sent got"
    and run: "kd_recv_one n (logged_linux S) k record_payload got d t = Some (r, got', d', k')"
  shows "kd_inv U A d' (sys_log k') sent got'"
proof (cases "kd_peers d = []")
  case False
  let ?fds = "map (\<lambda>(_, sk). (sk_fd sk, False)) (kd_peers d)"
  obtain q k1 where p: "poll_fds n (logged_linux S) k ?fds t = Some (q, k1)"
    using run False by (cases "poll_fds n (logged_linux S) k ?fds t") (auto simp: kd_recv_one_def)
  have l1: "sys_log k1 = sys_log k" by (rule log_poll [OF p])
  show ?thesis
  proof (cases "\<exists>m evs i. q = Ok (m, evs) \<and> m \<noteq> 0 \<and> kd_scan evs 0 = Some (Ok i)")
    case True
    then obtain m evs i where q: "q = Ok (m, evs)" "m \<noteq> 0" "kd_scan evs 0 = Some (Ok i)" by blast
    have i: "i < length (kd_peers d)" using kd_scan_bound [OF q(3)] poll_fds_length [OF S p [unfolded q(1)]] by simp
    obtain a sk where ask: "kd_peers d ! i = (a, sk)" by (cases "kd_peers d ! i")
    obtain r2 c2 sk2 k2 where rd: "recv_one_ready (logged_linux S) k1 record_payload got a sk = (r2, c2, sk2, k2)"
      using prod_cases4 by blast
    have bp: "bound_peer U A d (sys_log k) (a, sk)" using inv nth_mem [OF i] ask by (auto simp: kd_inv_def)
    have M: "length (sk_rx_buf sk) = ko_max_rx_payload (kd_options d)" "0 < length (sk_rx_buf sk)" using bp by (auto simp: bound_peer_def)
    note rl = recv_one_ready_log [OF rd M(2)]
    let ?d = "d\<lparr>kd_peers := (kd_peers d)[i := (a, sk2)]\<rparr>"
    have res: "got' = c2" "d' = ?d" "k' = k2" using run False p q ask rd by (auto simp: kd_recv_one_def)
    have b: "kd_inv U A ?d (sys_log k) sent got" "peer_fd ?d = peer_fd d"
      using kd_inv_buffer [OF inv i ask] rl by auto
    have fd: "peer_fd ?d a = Some (sk_fd sk)" using b(2) peer_fd_nth [of d i] inv i ask by (simp add: kd_inv_def)
    consider (none) "sys_log k2 = sys_log k1" "c2 = got"
      | (got) g where "sys_log k2 = sys_log k1 @ [LRecv (sk_fd sk) g]" "c2 = got @ (if g = [] then [] else [(a, take (length (sk_rx_buf sk)) g)])"
      using rl by blast
    then show ?thesis
    proof cases
      case none
      then show ?thesis using b(1) l1 res by simp
    next
      case got
      then show ?thesis using b(1) l1 res fd M(1)
        by (auto simp: kd_inv_def bound_peer_mono sourced_def intro!: list_all2_appendI)
    qed
  next
    case stop: False
    then have "got' = got \<and> d' = d \<and> k' = k1"
      using run False p by (auto simp: kd_recv_one_def split: result.splits option.splits if_splits prod.splits)
    then show ?thesis using inv l1 by simp
  qed
qed (use assms in \<open>auto simp: kd_recv_one_def log_quiet\<close>)

lemma kd_send_inv:
  assumes inv: "kd_inv U A d (sys_log k) sent got"
    and run: "kd_send_to n U A (logged_linux S) k d dst p t = Some (Return (r, d', k'))"
  shows "kd_inv U A d' (sys_log k') (sent @ (case r of Ok _ \<Rightarrow> [(dst, p)] | Err _ \<Rightarrow> [])) got"
proof -
  obtain q d1 k1 where e: "ensure_peer U A (logged_linux S) k d dst = Return (q, d1, k1)"
    using run by (cases "ensure_peer U A (logged_linux S) k d dst") (auto simp: kd_send_to_def split: prod.splits)
  note ei = ensure_peer_inv [OF inv e]
  show ?thesis
  proof (cases q)
    case (Ok i)
    then have i: "i < length (kd_peers d1)" "fst (kd_peers d1 ! i) = dst" using ei by auto
    obtain s where snd: "sk_send_to n (logged_linux S) k1 (snd (kd_peers d1 ! i)) dst p t = Some (s, k')" and res: "r = s" "d' = d1"
      using run e Ok by (auto simp: kd_send_to_def)
    have fd: "peer_fd d1 dst = Some (sk_fd (snd (kd_peers d1 ! i)))" using peer_fd_nth [of d1 i] ei i by (simp add: kd_inv_def)
    show ?thesis using log_sk_send_to [OF snd] kd_inv_send [OF _ fd, of U A] ei res by (cases s) auto
  qed (use run e ei in \<open>auto simp: kd_send_to_def\<close>)
qed

lemma kd_run_inv:
  assumes S: "poll_laws S"
  shows "kd_inv U A (ks_demux st) (sys_log (ks_sys st)) (ks_sent st) (ks_got st) \<Longrightarrow>
    kd_run n U A (logged_linux S) st ops = Some (Return st') \<Longrightarrow>
    kd_inv U A (ks_demux st') (sys_log (ks_sys st')) (ks_sent st') (ks_got st')"
proof (induction ops arbitrary: st)
  case (Cons op ops)
  obtain st1 where s1: "kd_step n U A (logged_linux S) st op = Some (Return st1)" "kd_run n U A (logged_linux S) st1 ops = Some (Return st')"
    using Cons.prems(2) by (auto split: option.splits outcome.splits)
  note inv = Cons.prems(1)
  have "kd_inv U A (ks_demux st1) (sys_log (ks_sys st1)) (ks_sent st1) (ks_got st1)"
  proof (cases op)
    case (KdSend dst p t)
    then show ?thesis using s1(1) kd_send_inv [OF inv] by (auto split: option.splits outcome.splits)
  next
    case (KdSendFunctional dst p t)
    then show ?thesis using s1(1) inv by (simp add: kd_send_functional_to_def)
  next
    case (KdRegister peer)
    then obtain r d k where e: "ensure_peer U A (logged_linux S) (ks_sys st) (ks_demux st) peer = Return (r, d, k)"
      and "st1 = st\<lparr>ks_demux := d, ks_sys := k\<rparr>"
      using s1(1) by (auto simp: register_peer_def split: outcome.splits)
    then show ?thesis using ensure_peer_inv [OF inv e] by simp
  next
    case (KdFlowControl fc)
    have "routed (d\<lparr>kd_rx_flow_control := fc\<rparr>) = routed d" "sourced (d\<lparr>kd_rx_flow_control := fc\<rparr>) = sourced d" for d
      by (intro ext; simp add: routed_def sourced_def peer_fd_def)+
    then have "kd_inv U A (d\<lparr>kd_rx_flow_control := fc\<rparr>) l sent got = kd_inv U A d l sent got" for d l sent got
      by (simp add: kd_inv_def bound_peer_def)
    then show ?thesis using KdFlowControl s1(1) inv log_set_all_fc [of S "ks_sys st"]
      by (auto simp: kd_set_rx_flow_control_def split: prod.splits)
  next
    case (KdRecv t)
    then show ?thesis using s1(1) kd_recv_inv [OF S inv] by auto
  qed
  then show ?case using Cons.IH s1(2) by blast
qed simp

text \<open>The documented identifier layout \<open>0x18DA_TA_SA\<close>, and that identifiers below \<open>2 ^ 29\<close> exist.\<close>

definition uds29_laws :: "(u8 \<Rightarrow> u8 \<Rightarrow> u32) \<Rightarrow> ('s, 'e) can_id_api \<Rightarrow> bool" where
  "uds29_laws U A \<longleftrightarrow>
     (\<forall>ta sa. U ta sa = 0x18DA0000 + 256 * ucast ta + ucast sa) \<and> (\<forall>raw < 2 ^ 29. ext_new A raw \<noteq> None)"

lemma uds_phys_id_returns:
  assumes "uds29_laws U A"
  shows "uds_phys_id U A ta sa \<noteq> Panic"
proof -
  have x: "unat x < 256" for x :: u8 by (rule order_less_le_trans [OF unsigned_less]) simp
  have u: "unat (ucast x :: u32) < 256" for x :: u8
    using x [of x] by (simp add: unsigned_ucast_eq take_bit_nat_eq_self)
  have "unat (256 * ucast ta + ucast sa :: u32) = 256 * unat (ucast ta :: u32) + unat (ucast sa :: u32)"
  proof -
    have m: "unat (256 * ucast ta :: u32) = 256 * unat (ucast ta :: u32)"
      using u [of ta] unat_mult_lem [of "256 :: u32" "ucast ta"] by simp
    show ?thesis using u [of ta] u [of sa] by (subst unat_add_no_overflow) (simp_all add: m)
  qed
  then have "unat (0x18DA0000 + (256 * ucast ta + ucast sa) :: u32) < 2 ^ 29"
    using u [of ta] u [of sa] by (subst unat_add_no_overflow) auto
  then have "U ta sa < 2 ^ 29" using assms by (simp add: uds29_laws_def word_less_nat_alt add.assoc)
  then show ?thesis using assms by (auto simp: uds_phys_id_def uds29_laws_def split: option.splits)
qed

lemma kd_run_no_panic:
  assumes "uds29_laws U A"
  shows "kd_run n U A S st ops \<noteq> Some Panic"
proof (induction ops arbitrary: st)
  case (Cons op ops)
  have e: "ensure_peer U A S k d p \<noteq> Panic" for k d p
    using uds_phys_id_returns [OF assms] by (auto simp: ensure_peer_def Let_def split: option.splits outcome.splits prod.splits result.splits)
  have "kd_step n U A S st op \<noteq> Some Panic"
    using e by (cases op) (auto simp: kd_send_to_def register_peer_def split: option.splits outcome.splits result.splits prod.splits)
  then show ?case using Cons.IH by (auto split: option.splits outcome.splits)
qed simp

section \<open>The tokio receive\<close>

text \<open>The tokio receive into a buffer keeps the buffer's length, and what it delivers is one whole datagram: a longer one is
  reported with its full length as too large for the buffer, never cut; a timeout has consumed nothing.\<close>

lemma tk_recv_log:
  "tk_recv_one_into n (logged_linux S) k sk out = Some (r, out', k') \<Longrightarrow>
   length out' = length out \<and>
   (case r of
      Ok IntoTimedOut \<Rightarrow> sys_log k' = sys_log k
    | Ok (IntoDeliveredOne meta m) \<Rightarrow>
        (\<exists>g. sys_log k' = sys_log k @ [LRecv (sk_fd sk) g] \<and> g \<noteq> [] \<and> m = length g \<and> m \<le> length out \<and> take m out' = g)
    | Err (RecvBufferTooSmall needed got) \<Rightarrow>
        (\<exists>g. sys_log k' = sys_log k @ [LRecv (sk_fd sk) g] \<and> needed = length g \<and> got = length out \<and> got < needed)
    | Err (RecvBackend e) \<Rightarrow> recvs_in (sys_log k') = recvs_in (sys_log k))"
proof (induction n arbitrary: k)
  case (Suc n)
  obtain w k1 where rd: "lo_ready (logged_linux S) k (sk_fd sk) False = (w, k1)" by (cases "lo_ready (logged_linux S) k (sk_fd sk) False")
  note l1 = log_quiet(6) [OF rd]
  obtain q k2 where rc: "sys_recv (logged_linux S) k1 (sk_fd sk) (length out) True = (q, k2)"
    by (cases "sys_recv (logged_linux S) k1 (sk_fd sk) (length out) True")
  note l2 = log_sys_recv [OF rc]
  consider (timeout) "w = None" | (err) e where "w = Some (Err e)" | (ready) u where "w = Some (Ok u)"
    by (cases w) (metis result.exhaust)+
  then show ?case
  proof cases
    case ready
    show ?thesis
    proof (cases q)
      case (Ok dn)
      then obtain g where g: "sys_log k2 = sys_log k1 @ [LRecv (sk_fd sk) g]" "dn = (take (length out) g, length g)"
        using l2 by (cases dn) auto
      have len: "length (copy_into out (take (length out) g)) = length out" by (simp add: length_copy_into)
      have "length g \<le> length out \<Longrightarrow> take (length g) (copy_into out g) = g" by (simp add: take_copy_into)
      then show ?thesis using Suc.prems rd rc ready Ok g l1 len by (auto simp: Let_def split: if_splits)
    next
      case (Err e)
      have l: "sys_log k2 = sys_log k" using l1 l2 Err by simp
      then show ?thesis using Suc.prems Suc.IH [of k2, unfolded l] rd rc ready Err by (auto split: if_splits)
    qed
  qed (use Suc.prems rd l1 in auto)
qed simp

section \<open>Properties\<close>

text \<open>A system for the examples: descriptors are counted, sends succeed, one datagram waits on descriptor 1.\<close>

definition toy_linux :: "(11 word, 29 word, nat \<times> bytes list, unit) linux_ops" where
  "toy_linux =
     \<lparr>lo_socket = \<lambda>(n, q). (Ok n, (Suc n, q)), lo_nonblocking = \<lambda>k fd. (Ok (), k), lo_setsockopt = \<lambda>k fd opt. (Ok (), k),
      lo_bind = \<lambda>k fd ifn rx tx. (Ok (), k), lo_send = \<lambda>k fd p. (Ok (length p), k),
      lo_recv = \<lambda>(n, q) fd. (case q of [] \<Rightarrow> (Err EWouldBlock, (n, q)) | g # gs \<Rightarrow> (Ok g, (n, gs))),
      lo_poll = \<lambda>k fds t. (Ok (1, map (\<lambda>(fd, w). \<lparr>pe_in = fd = 1, pe_err = False\<rparr>) fds), k),
      lo_now = \<lambda>k. (0, k), lo_sleep = \<lambda>k t. k, lo_ready = \<lambda>k fd w. (Some (Ok ()), k)\<rparr>"

lemma toy_poll_laws: "poll_laws toy_linux"
  by (auto simp: poll_laws_def toy_linux_def)

definition phys_raw :: "u8 \<Rightarrow> u8 \<Rightarrow> u32" where "phys_raw ta sa = 0x18DA0000 + 256 * ucast ta + ucast sa"

lemma phys_raw_laws: "uds29_laws phys_raw bit_id_api"
  by (auto simp: uds29_laws_def phys_raw_def bit_id_api_def word_less_nat_alt)

text \<open>C16: The demultiplexer routes by address, over any sequence of its operations on any system: it does not panic; every peer
  has its own socket, bound to the identifiers of this pair of addresses; the sends that succeeded are,
  in order, the sends on the sockets of their destinations; the payloads given to the callback are, in
  order, the non-empty datagrams received, cut to \<open>max_rx_payload\<close>, with the address of the socket's peer.\<close>

theorem demux_routes:
  assumes U: "uds29_laws U A" and S: "poll_laws S"
    and run: "kd_run n U A (logged_linux S) (kd_start (kernel_uds_demux_new ifn la opts) (k, [])) ops = Some res"
  shows "\<exists>st. res = Return st \<and> distinct (map fst (kd_peers (ks_demux st))) \<and>
     (\<forall>x\<in>set (kd_peers (ks_demux st)). bound_peer U A (ks_demux st) (sys_log (ks_sys st)) x) \<and>
     list_all2 (routed (ks_demux st)) (sends_in (sys_log (ks_sys st))) (ks_sent st) \<and>
     list_all2 (sourced (ks_demux st)) (recvs_in (sys_log (ks_sys st))) (ks_got st)"
proof -
  obtain st where st: "res = Return st" using run kd_run_no_panic [OF U, of n "logged_linux S"] by (cases res) auto
  have "kd_inv U A (ks_demux st) (sys_log (ks_sys st)) (ks_sent st) (ks_got st)"
    by (rule kd_run_inv [OF S _ run [unfolded st]]) (simp add: kd_inv_def kd_start_def kernel_uds_demux_new_def Let_def)
  then show ?thesis using st unfolding kd_inv_def by blast
qed

theorem demux_routes_witness:
  "\<exists>st. kd_run (Suc (Suc 0)) phys_raw bit_id_api (logged_linux toy_linux)
        (kd_start (kernel_uds_demux_new ''can0'' 1 kernel_options_default) ((0, [[7, 8]]), []))
        [KdSend 5 [1, 2] 0, KdSend 1 [3] 0, KdSend 6 [3] 0, KdRecv 0] = Some (Return st) \<and>
     ks_sent st = [(5, [1, 2]), (6, [3])] \<and> ks_got st = [(6, [7, 8])] \<and>
     list_all2 (sourced (ks_demux st)) (recvs_in (sys_log (ks_sys st))) (ks_got st)"
proof -
  let ?run = "kd_run (Suc (Suc 0)) phys_raw bit_id_api (logged_linux toy_linux)
        (kd_start (kernel_uds_demux_new ''can0'' 1 kernel_options_default) ((0, [[7, 8]]), []))
        [KdSend 5 [1, 2] 0, KdSend 1 [3] 0, KdSend 6 [3] 0, KdRecv 0]"
  have "\<exists>st. ?run = Some (Return st) \<and> ks_sent st = [(5, [1, 2]), (6, [3])] \<and> ks_got st = [(6, [7, 8])]"
    by (simp add: kd_start_def kernel_uds_demux_new_def kernel_options_default_def socket_options_default_def kd_send_to_def ensure_peer_def
        uds_phys_id_def phys_raw_def bit_id_api_def isotp_open_def apply_kernel_options_def set_opt_def sk_set_rx_flow_control_def
        sk_send_to_def kd_recv_one_def recv_one_ready_def sys_recv_def deliver_def record_payload_def logged_linux_def toy_linux_def
        copy_into_def Let_def)
  then obtain st where st: "?run = Some (Return st)" "ks_sent st = [(5, [1, 2]), (6, [3])]" "ks_got st = [(6, [7, 8])]" by blast
  show ?thesis using demux_routes [OF phys_raw_laws toy_poll_laws st(1)] st by auto
qed

end
