(* ===== verification/Unix_Server.thy ===== *)
theory Unix_Server
  imports Unix_Wire "HOL-Library.AList"
begin

text \<open>
  The bus server of \<open>embedded-can-unix-socket/src/server.rs\<close>. The bus thread owns the clients and their
  filters and is driven by a queue of commands; a \<open>Sender<ServerMsg>\<close> is a handle, and the messages sent
  through it are the list the state keeps for that handle. A \<open>HashMap\<close> is an association list, whose
  order stands for the iteration order. The threads around the bus, which turn bytes into commands and
  messages into bytes, are functions on a stream.
\<close>

section \<open>State\<close>

unbundle bit_operations_syntax

record ('s, 'e) client_state =
  cs_tx :: nat
  cs_filters :: "('s, 'e) id_mask_filter list"

record ('s, 'e) pending_filters =
  pf_seq :: u64
  pf_filters :: "('s, 'e) id_mask_filter list"

datatype ('s, 'e) server_msg =
    SmFrame "('s, 'e) unix_frame"
  | SmAck u64 u8
  | SmHello
  | SmFiltersAck u64 u8

datatype ('s, 'e) bus_command =
    AddClient u64 nat
  | RemoveClient u64
  | SendFrame u64 u64 bool "('s, 'e) unix_frame"
  | SetFilters u64 u64 "('s, 'e) id_mask_filter list"
  | Shutdown

record ('s, 'e) bus_server =
  clients :: "(u64 \<times> ('s, 'e) client_state) list"
  pending :: "(u64 \<times> ('s, 'e) pending_filters) list"
  chans :: "nat \<Rightarrow> ('s, 'e) server_msg list"

definition bus_server_new :: "('s, 'e) bus_server" where
  "bus_server_new = \<lparr>clients = [], pending = [], chans = \<lambda>_. []\<rparr>"

text \<open>\<open>tx.send(msg)\<close>, its error ignored.\<close>

definition chan_send :: "(nat \<Rightarrow> ('s, 'e) server_msg list) \<Rightarrow> nat \<Rightarrow> ('s, 'e) server_msg \<Rightarrow> nat \<Rightarrow> ('s, 'e) server_msg list" where
  "chan_send ch tx m = ch(tx := ch tx @ [m])"

section \<open>Filters\<close>

fun filter_match :: "('s, 'e) can_id_api \<Rightarrow> ('s, 'e) id_mask_filter \<Rightarrow> ('s, 'e) can_id \<Rightarrow> bool" where
  "filter_match A f i =
     (case (flt_id f, flt_mask f, i) of
        (Standard fid, MaskStandard m, Standard i) \<Rightarrow> (std_raw A i AND m) = (std_raw A fid AND m)
      | (Extended fid, MaskExtended m, Extended i) \<Rightarrow> (ext_raw A i AND m) = (ext_raw A fid AND m)
      | _ \<Rightarrow> False)"

definition filters_match :: "('s, 'e) can_id_api \<Rightarrow> ('s, 'e) id_mask_filter list \<Rightarrow> ('s, 'e) unix_frame \<Rightarrow> bool" where
  "filters_match A filters f = (filters = [] \<or> list_ex (\<lambda>flt. filter_match A flt (uf_id f)) filters)"

section \<open>The bus thread\<close>

fun broadcast_frame ::
    "('s, 'e) can_id_api \<Rightarrow> (u64 \<times> ('s, 'e) client_state) list \<Rightarrow> ('s, 'e) unix_frame \<Rightarrow>
     (nat \<Rightarrow> ('s, 'e) server_msg list) \<Rightarrow> nat \<Rightarrow> ('s, 'e) server_msg list" where
  "broadcast_frame A [] f ch = ch"
| "broadcast_frame A ((_, c) # cs) f ch =
     broadcast_frame A cs f (if filters_match A (cs_filters c) f then chan_send ch (cs_tx c) (SmFrame f) else ch)"

fun handle_command :: "('s, 'e) can_id_api \<Rightarrow> ('s, 'e) bus_server \<Rightarrow> ('s, 'e) bus_command \<Rightarrow> ('s, 'e) bus_server" where
  "handle_command A st (AddClient i tx) =
     (let pend = map_of (pending st) i;
          st1 = st\<lparr>pending := AList.delete i (pending st)\<rparr>;
          filters = (case pend of None \<Rightarrow> [] | Some p \<Rightarrow> pf_filters p);
          st2 = st1\<lparr>clients := AList.update i \<lparr>cs_tx = tx, cs_filters = filters\<rparr> (clients st1)\<rparr>;
          st3 = st2\<lparr>chans := chan_send (chans st2) tx SmHello\<rparr>
      in case pend of
           None \<Rightarrow> st3
         | Some p \<Rightarrow> st3\<lparr>chans := chan_send (chans st3) tx (SmFiltersAck (pf_seq p) ACK_OK)\<rparr>)"
| "handle_command A st (RemoveClient i) =
     st\<lparr>clients := AList.delete i (clients st), pending := AList.delete i (pending st)\<rparr>"
| "handle_command A st (SendFrame i seq expect_ack f) =
     (let ack_status = (if expect_ack \<and> length (clients st) \<le> 1 then ACK_NO_ACK else ACK_OK);
          st1 = st\<lparr>chans := broadcast_frame A (clients st) f (chans st)\<rparr>
      in if expect_ack then
           (case map_of (clients st1) i of
              None \<Rightarrow> st1
            | Some c \<Rightarrow> st1\<lparr>chans := chan_send (chans st1) (cs_tx c) (SmAck seq ack_status)\<rparr>)
         else st1)"
| "handle_command A st (SetFilters i seq filters) =
     (if seq = 0 then
        (case map_of (clients st) i of
           None \<Rightarrow> st
         | Some c \<Rightarrow> st\<lparr>chans := chan_send (chans st) (cs_tx c) (SmFiltersAck seq ACK_SERVER_ERR)\<rparr>)
      else
        (case map_of (clients st) i of
           Some c \<Rightarrow>
             st\<lparr>clients := AList.update i (c\<lparr>cs_filters := filters\<rparr>) (clients st),
                chans := chan_send (chans st) (cs_tx c) (SmFiltersAck seq ACK_OK)\<rparr>
         | None \<Rightarrow> st\<lparr>pending := AList.update i \<lparr>pf_seq = seq, pf_filters = filters\<rparr> (pending st)\<rparr>))"
| "handle_command A st Shutdown = st"

text \<open>The loop ends when the command queue is closed or at \<open>Shutdown\<close>.\<close>

fun bus_loop :: "('s, 'e) can_id_api \<Rightarrow> ('s, 'e) bus_server \<Rightarrow> ('s, 'e) bus_command list \<Rightarrow> ('s, 'e) bus_server" where
  "bus_loop A st [] = st"
| "bus_loop A st (cmd # cmds) = (if cmd = Shutdown then st else bus_loop A (handle_command A st cmd) cmds)"

section \<open>The threads of a client\<close>

text \<open>One message of the reader thread: the command it sends and whether it goes on.\<close>

definition reader_message :: "('s, 'e) can_id_api \<Rightarrow> u64 \<Rightarrow> u8 \<Rightarrow> bytes \<Rightarrow> ('s, 'e) bus_command list \<times> bool" where
  "reader_message A i msg_type payload =
     (if msg_type = MSG_SEND_FRAME then
        (case decode_send_frame A payload of
           Ok sf \<Rightarrow> ([SendFrame i (sf_seq sf) (sf_expect_ack sf) (sf_frame sf)], True)
         | Err _ \<Rightarrow> ([RemoveClient i], False))
      else if msg_type = MSG_SET_FILTERS then
        (case decode_filters A payload of
           Ok (seq, filters) \<Rightarrow> ([SetFilters i seq filters], True)
         | Err _ \<Rightarrow> ([SetFilters i 0 []], True))
      else ([], True))"

fun client_reader_loop ::
    "nat \<Rightarrow> ('s, 'e) can_id_api \<Rightarrow> ('r \<Rightarrow> usize \<Rightarrow> (bytes, 'x io_error) result \<times> 'r) \<Rightarrow> 'r \<Rightarrow> u64 \<Rightarrow>
     ('s, 'e) bus_command list option" where
  "client_reader_loop 0 A read_exact r i = None"
| "client_reader_loop (Suc n) A read_exact r i =
     (case read_msg_into read_exact r of
        (Err _, r1) \<Rightarrow> Some [RemoveClient i]
      | (Ok (msg_type, payload), r1) \<Rightarrow>
          (case reader_message A i msg_type payload of
             (cmds, True) \<Rightarrow> map_option ((@) cmds) (client_reader_loop n A read_exact r1 i)
           | (cmds, False) \<Rightarrow> Some cmds))"

text \<open>The writer thread: the buffers are reused for every message; a failed write drops the client.\<close>

fun writer_message ::
    "('s, 'e) can_id_api \<Rightarrow> bytes \<Rightarrow> bytes \<Rightarrow> ('s, 'e) server_msg \<Rightarrow> (u8 \<times> bytes) \<times> bytes \<times> bytes" where
  "writer_message A frame_buf ack_buf (SmFrame f) =
     (let (len, frame_buf1) = encode_frame_into A frame_buf f in ((MSG_FRAME, take len frame_buf1), frame_buf1, ack_buf))"
| "writer_message A frame_buf ack_buf (SmAck seq status) =
     (let ack_buf1 = encode_ack_into ack_buf seq status in ((MSG_ACK, ack_buf1), frame_buf, ack_buf1))"
| "writer_message A frame_buf ack_buf SmHello = ((MSG_HELLO, []), frame_buf, ack_buf)"
| "writer_message A frame_buf ack_buf (SmFiltersAck seq status) =
     (let ack_buf1 = encode_ack_into ack_buf seq status in ((MSG_FILTERS_ACK, ack_buf1), frame_buf, ack_buf1))"

fun client_writer_loop ::
    "('s, 'e) can_id_api \<Rightarrow> ('w \<Rightarrow> bytes \<Rightarrow> (unit, 'x io_error) result \<times> 'w) \<Rightarrow> u64 \<Rightarrow> bytes \<Rightarrow> bytes \<Rightarrow>
     ('s, 'e) server_msg list \<Rightarrow> 'w \<Rightarrow> 'w \<times> ('s, 'e) bus_command list" where
  "client_writer_loop A write_all i frame_buf ack_buf [] w = (w, [])"
| "client_writer_loop A write_all i frame_buf ack_buf (m # ms) w =
     (let ((t, payload), frame_buf1, ack_buf1) = writer_message A frame_buf ack_buf m in
      (case write_msg write_all w t payload of
         (Err _, w1) \<Rightarrow> (w1, [RemoveClient i])
       | (Ok _, w1) \<Rightarrow> client_writer_loop A write_all i frame_buf1 ack_buf1 ms w1))"

text \<open>The accept loop: a connection gets the next id and a channel of its own, unless preparing the stream
  fails. Every turn first looks for the shutdown signal.\<close>

datatype accept_event = ShutdownSignal | Accepted bool | AcceptWouldBlock | AcceptError

fun accept_loop :: "u64 \<Rightarrow> accept_event list \<Rightarrow> ('s, 'e) bus_command list" where
  "accept_loop next_id [] = []"
| "accept_loop next_id (ShutdownSignal # evs) = []"
| "accept_loop next_id (Accepted prepared # evs) =
     (if prepared then [AddClient next_id (unat next_id)] else []) @ accept_loop (next_id + 1) evs"
| "accept_loop next_id (AcceptWouldBlock # evs) = accept_loop next_id evs"
| "accept_loop next_id (AcceptError # evs) = []"

section \<open>Lemmas\<close>

fun frames_of :: "('s, 'e) server_msg list \<Rightarrow> ('s, 'e) unix_frame list" where
  "frames_of [] = []"
| "frames_of (SmFrame f # ms) = f # frames_of ms"
| "frames_of (_ # ms) = frames_of ms"

lemma frames_of_append [simp]: "frames_of (xs @ ys) = frames_of xs @ frames_of ys"
  by (induction xs rule: frames_of.induct) auto

lemma chan_send_other [simp]: "tx' \<noteq> tx \<Longrightarrow> chan_send ch tx' m tx = ch tx"
  by (simp add: chan_send_def)

lemma chan_send_same [simp]: "chan_send ch tx m tx = ch tx @ [m]"
  by (simp add: chan_send_def)

lemma broadcast_other: "tx \<notin> cs_tx ` snd ` set cs \<Longrightarrow> broadcast_frame A cs f ch tx = ch tx"
  by (induction A cs f ch rule: broadcast_frame.induct) auto

text \<open>A client with a channel of its own gets the frame once if its filters match, whatever the order in
  which the clients are visited.\<close>

lemma broadcast_client:
  "map_of cs i = Some c \<Longrightarrow> distinct (map fst cs) \<Longrightarrow> (\<forall>(j, d) \<in> set cs. j \<noteq> i \<longrightarrow> cs_tx d \<noteq> cs_tx c) \<Longrightarrow>
   broadcast_frame A cs f ch (cs_tx c) = ch (cs_tx c) @ (if filters_match A (cs_filters c) f then [SmFrame f] else [])"
proof (induction A cs f ch rule: broadcast_frame.induct)
  case (2 A j d cs f ch)
  show ?case
  proof (cases "j = i")
    case True
    then have d: "d = c" using "2.prems"(1) by simp
    have "cs_tx c \<notin> cs_tx ` snd ` set cs" using "2.prems"(2,3) True by force
    then show ?thesis using d by (simp add: broadcast_other)
  next
    case False
    then have "cs_tx d \<noteq> cs_tx c" using "2.prems"(3) by auto
    then show ?thesis using 2 False by simp
  qed
qed simp

text \<open>A client with its own channel, and what every command keeps of that.\<close>

definition own_chan :: "u64 \<Rightarrow> nat \<Rightarrow> ('s, 'e) id_mask_filter list \<Rightarrow> ('s, 'e) bus_server \<Rightarrow> bool" where
  "own_chan i tx fs st \<longleftrightarrow>
     map_of (clients st) i = Some \<lparr>cs_tx = tx, cs_filters = fs\<rparr> \<and> distinct (map fst (clients st)) \<and>
     (\<forall>(j, d) \<in> set (clients st). j \<noteq> i \<longrightarrow> cs_tx d \<noteq> tx)"

fun keeps_client :: "u64 \<Rightarrow> nat \<Rightarrow> ('s, 'e) bus_command \<Rightarrow> bool" where
  "keeps_client i tx (AddClient j tx') = (j \<noteq> i \<and> tx' \<noteq> tx)"
| "keeps_client i tx (RemoveClient j) = (j \<noteq> i)"
| "keeps_client i tx _ = True"

fun filters_after :: "u64 \<Rightarrow> ('s, 'e) id_mask_filter list \<Rightarrow> ('s, 'e) bus_command \<Rightarrow> ('s, 'e) id_mask_filter list" where
  "filters_after i fs (SetFilters j seq fs') = (if j = i \<and> seq \<noteq> 0 then fs' else fs)"
| "filters_after i fs _ = fs"

fun frames_after :: "('s, 'e) can_id_api \<Rightarrow> ('s, 'e) id_mask_filter list \<Rightarrow> ('s, 'e) bus_command \<Rightarrow> ('s, 'e) unix_frame list" where
  "frames_after A fs (SendFrame j seq x f) = (if filters_match A fs f then [f] else [])"
| "frames_after A fs _ = []"

lemma set_update_clients: "(j, d) \<in> set (AList.update k v cs) \<Longrightarrow> distinct (map fst cs) \<Longrightarrow> (j, d) \<in> set cs \<and> j \<noteq> k \<or> j = k \<and> d = v"
proof -
  assume "(j, d) \<in> set (AList.update k v cs)" and "distinct (map fst cs)"
  then have "map_of (AList.update k v cs) j = Some d" using distinct_update [of cs k v] by simp
  then show ?thesis using map_of_SomeD [of cs j d] by (auto simp: update_conv split: if_splits)
qed

lemma handle_command_client:
  assumes own: "own_chan i tx fs st" and keep: "keeps_client i tx cmd"
  shows "own_chan i tx (filters_after i fs cmd) (handle_command A st cmd) \<and>
     frames_of (chans (handle_command A st cmd) tx) = frames_of (chans st tx) @ frames_after A fs cmd"
proof -
  have me: "map_of (clients st) i = Some \<lparr>cs_tx = tx, cs_filters = fs\<rparr>" and dist: "distinct (map fst (clients st))"
    and oth: "\<And>j d. (j, d) \<in> set (clients st) \<Longrightarrow> j \<noteq> i \<Longrightarrow> cs_tx d \<noteq> tx"
    using own by (auto simp: own_chan_def)
  have othm: "cs_tx d \<noteq> tx" if "map_of (clients st) j = Some d" "j \<noteq> i" for j d using oth map_of_SomeD that by metis
  show ?thesis
  proof (cases cmd)
    case (AddClient j tx')
    then have j: "j \<noteq> i" "tx' \<noteq> tx" using keep by simp_all
    have upd: "map_of (AList.update j c (clients st)) i = map_of (clients st) i" for c using j by (simp add: update_conv)
    have s: "cs_tx d \<noteq> tx" if "(k, d) \<in> set (AList.update j \<lparr>cs_tx = tx', cs_filters = z\<rparr> (clients st))" "k \<noteq> i" for k d z
      using set_update_clients [OF that(1) dist] oth that(2) j by auto
    show ?thesis using AddClient me dist upd j s
      by (auto simp: own_chan_def Let_def distinct_update split: option.splits)
  next
    case (RemoveClient j)
    then have j: "j \<noteq> i" using keep by simp
    have "(k, d) \<in> set (clients st)" if "(k, d) \<in> set (AList.delete j (clients st))" for k d
      using that by (simp add: AList.delete_eq)
    then show ?thesis using RemoveClient me dist oth j
      by (auto simp: own_chan_def distinct_delete)
  next
    case (SendFrame j seq x f)
    have b: "broadcast_frame A (clients st) f (chans st) tx = chans st tx @ (if filters_match A fs f then [SmFrame f] else [])"
      using broadcast_client [OF me dist, of A f "chans st"] own by (simp add: own_chan_def)
    show ?thesis
    proof (cases "j = i")
      case True
      then show ?thesis using SendFrame b me own by (auto simp: own_chan_def Let_def)
    next
      case False
      then show ?thesis using SendFrame b own othm [of j] by (auto simp: own_chan_def Let_def split: option.splits)
    qed
  next
    case (SetFilters j seq fs')
    show ?thesis
    proof (cases "j = i")
      case True
      have "cs_tx d \<noteq> tx" if "(k, d) \<in> set (AList.update i z (clients st))" "k \<noteq> i" for k d z
        using set_update_clients [OF that(1) dist] oth that(2) by auto
      moreover have "(i, z) \<in> set (AList.update i z (clients st))" for z by (rule map_of_SomeD) (simp add: update_conv)
      ultimately show ?thesis using SetFilters True me dist own
        by (auto simp: own_chan_def update_conv distinct_update)
    next
      case False
      have "cs_tx d \<noteq> tx" if "(k, d) \<in> set (AList.update j (c\<lparr>cs_filters := fs'\<rparr>) (clients st))" "k \<noteq> i" "map_of (clients st) j = Some c" for k d c
        using set_update_clients [OF that(1) dist] oth othm [OF that(3) False] that(2) by auto
      moreover have "(i, \<lparr>cs_tx = tx, cs_filters = fs\<rparr>) \<in> set (AList.update j z (clients st))" for z
        using me False by (intro map_of_SomeD) (simp add: update_conv)
      ultimately show ?thesis using SetFilters False me dist own othm [of j]
        by (auto simp: own_chan_def update_conv distinct_update split: option.splits)
    qed
  next
    case Shutdown
    then show ?thesis using own by simp
  qed
qed

text \<open>What a client is sent over a run of the bus: the frames of the commands, in their order, that pass its
  filters of the moment.\<close>

fun client_frames ::
    "('s, 'e) can_id_api \<Rightarrow> u64 \<Rightarrow> ('s, 'e) id_mask_filter list \<Rightarrow> ('s, 'e) bus_command list \<Rightarrow> ('s, 'e) unix_frame list" where
  "client_frames A i fs [] = []"
| "client_frames A i fs (cmd # cmds) =
     (if cmd = Shutdown then [] else frames_after A fs cmd @ client_frames A i (filters_after i fs cmd) cmds)"

lemma bus_loop_client:
  "own_chan i tx fs st \<Longrightarrow> list_all (keeps_client i tx) cmds \<Longrightarrow>
   frames_of (chans (bus_loop A st cmds) tx) = frames_of (chans st tx) @ client_frames A i fs cmds"
proof (induction cmds arbitrary: fs st)
  case (Cons cmd cmds)
  show ?case
  proof (cases "cmd = Shutdown")
    case False
    have "keeps_client i tx cmd" using Cons.prems(2) by simp
    note step = handle_command_client [OF Cons.prems(1) this, of A]
    show ?thesis using Cons.IH [OF conjunct1 [OF step]] step Cons.prems(2) False by simp
  qed simp
qed simp

lemma add_client_own_chan:
  assumes "distinct (map fst (clients st))" "\<forall>(j, d) \<in> set (clients st). cs_tx d \<noteq> tx" "map_of (pending st) i = None"
  shows "own_chan i tx [] (handle_command A st (AddClient i tx))"
proof -
  let ?c = "\<lparr>cs_tx = tx, cs_filters = []\<rparr>"
  have "cs_tx d \<noteq> tx" if "(j, d) \<in> set (AList.update i ?c (clients st))" "j \<noteq> i" for j d
    using set_update_clients [OF that(1) assms(1)] assms(2) that(2) by auto
  then show ?thesis using assms by (auto simp: own_chan_def Let_def update_conv distinct_update)
qed

text \<open>The accept loop: ids are not reused within \<open>2 ^ 64\<close> connections.\<close>

fun added :: "('s, 'e) bus_command list \<Rightarrow> u64 list" where
  "added [] = []"
| "added (AddClient i tx # cs) = i # added cs"
| "added (_ # cs) = added cs"

lemma accept_loop_range:
  "length evs \<le> 2 ^ 64 - unat n \<Longrightarrow> i \<in> set (added (accept_loop n evs :: ('s, 'e) bus_command list)) \<Longrightarrow> unat n \<le> unat i"
proof (induction n evs rule: accept_loop.induct)
  case (3 n p evs)
  show ?case
  proof (cases "i = n")
    case False
    then have i: "i \<in> set (added (accept_loop (n + 1) evs :: ('s, 'e) bus_command list))" using "3.prems"(2) by (auto split: if_splits)
    then have "evs \<noteq> []" by auto
    then have "unat n + 1 < 2 ^ 64" using "3.prems"(1) by (cases evs) auto
    then have u: "unat (n + 1) = unat n + 1" by (subst unat_add_no_overflow) simp_all
    have "length evs \<le> 2 ^ 64 - unat (n + 1)" using "3.prems"(1) u by simp
    from "3.IH" [OF this i] show ?thesis using u by simp
  qed simp
qed simp_all

lemma accept_loop_distinct: "length evs \<le> 2 ^ 64 - unat n \<Longrightarrow> distinct (added (accept_loop n evs :: ('s, 'e) bus_command list))"
proof (induction n evs rule: accept_loop.induct)
  case (3 n p evs)
  show ?case
  proof (cases evs)
    case (Cons e es)
    then have "unat n + 1 < 2 ^ 64" using "3.prems" by auto
    then have u: "unat (n + 1) = unat n + 1" by (subst unat_add_no_overflow) simp_all
    have "length evs \<le> 2 ^ 64 - unat (n + 1)" using "3.prems" u by simp
    then have d: "distinct (added (accept_loop (n + 1) evs :: ('s, 'e) bus_command list))" by (rule "3.IH")
    have "n \<notin> set (added (accept_loop (n + 1) evs :: ('s, 'e) bus_command list))"
      using accept_loop_range [of evs "n + 1" n] "3.prems" u by fastforce
    then show ?thesis using d by simp
  qed simp
qed simp_all

section \<open>Properties\<close>



text \<open>A send that expects an acknowledgement is answered on the sender's own channel, after the frame itself,
  with \<open>ACK_NO_ACK\<close> exactly when no other client is connected; filters play no role.\<close>

lemma server_ack:
  assumes own: "own_chan i tx fs st"
  shows "chans (handle_command A st (SendFrame i seq True f)) tx =
     chans st tx @ (if filters_match A fs f then [SmFrame f] else []) @
       [SmAck seq (if fst ` set (clients st) = {i} then ACK_NO_ACK else ACK_OK)]"
proof -
  have me: "map_of (clients st) i = Some \<lparr>cs_tx = tx, cs_filters = fs\<rparr>" and dist: "distinct (map fst (clients st))"
    using own by (simp_all add: own_chan_def)
  have b: "broadcast_frame A (clients st) f (chans st) tx = chans st tx @ (if filters_match A fs f then [SmFrame f] else [])"
    using broadcast_client [OF me dist, of A f "chans st"] own by (simp add: own_chan_def)
  have handles: "length (clients st) = card (fst ` set (clients st))" using distinct_card [OF dist] by simp
  have "i \<in> fst ` set (clients st)" using me by (metis map_of_eq_None_iff option.distinct(1))
  then have "length (clients st) \<le> 1 \<longleftrightarrow> fst ` set (clients st) = {i}"
    unfolding handles using card_le_Suc0_iff_eq [of "fst ` set (clients st)"] by auto
  then show ?thesis using b me by (simp add: Let_def)
qed

text \<open>Client ids: the accept loop gives every connection an id of its own for \<open>2 ^ 64 - 1\<close> connections.\<close>

lemma accept_ids_distinct:
  assumes "length evs < 2 ^ 64"
  shows "distinct (added (accept_loop 1 evs :: ('s, 'e) bus_command list))"
  by (rule accept_loop_distinct) (use assms in simp)

end
