(* ===== verification/Unix_Client.thy ===== *)
theory Unix_Client
  imports Unix_Server
begin

text \<open>
  The client of \<open>embedded-can-unix-socket\<close> (\<open>client.rs\<close>): the receive buffer with its compaction, the
  blocking reads and writes with deadlines, the handshake, sending with and without acknowledgement,
  receiving, and filter updates.
  The socket and the clock are a record of operations on an environment; the loops that retry system
  calls take fuel and give \<open>None\<close> without it. A socket that logs what was read and written serves to
  state what the client does to its streams, for every socket.
\<close>

section \<open>Errors and state\<close>

datatype 'x unix_can_error =
    UcIo "'x os_error"
  | UcProtocol string
  | UcTimeout
  | UcWouldBlock
  | UcDisconnected
  | UcNoAck

datatype can_error_kind = KindAcknowledge | KindOther

fun unix_can_error_kind :: "'x unix_can_error \<Rightarrow> can_error_kind" where
  "unix_can_error_kind UcNoAck = KindAcknowledge"
| "unix_can_error_kind _ = KindOther"

fun from_io_error :: "'x os_error \<Rightarrow> 'x unix_can_error" where
  "from_io_error EWouldBlock = UcWouldBlock"
| "from_io_error ETimedOut = UcTimeout"
| "from_io_error e = UcIo e"

text \<open>The non-blocking stream, \<open>libc::poll\<close> on it (for reading or writing, with the timeout in
  milliseconds; it gives the number of ready descriptors or an error) and the clock.\<close>

record ('k, 'x) sock_ops =
  so_read :: "'k \<Rightarrow> usize \<Rightarrow> (bytes, 'x os_error) result \<times> 'k"
  so_write :: "'k \<Rightarrow> bytes \<Rightarrow> (usize, 'x os_error) result \<times> 'k"
  so_poll :: "'k \<Rightarrow> bool \<Rightarrow> int \<Rightarrow> (nat, 'x os_error) result \<times> 'k"
  so_now :: "'k \<Rightarrow> nat \<times> 'k"

record ('s, 'e, 'k) unix_can =
  uc_stream :: 'k
  uc_rx_queue :: "('s, 'e) unix_frame list"
  uc_rx_bytes :: bytes
  uc_rx_off :: usize
  uc_next_seq :: u64
  uc_filters :: "('s, 'e) id_mask_filter list"

datatype ('s, 'e) decoded_msg =
    DmFrame "('s, 'e) unix_frame"
  | DmAck u64 u8
  | DmFiltersAck u64 u8
  | DmHello
  | DmUnknown

section \<open>Deadlines and polling\<close>

definition deadline_after :: "('k, 'x) sock_ops \<Rightarrow> 'k \<Rightarrow> duration option \<Rightarrow> nat option \<times> 'k" where
  "deadline_after S k tmo = (case tmo of None \<Rightarrow> (None, k) | Some t \<Rightarrow> let (now, k1) = so_now S k in (Some (now + t), k1))"

definition remaining_ms :: "('k, 'x) sock_ops \<Rightarrow> 'k \<Rightarrow> nat option \<Rightarrow> (int, 'x unix_can_error) result \<times> 'k" where
  "remaining_ms S k deadline =
     (case deadline of
        None \<Rightarrow> (Ok (- 1), k)
      | Some d \<Rightarrow>
          let (now, k1) = so_now S k in
          if now \<ge> d then (Err UcTimeout, k1)
          else let ms = (d - now) div 1000000 in (Ok (min (int ms) (2 ^ 31 - 1)), k1))"

fun wait_ready :: "nat \<Rightarrow> ('k, 'x) sock_ops \<Rightarrow> bool \<Rightarrow> 'k \<Rightarrow> nat option \<Rightarrow> ((unit, 'x unix_can_error) result \<times> 'k) option" where
  "wait_ready 0 S writing k deadline = None"
| "wait_ready (Suc n) S writing k deadline =
     (case remaining_ms S k deadline of
        (Err e, k1) \<Rightarrow> Some (Err e, k1)
      | (Ok timeout_ms, k1) \<Rightarrow>
          (case so_poll S k1 writing timeout_ms of
             (Ok res, k2) \<Rightarrow> if res > 0 then Some (Ok (), k2) else Some (Err UcTimeout, k2)
           | (Err err, k2) \<Rightarrow> if err \<noteq> EInterrupted then Some (Err (UcIo err), k2) else wait_ready n S writing k2 deadline))"

definition wait_readable :: "nat \<Rightarrow> ('k, 'x) sock_ops \<Rightarrow> 'k \<Rightarrow> nat option \<Rightarrow> ((unit, 'x unix_can_error) result \<times> 'k) option" where
  "wait_readable n S k deadline = wait_ready n S False k deadline"

definition wait_writable :: "nat \<Rightarrow> ('k, 'x) sock_ops \<Rightarrow> 'k \<Rightarrow> nat option \<Rightarrow> ((unit, 'x unix_can_error) result \<times> 'k) option" where
  "wait_writable n S k deadline = wait_ready n S True k deadline"

section \<open>The receive buffer\<close>

definition read_more_once ::
    "('k, 'x) sock_ops \<Rightarrow> ('s, 'e, 'k) unix_can \<Rightarrow> (bool, 'x unix_can_error) result \<times> ('s, 'e, 'k) unix_can" where
  "read_more_once S c =
     (case so_read S (uc_stream c) 4096 of
        (Ok data, k) \<Rightarrow>
          if length data = 0 then (Err UcDisconnected, c\<lparr>uc_stream := k\<rparr>)
          else (Ok True, c\<lparr>uc_stream := k, uc_rx_bytes := uc_rx_bytes c @ data\<rparr>)
      | (Err err, k) \<Rightarrow>
          if err = EWouldBlock then (Ok False, c\<lparr>uc_stream := k\<rparr>) else (Err (from_io_error err), c\<lparr>uc_stream := k\<rparr>))"

definition with_next_msg ::
    "('s, 'e, 'k) unix_can \<Rightarrow> (u8 \<Rightarrow> bytes \<Rightarrow> ('a, 'x unix_can_error) result) \<Rightarrow>
     ('a option, 'x unix_can_error) result \<times> ('s, 'e, 'k) unix_can" where
  "with_next_msg c f =
     (let avail = length (uc_rx_bytes c) - uc_rx_off c in
      if avail < 5 then (Ok None, c)
      else
        let base = uc_rx_off c; msg_type = uc_rx_bytes c ! base;
            len = unat (u32_from_le_bytes (slice_of (base + 1) (base + 5) (uc_rx_bytes c))) in
        if len > MAX_PAYLOAD_LEN then (Err (UcProtocol ''payload exceeds limit''), c)
        else
          let total = 5 + len in
          if avail < total then (Ok None, c)
          else
            (case f msg_type (slice_of (base + 5) (base + total) (uc_rx_bytes c)) of
               Err e \<Rightarrow> (Err e, c)
             | Ok out \<Rightarrow>
                 let rx_off = uc_rx_off c + total in
                 (Ok (Some out),
                  if rx_off \<ge> 4096 \<and> rx_off \<ge> length (uc_rx_bytes c) div 2
                  then c\<lparr>uc_rx_bytes := drop rx_off (uc_rx_bytes c), uc_rx_off := 0\<rparr>
                  else c\<lparr>uc_rx_off := rx_off\<rparr>)))"

definition decode_msg :: "('s, 'e) can_id_api \<Rightarrow> u8 \<Rightarrow> bytes \<Rightarrow> (('s, 'e) decoded_msg, 'x unix_can_error) result" where
  "decode_msg A msg_type payload =
     (if msg_type = MSG_FRAME then try_res (map_err UcProtocol (decode_frame A payload)) (\<lambda>f. Ok (DmFrame f))
      else if msg_type = MSG_ACK then try_res (map_err UcProtocol (decode_ack payload)) (\<lambda>(seq, status). Ok (DmAck seq status))
      else if msg_type = MSG_FILTERS_ACK then
        try_res (map_err UcProtocol (decode_ack payload)) (\<lambda>(seq, status). Ok (DmFiltersAck seq status))
      else if msg_type = MSG_HELLO then Ok DmHello
      else Ok DmUnknown)"

definition next_decoded_msg ::
    "('s, 'e) can_id_api \<Rightarrow> ('s, 'e, 'k) unix_can \<Rightarrow>
     (('s, 'e) decoded_msg option, 'x unix_can_error) result \<times> ('s, 'e, 'k) unix_can" where
  "next_decoded_msg A c = with_next_msg c (decode_msg A)"

fun recv_decoded_msg_blocking ::
    "nat \<Rightarrow> ('s, 'e) can_id_api \<Rightarrow> ('k, 'x) sock_ops \<Rightarrow> ('s, 'e, 'k) unix_can \<Rightarrow> nat option \<Rightarrow>
     ((('s, 'e) decoded_msg, 'x unix_can_error) result \<times> ('s, 'e, 'k) unix_can) option" where
  "recv_decoded_msg_blocking 0 A S c deadline = None"
| "recv_decoded_msg_blocking (Suc n) A S c deadline =
     (case next_decoded_msg A c of
        (Err e, c1) \<Rightarrow> Some (Err e, c1)
      | (Ok (Some m), c1) \<Rightarrow> Some (Ok m, c1)
      | (Ok None, c1) \<Rightarrow>
          (case read_more_once S c1 of
             (Err e, c2) \<Rightarrow> Some (Err e, c2)
           | (Ok True, c2) \<Rightarrow> recv_decoded_msg_blocking n A S c2 deadline
           | (Ok False, c2) \<Rightarrow>
               (case wait_readable n S (uc_stream c2) deadline of
                  None \<Rightarrow> None
                | Some (Err e, k) \<Rightarrow> Some (Err e, c2\<lparr>uc_stream := k\<rparr>)
                | Some (Ok _, k) \<Rightarrow> recv_decoded_msg_blocking n A S (c2\<lparr>uc_stream := k\<rparr>) deadline)))"

section \<open>Writing\<close>

text \<open>\<open>&bytes[n..]\<close>: a stream never reports more bytes than it was given.\<close>

fun write_all_deadline ::
    "nat \<Rightarrow> ('k, 'x) sock_ops \<Rightarrow> 'k \<Rightarrow> bytes \<Rightarrow> nat option \<Rightarrow> ((unit, 'x unix_can_error) result \<times> 'k) option" where
  "write_all_deadline 0 S k bytes deadline = None"
| "write_all_deadline (Suc n) S k bytes deadline =
     (if bytes = [] then Some (Ok (), k)
      else
        (case so_write S k bytes of
           (Ok m, k1) \<Rightarrow> if m = 0 then Some (Err UcDisconnected, k1) else write_all_deadline n S k1 (drop m bytes) deadline
         | (Err err, k1) \<Rightarrow>
             if err = EWouldBlock then
               (case wait_writable n S k1 deadline of
                  None \<Rightarrow> None
                | Some (Err e, k2) \<Rightarrow> Some (Err e, k2)
                | Some (Ok _, k2) \<Rightarrow> write_all_deadline n S k2 bytes deadline)
             else if err = EInterrupted then write_all_deadline n S k1 bytes deadline
             else Some (Err (from_io_error err), k1)))"

definition write_msg_deadline ::
    "nat \<Rightarrow> ('k, 'x) sock_ops \<Rightarrow> 'k \<Rightarrow> u8 \<Rightarrow> bytes \<Rightarrow> nat option \<Rightarrow> ((unit, 'x unix_can_error) result \<times> 'k) option" where
  "write_msg_deadline n S k msg_type payload deadline =
     (if length payload > 2 ^ 32 - 1 then Some (Err (UcProtocol ''payload too large''), k)
      else
        let header = copy_at 1 ((replicate 5 0)[0 := msg_type]) (u32_to_le_bytes (word_of_nat (length payload))) in
        (case write_all_deadline n S k header deadline of
           None \<Rightarrow> None
         | Some (Err e, k1) \<Rightarrow> Some (Err e, k1)
         | Some (Ok _, k1) \<Rightarrow> write_all_deadline n S k1 payload deadline))"

section \<open>Waiting for a reply\<close>

text \<open>The three waits differ in the message that ends them; frames that arrive meanwhile are queued and
  other messages are dropped. A reply to end the wait gives the result of the call.\<close>

fun hello_reply :: "('s, 'e) decoded_msg \<Rightarrow> (unit, 'x unix_can_error) result option" where
  "hello_reply DmHello = Some (Ok ())"
| "hello_reply _ = None"

fun filters_ack_reply :: "u64 \<Rightarrow> ('s, 'e) decoded_msg \<Rightarrow> (unit, 'x unix_can_error) result option" where
  "filters_ack_reply seq (DmFiltersAck ack_seq status) =
     (if ack_seq = seq then
        Some (if status = ACK_OK then Ok ()
              else if status = ACK_SERVER_ERR then Err (UcProtocol ''server error'')
              else Err (UcProtocol ''filters ack failed''))
      else None)"
| "filters_ack_reply seq _ = None"

fun ack_reply :: "u64 \<Rightarrow> ('s, 'e) decoded_msg \<Rightarrow> (unit, 'x unix_can_error) result option" where
  "ack_reply seq (DmAck ack_seq status) =
     (if ack_seq = seq then
        Some (if status = ACK_OK then Ok ()
              else if status = ACK_NO_ACK then Err UcNoAck
              else if status = ACK_BAD_FRAME then Err (UcProtocol ''bad frame'')
              else if status = ACK_SERVER_ERR then Err (UcProtocol ''server error'')
              else Err (UcProtocol ''unknown ack status''))
      else None)"
| "ack_reply seq _ = None"

fun wait_for_reply ::
    "nat \<Rightarrow> ('s, 'e) can_id_api \<Rightarrow> ('k, 'x) sock_ops \<Rightarrow> (('s, 'e) decoded_msg \<Rightarrow> (unit, 'x unix_can_error) result option) \<Rightarrow>
     ('s, 'e, 'k) unix_can \<Rightarrow> nat option \<Rightarrow> ((unit, 'x unix_can_error) result \<times> ('s, 'e, 'k) unix_can) option" where
  "wait_for_reply 0 A S reply c deadline = None"
| "wait_for_reply (Suc n) A S reply c deadline =
     (case recv_decoded_msg_blocking n A S c deadline of
        None \<Rightarrow> None
      | Some (Err e, c1) \<Rightarrow> Some (Err e, c1)
      | Some (Ok m, c1) \<Rightarrow>
          (case reply m of
             Some r \<Rightarrow> Some (r, c1)
           | None \<Rightarrow>
               (case m of
                  DmFrame f \<Rightarrow> wait_for_reply n A S reply (c1\<lparr>uc_rx_queue := uc_rx_queue c1 @ [f]\<rparr>) deadline
                | _ \<Rightarrow> wait_for_reply n A S reply c1 deadline)))"

definition wait_for_hello ::
    "nat \<Rightarrow> ('s, 'e) can_id_api \<Rightarrow> ('k, 'x) sock_ops \<Rightarrow> ('s, 'e, 'k) unix_can \<Rightarrow>
     ((unit, 'x unix_can_error) result \<times> ('s, 'e, 'k) unix_can) option" where
  "wait_for_hello n A S c = wait_for_reply n A S hello_reply c None"

definition wait_for_filters_ack ::
    "nat \<Rightarrow> ('s, 'e) can_id_api \<Rightarrow> ('k, 'x) sock_ops \<Rightarrow> ('s, 'e, 'k) unix_can \<Rightarrow> u64 \<Rightarrow> duration option \<Rightarrow>
     ((unit, 'x unix_can_error) result \<times> ('s, 'e, 'k) unix_can) option" where
  "wait_for_filters_ack n A S c seq tmo =
     (let (deadline, k) = deadline_after S (uc_stream c) tmo
      in wait_for_reply n A S (filters_ack_reply seq) (c\<lparr>uc_stream := k\<rparr>) deadline)"

definition wait_for_ack ::
    "nat \<Rightarrow> ('s, 'e) can_id_api \<Rightarrow> ('k, 'x) sock_ops \<Rightarrow> ('s, 'e, 'k) unix_can \<Rightarrow> u64 \<Rightarrow> duration option \<Rightarrow>
     ((unit, 'x unix_can_error) result \<times> ('s, 'e, 'k) unix_can) option" where
  "wait_for_ack n A S c seq tmo =
     (let (deadline, k) = deadline_after S (uc_stream c) tmo
      in wait_for_reply n A S (ack_reply seq) (c\<lparr>uc_stream := k\<rparr>) deadline)"

section \<open>The operations\<close>

text \<open>\<open>connect\<close> after the socket is open: the handshake. Errors other than I/O become \<open>handshake failed\<close>.\<close>

datatype 'x connect_error = ConnectIo "'x os_error" | HandshakeFailed

definition connect ::
    "nat \<Rightarrow> ('s, 'e) can_id_api \<Rightarrow> ('k, 'x) sock_ops \<Rightarrow> 'k \<Rightarrow> (('s, 'e, 'k) unix_can, 'x connect_error) result option" where
  "connect n A S k =
     (case wait_for_hello n A S \<lparr>uc_stream = k, uc_rx_queue = [], uc_rx_bytes = [], uc_rx_off = 0, uc_next_seq = 1, uc_filters = []\<rparr> of
        None \<Rightarrow> None
      | Some (Ok _, c) \<Rightarrow> Some (Ok c)
      | Some (Err (UcIo e), c) \<Rightarrow> Some (Err (ConnectIo e))
      | Some (Err _, c) \<Rightarrow> Some (Err HandshakeFailed))"

definition uc_take_seq :: "('s, 'e, 'k) unix_can \<Rightarrow> u64 \<times> ('s, 'e, 'k) unix_can" where
  "uc_take_seq c = (uc_next_seq c, c\<lparr>uc_next_seq := uc_next_seq c + 1\<rparr>)"

definition send_filters ::
    "nat \<Rightarrow> ('s, 'e) can_id_api \<Rightarrow> ('k, 'x) sock_ops \<Rightarrow> ('s, 'e, 'k) unix_can \<Rightarrow>
     ((unit, 'x unix_can_error) result \<times> ('s, 'e, 'k) unix_can) option" where
  "send_filters n A S c =
     (let (seq, c1) = uc_take_seq c; payload = encode_filters A seq (uc_filters c1) in
      case write_msg_deadline n S (uc_stream c1) MSG_SET_FILTERS payload None of
        None \<Rightarrow> None
      | Some (Err e, k) \<Rightarrow> Some (Err e, c1\<lparr>uc_stream := k\<rparr>)
      | Some (Ok _, k) \<Rightarrow> wait_for_filters_ack n A S (c1\<lparr>uc_stream := k\<rparr>) seq None)"

definition uc_set_filters ::
    "nat \<Rightarrow> ('s, 'e) can_id_api \<Rightarrow> ('k, 'x) sock_ops \<Rightarrow> ('s, 'e, 'k) unix_can \<Rightarrow> ('s, 'e) id_mask_filter list \<Rightarrow>
     ((unit, 'x unix_can_error) result \<times> ('s, 'e, 'k) unix_can) option" where
  "uc_set_filters n A S c filters = send_filters n A S (c\<lparr>uc_filters := filters\<rparr>)"

text \<open>\<open>modify_filters\<close>: the caller edits the filters through the handle; dropping it sends them and
  ignores the result.\<close>

definition modify_filters ::
    "nat \<Rightarrow> ('s, 'e) can_id_api \<Rightarrow> ('k, 'x) sock_ops \<Rightarrow> ('s, 'e, 'k) unix_can \<Rightarrow>
     (('s, 'e) id_mask_filter list \<Rightarrow> ('s, 'e) id_mask_filter list) \<Rightarrow> ('s, 'e, 'k) unix_can option" where
  "modify_filters n A S c edit = map_option snd (send_filters n A S (c\<lparr>uc_filters := edit (uc_filters c)\<rparr>))"

definition write_frame ::
    "nat \<Rightarrow> ('s, 'e) can_id_api \<Rightarrow> ('k, 'x) sock_ops \<Rightarrow> ('s, 'e, 'k) unix_can \<Rightarrow> u64 \<Rightarrow> bool \<Rightarrow> ('s, 'e) unix_frame \<Rightarrow> nat option \<Rightarrow>
     ((unit, 'x unix_can_error) result \<times> ('s, 'e, 'k) unix_can) option" where
  "write_frame n A S c seq expect_ack f deadline =
     (let (len, payload) = encode_send_frame_into A (replicate (SEND_FRAME_HDR_LEN + MAX_DATA_LEN) 0) seq expect_ack f
      in map_option (\<lambda>(r, k). (r, c\<lparr>uc_stream := k\<rparr>))
           (write_msg_deadline n S (uc_stream c) MSG_SEND_FRAME (take len payload) deadline))"

definition uc_send ::
    "nat \<Rightarrow> ('s, 'e) can_id_api \<Rightarrow> ('k, 'x) sock_ops \<Rightarrow> ('s, 'e, 'k) unix_can \<Rightarrow> ('s, 'e) unix_frame \<Rightarrow>
     ((unit, 'x unix_can_error) result \<times> ('s, 'e, 'k) unix_can) option" where
  "uc_send n A S c f =
     (let (seq, c1) = uc_take_seq c in
      case write_frame n A S c1 seq True f None of
        None \<Rightarrow> None
      | Some (Err e, c2) \<Rightarrow> Some (Err e, c2)
      | Some (Ok _, c2) \<Rightarrow> wait_for_ack n A S c2 seq None)"

definition uc_try_send ::
    "nat \<Rightarrow> ('s, 'e) can_id_api \<Rightarrow> ('k, 'x) sock_ops \<Rightarrow> ('s, 'e, 'k) unix_can \<Rightarrow> ('s, 'e) unix_frame \<Rightarrow>
     ((unit, 'x unix_can_error) result \<times> ('s, 'e, 'k) unix_can) option" where
  "uc_try_send n A S c f = (let (seq, c1) = uc_take_seq c in write_frame n A S c1 seq False f None)"

definition uc_send_timeout ::
    "nat \<Rightarrow> ('s, 'e) can_id_api \<Rightarrow> ('k, 'x) sock_ops \<Rightarrow> ('s, 'e, 'k) unix_can \<Rightarrow> ('s, 'e) unix_frame \<Rightarrow> duration \<Rightarrow>
     ((unit, 'x unix_can_error) result \<times> ('s, 'e, 'k) unix_can) option" where
  "uc_send_timeout n A S c f tmo =
     (let (seq, c1) = uc_take_seq c; (now, k) = so_now S (uc_stream c1) in
      case write_frame n A S (c1\<lparr>uc_stream := k\<rparr>) seq True f (Some (now + tmo)) of
        None \<Rightarrow> None
      | Some (Err e, c2) \<Rightarrow> Some (Err e, c2)
      | Some (Ok _, c2) \<Rightarrow> wait_for_ack n A S c2 seq (Some tmo))"

fun recv_frame_loop ::
    "nat \<Rightarrow> ('s, 'e) can_id_api \<Rightarrow> ('k, 'x) sock_ops \<Rightarrow> ('s, 'e, 'k) unix_can \<Rightarrow> nat option \<Rightarrow>
     ((('s, 'e) unix_frame, 'x unix_can_error) result \<times> ('s, 'e, 'k) unix_can) option" where
  "recv_frame_loop 0 A S c deadline = None"
| "recv_frame_loop (Suc n) A S c deadline =
     (case recv_decoded_msg_blocking n A S c deadline of
        None \<Rightarrow> None
      | Some (Err e, c1) \<Rightarrow> Some (Err e, c1)
      | Some (Ok m, c1) \<Rightarrow> (case m of DmFrame f \<Rightarrow> Some (Ok f, c1) | _ \<Rightarrow> recv_frame_loop n A S c1 deadline))"

definition uc_recv ::
    "nat \<Rightarrow> ('s, 'e) can_id_api \<Rightarrow> ('k, 'x) sock_ops \<Rightarrow> ('s, 'e, 'k) unix_can \<Rightarrow>
     ((('s, 'e) unix_frame, 'x unix_can_error) result \<times> ('s, 'e, 'k) unix_can) option" where
  "uc_recv n A S c =
     (case uc_rx_queue c of
        f # fs \<Rightarrow> Some (Ok f, c\<lparr>uc_rx_queue := fs\<rparr>)
      | [] \<Rightarrow> recv_frame_loop n A S c None)"

definition uc_recv_timeout ::
    "nat \<Rightarrow> ('s, 'e) can_id_api \<Rightarrow> ('k, 'x) sock_ops \<Rightarrow> ('s, 'e, 'k) unix_can \<Rightarrow> duration \<Rightarrow>
     ((('s, 'e) unix_frame, 'x unix_can_error) result \<times> ('s, 'e, 'k) unix_can) option" where
  "uc_recv_timeout n A S c tmo =
     (case uc_rx_queue c of
        f # fs \<Rightarrow> Some (Ok f, c\<lparr>uc_rx_queue := fs\<rparr>)
      | [] \<Rightarrow> let (now, k) = so_now S (uc_stream c) in recv_frame_loop n A S (c\<lparr>uc_stream := k\<rparr>) (Some (now + tmo)))"

fun take_frame ::
    "nat \<Rightarrow> ('s, 'e) can_id_api \<Rightarrow> ('s, 'e, 'k) unix_can \<Rightarrow>
     ((('s, 'e) unix_frame, 'x unix_can_error) result \<times> ('s, 'e, 'k) unix_can) option" where
  "take_frame 0 A c = None"
| "take_frame (Suc n) A c =
     (case next_decoded_msg A c of
        (Err e, c1) \<Rightarrow> Some (Err e, c1)
      | (Ok None, c1) \<Rightarrow> Some (Err UcWouldBlock, c1)
      | (Ok (Some m), c1) \<Rightarrow> (case m of DmFrame f \<Rightarrow> Some (Ok f, c1) | _ \<Rightarrow> take_frame n A c1))"

text \<open>Every message takes at least five bytes, so the loop of \<open>try_recv\<close> runs at most once per byte.\<close>

definition uc_try_recv ::
    "('s, 'e) can_id_api \<Rightarrow> ('k, 'x) sock_ops \<Rightarrow> ('s, 'e, 'k) unix_can \<Rightarrow>
     ((('s, 'e) unix_frame, 'x unix_can_error) result \<times> ('s, 'e, 'k) unix_can) option" where
  "uc_try_recv A S c =
     (case uc_rx_queue c of
        f # fs \<Rightarrow> Some (Ok f, c\<lparr>uc_rx_queue := fs\<rparr>)
      | [] \<Rightarrow>
          (case read_more_once S c of
             (Err e, c1) \<Rightarrow> Some (Err e, c1)
           | (Ok _, c1) \<Rightarrow> take_frame (Suc (length (uc_rx_bytes c1))) A c1))"

definition wait_not_empty ::
    "nat \<Rightarrow> ('k, 'x) sock_ops \<Rightarrow> ('s, 'e, 'k) unix_can \<Rightarrow> ((unit, 'x unix_can_error) result \<times> ('s, 'e, 'k) unix_can) option" where
  "wait_not_empty n S c =
     (if uc_rx_queue c \<noteq> [] then Some (Ok (), c)
      else map_option (\<lambda>(r, k). (r, c\<lparr>uc_stream := k\<rparr>)) (wait_readable n S (uc_stream c) None))"

end
