(* ===== verification/Unix_Client_Props.thy ===== *)
theory Unix_Client_Props
  imports Unix_Client
begin

text \<open>
  What the unix-socket client does to its streams, for every socket: the receive buffer with its offset
  and compaction is a plain byte queue; the frames handed out and queued are those of the messages
  read, in order; a write that succeeds has put exactly its bytes on the stream.
\<close>

section \<open>The buffer as a byte queue\<close>

definition rx_pending :: "('s, 'e, 'k) unix_can \<Rightarrow> bytes" where
  "rx_pending c = drop (uc_rx_off c) (uc_rx_bytes c)"

definition buffer_wf :: "('s, 'e, 'k) unix_can \<Rightarrow> bool" where
  "buffer_wf c \<longleftrightarrow> uc_rx_off c \<le> length (uc_rx_bytes c)"

text \<open>The parser on a byte queue: nothing yet, an error, or a value and the rest.\<close>

definition parse_next ::
    "bytes \<Rightarrow> (u8 \<Rightarrow> bytes \<Rightarrow> ('a, 'x unix_can_error) result) \<Rightarrow> (('a \<times> bytes) option, 'x unix_can_error) result" where
  "parse_next bs f =
     (if length bs < 5 then Ok None
      else let len = unat (u32_from_le_bytes (slice_of 1 5 bs)) in
        if len > 4096 then Err (UcProtocol ''payload exceeds limit'')
        else if length bs < 5 + len then Ok None
        else map_res (\<lambda>out. Some (out, drop (5 + len) bs)) (f (bs ! 0) (slice_of 5 (5 + len) bs)))"

lemma slice_of_drop: "slice_of i j (drop n xs) = slice_of (n + i) (n + j) xs"
  by (simp add: slice_of_def add.commute)

lemma with_next_msg_parse:
  assumes wf: "buffer_wf c" and run: "with_next_msg c f = (r, c')"
  shows "buffer_wf c' \<and> uc_stream c' = uc_stream c \<and> uc_rx_queue c' = uc_rx_queue c \<and> uc_next_seq c' = uc_next_seq c \<and>
     uc_filters c' = uc_filters c \<and>
     (case parse_next (rx_pending c) f of
        Err e \<Rightarrow> r = Err e \<and> c' = c
      | Ok None \<Rightarrow> r = Ok None \<and> c' = c
      | Ok (Some (out, rest)) \<Rightarrow> r = Ok (Some out) \<and> rx_pending c' = rest)"
proof -
  let ?o = "uc_rx_off c" and ?b = "uc_rx_bytes c"
  let ?len = "unat (u32_from_le_bytes (slice_of 1 5 (rx_pending c)))"
  have len: "length (rx_pending c) = length ?b - ?o" by (simp add: rx_pending_def)
  have hd: "5 \<le> length (rx_pending c) \<Longrightarrow> rx_pending c ! 0 = ?b ! ?o" by (simp add: rx_pending_def)
  have sl: "slice_of (?o + i) (?o + j) ?b = slice_of i j (rx_pending c)" for i j by (simp add: rx_pending_def slice_of_drop)
  have eq: "with_next_msg c f =
     (if length (rx_pending c) < 5 then (Ok None, c)
      else if ?len > 4096 then (Err (UcProtocol ''payload exceeds limit''), c)
      else if length (rx_pending c) < 5 + ?len then (Ok None, c)
      else (case f (?b ! ?o) (slice_of 5 (5 + ?len) (rx_pending c)) of
              Err e \<Rightarrow> (Err e, c)
            | Ok out \<Rightarrow>
                (Ok (Some out),
                 if ?o + (5 + ?len) \<ge> 4096 \<and> ?o + (5 + ?len) \<ge> length ?b div 2
                 then c\<lparr>uc_rx_bytes := drop (?o + (5 + ?len)) ?b, uc_rx_off := 0\<rparr>
                 else c\<lparr>uc_rx_off := ?o + (5 + ?len)\<rparr>)))"
    unfolding with_next_msg_def Let_def len [symmetric] MAX_PAYLOAD_LEN_def sl by (rule refl)
  show ?thesis
  proof (cases "length (rx_pending c) < 5 \<or> ?len > 4096 \<or> length (rx_pending c) < 5 + ?len")
    case True
    then show ?thesis using run wf unfolding eq parse_next_def Let_def by (auto split: if_splits)
  next
    case False
    have total: "?o + (5 + ?len) \<le> length ?b" using False wf len unfolding buffer_wf_def by linarith
    have rest: "drop (?o + (5 + ?len)) ?b = drop (5 + ?len) (rx_pending c)"
      by (simp add: rx_pending_def add.commute)
    have parse: "parse_next (rx_pending c) f =
        map_res (\<lambda>out. Some (out, drop (5 + ?len) (rx_pending c))) (f (?b ! ?o) (slice_of 5 (5 + ?len) (rx_pending c)))"
      unfolding parse_next_def Let_def using False hd by simp
    have step: "with_next_msg c f =
      (case f (?b ! ?o) (slice_of 5 (5 + ?len) (rx_pending c)) of
              Err e \<Rightarrow> (Err e, c)
            | Ok out \<Rightarrow>
                (Ok (Some out),
                 if ?o + (5 + ?len) \<ge> 4096 \<and> ?o + (5 + ?len) \<ge> length ?b div 2
                 then c\<lparr>uc_rx_bytes := drop (?o + (5 + ?len)) ?b, uc_rx_off := 0\<rparr>
                 else c\<lparr>uc_rx_off := ?o + (5 + ?len)\<rparr>))"
      unfolding eq using False by simp
    show ?thesis
    proof (cases "f (?b ! ?o) (slice_of 5 (5 + ?len) (rx_pending c))")
      case (Ok out)
      then show ?thesis using run step parse total wf rest
        by (auto simp: buffer_wf_def rx_pending_def split: if_splits)
    qed (use run step parse wf in auto)
  qed
qed

section \<open>What was read and written\<close>

definition logged_sock :: "('k, 'x) sock_ops \<Rightarrow> ('k \<times> bytes \<times> bytes, 'x) sock_ops" where
  "logged_sock S =
     \<lparr>so_read = \<lambda>(k, i, out) n. (case so_read S k n of
        (r, k1) \<Rightarrow> (r, (k1, i @ (case r of Ok data \<Rightarrow> data | Err _ \<Rightarrow> []), out))),
      so_write = \<lambda>(k, i, out) bs. (case so_write S k bs of
        (r, k1) \<Rightarrow> (r, (k1, i, out @ (case r of Ok m \<Rightarrow> take m bs | Err _ \<Rightarrow> [])))),
      so_poll = \<lambda>(k, i, out) w t. (case so_poll S k w t of (r, k1) \<Rightarrow> (r, (k1, i, out))),
      so_now = \<lambda>(k, i, out). (case so_now S k of (t, k1) \<Rightarrow> (t, (k1, i, out)))\<rparr>"

definition in_log :: "'k \<times> bytes \<times> bytes \<Rightarrow> bytes" where "in_log k = fst (snd k)"
definition out_log :: "'k \<times> bytes \<times> bytes \<Rightarrow> bytes" where "out_log k = snd (snd k)"

lemma logged_read:
  "so_read (logged_sock S) k n = (r, k1) \<Longrightarrow>
     in_log k1 = in_log k @ (case r of Ok data \<Rightarrow> data | Err _ \<Rightarrow> []) \<and> out_log k1 = out_log k"
  by (cases k) (auto simp: logged_sock_def in_log_def out_log_def split: prod.splits)

lemma logged_write:
  "so_write (logged_sock S) k bs = (r, k1) \<Longrightarrow>
     in_log k1 = in_log k \<and> out_log k1 = out_log k @ (case r of Ok m \<Rightarrow> take m bs | Err _ \<Rightarrow> [])"
  by (cases k) (auto simp: logged_sock_def in_log_def out_log_def split: prod.splits)

lemma logged_poll: "so_poll (logged_sock S) k w t = (r, k1) \<Longrightarrow> in_log k1 = in_log k \<and> out_log k1 = out_log k"
  by (cases k) (auto simp: logged_sock_def in_log_def out_log_def split: prod.splits)

lemma logged_now: "so_now (logged_sock S) k = (t, k1) \<Longrightarrow> in_log k1 = in_log k \<and> out_log k1 = out_log k"
  by (cases k) (auto simp: logged_sock_def in_log_def out_log_def split: prod.splits)

lemma logged_remaining: "remaining_ms (logged_sock S) k d = (r, k1) \<Longrightarrow> in_log k1 = in_log k \<and> out_log k1 = out_log k"
  using logged_now [of S k] by (auto simp: remaining_ms_def Let_def split: option.splits prod.splits if_splits)

lemma logged_deadline: "deadline_after (logged_sock S) k d = (r, k1) \<Longrightarrow> in_log k1 = in_log k \<and> out_log k1 = out_log k"
  using logged_now [of S k] by (auto simp: deadline_after_def Let_def split: option.splits prod.splits if_splits)

lemma logged_wait:
  "wait_ready n (logged_sock S) w k d = Some (r, k1) \<Longrightarrow> in_log k1 = in_log k \<and> out_log k1 = out_log k"
proof (induction n arbitrary: k)
  case (Suc n)
  obtain q k2 where rem: "remaining_ms (logged_sock S) k d = (q, k2)" by (cases "remaining_ms (logged_sock S) k d")
  show ?case
  proof (cases q)
    case (Ok t)
    obtain p k3 where poll: "so_poll (logged_sock S) k2 w t = (p, k3)" by (cases "so_poll (logged_sock S) k2 w t")
    show ?thesis using Suc.prems Suc.IH [of k3] Ok rem poll logged_remaining [OF rem] logged_poll [OF poll]
      by (auto split: result.splits if_splits)
  qed (use Suc.prems rem logged_remaining [OF rem] in auto)
qed simp

text \<open>The bytes of one message, and the message they hold.\<close>

definition wire_msg :: "('s, 'e) can_id_api \<Rightarrow> bytes \<Rightarrow> ('s, 'e) decoded_msg \<Rightarrow> bool" where
  "wire_msg A bs m \<longleftrightarrow>
     5 \<le> length bs \<and> length bs \<le> 5 + 4096 \<and> unat (u32_from_le_bytes (slice_of 1 5 bs)) = length bs - 5 \<and>
     decode_msg A (bs ! 0) (drop 5 bs) = (Ok m :: (('s, 'e) decoded_msg, unit unix_can_error) result)"

text \<open>A client that went from one state to another by reading: what it took from the stream and had in its
  buffer is the messages it consumed and what its buffer holds now.\<close>

definition takes ::
    "('s, 'e) can_id_api \<Rightarrow> ('s, 'e, 'k \<times> bytes \<times> bytes) unix_can \<Rightarrow> ('s, 'e) decoded_msg list \<Rightarrow>
     ('s, 'e, 'k \<times> bytes \<times> bytes) unix_can \<Rightarrow> bool" where
  "takes A c ms c' \<longleftrightarrow>
     buffer_wf c' \<and>
     (\<exists>d bss. in_log (uc_stream c') = in_log (uc_stream c) @ d \<and> rx_pending c @ d = concat bss @ rx_pending c' \<and>
        list_all2 (wire_msg A) bss ms)"

definition reads ::
    "('s, 'e) can_id_api \<Rightarrow> ('s, 'e, 'k \<times> bytes \<times> bytes) unix_can \<Rightarrow> ('s, 'e) decoded_msg list \<Rightarrow>
     ('s, 'e, 'k \<times> bytes \<times> bytes) unix_can \<Rightarrow> bool" where
  "reads A c ms c' \<longleftrightarrow>
     takes A c ms c' \<and> uc_next_seq c' = uc_next_seq c \<and> uc_filters c' = uc_filters c \<and>
     out_log (uc_stream c') = out_log (uc_stream c)"

lemma takesI:
  assumes "buffer_wf c'" "in_log (uc_stream c') = in_log (uc_stream c) @ d"
    "rx_pending c @ d = concat bss @ rx_pending c'" "list_all2 (wire_msg A) bss ms"
  shows "takes A c ms c'"
  using assms unfolding takes_def by blast

lemma readsI:
  assumes "buffer_wf c'" "uc_next_seq c' = uc_next_seq c" "uc_filters c' = uc_filters c"
    "out_log (uc_stream c') = out_log (uc_stream c)" "in_log (uc_stream c') = in_log (uc_stream c) @ d"
    "rx_pending c @ d = concat bss @ rx_pending c'" "list_all2 (wire_msg A) bss ms"
  shows "reads A c ms c'"
  using assms unfolding reads_def takes_def by blast

lemma takes_trans:
  assumes "takes A c ms c1" and "takes A c1 ns c2"
  shows "takes A c (ms @ ns) c2"
proof -
  obtain d bss where 1: "in_log (uc_stream c1) = in_log (uc_stream c) @ d" "rx_pending c @ d = concat bss @ rx_pending c1"
    "list_all2 (wire_msg A) bss ms" using assms(1) unfolding takes_def by blast
  obtain d' bss' where 2: "in_log (uc_stream c2) = in_log (uc_stream c1) @ d'" "rx_pending c1 @ d' = concat bss' @ rx_pending c2"
    "list_all2 (wire_msg A) bss' ns" using assms(2) unfolding takes_def by blast
  have "rx_pending c @ (d @ d') = concat bss @ (rx_pending c1 @ d')" using 1(2) by (metis append.assoc)
  then have "rx_pending c @ (d @ d') = concat (bss @ bss') @ rx_pending c2" using 2(2) by simp
  then show ?thesis
    using assms 1 2 by (intro takesI [where d = "d @ d'" and bss = "bss @ bss'"]) (auto simp: takes_def list_all2_appendI)
qed

lemma reads_trans: "reads A c ms c1 \<Longrightarrow> reads A c1 ns c2 \<Longrightarrow> reads A c (ms @ ns) c2"
  unfolding reads_def using takes_trans by auto

lemma reads_takes: "reads A c ms c' \<Longrightarrow> takes A c ms c'"
  by (simp add: reads_def)

lemma decode_msg_any_error:
  "decode_msg A t p = (Ok m :: (('s, 'e) decoded_msg, 'x unix_can_error) result) \<Longrightarrow>
   decode_msg A t p = (Ok m :: (('s, 'e) decoded_msg, 'y unix_can_error) result)"
  by (cases "decode_frame A p"; cases "decode_ack p") (auto simp: decode_msg_def split: if_splits)

lemma parse_next_wire:
  assumes "parse_next bs (decode_msg A :: u8 \<Rightarrow> bytes \<Rightarrow> (('s, 'e) decoded_msg, 'x unix_can_error) result) = Ok (Some (m, rest))"
  shows "\<exists>w. bs = w @ rest \<and> wire_msg A w m"
proof -
  let ?len = "unat (u32_from_le_bytes (slice_of 1 5 bs))"
  have big: "5 + ?len \<le> length bs" "?len \<le> 4096" and rest: "rest = drop (5 + ?len) bs"
    and dec: "(decode_msg A (bs ! 0) (slice_of 5 (5 + ?len) bs) :: (('s, 'e) decoded_msg, 'x unix_can_error) result) = Ok m"
    using assms unfolding parse_next_def Let_def
    by (auto split: if_splits elim: map_res.elims)
  let ?w = "take (5 + ?len) bs"
  have "slice_of 1 5 ?w = slice_of 1 5 bs" by (simp add: slice_of_def take_drop)
  moreover have "drop 5 ?w = slice_of 5 (5 + ?len) bs" by (simp add: slice_of_def take_drop add.commute)
  moreover have "?w ! 0 = bs ! 0" by simp
  ultimately have "wire_msg A ?w m"
    using big decode_msg_any_error [OF dec, where 'y = unit] unfolding wire_msg_def by simp
  then show ?thesis using rest by (metis append_take_drop_id)
qed

section \<open>Reading\<close>

lemma reads_refl: "buffer_wf c \<Longrightarrow> reads A c [] c"
  by (rule readsI [where d = "[]" and bss = "[]"]) auto

lemma next_decoded_reads:
  fixes r :: "(('s, 'e) decoded_msg option, 'x unix_can_error) result"
  assumes wf: "buffer_wf c" and run: "next_decoded_msg A c = (r, c')"
  shows "reads A c (case r of Ok (Some m) \<Rightarrow> [m] | _ \<Rightarrow> []) c' \<and> uc_rx_queue c' = uc_rx_queue c"
proof -
  note step = with_next_msg_parse [OF wf run [unfolded next_decoded_msg_def]]
  show ?thesis
  proof (cases "parse_next (rx_pending c) (decode_msg A :: u8 \<Rightarrow> bytes \<Rightarrow> (('s, 'e) decoded_msg, 'x unix_can_error) result)")
    case (Ok q)
    show ?thesis
    proof (cases q)
      case None
      then show ?thesis using step Ok reads_refl [OF wf] by simp
    next
      case (Some mr)
      obtain m rest where mr: "mr = (m, rest)" by (cases mr)
      obtain w where w: "rx_pending c = w @ rest" "wire_msg A w m"
        using parse_next_wire Ok Some mr by blast
      have st: "buffer_wf c'" "uc_stream c' = uc_stream c" "uc_rx_queue c' = uc_rx_queue c" "uc_next_seq c' = uc_next_seq c"
        "uc_filters c' = uc_filters c" "r = result.Ok (option.Some m)" "rx_pending c' = rest"
        using step Ok Some mr by simp_all
      have "reads A c [m] c'" by (rule readsI [where d = "[]" and bss = "[w]"]) (use st w in auto)
      then show ?thesis using st by simp
    qed
  next
    case (Err e)
    then show ?thesis using step reads_refl [OF wf] by simp
  qed
qed

lemma read_more_reads:
  assumes wf: "buffer_wf c" and run: "read_more_once (logged_sock S) c = (r, c')"
  shows "reads A c [] c' \<and> uc_rx_queue c' = uc_rx_queue c"
proof -
  obtain q k where rd: "so_read (logged_sock S) (uc_stream c) 4096 = (q, k)"
    by (cases "so_read (logged_sock S) (uc_stream c) 4096")
  note log = logged_read [OF rd]
  show ?thesis
  proof (cases q)
    case (Ok data)
    have "reads A c [] c'"
      by (rule readsI [where d = data and bss = "[]"])
         (use wf run rd log Ok in \<open>auto simp: read_more_once_def buffer_wf_def rx_pending_def split: if_splits\<close>)
    then show ?thesis using run rd Ok by (auto simp: read_more_once_def split: if_splits)
  next
    case (Err e)
    have "reads A c [] c'"
      by (rule readsI [where d = "[]" and bss = "[]"])
         (use wf run rd log Err in \<open>auto simp: read_more_once_def buffer_wf_def rx_pending_def split: if_splits\<close>)
    then show ?thesis using run rd Err by (auto simp: read_more_once_def split: if_splits)
  qed
qed

lemma stream_reads:
  assumes "buffer_wf c" and "in_log k = in_log (uc_stream c) \<and> out_log k = out_log (uc_stream c)"
  shows "reads A c [] (c\<lparr>uc_stream := k\<rparr>)"
  by (rule readsI [where d = "[]" and bss = "[]"]) (use assms in \<open>auto simp: buffer_wf_def rx_pending_def\<close>)

lemma reads_wf: "reads A c ms c' \<Longrightarrow> buffer_wf c'"
  by (simp add: reads_def takes_def)

text \<open>Chains of reads that end without a message of their own.\<close>

lemma reads_before: "reads A c [] c1 \<Longrightarrow> reads A c1 ms c2 \<Longrightarrow> reads A c ms c2"
  using reads_trans [of A c "[]" c1 ms c2] by simp

lemma recv_decoded_reads:
  fixes A :: "('s, 'e) can_id_api" and S :: "('k, 'x) sock_ops"
  assumes "buffer_wf c" and "recv_decoded_msg_blocking n A (logged_sock S) c d = Some (r, c')"
  shows "reads A c (case r of Ok m \<Rightarrow> [m] | Err _ \<Rightarrow> []) c' \<and> uc_rx_queue c' = uc_rx_queue c"
  using assms
proof (induction n arbitrary: c)
  case (Suc n)
  obtain q :: "(('s, 'e) decoded_msg option, 'x unix_can_error) result" and c1
    where nx: "next_decoded_msg A c = (q, c1)" by fastforce
  note 1 = next_decoded_reads [OF Suc.prems(1) nx]
  show ?case
  proof (cases "q = Ok None")
    case False
    then show ?thesis using Suc.prems(2) nx 1 by (auto split: result.splits option.splits)
  next
    case True
    have wf1: "buffer_wf c1" and rd1: "reads A c [] c1" and q1: "uc_rx_queue c1 = uc_rx_queue c"
      using 1 True by (simp_all add: reads_def takes_def)
    obtain b c2 where more: "read_more_once (logged_sock S) c1 = (b, c2)" by (cases "read_more_once (logged_sock S) c1")
    have rd2: "reads A c [] c2" and q2: "uc_rx_queue c2 = uc_rx_queue c"
      using read_more_reads [OF wf1 more] q1 reads_before [OF rd1] by auto
    consider (err) e where "b = Err e" | (got) "b = Ok True" | (wait) "b = Ok False" by (cases b) auto
    then show ?thesis
    proof cases
      case err
      then show ?thesis using Suc.prems(2) nx True more rd2 q2 by auto
    next
      case got
      then have "recv_decoded_msg_blocking n A (logged_sock S) c2 d = Some (r, c')" using Suc.prems(2) nx True more by simp
      from Suc.IH [OF reads_wf [OF rd2] this] show ?thesis using q2 reads_before [OF rd2] by auto
    next
      case wait
      obtain w k where wr: "wait_readable n (logged_sock S) (uc_stream c2) d = Some (w, k)"
        using Suc.prems(2) nx True more wait by (cases "wait_readable n (logged_sock S) (uc_stream c2) d") auto
      have rd3: "reads A c [] (c2\<lparr>uc_stream := k\<rparr>)"
        using reads_before [OF rd2 stream_reads [OF reads_wf [OF rd2] logged_wait [OF wr [unfolded wait_readable_def]]]] .
      show ?thesis
      proof (cases w)
        case (Ok u)
        then have "recv_decoded_msg_blocking n A (logged_sock S) (c2\<lparr>uc_stream := k\<rparr>) d = Some (r, c')"
          using Suc.prems(2) nx True more wait wr by simp
        from Suc.IH [OF reads_wf [OF rd3] this] show ?thesis using q2 reads_before [OF rd3] by auto
      next
        case (Err e)
        then show ?thesis using Suc.prems(2) nx True more wait wr rd3 q2 by auto
      qed
    qed
  qed
qed simp

fun frames_in :: "('s, 'e) decoded_msg list \<Rightarrow> ('s, 'e) unix_frame list" where
  "frames_in [] = []"
| "frames_in (DmFrame f # ms) = f # frames_in ms"
| "frames_in (_ # ms) = frames_in ms"

lemma frames_in_append [simp]: "frames_in (ms @ ns) = frames_in ms @ frames_in ns"
  by (induction ms rule: frames_in.induct) auto

lemma frames_in_Cons: "frames_in (m # ms) = (case m of DmFrame f \<Rightarrow> f # frames_in ms | _ \<Rightarrow> frames_in ms)"
  by (cases m) auto

text \<open>A wait: frames are queued in the order they arrive, and a result that is not an error of the stream is
  the answer to the last message read.\<close>

lemma wait_for_reply_reads:
  fixes A :: "('s, 'e) can_id_api" and S :: "('k, 'x) sock_ops"
  assumes "buffer_wf c" and "wait_for_reply n A (logged_sock S) reply c d = Some (r, c')"
    and "\<forall>f. reply (DmFrame f) = None"
  shows "\<exists>ms. reads A c ms c' \<and> uc_rx_queue c' = uc_rx_queue c @ frames_in ms \<and>
     (r = Ok () \<longrightarrow> (\<exists>m\<in>set ms. reply m = Some (Ok ())))"
  using assms(1,2)
proof (induction n arbitrary: c)
  case (Suc n)
  obtain q c1 where rcv: "recv_decoded_msg_blocking n A (logged_sock S) c d = Some (q, c1)"
    using Suc.prems(2) by (cases "recv_decoded_msg_blocking n A (logged_sock S) c d") auto
  note 1 = recv_decoded_reads [OF Suc.prems(1) rcv]
  show ?case
  proof (cases q)
    case (Err e)
    then show ?thesis using Suc.prems(2) rcv 1 by (intro exI [of _ "[]"]) auto
  next
    case (Ok m)
    have rd: "reads A c [m] c1" and q1: "uc_rx_queue c1 = uc_rx_queue c" using 1 Ok by auto
    show ?thesis
    proof (cases "reply m")
      case (Some a)
      then have "\<nexists>f. m = DmFrame f" using assms(3) by auto
      then show ?thesis using Suc.prems(2) rcv Ok Some rd q1
        by (intro exI [of _ "[m]"]) (auto simp: frames_in_Cons split: decoded_msg.splits)
    next
      case None
      let ?c = "c1\<lparr>uc_rx_queue := uc_rx_queue c1 @ frames_in [m]\<rparr>"
      have rd': "reads A c [m] ?c" using rd by (simp add: reads_def takes_def rx_pending_def buffer_wf_def)
      have "(case m of DmFrame f \<Rightarrow> wait_for_reply n A (logged_sock S) reply (c1\<lparr>uc_rx_queue := uc_rx_queue c1 @ [f]\<rparr>) d
              | _ \<Rightarrow> wait_for_reply n A (logged_sock S) reply c1 d) = Some (r, c')"
        using Suc.prems(2) rcv Ok None by simp
      then have "wait_for_reply n A (logged_sock S) reply ?c d = Some (r, c')" by (cases m) auto
      from Suc.IH [OF reads_wf [OF rd'] this] obtain ms where ms: "reads A ?c ms c'"
        "uc_rx_queue c' = uc_rx_queue ?c @ frames_in ms" "r = Ok () \<longrightarrow> (\<exists>m\<in>set ms. reply m = Some (Ok ()))" by auto
      then show ?thesis using reads_trans [OF rd' ms(1)] q1
        by (intro exI [of _ "m # ms"]) (auto simp: frames_in_Cons split: decoded_msg.splits)
    qed
  qed
qed simp

lemma recv_frame_loop_reads:
  fixes A :: "('s, 'e) can_id_api" and S :: "('k, 'x) sock_ops"
  assumes "buffer_wf c" and "recv_frame_loop n A (logged_sock S) c d = Some (r, c')"
  shows "\<exists>ms. reads A c ms c' \<and> uc_rx_queue c' = uc_rx_queue c \<and> frames_in ms = (case r of Ok f \<Rightarrow> [f] | Err _ \<Rightarrow> [])"
  using assms
proof (induction n arbitrary: c)
  case (Suc n)
  obtain q c1 where rcv: "recv_decoded_msg_blocking n A (logged_sock S) c d = Some (q, c1)"
    using Suc.prems(2) by (cases "recv_decoded_msg_blocking n A (logged_sock S) c d") auto
  note 1 = recv_decoded_reads [OF Suc.prems(1) rcv]
  show ?case
  proof (cases q)
    case (Err e)
    then show ?thesis using Suc.prems(2) rcv 1 by (intro exI [of _ "[]"]) auto
  next
    case (Ok m)
    have rd: "reads A c [m] c1" and q1: "uc_rx_queue c1 = uc_rx_queue c" using 1 Ok by auto
    show ?thesis
    proof (cases "\<exists>f. m = DmFrame f")
      case True
      then show ?thesis using Suc.prems(2) rcv Ok rd q1 by (intro exI [of _ "[m]"]) auto
    next
      case False
      then have "recv_frame_loop n A (logged_sock S) c1 d = Some (r, c')"
        using Suc.prems(2) rcv Ok by (cases m) auto
      from Suc.IH [OF reads_wf [OF rd] this] obtain ms where "reads A c1 ms c'" "uc_rx_queue c' = uc_rx_queue c1"
        "frames_in ms = (case r of Ok f \<Rightarrow> [f] | Err _ \<Rightarrow> [])" by auto
      then show ?thesis using reads_trans [OF rd] q1 False
        by (intro exI [of _ "m # ms"]) (auto simp: frames_in_Cons split: decoded_msg.splits)
    qed
  qed
qed simp

lemma take_frame_reads:
  fixes A :: "('s, 'e) can_id_api" and r :: "(('s, 'e) unix_frame, 'x unix_can_error) result"
  assumes "buffer_wf c" and "take_frame n A c = Some (r, c')"
  shows "\<exists>ms. reads A c ms c' \<and> uc_rx_queue c' = uc_rx_queue c \<and> frames_in ms = (case r of Ok f \<Rightarrow> [f] | Err _ \<Rightarrow> [])"
  using assms
proof (induction n arbitrary: c)
  case (Suc n)
  obtain q :: "(('s, 'e) decoded_msg option, 'x unix_can_error) result" and c1
    where nx: "next_decoded_msg A c = (q, c1)" by fastforce
  note 1 = next_decoded_reads [OF Suc.prems(1) nx]
  consider (err) e where "q = Err e" | (none) "q = Ok None" | (frame) f where "q = Ok (Some (DmFrame f))"
    | (other) m where "q = Ok (Some m)" "\<nexists>f. m = DmFrame f"
    by (metis option.exhaust result.exhaust)
  then show ?case
  proof cases
    case other
    then have rd: "reads A c [m] c1" and q1: "uc_rx_queue c1 = uc_rx_queue c" using 1 by auto
    have "take_frame n A c1 = Some (r, c')" using Suc.prems(2) nx other by (cases m) auto
    from Suc.IH [OF reads_wf [OF rd] this] obtain ms where "reads A c1 ms c'" "uc_rx_queue c' = uc_rx_queue c1"
      "frames_in ms = (case r of Ok f \<Rightarrow> [f] | Err _ \<Rightarrow> [])" by auto
    then show ?thesis using reads_trans [OF rd] q1 other(2)
      by (intro exI [of _ "m # ms"]) (auto simp: frames_in_Cons split: decoded_msg.splits)
  next
    case frame
    then show ?thesis using Suc.prems(2) nx 1 by (intro exI [of _ "[DmFrame f]"]) auto
  next
    case err
    then show ?thesis using Suc.prems(2) nx 1 by (intro exI [of _ "[]"]) auto
  next
    case none
    then show ?thesis using Suc.prems(2) nx 1 by (intro exI [of _ "[]"]) auto
  qed
qed simp

section \<open>Writing\<close>

text \<open>\<open>Write::write\<close> reports at most the bytes it was given.\<close>

definition sock_laws :: "('k, 'x) sock_ops \<Rightarrow> bool" where
  "sock_laws S \<longleftrightarrow> (\<forall>k bs m k'. so_write S k bs = (Ok m, k') \<longrightarrow> m \<le> length bs)"

lemma logged_sock_laws: "sock_laws S \<Longrightarrow> sock_laws (logged_sock S)"
  by (auto simp: sock_laws_def logged_sock_def split: prod.splits)

lemma write_all_exact:
  assumes S: "sock_laws S" and "write_all_deadline n (logged_sock S) k bs d = Some (r, k')"
  shows "in_log k' = in_log k \<and> (\<exists>p q. bs = p @ q \<and> out_log k' = out_log k @ p \<and> (r = Ok () \<longrightarrow> q = []))"
  using assms(2)
proof (induction n arbitrary: k bs)
  case (Suc n)
  show ?case
  proof (cases "bs = []")
    case True
    then show ?thesis using Suc.prems by auto
  next
    case False
    obtain w k1 where wr: "so_write (logged_sock S) k bs = (w, k1)" by (cases "so_write (logged_sock S) k bs")
    note log = logged_write [OF wr]
    have none: "\<exists>p q. bs = p @ q \<and> out_log k = out_log k @ p \<and> (r = Ok () \<longrightarrow> q = [])" if "r \<noteq> Ok ()"
      using that by (intro exI [of _ "[]"] exI [of _ bs]) auto
    show ?thesis
    proof (cases w)
      case (Ok m)
      have "m \<le> length bs" using logged_sock_laws [OF S] wr Ok unfolding sock_laws_def by blast
      show ?thesis
      proof (cases "m = 0")
        case True
        then show ?thesis using Suc.prems False wr Ok log none by auto
      next
        case m: False
        then have "write_all_deadline n (logged_sock S) k1 (drop m bs) d = Some (r, k')"
          using Suc.prems False wr Ok by simp
        from Suc.IH [OF this] obtain p q where pq: "in_log k' = in_log k1" "drop m bs = p @ q"
          "out_log k' = out_log k1 @ p" "r = result.Ok () \<longrightarrow> q = []" by auto
        have "bs = (take m bs @ p) @ q" using pq(2) by (metis append.assoc append_take_drop_id)
        then show ?thesis using pq log Ok
          by (intro conjI exI [of _ "take m bs @ p"] exI [of _ q]) auto
      qed
    next
      case (Err e)
      have log1: "in_log k1 = in_log k" "out_log k1 = out_log k" using log Err by auto
      consider (block) "e = EWouldBlock" | (intr) "e = EInterrupted" | (other) "e \<noteq> EWouldBlock" "e \<noteq> EInterrupted" by blast
      then show ?thesis
      proof cases
        case block
        obtain v k2 where wt: "wait_writable n (logged_sock S) k1 d = Some (v, k2)"
          using Suc.prems False wr Err block by (cases "wait_writable n (logged_sock S) k1 d") auto
        note log2 = logged_wait [OF wt [unfolded wait_writable_def]]
        show ?thesis
        proof (cases v)
          case (Ok u)
          then have "write_all_deadline n (logged_sock S) k2 bs d = Some (r, k')"
            using Suc.prems False wr Err block wt by simp
          from Suc.IH [OF this] show ?thesis using log1 log2 by simp
        qed (use Suc.prems False wr Err block wt log1 log2 none in auto)
      next
        case intr
        then have "write_all_deadline n (logged_sock S) k1 bs d = Some (r, k')"
          using Suc.prems False wr Err by simp
        from Suc.IH [OF this] show ?thesis using log1 by simp
      qed (use Suc.prems False wr Err log1 none in auto)
    qed
  qed
qed simp

lemma write_msg_exact:
  assumes S: "sock_laws S" and "write_msg_deadline n (logged_sock S) k t payload d = Some (r, k')"
  shows "in_log k' = in_log k \<and> (\<exists>p q. msg_bytes t payload = p @ q \<and> out_log k' = out_log k @ p \<and> (r = Ok () \<longrightarrow> q = []))"
proof (cases "length payload > 2 ^ 32 - 1")
  case True
  then show ?thesis using assms(2) by (auto simp: write_msg_deadline_def intro: exI [of _ "[]"])
next
  case False
  let ?h = "[t] @ u32_to_le_bytes (word_of_nat (length payload))"
  have msg: "msg_bytes t payload = ?h @ payload" by (simp add: msg_bytes_def)
  obtain w k1 where 1: "write_all_deadline n (logged_sock S) k ?h d = Some (w, k1)"
    using assms(2) False unfolding write_msg_deadline_def msg_header Let_def
    by (cases "write_all_deadline n (logged_sock S) k ?h d") auto
  note h = write_all_exact [OF S 1]
  show ?thesis
  proof (cases w)
    case (Ok u)
    then have 2: "write_all_deadline n (logged_sock S) k1 payload d = Some (r, k')"
      using assms(2) False 1 unfolding write_msg_deadline_def msg_header Let_def by simp
    have "in_log k1 = in_log k" "out_log k1 = out_log k @ ?h" using h Ok by auto
    moreover obtain p q where "in_log k' = in_log k1" "payload = p @ q" "out_log k' = out_log k1 @ p" "r = result.Ok () \<longrightarrow> q = []"
      using write_all_exact [OF S 2] by blast
    ultimately show ?thesis unfolding msg by (intro conjI exI [of _ "?h @ p"] exI [of _ q]) simp_all
  next
    case (Err e)
    then have "r = result.Err e \<and> k' = k1"
      using assms(2) False 1 unfolding write_msg_deadline_def msg_header Let_def by simp
    moreover obtain p q where "in_log k1 = in_log k" "?h = p @ q" "out_log k1 = out_log k @ p" using h by blast
    ultimately show ?thesis unfolding msg by (intro conjI exI [of _ p] exI [of _ "q @ payload"]) simp_all
  qed
qed

section \<open>Operations\<close>

lemma takes_set_stream:
  assumes "buffer_wf c" and "in_log k = in_log (uc_stream c)"
  shows "takes A c [] (c\<lparr>uc_stream := k\<rparr>)"
  by (rule takesI [where d = "[]" and bss = "[]"]) (use assms in \<open>auto simp: buffer_wf_def rx_pending_def\<close>)

lemma takes_wf: "takes A c ms c' \<Longrightarrow> buffer_wf c'"
  by (simp add: takes_def)

lemma takes_before: "takes A c [] c1 \<Longrightarrow> takes A c1 ms c2 \<Longrightarrow> takes A c ms c2"
  using takes_trans [of A c "[]" c1 ms c2] by simp

lemma takes_same_buffer:
  "takes A c ms c' \<Longrightarrow> uc_stream c0 = uc_stream c \<Longrightarrow> rx_pending c0 = rx_pending c \<Longrightarrow> takes A c0 ms c'"
  by (simp add: takes_def)

text \<open>Waiting for a reply after a message was written: the frames read are queued.\<close>

lemma replies_not_frames [simp]: "hello_reply (DmFrame f) = None" "filters_ack_reply q (DmFrame f) = None" "ack_reply q (DmFrame f) = None"
  by simp_all

lemma wait_reply_takes:
  fixes A :: "('s, 'e) can_id_api" and S :: "('k, 'x) sock_ops"
  assumes "buffer_wf c" and "wait_for_reply n A (logged_sock S) reply (c\<lparr>uc_stream := k\<rparr>) d = Some (r, c')"
    and "in_log k = in_log (uc_stream c)" and "\<forall>f. reply (DmFrame f) = None"
  shows "\<exists>ms. takes A c ms c' \<and> uc_rx_queue c' = uc_rx_queue c @ frames_in ms \<and> out_log (uc_stream c') = out_log k \<and>
     (r = Ok () \<longrightarrow> (\<exists>m\<in>set ms. reply m = Some (Ok ())))"
proof -
  have t: "takes A c [] (c\<lparr>uc_stream := k\<rparr>)" by (rule takes_set_stream [OF assms(1,3)])
  obtain ms where ms: "reads A (c\<lparr>uc_stream := k\<rparr>) ms c'" "uc_rx_queue c' = uc_rx_queue c @ frames_in ms"
    "r = Ok () \<longrightarrow> (\<exists>m\<in>set ms. reply m = Some (Ok ()))"
    using wait_for_reply_reads [OF takes_wf [OF t] assms(2,4)] by auto
  then show ?thesis using takes_before [OF t reads_takes [OF ms(1)]] by (auto simp: reads_def)
qed

lemma wait_for_ack_takes:
  fixes A :: "('s, 'e) can_id_api" and S :: "('k, 'x) sock_ops"
  assumes "buffer_wf c" and "wait_for_ack n A (logged_sock S) c q tmo = Some (r, c')"
  shows "\<exists>ms. takes A c ms c' \<and> uc_rx_queue c' = uc_rx_queue c @ frames_in ms \<and> out_log (uc_stream c') = out_log (uc_stream c) \<and>
     (r = Ok () \<longrightarrow> (\<exists>m\<in>set ms. (ack_reply q m :: (unit, 'x unix_can_error) result option) = Some (Ok ())))"
proof -
  obtain dl k where dl: "deadline_after (logged_sock S) (uc_stream c) tmo = (dl, k)"
    by (cases "deadline_after (logged_sock S) (uc_stream c) tmo")
  then have "wait_for_reply n A (logged_sock S) (ack_reply q) (c\<lparr>uc_stream := k\<rparr>) dl = Some (r, c')"
    using assms(2) by (simp add: wait_for_ack_def)
  from wait_reply_takes [OF assms(1) this] show ?thesis using logged_deadline [OF dl] by auto
qed

lemma wait_for_filters_ack_takes:
  fixes A :: "('s, 'e) can_id_api" and S :: "('k, 'x) sock_ops"
  assumes "buffer_wf c" and "wait_for_filters_ack n A (logged_sock S) c q tmo = Some (r, c')"
  shows "\<exists>ms. takes A c ms c' \<and> uc_rx_queue c' = uc_rx_queue c @ frames_in ms \<and> out_log (uc_stream c') = out_log (uc_stream c) \<and>
     (r = Ok () \<longrightarrow> (\<exists>m\<in>set ms. (filters_ack_reply q m :: (unit, 'x unix_can_error) result option) = Some (Ok ())))"
proof -
  obtain dl k where dl: "deadline_after (logged_sock S) (uc_stream c) tmo = (dl, k)"
    by (cases "deadline_after (logged_sock S) (uc_stream c) tmo")
  then have "wait_for_reply n A (logged_sock S) (filters_ack_reply q) (c\<lparr>uc_stream := k\<rparr>) dl = Some (r, c')"
    using assms(2) by (simp add: wait_for_filters_ack_def)
  from wait_reply_takes [OF assms(1) this] show ?thesis using logged_deadline [OF dl] by auto
qed

text \<open>The payload of a send.\<close>

definition send_payload :: "('s, 'e) can_id_api \<Rightarrow> u64 \<Rightarrow> bool \<Rightarrow> ('s, 'e) unix_frame \<Rightarrow> bytes" where
  "send_payload A q x f =
     (let (len, payload) = encode_send_frame_into A (replicate (SEND_FRAME_HDR_LEN + MAX_DATA_LEN) 0) q x f in take len payload)"

lemma write_frame_exact:
  assumes S: "sock_laws S" and "write_frame n A (logged_sock S) c q x f d = Some (r, c')"
  shows "\<exists>k p rest. c' = c\<lparr>uc_stream := k\<rparr> \<and> in_log k = in_log (uc_stream c) \<and>
     msg_bytes MSG_SEND_FRAME (send_payload A q x f) = p @ rest \<and> out_log k = out_log (uc_stream c) @ p \<and> (r = Ok () \<longrightarrow> rest = [])"
proof -
  obtain k where w: "write_msg_deadline n (logged_sock S) (uc_stream c) MSG_SEND_FRAME (send_payload A q x f) d = Some (r, k)"
    and c': "c' = c\<lparr>uc_stream := k\<rparr>"
    using assms(2) by (auto simp: write_frame_def send_payload_def case_prod_unfold Let_def)
  show ?thesis using write_msg_exact [OF S w] c' by blast
qed

text \<open>Sending with an acknowledgement, with or without deadline.\<close>

lemma send_takes:
  fixes A :: "('s, 'e) can_id_api" and S :: "('k, 'x) sock_ops"
  assumes S: "sock_laws S" and wf: "buffer_wf c" and c1: "c1 = c\<lparr>uc_next_seq := uc_next_seq c + 1, uc_stream := k0\<rparr>"
    and k0: "in_log k0 = in_log (uc_stream c)" "out_log k0 = out_log (uc_stream c)"
    and run: "(case write_frame n A (logged_sock S) c1 (uc_next_seq c) True f d of
        None \<Rightarrow> None
      | Some (Err e, c2) \<Rightarrow> Some (Err e, c2)
      | Some (Ok _, c2) \<Rightarrow> wait_for_ack n A (logged_sock S) c2 (uc_next_seq c) tmo) = Some (r, c')"
  shows "\<exists>ms. takes A c ms c' \<and> uc_rx_queue c' = uc_rx_queue c @ frames_in ms \<and>
     (r = Ok () \<longrightarrow> out_log (uc_stream c') = out_log (uc_stream c) @ msg_bytes MSG_SEND_FRAME (send_payload A (uc_next_seq c) True f)
        \<and> (\<exists>m\<in>set ms. (ack_reply (uc_next_seq c) m :: (unit, 'x unix_can_error) result option) = Some (Ok ())))"
proof -
  obtain w c2 where w: "write_frame n A (logged_sock S) c1 (uc_next_seq c) True f d = Some (w, c2)"
    using run by (cases "write_frame n A (logged_sock S) c1 (uc_next_seq c) True f d") auto
  obtain k p rest where k: "c2 = c1\<lparr>uc_stream := k\<rparr>" "in_log k = in_log (uc_stream c1)"
    "msg_bytes MSG_SEND_FRAME (send_payload A (uc_next_seq c) True f) = p @ rest" "out_log k = out_log (uc_stream c1) @ p"
    "w = Ok () \<longrightarrow> rest = []" using write_frame_exact [OF S w] by blast
  have t: "takes A c [] c2"
    by (rule takesI [where d = "[]" and bss = "[]"]) (use wf k c1 k0 in \<open>auto simp: buffer_wf_def rx_pending_def\<close>)
  have q: "uc_rx_queue c2 = uc_rx_queue c" using k c1 by simp
  show ?thesis
  proof (cases w)
    case (Ok u)
    then have a: "wait_for_ack n A (logged_sock S) c2 (uc_next_seq c) tmo = Some (r, c')" using run w by simp
    obtain ms where "takes A c2 ms c'" "uc_rx_queue c' = uc_rx_queue c2 @ frames_in ms" "out_log (uc_stream c') = out_log (uc_stream c2)"
      "r = result.Ok () \<longrightarrow> (\<exists>m\<in>set ms. (ack_reply (uc_next_seq c) m :: (unit, 'x unix_can_error) result option) = Some (result.Ok ()))"
      using wait_for_ack_takes [OF takes_wf [OF t] a] by blast
    then show ?thesis using takes_before [OF t] k k0 c1 q Ok by (intro exI [of _ ms]) auto
  next
    case (Err e)
    then show ?thesis using run w t q by (intro exI [of _ "[]"]) auto
  qed
qed

lemma uc_send_takes:
  fixes A :: "('s, 'e) can_id_api" and S :: "('k, 'x) sock_ops"
  assumes S: "sock_laws S" and wf: "buffer_wf c" and run: "uc_send n A (logged_sock S) c f = Some (r, c')"
  shows "\<exists>ms. takes A c ms c' \<and> uc_rx_queue c' = uc_rx_queue c @ frames_in ms \<and>
     (r = Ok () \<longrightarrow> out_log (uc_stream c') = out_log (uc_stream c) @ msg_bytes MSG_SEND_FRAME (send_payload A (uc_next_seq c) True f)
        \<and> (\<exists>m\<in>set ms. (ack_reply (uc_next_seq c) m :: (unit, 'x unix_can_error) result option) = Some (Ok ())))"
  by (rule send_takes [OF S wf, of _ "uc_stream c"]) (use run in \<open>auto simp: uc_send_def uc_take_seq_def\<close>)

lemma uc_send_timeout_takes:
  fixes A :: "('s, 'e) can_id_api" and S :: "('k, 'x) sock_ops"
  assumes S: "sock_laws S" and wf: "buffer_wf c" and run: "uc_send_timeout n A (logged_sock S) c f t = Some (r, c')"
  shows "\<exists>ms. takes A c ms c' \<and> uc_rx_queue c' = uc_rx_queue c @ frames_in ms \<and>
     (r = Ok () \<longrightarrow> out_log (uc_stream c') = out_log (uc_stream c) @ msg_bytes MSG_SEND_FRAME (send_payload A (uc_next_seq c) True f)
        \<and> (\<exists>m\<in>set ms. (ack_reply (uc_next_seq c) m :: (unit, 'x unix_can_error) result option) = Some (Ok ())))"
proof -
  obtain now k where now: "so_now (logged_sock S) (uc_stream c) = (now, k)" by (cases "so_now (logged_sock S) (uc_stream c)")
  show ?thesis
    by (rule send_takes [OF S wf, of _ k]) (use run now logged_now [OF now] in \<open>auto simp: uc_send_timeout_def uc_take_seq_def\<close>)
qed

lemma uc_try_send_takes:
  assumes S: "sock_laws S" and wf: "buffer_wf c" and run: "uc_try_send n A (logged_sock S) c f = Some (r, c')"
  shows "takes A c [] c' \<and> uc_rx_queue c' = uc_rx_queue c \<and>
     (r = Ok () \<longrightarrow> out_log (uc_stream c') = out_log (uc_stream c) @ msg_bytes MSG_SEND_FRAME (send_payload A (uc_next_seq c) False f))"
proof -
  let ?c = "c\<lparr>uc_next_seq := uc_next_seq c + 1\<rparr>"
  have w: "write_frame n A (logged_sock S) ?c (uc_next_seq c) False f None = Some (r, c')"
    using run by (simp add: uc_try_send_def uc_take_seq_def)
  obtain k p rest where k: "c' = ?c\<lparr>uc_stream := k\<rparr>" "in_log k = in_log (uc_stream ?c)"
    "msg_bytes MSG_SEND_FRAME (send_payload A (uc_next_seq c) False f) = p @ rest" "out_log k = out_log (uc_stream ?c) @ p"
    "r = Ok () \<longrightarrow> rest = []" using write_frame_exact [OF S w] by blast
  have "takes A c [] c'"
    by (rule takesI [where d = "[]" and bss = "[]"]) (use wf k in \<open>auto simp: buffer_wf_def rx_pending_def\<close>)
  then show ?thesis using k by auto
qed

lemma send_filters_takes:
  fixes A :: "('s, 'e) can_id_api" and S :: "('k, 'x) sock_ops"
  assumes S: "sock_laws S" and wf: "buffer_wf c" and run: "send_filters n A (logged_sock S) c = Some (r, c')"
  shows "\<exists>ms. takes A c ms c' \<and> uc_rx_queue c' = uc_rx_queue c @ frames_in ms \<and>
     (r = Ok () \<longrightarrow> out_log (uc_stream c') = out_log (uc_stream c) @ msg_bytes MSG_SET_FILTERS (encode_filters A (uc_next_seq c) (uc_filters c))
        \<and> (\<exists>m\<in>set ms. (filters_ack_reply (uc_next_seq c) m :: (unit, 'x unix_can_error) result option) = Some (Ok ())))"
proof -
  let ?c = "c\<lparr>uc_next_seq := uc_next_seq c + 1\<rparr>" and ?p = "encode_filters A (uc_next_seq c) (uc_filters c)"
  obtain w k where w: "write_msg_deadline n (logged_sock S) (uc_stream c) MSG_SET_FILTERS ?p None = Some (w, k)"
    using run by (cases "write_msg_deadline n (logged_sock S) (uc_stream c) MSG_SET_FILTERS ?p None")
      (auto simp: send_filters_def uc_take_seq_def)
  note ex = write_msg_exact [OF S w]
  let ?c2 = "?c\<lparr>uc_stream := k\<rparr>"
  have t: "takes A c [] ?c2"
    by (rule takesI [where d = "[]" and bss = "[]"]) (use wf ex in \<open>auto simp: buffer_wf_def rx_pending_def\<close>)
  show ?thesis
  proof (cases w)
    case (Ok u)
    then have a: "wait_for_filters_ack n A (logged_sock S) ?c2 (uc_next_seq c) None = Some (r, c')"
      using run w by (simp add: send_filters_def uc_take_seq_def)
    obtain ms where "takes A ?c2 ms c'" "uc_rx_queue c' = uc_rx_queue ?c2 @ frames_in ms" "out_log (uc_stream c') = out_log (uc_stream ?c2)"
      "r = result.Ok () \<longrightarrow> (\<exists>m\<in>set ms. (filters_ack_reply (uc_next_seq c) m :: (unit, 'x unix_can_error) result option) = Some (result.Ok ()))"
      using wait_for_filters_ack_takes [OF takes_wf [OF t] a] by blast
    moreover have "out_log k = out_log (uc_stream c) @ msg_bytes MSG_SET_FILTERS ?p" using ex Ok by auto
    ultimately show ?thesis using takes_before [OF t] by (intro exI [of _ ms]) auto
  next
    case (Err e)
    then show ?thesis using run w t by (intro exI [of _ "[]"]) (auto simp: send_filters_def uc_take_seq_def)
  qed
qed

end
