(* ===== verification/Unix_Client_Runs.thy ===== *)
theory Unix_Client_Runs
  imports Unix_Client_Props
begin

text \<open>
  Runs of the unix-socket client: any sequence of its operations, on any socket. A run collects the
  frames that its receives returned. The properties: frames come out in the order of the stream and none
  is lost, a successful send wrote exactly its message and saw its acknowledgement, the server's writer
  and the client's reader fit together, and the loops return.
\<close>

section \<open>Runs\<close>

datatype ('s, 'e) client_op =
    CSend "('s, 'e) unix_frame"
  | CTrySend "('s, 'e) unix_frame"
  | CSendTimeout "('s, 'e) unix_frame" duration
  | CRecv
  | CTryRecv
  | CRecvTimeout duration
  | CWaitNotEmpty
  | CSetFilters "('s, 'e) id_mask_filter list"
  | CModifyFilters "('s, 'e) id_mask_filter list \<Rightarrow> ('s, 'e) id_mask_filter list"

fun ok_list :: "('a, 'x) result \<Rightarrow> 'a list" where
  "ok_list (Ok a) = [a]"
| "ok_list (Err _) = []"

fun client_step ::
    "nat \<Rightarrow> ('s, 'e) can_id_api \<Rightarrow> ('k, 'x) sock_ops \<Rightarrow> ('s, 'e, 'k) unix_can \<Rightarrow> ('s, 'e) client_op \<Rightarrow>
     (('s, 'e) unix_frame list \<times> ('s, 'e, 'k) unix_can) option" where
  "client_step n A S c (CSend f) = map_option (\<lambda>(r, c). ([], c)) (uc_send n A S c f)"
| "client_step n A S c (CTrySend f) = map_option (\<lambda>(r, c). ([], c)) (uc_try_send n A S c f)"
| "client_step n A S c (CSendTimeout f t) = map_option (\<lambda>(r, c). ([], c)) (uc_send_timeout n A S c f t)"
| "client_step n A S c CRecv = map_option (\<lambda>(r, c). (ok_list r, c)) (uc_recv n A S c)"
| "client_step n A S c CTryRecv = map_option (\<lambda>(r, c). (ok_list r, c)) (uc_try_recv A S c)"
| "client_step n A S c (CRecvTimeout t) = map_option (\<lambda>(r, c). (ok_list r, c)) (uc_recv_timeout n A S c t)"
| "client_step n A S c CWaitNotEmpty = map_option (\<lambda>(r, c). ([], c)) (wait_not_empty n S c)"
| "client_step n A S c (CSetFilters fs) = map_option (\<lambda>(r, c). ([], c)) (uc_set_filters n A S c fs)"
| "client_step n A S c (CModifyFilters edit) = map_option (Pair []) (modify_filters n A S c edit)"

fun client_run ::
    "nat \<Rightarrow> ('s, 'e) can_id_api \<Rightarrow> ('k, 'x) sock_ops \<Rightarrow> ('s, 'e, 'k) unix_can \<Rightarrow> ('s, 'e) client_op list \<Rightarrow>
     (('s, 'e) unix_frame list \<times> ('s, 'e, 'k) unix_can) option" where
  "client_run n A S c [] = Some ([], c)"
| "client_run n A S c (op # ops) =
     (case client_step n A S c op of
        None \<Rightarrow> None
      | Some (fs, c1) \<Rightarrow> map_option (\<lambda>(gs, c2). (fs @ gs, c2)) (client_run n A S c1 ops))"

section \<open>Order of frames\<close>

text \<open>What an operation, or a run, does to the stream and the queue.\<close>

definition hands_out ::
    "('s, 'e) can_id_api \<Rightarrow> ('s, 'e, 'k \<times> bytes \<times> bytes) unix_can \<Rightarrow> ('s, 'e) unix_frame list \<Rightarrow>
     ('s, 'e, 'k \<times> bytes \<times> bytes) unix_can \<Rightarrow> bool" where
  "hands_out A c fs c' \<longleftrightarrow> (\<exists>ms. takes A c ms c' \<and> uc_rx_queue c @ frames_in ms = fs @ uc_rx_queue c')"

lemma hands_outI: "takes A c ms c' \<Longrightarrow> uc_rx_queue c @ frames_in ms = fs @ uc_rx_queue c' \<Longrightarrow> hands_out A c fs c'"
  unfolding hands_out_def by blast

lemma hands_out_trans:
  assumes "hands_out A c fs c1" and "hands_out A c1 gs c2"
  shows "hands_out A c (fs @ gs) c2"
proof -
  obtain ms where ms: "takes A c ms c1" "uc_rx_queue c @ frames_in ms = fs @ uc_rx_queue c1"
    using assms(1) unfolding hands_out_def by blast
  obtain ns where ns: "takes A c1 ns c2" "uc_rx_queue c1 @ frames_in ns = gs @ uc_rx_queue c2"
    using assms(2) unfolding hands_out_def by blast
  have "uc_rx_queue c @ frames_in (ms @ ns) = fs @ uc_rx_queue c1 @ frames_in ns" using ms(2) by (metis append.assoc frames_in_append)
  then show ?thesis using takes_trans [OF ms(1) ns(1)] ns(2) by (intro hands_outI [of A c "ms @ ns"]) simp_all
qed

lemma recv_front:
  assumes wf: "buffer_wf c"
    and front: "\<And>f fs. uc_rx_queue c = f # fs \<Longrightarrow> r = Ok f \<and> c' = c\<lparr>uc_rx_queue := fs\<rparr>"
    and empty: "uc_rx_queue c = [] \<Longrightarrow>
      \<exists>ms. takes A c ms c' \<and> uc_rx_queue c' = uc_rx_queue c \<and> frames_in ms = (case r of Ok f \<Rightarrow> [f] | Err _ \<Rightarrow> [])"
  shows "hands_out A c (ok_list r) c'"
proof (cases "uc_rx_queue c")
  case Nil
  then obtain ms where "takes A c ms c'" "uc_rx_queue c' = []" "frames_in ms = (case r of Ok f \<Rightarrow> [f] | Err _ \<Rightarrow> [])"
    using empty by auto
  then show ?thesis using Nil by (intro hands_outI [of A c ms]) (cases r; simp)+
next
  case (Cons f fs)
  then have r: "r = Ok f" and c': "c' = c\<lparr>uc_rx_queue := fs\<rparr>" using front by auto
  have "takes A c [] c'"
    by (rule takesI [where d = "[]" and bss = "[]"]) (use wf c' in \<open>auto simp: buffer_wf_def rx_pending_def\<close>)
  then show ?thesis using Cons r c' by (intro hands_outI [of A c "[]"]) simp_all
qed

lemma uc_recv_hands_out:
  assumes wf: "buffer_wf c" and run: "uc_recv n A (logged_sock S) c = Some (r, c')"
  shows "hands_out A c (ok_list r) c'"
proof (rule recv_front [OF wf])
  assume "uc_rx_queue c = []"
  then show "\<exists>ms. takes A c ms c' \<and> uc_rx_queue c' = uc_rx_queue c \<and> frames_in ms = (case r of Ok f \<Rightarrow> [f] | Err _ \<Rightarrow> [])"
    using run recv_frame_loop_reads [OF wf, of n A S None r c'] by (auto simp: uc_recv_def intro: reads_takes)
qed (use run in \<open>auto simp: uc_recv_def\<close>)

lemma uc_recv_timeout_hands_out:
  assumes wf: "buffer_wf c" and run: "uc_recv_timeout n A (logged_sock S) c t = Some (r, c')"
  shows "hands_out A c (ok_list r) c'"
proof (rule recv_front [OF wf])
  assume e: "uc_rx_queue c = []"
  obtain now k where now: "so_now (logged_sock S) (uc_stream c) = (now, k)" by (cases "so_now (logged_sock S) (uc_stream c)")
  have t: "takes A c [] (c\<lparr>uc_stream := k\<rparr>)" using takes_set_stream [OF wf] logged_now [OF now] by blast
  have "recv_frame_loop n A (logged_sock S) (c\<lparr>uc_stream := k\<rparr>) (Some (now + t)) = Some (r, c')"
    using run e now by (simp add: uc_recv_timeout_def)
  from recv_frame_loop_reads [OF takes_wf [OF t] this]
  show "\<exists>ms. takes A c ms c' \<and> uc_rx_queue c' = uc_rx_queue c \<and> frames_in ms = (case r of Ok f \<Rightarrow> [f] | Err _ \<Rightarrow> [])"
    using takes_before [OF t] reads_takes by fastforce
qed (use run in \<open>auto simp: uc_recv_timeout_def\<close>)

lemma uc_try_recv_hands_out:
  fixes A :: "('s, 'e) can_id_api" and S :: "('k, 'x) sock_ops"
  assumes wf: "buffer_wf c" and run: "uc_try_recv A (logged_sock S) c = Some (r, c')"
  shows "hands_out A c (ok_list r) c'"
proof (rule recv_front [OF wf])
  assume e: "uc_rx_queue c = []"
  obtain b c1 where more: "read_more_once (logged_sock S) c = (b, c1)" by (cases "read_more_once (logged_sock S) c")
  have t: "takes A c [] c1" and q: "uc_rx_queue c1 = uc_rx_queue c"
    using read_more_reads [OF wf more, of A] by (auto intro: reads_takes)
  show "\<exists>ms. takes A c ms c' \<and> uc_rx_queue c' = uc_rx_queue c \<and> frames_in ms = (case r of Ok f \<Rightarrow> [f] | Err _ \<Rightarrow> [])"
  proof (cases b)
    case (Ok u)
    then have "take_frame (Suc (length (uc_rx_bytes c1))) A c1 = Some (r, c')"
      using run e more by (simp add: uc_try_recv_def)
    from take_frame_reads [OF takes_wf [OF t] this] show ?thesis
      using takes_before [OF t] reads_takes q by fastforce
  next
    case (Err x)
    then show ?thesis using run e more t q by (intro exI [of _ "[]"]) (auto simp: uc_try_recv_def)
  qed
qed (use run in \<open>auto simp: uc_try_recv_def\<close>)

lemma queueing_hands_out: "\<exists>ms. takes A c ms c' \<and> uc_rx_queue c' = uc_rx_queue c @ frames_in ms \<Longrightarrow> hands_out A c [] c'"
  unfolding hands_out_def by auto

lemma filters_hands_out:
  assumes S: "sock_laws S" and wf: "buffer_wf c" and run: "send_filters n A (logged_sock S) (c\<lparr>uc_filters := fs\<rparr>) = Some (r, c')"
  shows "hands_out A c [] c'"
proof -
  have wf': "buffer_wf (c\<lparr>uc_filters := fs\<rparr>)" using wf by (simp add: buffer_wf_def)
  obtain ms where ms: "takes A (c\<lparr>uc_filters := fs\<rparr>) ms c'" "uc_rx_queue c' = uc_rx_queue c @ frames_in ms"
    using send_filters_takes [OF S wf' run] by auto
  have "takes A c ms c'" by (rule takes_same_buffer [OF ms(1)]) (simp_all add: rx_pending_def)
  then show ?thesis using ms(2) by (intro hands_outI [of A c ms]) simp_all
qed

lemma client_step_hands_out:
  assumes S: "sock_laws S" and wf: "buffer_wf c" and run: "client_step n A (logged_sock S) c op = Some (fs, c')"
  shows "hands_out A c fs c'"
proof (cases op)
  case (CSend f)
  then obtain r where "uc_send n A (logged_sock S) c f = Some (r, c')" and fs: "fs = []" using run by auto
  from uc_send_takes [OF S wf this(1)] show ?thesis unfolding fs by (intro queueing_hands_out) blast
next
  case (CTrySend f)
  then show ?thesis using run uc_try_send_takes [OF S wf] by (auto intro!: hands_outI [of A c "[]"])
next
  case (CSendTimeout f t)
  then obtain r where "uc_send_timeout n A (logged_sock S) c f t = Some (r, c')" and fs: "fs = []" using run by auto
  from uc_send_timeout_takes [OF S wf this(1)] show ?thesis unfolding fs by (intro queueing_hands_out) blast
next
  case CRecv
  then show ?thesis using run uc_recv_hands_out [OF wf] by auto
next
  case CTryRecv
  then show ?thesis using run uc_try_recv_hands_out [OF wf] by auto
next
  case (CRecvTimeout t)
  then show ?thesis using run uc_recv_timeout_hands_out [OF wf] by auto
next
  case CWaitNotEmpty
  then obtain r where "wait_not_empty n (logged_sock S) c = Some (r, c')" and fs: "fs = []" using run by auto
  then obtain k where "c' = c\<lparr>uc_stream := k\<rparr>" "in_log k = in_log (uc_stream c)"
    using logged_wait [of n S False "uc_stream c" None] unfolding wait_not_empty_def wait_readable_def
    by (cases "uc_rx_queue c = []") (auto intro: that [of "uc_stream c"])
  then show ?thesis using takes_set_stream [OF wf, of k A] fs by (auto intro!: hands_outI [of A c "[]"])
next
  case (CSetFilters gs)
  then show ?thesis using run filters_hands_out [OF S wf] by (auto simp: uc_set_filters_def)
next
  case (CModifyFilters edit)
  then show ?thesis using run filters_hands_out [OF S wf] by (auto simp: modify_filters_def)
qed

lemma hands_out_wf: "hands_out A c fs c' \<Longrightarrow> buffer_wf c'"
  unfolding hands_out_def takes_def by blast

lemma client_run_hands_out:
  assumes S: "sock_laws S"
  shows "buffer_wf c \<Longrightarrow> client_run n A (logged_sock S) c ops = Some (fs, c') \<Longrightarrow> hands_out A c fs c'"
proof (induction ops arbitrary: c fs)
  case Nil
  then show ?case using hands_outI [OF reads_takes [OF reads_refl]] by auto
next
  case (Cons op ops)
  obtain gs c1 where st: "client_step n A (logged_sock S) c op = Some (gs, c1)"
    using Cons.prems(2) by (cases "client_step n A (logged_sock S) c op") auto
  then obtain hs where "client_run n A (logged_sock S) c1 ops = Some (hs, c')" "fs = gs @ hs"
    using Cons.prems(2) by auto
  moreover have "hands_out A c gs c1" by (rule client_step_hands_out [OF S Cons.prems(1) st])
  ultimately show ?case using Cons.IH [OF hands_out_wf] hands_out_trans by blast
qed

lemma connect_hands_out:
  assumes "connect n A (logged_sock S) k = Some (Ok c)"
  shows "hands_out A \<lparr>uc_stream = k, uc_rx_queue = [], uc_rx_bytes = [], uc_rx_off = 0, uc_next_seq = 1, uc_filters = []\<rparr> [] c"
    (is "hands_out A ?c [] c")
proof -
  obtain r where w: "wait_for_hello n A (logged_sock S) ?c = Some (r, c)"
    using assms by (auto simp: connect_def split: option.splits result.splits unix_can_error.splits)
  have "buffer_wf ?c" by (simp add: buffer_wf_def)
  from wait_for_reply_reads [OF this w [unfolded wait_for_hello_def]]
  show ?thesis using reads_takes by (intro queueing_hands_out) fastforce
qed

section \<open>The server's bytes\<close>

fun dm_of :: "('s, 'e) server_msg \<Rightarrow> ('s, 'e) decoded_msg" where
  "dm_of (SmFrame f) = DmFrame f"
| "dm_of (SmAck q s) = DmAck q s"
| "dm_of SmHello = DmHello"
| "dm_of (SmFiltersAck q s) = DmFiltersAck q s"

fun server_bytes :: "('s, 'e) can_id_api \<Rightarrow> ('s, 'e) server_msg \<Rightarrow> bytes" where
  "server_bytes A (SmFrame f) = msg_bytes MSG_FRAME
     ([frame_flags f False] @ u32_to_le_bytes (frame_id_raw A (uf_id f)) @ [uf_dlc f] @ take (unat (uf_dlc f)) (uf_data f))"
| "server_bytes A (SmAck q s) = msg_bytes MSG_ACK (u64_to_le_bytes q @ [s])"
| "server_bytes A SmHello = msg_bytes MSG_HELLO []"
| "server_bytes A (SmFiltersAck q s) = msg_bytes MSG_FILTERS_ACK (u64_to_le_bytes q @ [s])"

fun msg_wf :: "('s, 'e) server_msg \<Rightarrow> bool" where
  "msg_wf (SmFrame f) = frame_wf f"
| "msg_wf _ = True"

lemma wire_msg_bytes:
  assumes "length p \<le> 4096" and "decode_msg A t p = (Ok m :: (('s, 'e) decoded_msg, unit unix_can_error) result)"
  shows "wire_msg A (msg_bytes t p) m"
proof -
  let ?l = "word_of_nat (length p) :: u32"
  have l: "unat ?l = length p" using assms(1) by (intro unat_of_nat32) simp
  have "slice_of 1 5 (msg_bytes t p) = u32_to_le_bytes ?l"
    unfolding msg_bytes_def by (simp add: slice_of_def)
  then show ?thesis using assms l unfolding wire_msg_def by (simp add: msg_bytes_def)
qed

lemma server_bytes_wire: "can_id_laws A \<Longrightarrow> msg_wf m \<Longrightarrow> wire_msg A (server_bytes A m) (dm_of m)"
proof (cases m)
  case (SmFrame f)
  assume A: "can_id_laws A" and "msg_wf m"
  then have f: "frame_wf f" using SmFrame by simp
  then have "unat (uf_dlc f) \<le> 64" by (simp add: frame_wf_def)
  then show ?thesis using SmFrame decode_frame_encoded [OF A f]
    by (simp only: server_bytes.simps dm_of.simps) (rule wire_msg_bytes, auto simp: decode_msg_def wire_consts)
qed (auto intro!: wire_msg_bytes simp: decode_msg_def wire_consts decode_ack_encoded)

lemma server_bytes_write:
  assumes "msg_wf m" and "length fb = 70" and "length ab = 9"
  shows "\<exists>t p fb' ab'. writer_message A fb ab m = ((t, p), fb', ab') \<and> server_bytes A m = msg_bytes t p \<and> length p \<le> 70 \<and>
     length fb' = 70 \<and> length ab' = 9"
proof (cases m)
  case (SmFrame f)
  obtain n fb' where e: "encode_frame_into A fb f = (n, fb')" by (cases "encode_frame_into A fb f")
  have "unat (uf_dlc f) \<le> 64" using assms(1) SmFrame by (simp add: frame_wf_def)
  then show ?thesis using SmFrame assms encode_frame_bytes [OF _ assms(2) e] e by auto
qed (use assms in \<open>auto simp: encode_ack_bytes Let_def\<close>)

lemma writer_pipe:
  "list_all msg_wf ms \<Longrightarrow> length fb = 70 \<Longrightarrow> length ab = 9 \<Longrightarrow>
   client_writer_loop A pipe_write_all i fb ab ms w = (w @ concat (map (server_bytes A) ms), [])"
proof (induction ms arbitrary: fb ab w)
  case (Cons m ms)
  obtain t p fb' ab' where m: "writer_message A fb ab m = ((t, p), fb', ab')" "server_bytes A m = msg_bytes t p" "length p \<le> 70"
    "length fb' = 70" "length ab' = 9"
    using server_bytes_write [of m fb ab A] Cons.prems by auto
  have "write_msg pipe_write_all w t p = (Ok (), w @ msg_bytes t p)" using m(3) by (intro write_msg_pipe) simp
  then show ?case using Cons m by simp
qed simp

text \<open>A stream splits into messages in one way.\<close>

lemma wire_msg_unique:
  assumes "wire_msg A b m" and "wire_msg A b' m'" and "b @ x = b' @ y"
  shows "b = b' \<and> m = m' \<and> x = y"
proof -
  have "slice_of 1 5 b = slice_of 1 5 (b @ x)" "slice_of 1 5 b' = slice_of 1 5 (b' @ y)"
    using assms(1,2) by (simp_all add: wire_msg_def slice_of_append1)
  then have "length b - 5 = length b' - 5" using assms unfolding wire_msg_def by metis
  then have "length b = length b'" using assms(1,2) unfolding wire_msg_def by linarith
  then have "b = b'" "x = y" using assms(3) by auto
  then show ?thesis using assms(1,2) by (auto simp: wire_msg_def)
qed

lemma wire_msgs_prefix:
  assumes "list_all2 (wire_msg A) bss ms" and "list_all2 (wire_msg A) css ns" and "concat bss @ x = concat css"
  shows "\<exists>rest. ns = ms @ rest"
  using assms
proof (induction arbitrary: css ns rule: list_all2_induct)
  case (Cons b bss m ms)
  have "b \<noteq> []" using Cons.hyps by (auto simp: wire_msg_def)
  then obtain c css' where css: "css = c # css'" using Cons.prems by (cases css) auto
  then obtain n ns' where ns: "ns = n # ns'" "wire_msg A c n" "list_all2 (wire_msg A) css' ns'"
    using Cons.prems(1) by (auto simp: list_all2_Cons1)
  have "b = c \<and> m = n \<and> concat bss @ x = concat css'"
    using wire_msg_unique [OF Cons.hyps(1) ns(2), of "concat bss @ x" "concat css'"] Cons.prems(2) css by simp
  then show ?case using Cons.IH [OF ns(3)] ns(1) by auto
qed simp

text \<open>What a connected client has handed out is what it read from the stream, in order.\<close>

lemma connected_run:
  assumes S: "sock_laws S" and con: "connect n A (logged_sock S) (k, [], []) = Some (Ok c)"
    and run: "client_run m A (logged_sock S) c ops = Some (fs, c')"
  shows "\<exists>bss ms. in_log (uc_stream c') = concat bss @ rx_pending c' \<and> list_all2 (wire_msg A) bss ms \<and>
     frames_in ms = fs @ uc_rx_queue c'"
proof -
  note h = connect_hands_out [OF con]
  from hands_out_trans [OF h client_run_hands_out [OF S hands_out_wf [OF h] run]]
  show ?thesis unfolding hands_out_def takes_def by (fastforce simp: rx_pending_def in_log_def)
qed

lemma send_payload_decodes:
  assumes "can_id_laws A" and f: "frame_wf f"
  shows "decode_send_frame A (send_payload A q x f) = Ok \<lparr>sf_seq = q, sf_expect_ack = x, sf_frame = f\<rparr>"
proof -
  obtain n out where e: "encode_send_frame_into A (replicate 78 0) q x f = (n, out)"
    by (cases "encode_send_frame_into A (replicate 78 0) q x f")
  show ?thesis using decode_send_frame_encoded [OF assms] encode_send_frame_bytes(1) [OF f _ e]
    by (simp add: send_payload_def SEND_FRAME_HDR_LEN_def MAX_DATA_LEN_def e)
qed

lemma wire_msg_frame_wf: "wire_msg A w (DmFrame f) \<Longrightarrow> frame_wf f"
  unfolding wire_msg_def by (auto simp: decode_msg_def split: if_splits result.splits dest: decode_frame_wf)

lemma wire_frames_wf: "list_all2 (wire_msg A) bss ms \<Longrightarrow> list_all frame_wf (frames_in ms)"
proof (induction bss ms rule: list_all2_induct)
  case (Cons bs bss m ms)
  then show ?case by (cases m) (auto dest: wire_msg_frame_wf)
qed simp

lemma ack_reply_ok: "(ack_reply q m :: (unit, 'x unix_can_error) result option) = Some (Ok ()) \<Longrightarrow> m = DmAck q ACK_OK"
  by (cases m) (auto split: if_splits)

lemma frames_in_dm_of: "frames_in (map dm_of ms) = frames_of ms"
  by (induction ms rule: frames_of.induct) auto

text \<open>The server's writer and the client's reader.\<close>

lemma connected_to_server:
  assumes S: "sock_laws S" and A: "can_id_laws A" and con: "connect n A (logged_sock S) (k, [], []) = Some (Ok c)"
    and run: "client_run m A (logged_sock S) c ops = Some (fs, c')"
    and wf: "list_all msg_wf sms" and bufs: "length fb = 70" "length ab = 9"
    and w: "client_writer_loop A pipe_write_all i fb ab sms [] = (in_log (uc_stream c') @ later, es)"
  shows "\<exists>rest. frames_of sms = fs @ uc_rx_queue c' @ rest \<and> (later = [] \<and> rx_pending c' = [] \<longrightarrow> rest = [])"
proof -
  obtain bss ms where b: "in_log (uc_stream c') = concat bss @ rx_pending c'" "list_all2 (wire_msg A) bss ms"
    "frames_in ms = fs @ uc_rx_queue c'" using connected_run [OF S con run] by blast
  have "in_log (uc_stream c') @ later = concat (map (server_bytes A) sms)" using w writer_pipe [OF wf bufs, of A i "[]"] by simp
  then have eq: "concat bss @ (rx_pending c' @ later) = concat (map (server_bytes A) sms)" using b(1) by simp
  have s: "list_all2 (wire_msg A) (map (server_bytes A) sms) (map dm_of sms)"
    using wf server_bytes_wire [OF A] by (auto simp: list_all2_conv_all_nth list_all_length)
  obtain rest where r: "map dm_of sms = ms @ rest" using wire_msgs_prefix [OF b(2) s eq] by blast
  have "frames_of sms = frames_in (ms @ rest)" unfolding frames_in_dm_of [symmetric] r by (rule refl)
  moreover have "rest = []" if "later = []" "rx_pending c' = []"
    using wire_msgs_prefix [OF s b(2), of "[]"] eq that r by simp
  ultimately show ?thesis using b(3) by (intro exI [of _ "frames_in rest"]) simp
qed

section \<open>Properties\<close>

text \<open>A socket for the examples: it delivers the chunks it is given, takes all it is sent, and is always ready.\<close>

definition chunk_sock :: "(bytes list, unit) sock_ops" where
  "chunk_sock =
     \<lparr>so_read = \<lambda>k n. (case k of [] \<Rightarrow> (Ok [], []) | c # cs \<Rightarrow> if c = [] then (Err EWouldBlock, cs) else (Ok c, cs)),
      so_write = \<lambda>k bs. (Ok (length bs), k),
      so_poll = \<lambda>k w t. (Ok 1, k),
      so_now = \<lambda>k. (0, k)\<rparr>"

lemma chunk_sock_laws: "sock_laws chunk_sock"
  by (simp add: sock_laws_def chunk_sock_def)

text \<open>An example connection: the handshake, a frame, the acknowledgement of the first send, another frame.\<close>

definition example_chunks :: "bytes list" where
  "example_chunks = [[5, 0], [], [0, 0, 0, 2, 8, 0, 0, 0, 0, 35, 1, 0, 0, 2, 1, 2], [3, 9, 0, 0, 0, 1, 0, 0, 0, 0, 0, 0, 0, 0],
     [2, 8, 0, 0, 0, 0, 35, 1, 0, 0, 2, 1, 2]]"

definition example_client :: "(11 word, 29 word, bytes list \<times> bytes \<times> bytes) unix_can" where
  "example_client = \<lparr>uc_stream = (drop 3 example_chunks, concat (take 3 example_chunks), []), uc_rx_queue = [],
     uc_rx_bytes = concat (take 3 example_chunks), uc_rx_off = 5, uc_next_seq = 1, uc_filters = []\<rparr>"

definition example_client_sent :: "(11 word, 29 word, bytes list \<times> bytes \<times> bytes) unix_can" where
  "example_client_sent = \<lparr>uc_stream = (drop 4 example_chunks, concat (take 4 example_chunks),
       msg_bytes MSG_SEND_FRAME (send_payload bit_id_api 1 True example_frame)),
     uc_rx_queue = [example_frame], uc_rx_bytes = concat (take 4 example_chunks), uc_rx_off = 32, uc_next_seq = 2, uc_filters = []\<rparr>"

abbreviation nine :: nat where "nine \<equiv> Suc (Suc (Suc (Suc (Suc (Suc (Suc (Suc (Suc 0))))))))"

lemmas client_reads_simps = wait_for_hello_def next_decoded_msg_def with_next_msg_def read_more_once_def
  wait_readable_def remaining_ms_def logged_sock_def chunk_sock_def slice_of_def u32_from_le_bytes_def decode_msg_def wire_consts

lemma send_payload_length:
  assumes "frame_wf f"
  shows "length (send_payload A q x f) \<le> 78"
proof -
  obtain n out where e: "encode_send_frame_into A (replicate 78 0) q x f = (n, out)"
    by (cases "encode_send_frame_into A (replicate 78 0) q x f")
  then show ?thesis using encode_send_frame_bytes(2) [OF assms _ e]
    by (simp add: send_payload_def SEND_FRAME_HDR_LEN_def MAX_DATA_LEN_def)
qed

text \<open>A socket that takes all it is sent takes a message whole.\<close>

lemma eager_write_all:
  assumes "\<And>k bs. so_write S k bs = (Ok (length bs), k)"
  shows "write_all_deadline (Suc (Suc n)) (logged_sock S) (k, i, out) bs d = Some (Ok (), (k, i, out @ bs))"
  using assms by (simp add: logged_sock_def)

lemma eager_write_msg:
  assumes "\<And>k bs. so_write S k bs = (Ok (length bs), k)" and "length p < 2 ^ 32"
  shows "write_msg_deadline (Suc (Suc n)) (logged_sock S) (k, i, out) t p d = Some (Ok (), (k, i, out @ msg_bytes t p))"
proof -
  have "\<not> length p > 2 ^ 32 - 1" using assms(2) by simp
  then show ?thesis unfolding write_msg_deadline_def msg_header Let_def
    by (simp only: eager_write_all [OF assms(1)] option.case result.case prod.case if_False msg_bytes_def append_assoc)
qed

lemma eager_write_frame:
  assumes "\<And>k bs. so_write S k bs = (Ok (length bs), k)" and "frame_wf f"
  shows "write_frame (Suc (Suc n)) A (logged_sock S) c q x f d =
     (let (k, i, out) = uc_stream c in Some (Ok (), c\<lparr>uc_stream := (k, i, out @ msg_bytes MSG_SEND_FRAME (send_payload A q x f))\<rparr>))"
proof -
  have "length (send_payload A q x f) < 2 ^ 32" using send_payload_length [OF assms(2), of A q x] by simp
  from eager_write_msg [OF assms(1) this] show ?thesis
    unfolding write_frame_def by (cases "uc_stream c") (simp add: send_payload_def Let_def case_prod_unfold)
qed

lemma chunk_sock_write_frame:
  "frame_wf f \<Longrightarrow> write_frame (Suc (Suc n)) A (logged_sock chunk_sock) c q x f d =
     (let (k, i, out) = uc_stream c in Some (Ok (), c\<lparr>uc_stream := (k, i, out @ msg_bytes MSG_SEND_FRAME (send_payload A q x f))\<rparr>))"
  by (rule eager_write_frame) (simp_all add: chunk_sock_def)

lemma example_frame_decodes: "decode_frame bit_id_api [0, 35, 1, 0, 0, 2, 1, 2] = Ok example_frame"
  by (simp add: decode_frame_def decode_frame_from_parts_def unix_frame_from_parts_def bit_id_api_def example_frame_def
    slice_of_def u32_from_le_bytes_def copy_into_def wire_consts)

lemma example_connect: "connect nine bit_id_api (logged_sock chunk_sock) (example_chunks, [], []) = Some (Ok example_client)"
  by (simp add: connect_def client_reads_simps example_chunks_def example_client_def)

lemma example_send: "uc_send nine bit_id_api (logged_sock chunk_sock) example_client example_frame = Some (Ok (), example_client_sent)"
proof -
  let ?out = "msg_bytes MSG_SEND_FRAME (send_payload bit_id_api 1 True example_frame)"
  let ?c = "example_client\<lparr>uc_next_seq := 2, uc_stream := (drop 3 example_chunks, concat (take 3 example_chunks), ?out)\<rparr>"
  have "uc_send nine bit_id_api (logged_sock chunk_sock) example_client example_frame =
      wait_for_ack nine bit_id_api (logged_sock chunk_sock) ?c 1 None"
    by (simp add: uc_send_def chunk_sock_write_frame [OF example_frame_wf] uc_take_seq_def example_client_def)
  also have "\<dots> = Some (Ok (), example_client_sent)"
    by (simp add: wait_for_ack_def deadline_after_def client_reads_simps example_frame_decodes decode_ack_def u64_from_le_bytes_def
          example_client_def example_client_sent_def example_chunks_def)
  finally show ?thesis .
qed

lemma example_client_run:
  "\<exists>c'. client_run nine bit_id_api (logged_sock chunk_sock) example_client [CSend example_frame, CRecv, CTryRecv] =
     Some ([example_frame, example_frame], c') \<and> in_log (uc_stream c') = concat example_chunks \<and> uc_rx_queue c' = [] \<and> rx_pending c' = []"
  by (simp add: example_send uc_recv_def uc_try_recv_def example_client_sent_def)
     (simp add: client_reads_simps example_chunks_def example_frame_decodes in_log_def rx_pending_def)

text \<open>C27: Every frame that the client hands out or queues is well-formed, whatever bytes the peer sends: its array
  has 64 bytes, its length is at most 64, the bytes beyond it are zero; and so it can be sent again and is
  decoded by the server to the same frame.\<close>

theorem client_frames_typed:
  assumes S: "sock_laws S" and con: "connect n A (logged_sock S) (k, [], []) = Some (Ok c)"
    and run: "client_run m A (logged_sock S) c ops = Some (fs, c')" and f: "f \<in> set (fs @ uc_rx_queue c')" and A: "can_id_laws A"
  shows "frame_wf f \<and> decode_send_frame A (send_payload A q x f) = Ok \<lparr>sf_seq = q, sf_expect_ack = x, sf_frame = f\<rparr>"
proof -
  obtain bss ms where ms: "list_all2 (wire_msg A) bss ms" "frames_in ms = fs @ uc_rx_queue c'" using connected_run [OF S con run] by blast
  have "frame_wf f" using f wire_frames_wf [OF ms(1)] unfolding ms(2) by (simp add: list_all_iff)
  then show ?thesis using send_payload_decodes [OF A] by simp
qed

theorem client_frames_typed_witness:
  "frame_wf example_frame \<and> decode_send_frame bit_id_api (send_payload bit_id_api 5 True example_frame) =
     Ok \<lparr>sf_seq = 5, sf_expect_ack = True, sf_frame = example_frame\<rparr>"
proof -
  obtain c' where run: "client_run nine bit_id_api (logged_sock chunk_sock) example_client [CSend example_frame, CRecv, CTryRecv] =
     Some ([example_frame, example_frame], c')"
    using example_client_run by blast
  show ?thesis by (rule client_frames_typed [OF chunk_sock_laws example_connect run _ bit_id_laws]) simp
qed

text \<open>C28: A send that succeeds has put on the stream exactly one message, which the server decodes to this frame,
  with the client's next sequence number and the wish for an acknowledgement, and has read the
  acknowledgement of this number with status \<open>ACK_OK\<close>; the frames read meanwhile are queued in order.\<close>

theorem client_send_ok:
  fixes A :: "('s, 'e) can_id_api" and S :: "('k, 'x) sock_ops"
  assumes S: "sock_laws S" and A: "can_id_laws A" and wf: "buffer_wf c" and f: "frame_wf f"
    and run: "uc_send n A (logged_sock S) c f = Some (Ok (), c')"
  shows "\<exists>p ms. out_log (uc_stream c') = out_log (uc_stream c) @ msg_bytes MSG_SEND_FRAME p \<and>
     decode_send_frame A p = Ok \<lparr>sf_seq = uc_next_seq c, sf_expect_ack = True, sf_frame = f\<rparr> \<and>
     takes A c ms c' \<and> DmAck (uc_next_seq c) ACK_OK \<in> set ms \<and> uc_rx_queue c' = uc_rx_queue c @ frames_in ms"
proof -
  have p: "decode_send_frame A (send_payload A q True f) = Ok \<lparr>sf_seq = q, sf_expect_ack = True, sf_frame = f\<rparr>" for q
    by (rule send_payload_decodes [OF A f])
  obtain ms m where "takes A c ms c'" "uc_rx_queue c' = uc_rx_queue c @ frames_in ms" "m \<in> set ms"
    "out_log (uc_stream c') = out_log (uc_stream c) @ msg_bytes MSG_SEND_FRAME (send_payload A (uc_next_seq c) True f)"
    "(ack_reply (uc_next_seq c) m :: (unit, 'x unix_can_error) result option) = Some (Ok ())"
    using uc_send_takes [OF S wf run] by blast
  then show ?thesis using p ack_reply_ok by blast
qed

theorem client_send_ok_witness:
  "\<exists>p ms. out_log (uc_stream example_client_sent) = msg_bytes MSG_SEND_FRAME p \<and>
     decode_send_frame bit_id_api p = Ok \<lparr>sf_seq = 1, sf_expect_ack = True, sf_frame = example_frame\<rparr> \<and>
     takes bit_id_api example_client ms example_client_sent \<and> DmAck 1 ACK_OK \<in> set ms \<and> frames_in ms = [example_frame]"
proof -
  have "buffer_wf example_client" by (simp add: buffer_wf_def example_client_def example_chunks_def)
  from client_send_ok [OF chunk_sock_laws bit_id_laws this example_frame_wf example_send] show ?thesis
    by (simp add: example_client_def example_client_sent_def out_log_def) metis
qed

end
