(* ===== verification/Unix_Client_Live.thy ===== *)
theory Unix_Client_Live
  imports Unix_Client_Runs
begin

text \<open>
  The unix-socket client returns: \<open>try_recv\<close> always, and \<open>recv\<close> once the stream has delivered a frame,
  however the stream is cut into chunks and however often it has to be waited for. Also a write that a
  timeout cuts.
\<close>

section \<open>The loop of \<open>try_recv\<close>\<close>

lemma with_next_msg_shrinks:
  assumes "with_next_msg c f = (Ok (Some out), c')"
  shows "length (uc_rx_bytes c') - uc_rx_off c' < length (uc_rx_bytes c) - uc_rx_off c"
  using assms unfolding with_next_msg_def Let_def by (auto split: if_splits result.splits)

lemma take_frame_returns:
  fixes A :: "('s, 'e) can_id_api"
  shows "length (uc_rx_bytes c) - uc_rx_off c < n \<Longrightarrow>
    \<exists>(r :: (('s, 'e) unix_frame, 'x unix_can_error) result) c'. take_frame n A c = Some (r, c')"
proof (induction n arbitrary: c)
  case (Suc n)
  obtain q :: "(('s, 'e) decoded_msg option, 'x unix_can_error) result" and c1
    where nx: "next_decoded_msg A c = (q, c1)" by fastforce
  consider (stop) "\<nexists>m. q = Ok (Some m)" | (msg) m where "q = Ok (Some m)" by blast
  then show ?case
  proof cases
    case stop
    then show ?thesis using nx by (auto split: result.splits option.splits)
  next
    case msg
    then have "with_next_msg c (decode_msg A :: u8 \<Rightarrow> bytes \<Rightarrow> (('s, 'e) decoded_msg, 'x unix_can_error) result) = (Ok (Some m), c1)"
      using nx by (simp add: next_decoded_msg_def)
    from with_next_msg_shrinks [OF this] have "length (uc_rx_bytes c1) - uc_rx_off c1 < n" using Suc.prems by linarith
    from Suc.IH [OF this] show ?thesis using nx msg by (auto split: decoded_msg.splits)
  qed
qed simp

section \<open>Streams that deliver\<close>

text \<open>The stream delivers these bytes: each read gives some of them, or would block and then polls ready.\<close>

inductive delivers :: "('k, 'x) sock_ops \<Rightarrow> 'k \<Rightarrow> bytes \<Rightarrow> bool" for S where
  delivers_nil: "delivers S k []"
| delivers_data: "so_read S k 4096 = (Ok data, k1) \<Longrightarrow> data \<noteq> [] \<Longrightarrow> delivers S k1 bs \<Longrightarrow> delivers S k (data @ bs)"
| delivers_block: "so_read S k 4096 = (Err EWouldBlock, k1) \<Longrightarrow> so_poll S k1 False (- 1) = (Ok res, k2) \<Longrightarrow> res > 0 \<Longrightarrow>
    delivers S k2 bs \<Longrightarrow> delivers S k bs"

lemma parse_next_complete:
  assumes "wire_msg A w m"
  shows "parse_next (w @ rest) (decode_msg A :: u8 \<Rightarrow> bytes \<Rightarrow> (('s, 'e) decoded_msg, 'x unix_can_error) result) = Ok (Some (m, rest))"
proof -
  have w: "5 \<le> length w" "length w \<le> 5 + 4096" "unat (u32_from_le_bytes (slice_of 1 5 w)) = length w - 5"
    "(decode_msg A (w ! 0) (drop 5 w) :: (('s, 'e) decoded_msg, unit unix_can_error) result) = Ok m"
    using assms unfolding wire_msg_def by blast+
  have s: "slice_of 1 5 (w @ rest) = slice_of 1 5 w" using w(1) by (simp add: slice_of_append1)
  have h: "(w @ rest) ! 0 = w ! 0" using w(1) by (cases w) simp_all
  have d: "slice_of 5 (5 + (length w - 5)) (w @ rest) = drop 5 w" using w(1) by (simp add: slice_of_def)
  note m = decode_msg_any_error [OF w(4), where 'y = 'x]
  show ?thesis unfolding parse_next_def Let_def s h w(3) d m using w(1,2) by simp
qed

lemma parse_next_incomplete:
  assumes "wire_msg A w m" and "w = p @ q" and "q \<noteq> []"
  shows "parse_next p f = Ok None"
proof (cases "length p < 5")
  case False
  then have "slice_of 1 5 p = slice_of 1 5 w" using assms(2) by (simp add: slice_of_append1)
  then have "unat (u32_from_le_bytes (slice_of 1 5 p)) = length w - 5" "length w \<le> 5 + 4096" "5 \<le> length w"
    using assms(1) unfolding wire_msg_def by auto
  moreover have "length p < length w" using assms(2,3) by simp
  ultimately show ?thesis unfolding parse_next_def Let_def by auto
qed (simp add: parse_next_def)

lemma next_decoded_parse:
  fixes A :: "('s, 'e) can_id_api"
  assumes wf: "buffer_wf c" and pend: "rx_pending c @ bs = w @ rest" and w: "wire_msg A w m"
  shows "(\<exists>c'. next_decoded_msg A c = (Ok (Some m) :: (('s, 'e) decoded_msg option, 'x unix_can_error) result, c') \<and> buffer_wf c' \<and>
       uc_stream c' = uc_stream c \<and> rx_pending c' @ bs = rest) \<or>
     (next_decoded_msg A c = (Ok None :: (('s, 'e) decoded_msg option, 'x unix_can_error) result, c) \<and> bs \<noteq> [])"
proof -
  obtain q :: "(('s, 'e) decoded_msg option, 'x unix_can_error) result" and c1
    where nx: "next_decoded_msg A c = (q, c1)" by fastforce
  note step = with_next_msg_parse [OF wf nx [unfolded next_decoded_msg_def]]
  consider (whole) us where "rx_pending c = w @ us" "us @ bs = rest" | (part) us where "w = rx_pending c @ us" "us \<noteq> []" "bs = us @ rest"
    using pend unfolding append_eq_append_conv2 by (metis append_Nil append_Nil2)
  then show ?thesis
  proof cases
    case whole
    then show ?thesis using step nx parse_next_complete [OF w, of us, where 'x = 'x] by auto
  next
    case part
    then show ?thesis using step nx parse_next_incomplete [OF w part(1,2), of "decode_msg A :: u8 \<Rightarrow> bytes \<Rightarrow> (('s, 'e) decoded_msg, 'x unix_can_error) result"] by auto
  qed
qed

text \<open>One message: what the blocking receive does when the message is complete, and when it has to read or wait.\<close>

lemma recv_decoded_complete:
  "next_decoded_msg A c = (Ok (Some m) :: (('s, 'e) decoded_msg option, 'x unix_can_error) result, c') \<Longrightarrow> n \<ge> 1 \<Longrightarrow>
   recv_decoded_msg_blocking n A (S :: ('k, 'x) sock_ops) c d = Some (Ok m, c')"
  by (cases n) simp_all

lemma recv_decoded_data:
  "next_decoded_msg A c = (Ok None :: (('s, 'e) decoded_msg option, 'x unix_can_error) result, c) \<Longrightarrow>
   so_read (S :: ('k, 'x) sock_ops) (uc_stream c) 4096 = (Ok data, k1) \<Longrightarrow> data \<noteq> [] \<Longrightarrow>
   recv_decoded_msg_blocking (Suc n) A S c d = recv_decoded_msg_blocking n A S (c\<lparr>uc_stream := k1, uc_rx_bytes := uc_rx_bytes c @ data\<rparr>) d"
  by (simp add: read_more_once_def)

lemma recv_decoded_block:
  "next_decoded_msg A c = (Ok None :: (('s, 'e) decoded_msg option, 'x unix_can_error) result, c) \<Longrightarrow>
   so_read (S :: ('k, 'x) sock_ops) (uc_stream c) 4096 = (Err EWouldBlock, k1) \<Longrightarrow> so_poll S k1 False (- 1) = (Ok res, k2) \<Longrightarrow> res > 0 \<Longrightarrow>
   recv_decoded_msg_blocking (Suc (Suc n)) A S c None = recv_decoded_msg_blocking (Suc n) A S (c\<lparr>uc_stream := k2\<rparr>) None"
  by (simp add: read_more_once_def wait_readable_def remaining_ms_def)

lemma recv_decoded_delivered:
  fixes A :: "('s, 'e) can_id_api" and S :: "('k, 'x) sock_ops"
  assumes "delivers S k bs" and "buffer_wf c" and "uc_stream c = k" and "rx_pending c @ bs = w @ rest" and w: "wire_msg A w m"
  shows "\<exists>N c' bs'. (\<forall>n\<ge>N. recv_decoded_msg_blocking n A S c None = Some (Ok m, c')) \<and> buffer_wf c' \<and>
     delivers S (uc_stream c') bs' \<and> rx_pending c' @ bs' = rest" (is "?P c")
  using assms(1-4)
proof (induction arbitrary: c rule: delivers.induct)
  case (delivers_nil k)
  obtain c' where c': "next_decoded_msg A c = (Ok (Some m) :: (('s, 'e) decoded_msg option, 'x unix_can_error) result, c')" "buffer_wf c'"
    "rx_pending c' = rest" using next_decoded_parse [OF delivers_nil.prems(1,3) w, where 'x = 'x] by auto
  then show ?case using recv_decoded_complete [OF c'(1)] delivers.delivers_nil [of S "uc_stream c'"] by (metis append_Nil2)
next
  case (delivers_data k data k1 bs)
  from next_decoded_parse [OF delivers_data.prems(1,3) w, where 'x = 'x] show ?case
  proof (elim disjE exE conjE)
    fix c' assume c': "next_decoded_msg A c = (Ok (Some m) :: (('s, 'e) decoded_msg option, 'x unix_can_error) result, c')" "buffer_wf c'"
      "uc_stream c' = uc_stream c" "rx_pending c' @ data @ bs = rest"
    have "delivers S (uc_stream c') (data @ bs)"
      using delivers.delivers_data [OF delivers_data.hyps] c'(3) delivers_data.prems(2) by simp
    then show ?thesis using recv_decoded_complete [OF c'(1)] c'(2,4) by metis
  next
    assume nx: "next_decoded_msg A c = (Ok None :: (('s, 'e) decoded_msg option, 'x unix_can_error) result, c)"
    let ?c = "c\<lparr>uc_stream := k1, uc_rx_bytes := uc_rx_bytes c @ data\<rparr>"
    have "buffer_wf ?c" "uc_stream ?c = k1" "rx_pending ?c @ bs = w @ rest"
      using delivers_data.prems by (simp_all add: buffer_wf_def rx_pending_def)
    from delivers_data.IH [OF this] obtain N c' bs' where N: "\<forall>n\<ge>N. recv_decoded_msg_blocking n A S ?c None = Some (Ok m, c')"
      and c': "buffer_wf c'" "delivers S (uc_stream c') bs'" "rx_pending c' @ bs' = rest" by blast
    have "\<forall>n\<ge>Suc N. recv_decoded_msg_blocking n A S c None = Some (Ok m, c')"
      using N recv_decoded_data [OF nx, of S data k1] delivers_data.hyps delivers_data.prems(2) by (metis Suc_le_D Suc_le_mono)
    then show ?thesis using c' by blast
  qed
next
  case (delivers_block k k1 res k2 bs)
  from next_decoded_parse [OF delivers_block.prems(1,3) w, where 'x = 'x] show ?case
  proof (elim disjE exE conjE)
    fix c' assume c': "next_decoded_msg A c = (Ok (Some m) :: (('s, 'e) decoded_msg option, 'x unix_can_error) result, c')" "buffer_wf c'"
      "uc_stream c' = uc_stream c" "rx_pending c' @ bs = rest"
    have "delivers S (uc_stream c') bs"
      using delivers.delivers_block [OF delivers_block.hyps] c'(3) delivers_block.prems(2) by simp
    then show ?thesis using recv_decoded_complete [OF c'(1)] c'(2,4) by metis
  next
    assume nx: "next_decoded_msg A c = (Ok None :: (('s, 'e) decoded_msg option, 'x unix_can_error) result, c)"
    let ?c = "c\<lparr>uc_stream := k2\<rparr>"
    have "buffer_wf ?c" "uc_stream ?c = k2" "rx_pending ?c @ bs = w @ rest"
      using delivers_block.prems by (simp_all add: buffer_wf_def rx_pending_def)
    from delivers_block.IH [OF this] obtain N c' bs' where N: "\<forall>n\<ge>N. recv_decoded_msg_blocking n A S ?c None = Some (Ok m, c')"
      and c': "buffer_wf c'" "delivers S (uc_stream c') bs'" "rx_pending c' @ bs' = rest" by blast
    have "recv_decoded_msg_blocking (Suc (Suc n)) A S c None = Some (Ok m, c')" if "n \<ge> N" for n
      using N that recv_decoded_block [OF nx, of S k1 res k2 n] delivers_block.hyps delivers_block.prems(2)
      by (simp del: recv_decoded_msg_blocking.simps)
    then have "\<forall>n\<ge>Suc (Suc N). recv_decoded_msg_blocking n A S c None = Some (Ok m, c')" by (metis Suc_le_D Suc_le_mono)
    then show ?thesis using c' by blast
  qed
qed

lemma recv_frame_delivered:
  fixes A :: "('s, 'e) can_id_api" and S :: "('k, 'x) sock_ops"
  assumes "buffer_wf c" and "delivers S (uc_stream c) bs" and "rx_pending c @ bs = concat bss @ w @ rest"
    and "list_all2 (wire_msg A) bss ms" and "frames_in ms = []" and w: "wire_msg A w (DmFrame f)"
  shows "\<exists>N c'. \<forall>n\<ge>N. recv_frame_loop n A S c None = Some (Ok f, c')"
  using assms(4,1,2,3,5)
proof (induction arbitrary: c bs rule: list_all2_induct)
  case Nil
  from recv_decoded_delivered [OF Nil.prems(2,1) refl _ w, of rest] Nil.prems(3)
  obtain N c' where N: "\<forall>n\<ge>N. recv_decoded_msg_blocking n A S c None = Some (Ok (DmFrame f), c')" by auto
  have "recv_frame_loop (Suc n) A S c None = Some (Ok f, c')" if "n \<ge> N" for n using N that by simp
  then show ?case by (metis Suc_le_D Suc_le_mono)
next
  case (Cons b bss m ms)
  have nf: "\<nexists>g. m = DmFrame g" and ms: "frames_in ms = []" using Cons.prems(4) by (auto simp: frames_in_Cons split: decoded_msg.splits)
  have "rx_pending c @ bs = b @ (concat bss @ w @ rest)" using Cons.prems(3) by simp
  from recv_decoded_delivered [OF Cons.prems(2,1) refl this Cons.hyps(1)]
  obtain N c1 bs1 where N: "\<forall>n\<ge>N. recv_decoded_msg_blocking n A S c None = Some (Ok m, c1)" and c1: "buffer_wf c1"
    "delivers S (uc_stream c1) bs1" "rx_pending c1 @ bs1 = concat bss @ w @ rest" by blast
  from Cons.IH [OF c1 ms] obtain M c' where M: "\<forall>n\<ge>M. recv_frame_loop n A S c1 None = Some (Ok f, c')" by blast
  have "recv_frame_loop (Suc n) A S c None = Some (Ok f, c')" if "n \<ge> max N M" for n
    using N M that nf by (auto split: decoded_msg.splits)
  then show ?case by (metis Suc_le_D Suc_le_mono)
qed

section \<open>Properties\<close>

text \<open>\<open>try_recv\<close> always returns, on every socket and every state of the buffer: each message it skips takes bytes from
  the buffer.\<close>

lemma client_try_recv_returns:
  fixes A :: "('s, 'e) can_id_api" and S :: "('k, 'x) sock_ops"
  shows "\<exists>r c'. uc_try_recv A S c = Some (r, c')"
proof (cases "uc_rx_queue c")
  case Nil
  obtain b c1 where more: "read_more_once S c = (b, c1)" by (cases "read_more_once S c")
  have "\<exists>(r :: (('s, 'e) unix_frame, 'x unix_can_error) result) c'. take_frame (Suc (length (uc_rx_bytes c1))) A c1 = Some (r, c')"
    by (rule take_frame_returns) simp
  then show ?thesis using Nil more by (cases b) (auto simp: uc_try_recv_def)
qed (simp add: uc_try_recv_def)

text \<open>C29: \<open>recv\<close> returns the first frame of the stream, in finitely many steps, once the stream delivers it: whatever other
  messages come before it, however the bytes are cut into reads and whatever part of them is already in
  the buffer, and also when reads would block in between.\<close>

theorem client_recv_returns:
  assumes "buffer_wf c" and "uc_rx_queue c = []" and "delivers S (uc_stream c) bs"
    and "rx_pending c @ bs = concat bss @ w @ rest" and "list_all2 (wire_msg A) bss ms" and "frames_in ms = []"
    and "wire_msg A w (DmFrame f)"
  shows "\<exists>N c'. \<forall>n\<ge>N. uc_recv n A S c = Some (Ok f, c')"
  using recv_frame_delivered [OF assms(1,3-7)] assms(2) by (simp add: uc_recv_def)

theorem client_recv_returns_witness:
  "\<exists>N c'. \<forall>n\<ge>N. uc_recv n bit_id_api chunk_sock
       \<lparr>uc_stream = [[0, 0, 0], [], [2, 8, 0, 0, 0, 0, 35], [1, 0, 0, 2, 1, 2]], uc_rx_queue = [], uc_rx_bytes = [5, 0], uc_rx_off = 0,
        uc_next_seq = 1, uc_filters = []\<rparr> = Some (Ok example_frame, c')"
proof (rule client_recv_returns [where bss = "[[5, 0, 0, 0, 0]]" and ms = "[DmHello]" and rest = "[]"
      and w = "[2, 8, 0, 0, 0, 0, 35, 1, 0, 0, 2, 1, 2]" and bs = "[0, 0, 0] @ [2, 8, 0, 0, 0, 0, 35] @ [1, 0, 0, 2, 1, 2] @ []"])
  show "delivers chunk_sock (uc_stream \<lparr>uc_stream = [[0, 0, 0], [], [2, 8, 0, 0, 0, 0, 35], [1, 0, 0, 2, 1, 2]], uc_rx_queue = [],
      uc_rx_bytes = [5, 0], uc_rx_off = 0, uc_next_seq = 1, uc_filters = []\<rparr>) ([0, 0, 0] @ [2, 8, 0, 0, 0, 0, 35] @ [1, 0, 0, 2, 1, 2] @ [])"
    unfolding unix_can.simps
    by (rule delivers_data, simp add: chunk_sock_def, simp, rule delivers_block, simp add: chunk_sock_def, simp add: chunk_sock_def, simp,
        rule delivers_data, simp add: chunk_sock_def, simp, rule delivers_data, simp add: chunk_sock_def, simp, rule delivers_nil)
qed (simp_all add: buffer_wf_def rx_pending_def wire_msg_def decode_msg_def wire_consts slice_of_def u32_from_le_bytes_def example_frame_decodes)

text \<open>A socket whose buffer takes three bytes and stays full.\<close>

definition full_sock :: "(nat, unit) sock_ops" where
  "full_sock =
     \<lparr>so_read = \<lambda>k n. (Err EWouldBlock, k),
      so_write = \<lambda>k bs. if k = 0 then (Err EWouldBlock, 0) else (Ok (min k (length bs)), k - min k (length bs)),
      so_poll = \<lambda>k w t. (Ok 0, k),
      so_now = \<lambda>k. (0, k)\<rparr>"

text \<open>A message can stay cut: the timeout leaves three of its seven bytes on the stream.\<close>

lemma full_sock_cuts:
  "write_msg_deadline nine (logged_sock full_sock) (3, [], []) 1 [7, 7] (Some 5) = Some (Err UcTimeout, (0, [], [1, 2, 0]))"
proof -
  have "u32_to_le_bytes 2 = [2, 0, 0, 0]" by code_simp
  then show ?thesis unfolding write_msg_deadline_def msg_header Let_def
    by (simp add: logged_sock_def full_sock_def wait_writable_def remaining_ms_def)
qed

end
