(* ===== verification/Unix_Client_Sent.thy ===== *)
theory Unix_Client_Sent
  imports Unix_Client_Live Unix_Server "HOL-Library.Sublist"
begin

text \<open>
  The way from a client to the bus: what the operations of a client write, as a specification that knows
  nothing of sockets, buffers or acknowledgements, and the server's reader thread on those bytes. Every
  operation writes at most one message, whole when it succeeds, and the reader turns the messages into the
  commands of the specification.
\<close>

section \<open>The specification\<close>

text \<open>A client takes the next sequence number for every message, and remembers its filters.\<close>

fun op_seq :: "u64 \<Rightarrow> ('s, 'e) client_op \<Rightarrow> u64" where
  "op_seq q (CSend f) = q + 1"
| "op_seq q (CTrySend f) = q + 1"
| "op_seq q (CSendTimeout f t) = q + 1"
| "op_seq q (CSetFilters fs) = q + 1"
| "op_seq q (CModifyFilters edit) = q + 1"
| "op_seq q _ = q"

fun op_filters :: "('s, 'e) id_mask_filter list \<Rightarrow> ('s, 'e) client_op \<Rightarrow> ('s, 'e) id_mask_filter list" where
  "op_filters fl (CSetFilters fs) = fs"
| "op_filters fl (CModifyFilters edit) = edit fl"
| "op_filters fl _ = fl"

fun op_message :: "('s, 'e) can_id_api \<Rightarrow> u64 \<Rightarrow> ('s, 'e) id_mask_filter list \<Rightarrow> ('s, 'e) client_op \<Rightarrow> bytes" where
  "op_message A q fl (CSend f) = msg_bytes MSG_SEND_FRAME (send_payload A q True f)"
| "op_message A q fl (CTrySend f) = msg_bytes MSG_SEND_FRAME (send_payload A q False f)"
| "op_message A q fl (CSendTimeout f t) = msg_bytes MSG_SEND_FRAME (send_payload A q True f)"
| "op_message A q fl (CSetFilters fs) = msg_bytes MSG_SET_FILTERS (encode_filters A q fs)"
| "op_message A q fl (CModifyFilters edit) = msg_bytes MSG_SET_FILTERS (encode_filters A q (edit fl))"
| "op_message A q fl _ = []"

fun op_commands :: "u64 \<Rightarrow> u64 \<Rightarrow> ('s, 'e) id_mask_filter list \<Rightarrow> ('s, 'e) client_op \<Rightarrow> ('s, 'e) bus_command list" where
  "op_commands i q fl (CSend f) = [SendFrame i q True f]"
| "op_commands i q fl (CTrySend f) = [SendFrame i q False f]"
| "op_commands i q fl (CSendTimeout f t) = [SendFrame i q True f]"
| "op_commands i q fl (CSetFilters fs) = [SetFilters i q (map wire_filter fs)]"
| "op_commands i q fl (CModifyFilters edit) = [SetFilters i q (map wire_filter (edit fl))]"
| "op_commands i q fl _ = []"

text \<open>Frames as the type of the source allows them, and filter lists that fit a message.\<close>

fun op_wf :: "('s, 'e) id_mask_filter list \<Rightarrow> ('s, 'e) client_op \<Rightarrow> bool" where
  "op_wf fl (CSend f) = frame_wf f"
| "op_wf fl (CTrySend f) = frame_wf f"
| "op_wf fl (CSendTimeout f t) = frame_wf f"
| "op_wf fl (CSetFilters fs) = (length fs \<le> 454)"
| "op_wf fl (CModifyFilters edit) = (length (edit fl) \<le> 454)"
| "op_wf fl _ = True"

fun spec_messages ::
    "('s, 'e) can_id_api \<Rightarrow> u64 \<Rightarrow> ('s, 'e) id_mask_filter list \<Rightarrow> ('s, 'e) client_op list \<Rightarrow> bytes list" where
  "spec_messages A q fl [] = []"
| "spec_messages A q fl (op # ops) = op_message A q fl op # spec_messages A (op_seq q op) (op_filters fl op) ops"

fun spec_commands ::
    "u64 \<Rightarrow> u64 \<Rightarrow> ('s, 'e) id_mask_filter list \<Rightarrow> ('s, 'e) client_op list \<Rightarrow> ('s, 'e) bus_command list" where
  "spec_commands i q fl [] = []"
| "spec_commands i q fl (op # ops) = op_commands i q fl op @ spec_commands i (op_seq q op) (op_filters fl op) ops"

fun ops_wf :: "('s, 'e) id_mask_filter list \<Rightarrow> ('s, 'e) client_op list \<Rightarrow> bool" where
  "ops_wf fl [] = True"
| "ops_wf fl (op # ops) = (op_wf fl op \<and> ops_wf (op_filters fl op) ops)"

text \<open>An operation that reports success; a receive writes nothing and counts as one. \<open>modify_filters\<close> keeps its result
  to itself.\<close>

definition succeeds :: "(('a, 'x) result \<times> 'c) option \<Rightarrow> bool" where
  "succeeds r = (case r of Some (Ok _, _) \<Rightarrow> True | _ \<Rightarrow> False)"

fun op_ok ::
    "nat \<Rightarrow> ('s, 'e) can_id_api \<Rightarrow> ('k, 'x) sock_ops \<Rightarrow> ('s, 'e, 'k) unix_can \<Rightarrow> ('s, 'e) client_op \<Rightarrow> bool" where
  "op_ok n A S c (CSend f) = succeeds (uc_send n A S c f)"
| "op_ok n A S c (CTrySend f) = succeeds (uc_try_send n A S c f)"
| "op_ok n A S c (CSendTimeout f t) = succeeds (uc_send_timeout n A S c f t)"
| "op_ok n A S c (CSetFilters fs) = succeeds (uc_set_filters n A S c fs)"
| "op_ok n A S c (CModifyFilters edit) = succeeds (send_filters n A S (c\<lparr>uc_filters := edit (uc_filters c)\<rparr>))"
| "op_ok n A S c _ = True"

fun run_ok ::
    "nat \<Rightarrow> ('s, 'e) can_id_api \<Rightarrow> ('k, 'x) sock_ops \<Rightarrow> ('s, 'e, 'k) unix_can \<Rightarrow> ('s, 'e) client_op list \<Rightarrow> bool" where
  "run_ok n A S c [] = True"
| "run_ok n A S c (op # ops) =
     (op_ok n A S c op \<and> (case client_step n A S c op of None \<Rightarrow> False | Some (_, c1) \<Rightarrow> run_ok n A S c1 ops))"

section \<open>What an operation writes\<close>

definition sends ::
    "('s, 'e, 'k \<times> bytes \<times> bytes) unix_can \<Rightarrow> u64 \<Rightarrow> ('s, 'e) id_mask_filter list \<Rightarrow> bytes \<Rightarrow> bool \<Rightarrow>
     ('s, 'e, 'k \<times> bytes \<times> bytes) unix_can \<Rightarrow> bool" where
  "sends c q fl m ok c' \<longleftrightarrow> uc_next_seq c' = q \<and> uc_filters c' = fl \<and>
     (\<exists>p rest. m = p @ rest \<and> out_log (uc_stream c') = out_log (uc_stream c) @ p \<and> (ok \<longrightarrow> rest = []))"

lemma sends_reads: "reads A c ms c' \<Longrightarrow> sends c (uc_next_seq c) (uc_filters c) [] ok c'"
  by (simp add: sends_def reads_def)

lemma sends_then_reads: "sends c q fl m True c1 \<Longrightarrow> reads A c1 ms c' \<Longrightarrow> sends c q fl m ok c'"
  by (auto simp: sends_def reads_def)

lemma wait_for_ack_reads:
  fixes A :: "('s, 'e) can_id_api" and S :: "('k, 'x) sock_ops"
  assumes "buffer_wf c" and "wait_for_ack n A (logged_sock S) c q tmo = Some (r, c')"
  shows "\<exists>ms. reads A c ms c'"
proof -
  obtain dl k where dl: "deadline_after (logged_sock S) (uc_stream c) tmo = (dl, k)" by (rule prod.exhaust)
  note t = stream_reads [OF assms(1) logged_deadline [OF dl], of A]
  have "wait_for_reply n A (logged_sock S) (ack_reply q) (c\<lparr>uc_stream := k\<rparr>) dl = Some (r, c')"
    using assms(2) dl by (simp add: wait_for_ack_def)
  from wait_for_reply_reads [OF reads_wf [OF t] this] show ?thesis using reads_before [OF t] by auto
qed

lemma wait_for_filters_ack_reads:
  fixes A :: "('s, 'e) can_id_api" and S :: "('k, 'x) sock_ops"
  assumes "buffer_wf c" and "wait_for_filters_ack n A (logged_sock S) c q tmo = Some (r, c')"
  shows "\<exists>ms. reads A c ms c'"
proof -
  obtain dl k where dl: "deadline_after (logged_sock S) (uc_stream c) tmo = (dl, k)" by (rule prod.exhaust)
  note t = stream_reads [OF assms(1) logged_deadline [OF dl], of A]
  have "wait_for_reply n A (logged_sock S) (filters_ack_reply q) (c\<lparr>uc_stream := k\<rparr>) dl = Some (r, c')"
    using assms(2) dl by (simp add: wait_for_filters_ack_def)
  from wait_for_reply_reads [OF reads_wf [OF t] this] show ?thesis using reads_before [OF t] by auto
qed

lemma write_frame_sends:
  assumes "sock_laws S" and "out_log (uc_stream c1) = out_log (uc_stream c)"
    and "write_frame n A (logged_sock S) c1 q x f d = Some (r, c')"
  shows "sends c (uc_next_seq c1) (uc_filters c1) (msg_bytes MSG_SEND_FRAME (send_payload A q x f)) (r = Ok ()) c' \<and>
     (buffer_wf c1 \<longrightarrow> buffer_wf c')"
  using write_frame_exact [OF assms(1,3)] assms(2) unfolding sends_def by (auto simp: buffer_wf_def)

lemma send_sends:
  assumes S: "sock_laws S" and wf: "buffer_wf c1" and out: "out_log (uc_stream c1) = out_log (uc_stream c)"
    and run: "(case write_frame n A (logged_sock S) c1 q True f d of
        None \<Rightarrow> None
      | Some (Err e, c2) \<Rightarrow> Some (Err e, c2)
      | Some (Ok _, c2) \<Rightarrow> wait_for_ack n A (logged_sock S) c2 q tmo) = Some (r, c')"
  shows "sends c (uc_next_seq c1) (uc_filters c1) (msg_bytes MSG_SEND_FRAME (send_payload A q True f)) (succeeds (Some (r, c'))) c'"
proof -
  obtain w c2 where w: "write_frame n A (logged_sock S) c1 q True f d = Some (w, c2)"
    using run by (cases "write_frame n A (logged_sock S) c1 q True f d") auto
  note s = write_frame_sends [OF S out w]
  show ?thesis
  proof (cases w)
    case (Ok u)
    then have a: "wait_for_ack n A (logged_sock S) c2 q tmo = Some (r, c')" using run w by simp
    have "buffer_wf c2" using s wf by simp
    from wait_for_ack_reads [OF this a] show ?thesis using sends_then_reads s Ok by fastforce
  next
    case (Err e)
    then show ?thesis using run w s by (auto simp: succeeds_def)
  qed
qed

lemma send_filters_sends:
  assumes S: "sock_laws S" and wf: "buffer_wf c" and run: "send_filters n A (logged_sock S) (c\<lparr>uc_filters := fl\<rparr>) = Some (r, c')"
  shows "sends c (uc_next_seq c + 1) fl (msg_bytes MSG_SET_FILTERS (encode_filters A (uc_next_seq c) fl)) (succeeds (Some (r, c'))) c'"
proof -
  let ?p = "encode_filters A (uc_next_seq c) fl" and ?c = "c\<lparr>uc_filters := fl, uc_next_seq := uc_next_seq c + 1\<rparr>"
  obtain w k where w: "write_msg_deadline n (logged_sock S) (uc_stream c) MSG_SET_FILTERS ?p None = Some (w, k)"
    using run by (cases "write_msg_deadline n (logged_sock S) (uc_stream c) MSG_SET_FILTERS ?p None")
      (auto simp: send_filters_def uc_take_seq_def)
  have s: "sends c (uc_next_seq c + 1) fl (msg_bytes MSG_SET_FILTERS ?p) (w = Ok ()) (?c\<lparr>uc_stream := k\<rparr>)"
    using write_msg_exact [OF S w] by (auto simp: sends_def)
  show ?thesis
  proof (cases w)
    case (Ok u)
    then have a: "wait_for_filters_ack n A (logged_sock S) (?c\<lparr>uc_stream := k\<rparr>) (uc_next_seq c) None = Some (r, c')"
      using run w by (simp add: send_filters_def uc_take_seq_def)
    have "buffer_wf (?c\<lparr>uc_stream := k\<rparr>)" using wf by (simp add: buffer_wf_def)
    from wait_for_filters_ack_reads [OF this a] show ?thesis using sends_then_reads s Ok by fastforce
  next
    case (Err e)
    then show ?thesis using run w s by (auto simp: send_filters_def uc_take_seq_def succeeds_def)
  qed
qed

lemma recv_sends:
  assumes "buffer_wf c" and "\<And>f fs. uc_rx_queue c = f # fs \<Longrightarrow> c' = c\<lparr>uc_rx_queue := fs\<rparr>"
    and "uc_rx_queue c = [] \<Longrightarrow> \<exists>ms. reads A c ms c'"
  shows "sends c (uc_next_seq c) (uc_filters c) [] True c'"
  by (cases "uc_rx_queue c") (use assms sends_reads in \<open>fastforce simp: sends_def\<close>)+

lemma client_step_sends:
  fixes A :: "('s, 'e) can_id_api" and S :: "('k, 'x) sock_ops"
  assumes S: "sock_laws S" and wf: "buffer_wf c" and run: "client_step n A (logged_sock S) c op = Some (fs, c')"
  shows "sends c (op_seq (uc_next_seq c) op) (op_filters (uc_filters c) op) (op_message A (uc_next_seq c) (uc_filters c) op)
     (op_ok n A (logged_sock S) c op) c'"
proof (cases op)
  case (CSend f)
  then obtain r where r: "uc_send n A (logged_sock S) c f = Some (r, c')" using run by auto
  have "buffer_wf (c\<lparr>uc_next_seq := uc_next_seq c + 1\<rparr>)" using wf by (simp add: buffer_wf_def)
  from send_sends [OF S this _ r [unfolded uc_send_def uc_take_seq_def Let_def prod.case], where c = c] show ?thesis
    using r CSend by simp
next
  case (CTrySend f)
  then obtain r where r: "uc_try_send n A (logged_sock S) c f = Some (r, c')" using run by auto
  then show ?thesis using write_frame_sends [OF S _ r [unfolded uc_try_send_def uc_take_seq_def Let_def prod.case], where c = c] CTrySend
    by (cases r) (auto simp: succeeds_def)
next
  case (CSendTimeout f t)
  then obtain r where r: "uc_send_timeout n A (logged_sock S) c f t = Some (r, c')" using run by auto
  obtain now k where now: "so_now (logged_sock S) (uc_stream c) = (now, k)" by (rule prod.exhaust)
  have "buffer_wf (c\<lparr>uc_next_seq := uc_next_seq c + 1, uc_stream := k\<rparr>)" using wf by (simp add: buffer_wf_def)
  moreover have "(case write_frame n A (logged_sock S) (c\<lparr>uc_next_seq := uc_next_seq c + 1, uc_stream := k\<rparr>) (uc_next_seq c) True f (Some (now + t)) of
        None \<Rightarrow> None
      | Some (Err e, c2) \<Rightarrow> Some (Err e, c2)
      | Some (Ok _, c2) \<Rightarrow> wait_for_ack n A (logged_sock S) c2 (uc_next_seq c) (Some t)) = Some (r, c')"
    using r now by (simp add: uc_send_timeout_def uc_take_seq_def)
  ultimately show ?thesis using send_sends [OF S, of "c\<lparr>uc_next_seq := uc_next_seq c + 1, uc_stream := k\<rparr>" c] r logged_now [OF now] CSendTimeout by simp
next
  case CRecv
  then show ?thesis using run recv_frame_loop_reads [OF wf, of n A S None]
    by (auto simp: uc_recv_def intro!: recv_sends [OF wf, where A = A])
next
  case CTryRecv
  obtain b c1 where more: "read_more_once (logged_sock S) c = (b, c1)" by (rule prod.exhaust)
  have t: "reads A c [] c1" using read_more_reads [OF wf more] by simp
  have "sends c (uc_next_seq c) (uc_filters c) [] True c'"
  proof (rule recv_sends [OF wf])
    assume e: "uc_rx_queue c = []"
    show "\<exists>ms. reads A c ms c'"
    proof (cases b)
      case (Ok u)
      then obtain r :: "(('s, 'e) unix_frame, 'x unix_can_error) result"
        where "take_frame (Suc (length (uc_rx_bytes c1))) A c1 = Some (r, c')"
        using run e more CTryRecv by (auto simp: uc_try_recv_def)
      from take_frame_reads [OF reads_wf [OF t] this] show ?thesis using reads_before [OF t] by blast
    next
      case (Err x)
      then show ?thesis using run e more t CTryRecv by (auto simp: uc_try_recv_def)
    qed
  qed (use run CTryRecv in \<open>auto simp: uc_try_recv_def\<close>)
  then show ?thesis using CTryRecv by simp
next
  case (CRecvTimeout t)
  obtain now k where now: "so_now (logged_sock S) (uc_stream c) = (now, k)" by (rule prod.exhaust)
  have t: "reads A c [] (c\<lparr>uc_stream := k\<rparr>)" by (rule stream_reads [OF wf logged_now [OF now]])
  have "sends c (uc_next_seq c) (uc_filters c) [] True c'"
  proof (rule recv_sends [OF wf])
    assume e: "uc_rx_queue c = []"
    then obtain r where "recv_frame_loop n A (logged_sock S) (c\<lparr>uc_stream := k\<rparr>) (Some (now + t)) = Some (r, c')"
      using run now CRecvTimeout by (auto simp: uc_recv_timeout_def)
    from recv_frame_loop_reads [OF reads_wf [OF t] this] show "\<exists>ms. reads A c ms c'" using reads_before [OF t] by blast
  qed (use run CRecvTimeout in \<open>auto simp: uc_recv_timeout_def\<close>)
  then show ?thesis using CRecvTimeout by simp
next
  case CWaitNotEmpty
  then obtain r where "wait_not_empty n (logged_sock S) c = Some (r, c')" using run by auto
  then obtain k where "c' = c\<lparr>uc_stream := k\<rparr>" "out_log k = out_log (uc_stream c)"
    using logged_wait [of n S False "uc_stream c" None] unfolding wait_not_empty_def wait_readable_def
    by (cases "uc_rx_queue c = []") (auto intro: that [of "uc_stream c"])
  then show ?thesis using CWaitNotEmpty by (simp add: sends_def)
next
  case (CSetFilters gs)
  then obtain r where r: "send_filters n A (logged_sock S) (c\<lparr>uc_filters := gs\<rparr>) = Some (r, c')" using run by (auto simp: uc_set_filters_def)
  from send_filters_sends [OF S wf r] show ?thesis using CSetFilters r by (simp add: uc_set_filters_def)
next
  case (CModifyFilters edit)
  then obtain r where r: "send_filters n A (logged_sock S) (c\<lparr>uc_filters := edit (uc_filters c)\<rparr>) = Some (r, c')"
    using run by (auto simp: modify_filters_def)
  from send_filters_sends [OF S wf r] show ?thesis using CModifyFilters r by simp
qed

section \<open>What a run writes\<close>

lemma client_run_sends:
  fixes A :: "('s, 'e) can_id_api" and S :: "('k, 'x) sock_ops"
  assumes S: "sock_laws S"
  shows "buffer_wf c \<Longrightarrow> client_run n A (logged_sock S) c ops = Some (fs, c') \<Longrightarrow>
    \<exists>ps. out_log (uc_stream c') = out_log (uc_stream c) @ concat ps \<and>
      list_all2 prefix ps (spec_messages A (uc_next_seq c) (uc_filters c) ops) \<and>
      (run_ok n A (logged_sock S) c ops \<longrightarrow> ps = spec_messages A (uc_next_seq c) (uc_filters c) ops)"
proof (induction ops arbitrary: c fs)
  case Nil
  then show ?case by auto
next
  case (Cons op ops)
  obtain gs c1 hs where st: "client_step n A (logged_sock S) c op = Some (gs, c1)"
    and rest: "client_run n A (logged_sock S) c1 ops = Some (hs, c')"
    using Cons.prems(2) by (auto split: option.splits)
  obtain p tl where one: "uc_next_seq c1 = op_seq (uc_next_seq c) op" "uc_filters c1 = op_filters (uc_filters c) op"
    "op_message A (uc_next_seq c) (uc_filters c) op = p @ tl" "out_log (uc_stream c1) = out_log (uc_stream c) @ p"
    "op_ok n A (logged_sock S) c op \<longrightarrow> tl = []"
    using client_step_sends [OF S Cons.prems(1) st] unfolding sends_def by blast
  have "buffer_wf c1" by (rule hands_out_wf [OF client_step_hands_out [OF S Cons.prems(1) st]])
  from Cons.IH [OF this rest] obtain ps where ps: "out_log (uc_stream c') = out_log (uc_stream c1) @ concat ps"
    "list_all2 prefix ps (spec_messages A (uc_next_seq c1) (uc_filters c1) ops)"
    "run_ok n A (logged_sock S) c1 ops \<longrightarrow> ps = spec_messages A (uc_next_seq c1) (uc_filters c1) ops" by blast
  show ?case using one ps st by (intro exI [of _ "p # ps"]) auto
qed

section \<open>The reader thread\<close>

lemma op_message_read:
  assumes A: "can_id_laws A" and wf: "op_wf fl op" and m: "op_message A q fl op \<noteq> []"
  shows "\<exists>t payload. read_msg_into pipe_read_exact (op_message A q fl op @ rest) = (Ok (t, payload), rest) \<and>
    reader_message A i t payload = (op_commands i q fl op, True)"
proof -
  have frame: "read_msg_into pipe_read_exact (msg_bytes MSG_SEND_FRAME (send_payload A q x f) @ rest) =
        (Ok (MSG_SEND_FRAME, send_payload A q x f), rest) \<and>
      reader_message A i MSG_SEND_FRAME (send_payload A q x f) = ([SendFrame i q x f], True)" if "frame_wf f" for x f
    using read_msg_pipe [of "send_payload A q x f"] send_payload_length [OF that, of A q x] send_payload_decodes [OF A that, of q x]
    by (simp add: reader_message_def)
  have filters: "read_msg_into pipe_read_exact (msg_bytes MSG_SET_FILTERS (encode_filters A q fs) @ rest) =
        (Ok (MSG_SET_FILTERS, encode_filters A q fs), rest) \<and>
      reader_message A i MSG_SET_FILTERS (encode_filters A q fs) = ([SetFilters i q (map wire_filter fs)], True)"
    if "length fs \<le> 454" for fs
  proof -
    have n: "length fs < 2 ^ 16" using that by simp
    have "length (encode_filters A q fs) \<le> 4096" using decode_filters_encoded(2) [OF A n, of q] that by simp
    then show ?thesis using read_msg_pipe [of "encode_filters A q fs"] decode_filters_encoded(1) [OF A n, of q]
      by (simp add: reader_message_def wire_consts)
  qed
  show ?thesis using wf m frame filters by (cases op) fastforce+
qed

lemma op_no_message: "op_message A q fl op = [] \<Longrightarrow> op_commands i q fl op = []"
  by (cases op) (auto simp: msg_bytes_def)

lemma read_msg_empty: "\<exists>e r. read_msg_into pipe_read_exact [] = (Err e, r)"
  by (simp add: read_msg_into_def pipe_read_exact_def)

lemma reader_loop_spec:
  assumes A: "can_id_laws A"
  shows "ops_wf fl ops \<Longrightarrow> length ops < n \<Longrightarrow>
    client_reader_loop n A pipe_read_exact (concat (spec_messages A q fl ops)) i = Some (spec_commands i q fl ops @ [RemoveClient i])"
proof (induction ops arbitrary: n q fl)
  case Nil
  obtain m where "n = Suc m" using Nil by (cases n) auto
  then show ?case using read_msg_empty by fastforce
next
  case (Cons op ops)
  obtain m where n: "n = Suc m" "length ops < m" using Cons.prems(2) by (cases n) auto
  have wf: "ops_wf (op_filters fl op) ops" "op_wf fl op" using Cons.prems(1) by simp_all
  show ?case
  proof (cases "op_message A q fl op = []")
    case True
    then show ?thesis using Cons.IH [OF wf(1)] op_no_message [OF True] Cons.prems(2) by simp
  next
    case False
    from op_message_read [OF A wf(2) False] obtain t payload where
      "read_msg_into pipe_read_exact (op_message A q fl op @ concat (spec_messages A (op_seq q op) (op_filters fl op) ops)) =
        (Ok (t, payload), concat (spec_messages A (op_seq q op) (op_filters fl op) ops))"
      "reader_message A i t payload = (op_commands i q fl op, True)" by blast
    then show ?thesis using Cons.IH [OF wf(1) n(2)] n(1) by simp
  qed
qed

lemma connect_sent:
  assumes "connect n A (logged_sock S) (k, [], []) = Some (Ok c)"
  shows "buffer_wf c \<and> uc_next_seq c = 1 \<and> uc_filters c = [] \<and> out_log (uc_stream c) = []"
proof -
  let ?c = "\<lparr>uc_stream = (k, [], []), uc_rx_queue = [], uc_rx_bytes = [], uc_rx_off = 0, uc_next_seq = 1, uc_filters = []\<rparr>"
  obtain r where w: "wait_for_hello n A (logged_sock S) ?c = Some (r, c)"
    using assms by (auto simp: connect_def split: option.splits result.splits unix_can_error.splits)
  have "buffer_wf ?c" by (simp add: buffer_wf_def)
  from wait_for_reply_reads [OF this w [unfolded wait_for_hello_def]] obtain ms where "reads A ?c ms c" by auto
  then show ?thesis by (auto simp: reads_def takes_def out_log_def)
qed

text \<open>C12: Over any sequence of operations of a connected client on any socket, the bytes on the stream are, operation by
  operation, a prefix of the one message of that operation, with the sequence numbers 1, 2, ... and the filters the
  client keeps. When all operations that write report success, the prefixes are the messages, and the server's
  reader thread turns the stream into exactly the commands of the specification, in order, and removes the client at
  its end.\<close>

theorem client_to_bus:
  assumes "sock_laws S" and "can_id_laws A" and "connect n A (logged_sock S) (k, [], []) = Some (Ok c)"
    and "client_run m A (logged_sock S) c ops = Some (fs, c')" and "ops_wf [] ops"
  shows "(\<exists>ps. out_log (uc_stream c') = concat ps \<and> list_all2 prefix ps (spec_messages A 1 [] ops)) \<and>
    (run_ok m A (logged_sock S) c ops \<longrightarrow>
      (\<forall>l > length ops. client_reader_loop l A pipe_read_exact (out_log (uc_stream c')) i =
         Some (spec_commands i 1 [] ops @ [RemoveClient i])))"
proof -
  note c = connect_sent [OF assms(3)]
  obtain ps where "out_log (uc_stream c') = concat ps" "list_all2 prefix ps (spec_messages A 1 [] ops)"
    "run_ok m A (logged_sock S) c ops \<longrightarrow> ps = spec_messages A 1 [] ops"
    using client_run_sends [OF assms(1) _ assms(4)] c by auto
  then show ?thesis using reader_loop_spec [OF assms(2,5)] by auto
qed

theorem client_to_bus_witness:
  "run_ok nine bit_id_api (logged_sock chunk_sock) example_client [CSend example_frame] \<and>
   client_reader_loop (Suc (Suc 0)) bit_id_api pipe_read_exact (out_log (uc_stream example_client_sent)) 7 =
     Some [SendFrame 7 1 True example_frame, RemoveClient 7]"
proof -
  let ?ops = "[CSend example_frame]"
  have run: "client_run nine bit_id_api (logged_sock chunk_sock) example_client ?ops = Some ([], example_client_sent)"
    by (simp add: example_send)
  have ok: "run_ok nine bit_id_api (logged_sock chunk_sock) example_client ?ops" by (simp add: example_send succeeds_def)
  show ?thesis
    using client_to_bus [OF chunk_sock_laws bit_id_laws example_connect run, where i = 7] ok example_frame_wf
    by (simp del: client_reader_loop.simps run_ok.simps)
qed

end
