(* ===== verification/Can_Filters.thy ===== *)
theory Can_Filters
  imports Unix_Server
begin

text \<open>
  The contract of \<open>FilterConfig::set_filters\<close> of \<open>embedded-can-interface\<close>, which the bus server, the
  SocketCAN adapter and the STM32 adapters implement: a list of identifier/mask pairs passes exactly the
  identifiers that one of the pairs matches, and an empty list passes all. The contract is a locale; its
  first instance, the bus server, is here.
\<close>

section \<open>What a filter list passes\<close>

text \<open>The rule of the bus server, on identifiers.\<close>

definition passes :: "('s, 'e) can_id_api \<Rightarrow> ('s, 'e) id_mask_filter list \<Rightarrow> ('s, 'e) can_id \<Rightarrow> bool" where
  "passes A fs i \<longleftrightarrow> fs = [] \<or> list_ex (\<lambda>f. filter_match A f i) fs"

lemma filters_match_passes: "filters_match A fs f = passes A fs (uf_id f)"
  by (simp add: filters_match_def passes_def)

text \<open>Filters whose mask has the width of their identifier, and those whose mask is in its range.\<close>

abbreviation std_filter :: "'s \<Rightarrow> u16 \<Rightarrow> ('s, 'e) id_mask_filter" where
  "std_filter i m \<equiv> \<lparr>flt_id = Standard i, flt_mask = MaskStandard m\<rparr>"

abbreviation ext_filter :: "'e \<Rightarrow> u32 \<Rightarrow> ('s, 'e) id_mask_filter" where
  "ext_filter i m \<equiv> \<lparr>flt_id = Extended i, flt_mask = MaskExtended m\<rparr>"

definition same_width :: "('s, 'e) id_mask_filter \<Rightarrow> bool" where
  "same_width f =
     (case (flt_id f, flt_mask f) of
        (Standard _, MaskStandard _) \<Rightarrow> True
      | (Extended _, MaskExtended _) \<Rightarrow> True
      | _ \<Rightarrow> False)"

definition mask_in_range :: "('s, 'e) can_id_api \<Rightarrow> ('s, 'e) id_mask_filter \<Rightarrow> bool" where
  "mask_in_range A f =
     (case (flt_id f, flt_mask f) of
        (Standard _, MaskStandard m) \<Rightarrow> std_new A m \<noteq> None
      | (Extended _, MaskExtended m) \<Rightarrow> ext_new A m \<noteq> None
      | _ \<Rightarrow> False)"

lemma same_width_simps [simp]:
  "same_width (std_filter i m)" "same_width (ext_filter j n)"
  "\<not> same_width \<lparr>flt_id = Standard i, flt_mask = MaskExtended n\<rparr>"
  "\<not> same_width \<lparr>flt_id = Extended j, flt_mask = MaskStandard m\<rparr>"
  by (simp_all add: same_width_def)

lemma mask_in_range_simps [simp]:
  "mask_in_range A (std_filter i m) \<longleftrightarrow> std_new A m \<noteq> None"
  "mask_in_range A (ext_filter j n) \<longleftrightarrow> ext_new A n \<noteq> None"
  "\<not> mask_in_range A \<lparr>flt_id = Standard i, flt_mask = MaskExtended n\<rparr>"
  "\<not> mask_in_range A \<lparr>flt_id = Extended j, flt_mask = MaskStandard m\<rparr>"
  by (simp_all add: mask_in_range_def)

lemma filter_cases [case_names std ext std_mixed ext_mixed]:
  obtains i m where "f = std_filter i m" | i m where "f = ext_filter i m"
  | i m where "f = \<lparr>flt_id = Standard i, flt_mask = MaskExtended m\<rparr>"
  | i m where "f = \<lparr>flt_id = Extended i, flt_mask = MaskStandard m\<rparr>"
proof (cases f)
  case (fields i m)
  then show thesis using that by (cases i; cases m) auto
qed

section \<open>The contract\<close>

text \<open>A sequence of calls, with their successes.\<close>

fun configure_all :: "('d \<Rightarrow> 'f \<Rightarrow> bool \<times> 'd) \<Rightarrow> 'd \<Rightarrow> 'f list \<Rightarrow> bool list \<times> 'd" where
  "configure_all cfg d [] = ([], d)"
| "configure_all cfg d (fs # fss) = (let (b, d1) = cfg d fs; (bs, d2) = configure_all cfg d1 fss in (b # bs, d2))"

text \<open>A device with a configuration operation that succeeds or not, and what it then lets through.\<close>

locale filter_config =
  fixes A :: "('s, 'e) can_id_api" and ok :: "'d \<Rightarrow> bool"
    and configure :: "'d \<Rightarrow> ('s, 'e) id_mask_filter list \<Rightarrow> bool \<times> 'd" and accepts :: "'d \<Rightarrow> ('s, 'e) can_id \<Rightarrow> bool"
  assumes configure_ok: "ok d \<Longrightarrow> configure d fs = (b, d') \<Longrightarrow> ok d'"
    and configured: "ok d \<Longrightarrow> configure d fs = (True, d') \<Longrightarrow> accepts d' i = passes A fs i"
    and rejected: "ok d \<Longrightarrow> configure d fs = (False, d') \<Longrightarrow> accepts d' i = accepts d i"
begin

lemma all_ok: "ok d \<Longrightarrow> configure_all configure d fss = (bs, d') \<Longrightarrow> ok d'"
  by (induction fss arbitrary: d bs) (auto split: prod.splits intro: configure_ok)

text \<open>The filters in force are those of the last call that succeeded.\<close>

lemma last_success_wins:
  assumes "ok d" and "configure_all configure d fss = (bs, d')"
  shows "accepts d' i =
    (case filter snd (rev (zip fss bs)) of [] \<Rightarrow> accepts d i | (fs, _) # _ \<Rightarrow> passes A fs i)"
  using assms
proof (induction fss arbitrary: d bs)
  case (Cons fs fss)
  obtain b d1 bs1 where step: "configure d fs = (b, d1)" "configure_all configure d1 fss = (bs1, d')" "bs = b # bs1"
    using Cons.prems(2) by (auto split: prod.splits)
  have ih: "accepts d' i = (case filter snd (rev (zip fss bs1)) of [] \<Rightarrow> accepts d1 i | (fs, _) # _ \<Rightarrow> passes A fs i)"
    by (rule Cons.IH [OF configure_ok [OF Cons.prems(1) step(1)] step(2)])
  have "accepts d1 i = (if b then passes A fs i else accepts d i)"
    using configured [OF Cons.prems(1)] rejected [OF Cons.prems(1)] step(1) by (cases b) auto
  then show ?case using ih step(3)
    by (cases "filter snd (rev (zip fss bs1))") (auto split: prod.splits)
qed simp

text \<open>Configuring the same list again changes nothing, and the order of the filters does not matter.\<close>

lemma configure_again:
  assumes d: "ok d" and c1: "configure d fs = (True, d1)" and c2: "configure d1 gs = (True, d2)" and "set fs = set gs"
  shows "accepts d2 i = accepts d1 i"
proof -
  have "fs = [] \<longleftrightarrow> gs = []" using assms(4) by (cases fs; cases gs) auto
  then have "passes A fs i = passes A gs i" using assms(4) by (simp add: passes_def list_ex_iff)
  then show ?thesis using configured [OF d c1] configured [OF configure_ok [OF d c1] c2] by simp
qed

end

text \<open>A device whose capacity alone decides whether a list is taken, and which a refused list leaves as it was.\<close>

locale sized_filter_config = filter_config A ok configure accepts
  for A :: "('s, 'e) can_id_api" and ok :: "'d \<Rightarrow> bool"
    and configure :: "'d \<Rightarrow> ('s, 'e) id_mask_filter list \<Rightarrow> bool \<times> 'd" and accepts :: "'d \<Rightarrow> ('s, 'e) can_id \<Rightarrow> bool" +
  fixes holds :: "'d \<Rightarrow> ('s, 'e) id_mask_filter list \<Rightarrow> bool"
  assumes taken_iff: "ok d \<Longrightarrow> configure d fs = (b, d') \<Longrightarrow> b = holds d fs"
    and holds_kept: "ok d \<Longrightarrow> configure d fs = (b, d') \<Longrightarrow> holds d' = holds d"
    and refused_same: "ok d \<Longrightarrow> configure d fs = (False, d') \<Longrightarrow> d' = d"
begin

lemma successes: "ok d \<Longrightarrow> configure_all configure d fss = (bs, d') \<Longrightarrow> bs = map (holds d) fss"
proof (induction fss arbitrary: d bs)
  case (Cons fs fss)
  then obtain b d1 bs1 where step: "configure d fs = (b, d1)" "configure_all configure d1 fss = (bs1, d')" "bs = b # bs1"
    by (auto split: prod.splits)
  have "bs1 = map (holds d1) fss" by (rule Cons.IH [OF configure_ok [OF Cons.prems(1) step(1)] step(2)])
  then show ?case using taken_iff [OF Cons.prems(1) step(1)] holds_kept [OF Cons.prems(1) step(1)] step(3) by simp
qed simp

text \<open>The filters in force are those of the last list that fits.\<close>

lemma last_fitting_wins:
  assumes d: "ok d" and run: "configure_all configure d fss = (bs, d')"
  shows "accepts d' i = (case filter (holds d) (rev fss) of [] \<Rightarrow> accepts d i | fs # _ \<Rightarrow> passes A fs i)"
proof -
  have "filter snd (rev (zip fss (map (holds d) fss))) = map (\<lambda>fs. (fs, True)) (filter (holds d) (rev fss))"
    by (induction fss) auto
  then show ?thesis using last_success_wins [OF d run, of i] successes [OF d run]
    by (cases "filter (holds d) (rev fss)") auto
qed

lemma nothing_fits: "ok d \<Longrightarrow> configure_all configure d fss = (bs, d') \<Longrightarrow> list_all (\<lambda>fs. \<not> holds d fs) fss \<Longrightarrow> d' = d"
proof (induction fss arbitrary: d bs)
  case (Cons fs fss)
  then obtain b d1 bs1 where step: "configure d fs = (b, d1)" "configure_all configure d1 fss = (bs1, d')"
    by (auto split: prod.splits)
  then have "d1 = d" using Cons.prems taken_iff [OF Cons.prems(1) step(1)] refused_same [of d fs d1] by simp
  then show ?case using Cons.IH [OF Cons.prems(1)] step(2) Cons.prems(3) by simp
qed simp

end

section \<open>The bus server\<close>

text \<open>Client \<open>i\<close> sends \<open>SetFilters\<close> with sequence number \<open>seq\<close>.\<close>

definition server_configure ::
    "('s, 'e) can_id_api \<Rightarrow> u64 \<Rightarrow> u64 \<Rightarrow> ('s, 'e) bus_server \<Rightarrow> ('s, 'e) id_mask_filter list \<Rightarrow> bool \<times> ('s, 'e) bus_server" where
  "server_configure A i seq st fs = (seq \<noteq> 0, handle_command A st (SetFilters i seq fs))"

definition server_accepts :: "('s, 'e) can_id_api \<Rightarrow> u64 \<Rightarrow> ('s, 'e) bus_server \<Rightarrow> ('s, 'e) can_id \<Rightarrow> bool" where
  "server_accepts A i st c = (case map_of (clients st) i of None \<Rightarrow> False | Some s \<Rightarrow> passes A (cs_filters s) c)"

interpretation server: filter_config A "\<lambda>st. map_of (clients st) i \<noteq> None" "server_configure A i seq" "server_accepts A i"
  for A :: "('s, 'e) can_id_api" and i seq
proof unfold_locales
  fix st st' :: "('s, 'e) bus_server" and fs b
  assume st: "map_of (clients st) i \<noteq> None" and "server_configure A i seq st fs = (b, st')"
  then show "map_of (clients st') i \<noteq> None" by (auto simp: server_configure_def update_conv split: if_splits)
next
  fix st st' :: "('s, 'e) bus_server" and fs c
  assume st: "map_of (clients st) i \<noteq> None" and "server_configure A i seq st fs = (True, st')"
  then show "server_accepts A i st' c = passes A fs c"
    by (auto simp: server_configure_def server_accepts_def update_conv)
next
  fix st st' :: "('s, 'e) bus_server" and fs c
  assume st: "map_of (clients st) i \<noteq> None" and "server_configure A i seq st fs = (False, st')"
  then show "server_accepts A i st' c = server_accepts A i st c"
    by (auto simp: server_configure_def server_accepts_def)
qed

end
