(* ===== verification/Can_Socket.thy ===== *)
theory Can_Socket
  imports Can_Filters
begin

text \<open>
  The SocketCAN adapters of \<open>embedded-can-socketcan\<close>: \<open>linux.rs\<close> (blocking, classic and FD) and
  \<open>tokio_impl.rs\<close> (asynchronous, classic and FD). The sockets of the crate \<open>socketcan\<close> and \<open>poll\<close> are a record
  of operations on the state of the socket. \<open>CanFrame\<close> and \<open>CanAnyFrame\<close> are seen as an error frame or
  another frame, which is all the adapters look at. An awaited call is its completion.
\<close>

unbundle bit_operations_syntax

section \<open>The crate below\<close>

datatype 'x sc_io = ScOs "'x os_error" | ScInvalidInput string

datatype ('x, 'c) socketcan_error = ScIo "'x sc_io" | ScCan 'c

datatype ('f, 'ef) can_frame = CanError 'ef | CanOther 'f

record ('f, 'ef, 'c, 'cf, 'x, 'k) can_socket_ops =
  sc_open :: "string \<Rightarrow> ('k, 'x sc_io) result"
  sc_nonblocking :: "'k \<Rightarrow> (bool, 'x sc_io) result \<times> 'k"
  sc_set_nonblocking :: "'k \<Rightarrow> bool \<Rightarrow> (unit, 'x sc_io) result \<times> 'k"
  sc_write_frame :: "'k \<Rightarrow> ('f, 'ef) can_frame \<Rightarrow> (unit, 'x sc_io) result \<times> 'k"
  sc_write_frame_insist :: "'k \<Rightarrow> ('f, 'ef) can_frame \<Rightarrow> (unit, 'x sc_io) result \<times> 'k"
  sc_read_frame :: "'k \<Rightarrow> (('f, 'ef) can_frame, 'x sc_io) result \<times> 'k"
  sc_read_frame_timeout :: "'k \<Rightarrow> duration \<Rightarrow> (('f, 'ef) can_frame, 'x sc_io) result \<times> 'k"
  sc_write_timeout :: "'k \<Rightarrow> (duration option, 'x sc_io) result \<times> 'k"
  sc_set_write_timeout :: "'k \<Rightarrow> duration option \<Rightarrow> (unit, 'x sc_io) result \<times> 'k"
  sc_poll :: "'k \<Rightarrow> (nat, 'x os_error) result \<times> 'k"
  sc_filter_new :: "u32 \<Rightarrow> u32 \<Rightarrow> 'cf"
  sc_set_filters :: "'k \<Rightarrow> 'cf list \<Rightarrow> (unit, 'x sc_io) result \<times> 'k"
  sc_set_filter_accept_all :: "'k \<Rightarrow> (unit, 'x sc_io) result \<times> 'k"
  sc_into_error :: "'ef \<Rightarrow> 'c"

definition CAN_EFF_FLAG :: u32 where "CAN_EFF_FLAG = 0x80000000"
definition CAN_RTR_FLAG :: u32 where "CAN_RTR_FLAG = 0x40000000"

section \<open>Helpers\<close>

record 'k socket_can =
  scn_inner :: 'k
  scn_nonblocking :: bool

definition socket_can_open ::
    "('f, 'ef, 'c, 'cf, 'x, 'k) can_socket_ops \<Rightarrow> string \<Rightarrow> ('k socket_can, ('x, 'c) socketcan_error) result" where
  "socket_can_open S iface =
     (case sc_open S iface of
        Err e \<Rightarrow> Err (ScIo e)
      | Ok k \<Rightarrow>
          (case sc_nonblocking S k of
             (Err e, _) \<Rightarrow> Err (ScIo e)
           | (Ok b, k1) \<Rightarrow> Ok \<lparr>scn_inner = k1, scn_nonblocking = b\<rparr>))"

definition socket_can_new :: "('f, 'ef, 'c, 'cf, 'x, 'k) can_socket_ops \<Rightarrow> 'k \<Rightarrow> 'k socket_can" where
  "socket_can_new S k =
     (case sc_nonblocking S k of
        (Err _, k1) \<Rightarrow> \<lparr>scn_inner = k1, scn_nonblocking = False\<rparr>
      | (Ok b, k1) \<Rightarrow> \<lparr>scn_inner = k1, scn_nonblocking = b\<rparr>)"

fun map_can_frame ::
    "('f, 'ef, 'c, 'cf, 'x, 'k) can_socket_ops \<Rightarrow> ('f, 'ef) can_frame \<Rightarrow> (('f, 'ef) can_frame, ('x, 'c) socketcan_error) result" where
  "map_can_frame S (CanError f) = Err (ScCan (sc_into_error S f))"
| "map_can_frame S f = Ok f"

definition with_nonblocking ::
    "('f, 'ef, 'c, 'cf, 'x, 'k) can_socket_ops \<Rightarrow> 'k socket_can \<Rightarrow> ('k \<Rightarrow> ('a, 'x sc_io) result \<times> 'k) \<Rightarrow>
     ('a, ('x, 'c) socketcan_error) result \<times> 'k socket_can" where
  "with_nonblocking S a f =
     (if scn_nonblocking a then
        let (r, k1) = f (scn_inner a) in (map_err ScIo r, a\<lparr>scn_inner := k1\<rparr>)
      else
        (case sc_nonblocking S (scn_inner a) of
           (Err e, k1) \<Rightarrow> (Err (ScIo e), a\<lparr>scn_inner := k1\<rparr>)
         | (Ok was_nonblocking, k1) \<Rightarrow>
             if was_nonblocking then
               let (r, k2) = f k1 in (map_err ScIo r, a\<lparr>scn_inner := k2, scn_nonblocking := True\<rparr>)
             else
               (case sc_set_nonblocking S k1 True of
                  (Err e, k2) \<Rightarrow> (Err (ScIo e), a\<lparr>scn_inner := k2\<rparr>)
                | (Ok _, k2) \<Rightarrow>
                    let (r, k3) = f k2 in
                    (case sc_set_nonblocking S k3 False of
                       (Err e, k4) \<Rightarrow> (Err (ScIo e), a\<lparr>scn_inner := k4\<rparr>)
                     | (Ok _, k4) \<Rightarrow> (map_err ScIo r, a\<lparr>scn_inner := k4\<rparr>)))))"

definition with_write_timeout ::
    "('f, 'ef, 'c, 'cf, 'x, 'k) can_socket_ops \<Rightarrow> 'k \<Rightarrow> duration \<Rightarrow> ('k \<Rightarrow> ('a, 'x sc_io) result \<times> 'k) \<Rightarrow>
     ('a, ('x, 'c) socketcan_error) result \<times> 'k" where
  "with_write_timeout S k tmo f =
     (case sc_write_timeout S k of
        (Err e, k1) \<Rightarrow> (Err (ScIo e), k1)
      | (Ok prev, k1) \<Rightarrow>
          (case sc_set_write_timeout S k1 (Some tmo) of
             (Err e, k2) \<Rightarrow> (Err (ScIo e), k2)
           | (Ok _, k2) \<Rightarrow>
               let (r, k3) = f k2; (reset, k4) = sc_set_write_timeout S k3 prev in
               (case reset of Ok _ \<Rightarrow> (map_err ScIo r, k4) | Err e \<Rightarrow> (Err (ScIo e), k4))))"

fun wait_for_readable ::
    "nat \<Rightarrow> ('f, 'ef, 'c, 'cf, 'x, 'k) can_socket_ops \<Rightarrow> 'k \<Rightarrow> ((unit, ('x, 'c) socketcan_error) result \<times> 'k) option" where
  "wait_for_readable 0 S k = None"
| "wait_for_readable (Suc n) S k =
     (case sc_poll S k of
        (Ok _, k1) \<Rightarrow> Some (Ok (), k1)
      | (Err e, k1) \<Rightarrow> if e = EInterrupted then wait_for_readable n S k1 else Some (Err (ScIo (ScOs e)), k1))"

definition to_socketcan_filter ::
    "('s, 'e) can_id_api \<Rightarrow> ('f, 'ef, 'c, 'cf, 'x, 'k) can_socket_ops \<Rightarrow> ('s, 'e) id_mask_filter \<Rightarrow> ('cf, ('x, 'c) socketcan_error) result" where
  "to_socketcan_filter A S f =
     (case (flt_id f, flt_mask f) of
        (Standard i, MaskStandard m) \<Rightarrow> Ok (sc_filter_new S (ucast (std_raw A i)) (ucast m OR CAN_EFF_FLAG))
      | (Extended i, MaskExtended m) \<Rightarrow>
          Ok (sc_filter_new S (ext_raw A i OR CAN_EFF_FLAG) ((m AND 0x1FFFFFFF) OR CAN_EFF_FLAG))
      | _ \<Rightarrow> Err (ScIo (ScInvalidInput ''id/mask width mismatch'')))"

fun push_socketcan_filters ::
    "('s, 'e) can_id_api \<Rightarrow> ('f, 'ef, 'c, 'cf, 'x, 'k) can_socket_ops \<Rightarrow> 'cf list \<Rightarrow> ('s, 'e) id_mask_filter list \<Rightarrow>
     ('cf list, ('x, 'c) socketcan_error) result" where
  "push_socketcan_filters A S out [] = Ok out"
| "push_socketcan_filters A S out (f # fs) =
     try_res (to_socketcan_filter A S f) (\<lambda>c. push_socketcan_filters A S (out @ [c]) fs)"

section \<open>The blocking adapters\<close>

definition socket_can_send ::
    "('f, 'ef, 'c, 'cf, 'x, 'k) can_socket_ops \<Rightarrow> 'k socket_can \<Rightarrow> ('f, 'ef) can_frame \<Rightarrow>
     (unit, ('x, 'c) socketcan_error) result \<times> 'k socket_can" where
  "socket_can_send S a f = (let (r, k1) = sc_write_frame_insist S (scn_inner a) f in (map_err ScIo r, a\<lparr>scn_inner := k1\<rparr>))"

definition socket_can_try_send ::
    "('f, 'ef, 'c, 'cf, 'x, 'k) can_socket_ops \<Rightarrow> 'k socket_can \<Rightarrow> ('f, 'ef) can_frame \<Rightarrow>
     (unit, ('x, 'c) socketcan_error) result \<times> 'k socket_can" where
  "socket_can_try_send S a f = with_nonblocking S a (\<lambda>k. sc_write_frame S k f)"

definition socket_can_send_timeout ::
    "('f, 'ef, 'c, 'cf, 'x, 'k) can_socket_ops \<Rightarrow> 'k socket_can \<Rightarrow> ('f, 'ef) can_frame \<Rightarrow> duration \<Rightarrow>
     (unit, ('x, 'c) socketcan_error) result \<times> 'k socket_can" where
  "socket_can_send_timeout S a f tmo =
     (let (r, k1) = with_write_timeout S (scn_inner a) tmo (\<lambda>k. sc_write_frame S k f) in (r, a\<lparr>scn_inner := k1\<rparr>))"

definition socket_can_recv ::
    "('f, 'ef, 'c, 'cf, 'x, 'k) can_socket_ops \<Rightarrow> 'k socket_can \<Rightarrow>
     (('f, 'ef) can_frame, ('x, 'c) socketcan_error) result \<times> 'k socket_can" where
  "socket_can_recv S a =
     (let (r, k1) = sc_read_frame S (scn_inner a) in (try_res (map_err ScIo r) (map_can_frame S), a\<lparr>scn_inner := k1\<rparr>))"

definition socket_can_try_recv ::
    "('f, 'ef, 'c, 'cf, 'x, 'k) can_socket_ops \<Rightarrow> 'k socket_can \<Rightarrow>
     (('f, 'ef) can_frame, ('x, 'c) socketcan_error) result \<times> 'k socket_can" where
  "socket_can_try_recv S a = (let (r, a1) = with_nonblocking S a (sc_read_frame S) in (try_res r (map_can_frame S), a1))"

definition socket_can_recv_timeout ::
    "('f, 'ef, 'c, 'cf, 'x, 'k) can_socket_ops \<Rightarrow> 'k socket_can \<Rightarrow> duration \<Rightarrow>
     (('f, 'ef) can_frame, ('x, 'c) socketcan_error) result \<times> 'k socket_can" where
  "socket_can_recv_timeout S a tmo =
     (let (r, k1) = sc_read_frame_timeout S (scn_inner a) tmo
      in (try_res (map_err ScIo r) (map_can_frame S), a\<lparr>scn_inner := k1\<rparr>))"

definition socket_can_wait_not_empty ::
    "nat \<Rightarrow> ('f, 'ef, 'c, 'cf, 'x, 'k) can_socket_ops \<Rightarrow> 'k socket_can \<Rightarrow>
     ((unit, ('x, 'c) socketcan_error) result \<times> 'k socket_can) option" where
  "socket_can_wait_not_empty n S a =
     map_option (\<lambda>(r, k1). (r, a\<lparr>scn_inner := k1\<rparr>)) (wait_for_readable n S (scn_inner a))"

definition socket_can_set_nonblocking ::
    "('f, 'ef, 'c, 'cf, 'x, 'k) can_socket_ops \<Rightarrow> 'k socket_can \<Rightarrow> bool \<Rightarrow>
     (unit, ('x, 'c) socketcan_error) result \<times> 'k socket_can" where
  "socket_can_set_nonblocking S a on =
     (case sc_set_nonblocking S (scn_inner a) on of
        (Err e, k1) \<Rightarrow> (Err (ScIo e), a\<lparr>scn_inner := k1\<rparr>)
      | (Ok _, k1) \<Rightarrow> (Ok (), a\<lparr>scn_inner := k1, scn_nonblocking := on\<rparr>))"

definition socket_can_set_filters ::
    "('s, 'e) can_id_api \<Rightarrow> ('f, 'ef, 'c, 'cf, 'x, 'k) can_socket_ops \<Rightarrow> 'k socket_can \<Rightarrow> ('s, 'e) id_mask_filter list \<Rightarrow>
     (unit, ('x, 'c) socketcan_error) result \<times> 'k socket_can" where
  "socket_can_set_filters A S a filters =
     (if filters = [] then
        let (r, k1) = sc_set_filter_accept_all S (scn_inner a) in (map_err ScIo r, a\<lparr>scn_inner := k1\<rparr>)
      else
        (case push_socketcan_filters A S [] filters of
           Err e \<Rightarrow> (Err e, a)
         | Ok out \<Rightarrow> let (r, k1) = sc_set_filters S (scn_inner a) out in (map_err ScIo r, a\<lparr>scn_inner := k1\<rparr>)))"

section \<open>The blocking FD adapter\<close>

text \<open>\<open>SocketCanFd\<close> wraps another socket and frame type; its struct has the same fields.\<close>

definition socket_can_fd_open ::
    "('f, 'ef, 'c, 'cf, 'x, 'k) can_socket_ops \<Rightarrow> string \<Rightarrow> ('k socket_can, ('x, 'c) socketcan_error) result" where
  "socket_can_fd_open S iface =
     (case sc_open S iface of
        Err e \<Rightarrow> Err (ScIo e)
      | Ok k \<Rightarrow>
          (case sc_nonblocking S k of
             (Err e, _) \<Rightarrow> Err (ScIo e)
           | (Ok b, k1) \<Rightarrow> Ok \<lparr>scn_inner = k1, scn_nonblocking = b\<rparr>))"

definition socket_can_fd_new :: "('f, 'ef, 'c, 'cf, 'x, 'k) can_socket_ops \<Rightarrow> 'k \<Rightarrow> 'k socket_can" where
  "socket_can_fd_new S k =
     (case sc_nonblocking S k of
        (Err _, k1) \<Rightarrow> \<lparr>scn_inner = k1, scn_nonblocking = False\<rparr>
      | (Ok b, k1) \<Rightarrow> \<lparr>scn_inner = k1, scn_nonblocking = b\<rparr>)"

fun map_any_frame ::
    "('f, 'ef, 'c, 'cf, 'x, 'k) can_socket_ops \<Rightarrow> ('f, 'ef) can_frame \<Rightarrow> (('f, 'ef) can_frame, ('x, 'c) socketcan_error) result" where
  "map_any_frame S (CanError f) = Err (ScCan (sc_into_error S f))"
| "map_any_frame S f = Ok f"

definition socket_can_fd_send ::
    "('f, 'ef, 'c, 'cf, 'x, 'k) can_socket_ops \<Rightarrow> 'k socket_can \<Rightarrow> ('f, 'ef) can_frame \<Rightarrow>
     (unit, ('x, 'c) socketcan_error) result \<times> 'k socket_can" where
  "socket_can_fd_send S a f = (let (r, k1) = sc_write_frame_insist S (scn_inner a) f in (map_err ScIo r, a\<lparr>scn_inner := k1\<rparr>))"

definition socket_can_fd_try_send ::
    "('f, 'ef, 'c, 'cf, 'x, 'k) can_socket_ops \<Rightarrow> 'k socket_can \<Rightarrow> ('f, 'ef) can_frame \<Rightarrow>
     (unit, ('x, 'c) socketcan_error) result \<times> 'k socket_can" where
  "socket_can_fd_try_send S a f = with_nonblocking S a (\<lambda>k. sc_write_frame S k f)"

definition socket_can_fd_send_timeout ::
    "('f, 'ef, 'c, 'cf, 'x, 'k) can_socket_ops \<Rightarrow> 'k socket_can \<Rightarrow> ('f, 'ef) can_frame \<Rightarrow> duration \<Rightarrow>
     (unit, ('x, 'c) socketcan_error) result \<times> 'k socket_can" where
  "socket_can_fd_send_timeout S a f tmo =
     (let (r, k1) = with_write_timeout S (scn_inner a) tmo (\<lambda>k. sc_write_frame S k f) in (r, a\<lparr>scn_inner := k1\<rparr>))"

definition socket_can_fd_recv ::
    "('f, 'ef, 'c, 'cf, 'x, 'k) can_socket_ops \<Rightarrow> 'k socket_can \<Rightarrow>
     (('f, 'ef) can_frame, ('x, 'c) socketcan_error) result \<times> 'k socket_can" where
  "socket_can_fd_recv S a =
     (let (r, k1) = sc_read_frame S (scn_inner a) in (try_res (map_err ScIo r) (map_any_frame S), a\<lparr>scn_inner := k1\<rparr>))"

definition socket_can_fd_try_recv ::
    "('f, 'ef, 'c, 'cf, 'x, 'k) can_socket_ops \<Rightarrow> 'k socket_can \<Rightarrow>
     (('f, 'ef) can_frame, ('x, 'c) socketcan_error) result \<times> 'k socket_can" where
  "socket_can_fd_try_recv S a = (let (r, a1) = with_nonblocking S a (sc_read_frame S) in (try_res r (map_any_frame S), a1))"

definition socket_can_fd_recv_timeout ::
    "('f, 'ef, 'c, 'cf, 'x, 'k) can_socket_ops \<Rightarrow> 'k socket_can \<Rightarrow> duration \<Rightarrow>
     (('f, 'ef) can_frame, ('x, 'c) socketcan_error) result \<times> 'k socket_can" where
  "socket_can_fd_recv_timeout S a tmo =
     (let (r, k1) = sc_read_frame_timeout S (scn_inner a) tmo
      in (try_res (map_err ScIo r) (map_any_frame S), a\<lparr>scn_inner := k1\<rparr>))"

definition socket_can_fd_wait_not_empty ::
    "nat \<Rightarrow> ('f, 'ef, 'c, 'cf, 'x, 'k) can_socket_ops \<Rightarrow> 'k socket_can \<Rightarrow>
     ((unit, ('x, 'c) socketcan_error) result \<times> 'k socket_can) option" where
  "socket_can_fd_wait_not_empty n S a =
     map_option (\<lambda>(r, k1). (r, a\<lparr>scn_inner := k1\<rparr>)) (wait_for_readable n S (scn_inner a))"

definition socket_can_fd_set_nonblocking ::
    "('f, 'ef, 'c, 'cf, 'x, 'k) can_socket_ops \<Rightarrow> 'k socket_can \<Rightarrow> bool \<Rightarrow>
     (unit, ('x, 'c) socketcan_error) result \<times> 'k socket_can" where
  "socket_can_fd_set_nonblocking S a on =
     (case sc_set_nonblocking S (scn_inner a) on of
        (Err e, k1) \<Rightarrow> (Err (ScIo e), a\<lparr>scn_inner := k1\<rparr>)
      | (Ok _, k1) \<Rightarrow> (Ok (), a\<lparr>scn_inner := k1, scn_nonblocking := on\<rparr>))"

definition socket_can_fd_set_filters ::
    "('s, 'e) can_id_api \<Rightarrow> ('f, 'ef, 'c, 'cf, 'x, 'k) can_socket_ops \<Rightarrow> 'k socket_can \<Rightarrow> ('s, 'e) id_mask_filter list \<Rightarrow>
     (unit, ('x, 'c) socketcan_error) result \<times> 'k socket_can" where
  "socket_can_fd_set_filters A S a filters =
     (if filters = [] then
        let (r, k1) = sc_set_filter_accept_all S (scn_inner a) in (map_err ScIo r, a\<lparr>scn_inner := k1\<rparr>)
      else
        (case push_socketcan_filters A S [] filters of
           Err e \<Rightarrow> (Err e, a)
         | Ok out \<Rightarrow> let (r, k1) = sc_set_filters S (scn_inner a) out in (map_err ScIo r, a\<lparr>scn_inner := k1\<rparr>)))"

section \<open>The tokio adapters\<close>

record 'k tokio_socket_can =
  tsc_inner :: 'k

definition tokio_can_open ::
    "('f, 'ef, 'c, 'cf, 'x, 'k) can_socket_ops \<Rightarrow> string \<Rightarrow> ('k tokio_socket_can, ('x, 'c) socketcan_error) result" where
  "tokio_can_open S iface = (case sc_open S iface of Err e \<Rightarrow> Err (ScIo e) | Ok k \<Rightarrow> Ok \<lparr>tsc_inner = k\<rparr>)"

text \<open>The module has its own copies of the helpers.\<close>

fun tokio_map_can_frame ::
    "('f, 'ef, 'c, 'cf, 'x, 'k) can_socket_ops \<Rightarrow> ('f, 'ef) can_frame \<Rightarrow> (('f, 'ef) can_frame, ('x, 'c) socketcan_error) result" where
  "tokio_map_can_frame S (CanError f) = Err (ScCan (sc_into_error S f))"
| "tokio_map_can_frame S f = Ok f"

fun tokio_map_any_frame ::
    "('f, 'ef, 'c, 'cf, 'x, 'k) can_socket_ops \<Rightarrow> ('f, 'ef) can_frame \<Rightarrow> (('f, 'ef) can_frame, ('x, 'c) socketcan_error) result" where
  "tokio_map_any_frame S (CanError f) = Err (ScCan (sc_into_error S f))"
| "tokio_map_any_frame S f = Ok f"

definition tokio_to_socketcan_filter ::
    "('s, 'e) can_id_api \<Rightarrow> ('f, 'ef, 'c, 'cf, 'x, 'k) can_socket_ops \<Rightarrow> ('s, 'e) id_mask_filter \<Rightarrow> ('cf, ('x, 'c) socketcan_error) result" where
  "tokio_to_socketcan_filter A S f =
     (case (flt_id f, flt_mask f) of
        (Standard i, MaskStandard m) \<Rightarrow>
          let can_id = ucast (std_raw A i); can_mask = ucast m OR CAN_EFF_FLAG in Ok (sc_filter_new S can_id can_mask)
      | (Extended i, MaskExtended m) \<Rightarrow>
          let can_id = ext_raw A i OR CAN_EFF_FLAG; can_mask = (m AND 0x1FFFFFFF) OR CAN_EFF_FLAG in Ok (sc_filter_new S can_id can_mask)
      | _ \<Rightarrow> Err (ScIo (ScInvalidInput ''id/mask width mismatch'')))"

fun tokio_push_filters ::
    "('s, 'e) can_id_api \<Rightarrow> ('f, 'ef, 'c, 'cf, 'x, 'k) can_socket_ops \<Rightarrow> 'cf list \<Rightarrow> ('s, 'e) id_mask_filter list \<Rightarrow>
     ('cf list, ('x, 'c) socketcan_error) result" where
  "tokio_push_filters A S out [] = Ok out"
| "tokio_push_filters A S out (f # fs) =
     try_res (tokio_to_socketcan_filter A S f) (\<lambda>c. tokio_push_filters A S (out @ [c]) fs)"

definition tokio_can_send ::
    "('f, 'ef, 'c, 'cf, 'x, 'k) can_socket_ops \<Rightarrow> 'k tokio_socket_can \<Rightarrow> ('f, 'ef) can_frame \<Rightarrow>
     (unit, ('x, 'c) socketcan_error) result \<times> 'k tokio_socket_can" where
  "tokio_can_send S a f = (let (r, k1) = sc_write_frame S (tsc_inner a) f in (map_err ScIo r, a\<lparr>tsc_inner := k1\<rparr>))"

definition tokio_can_send_timeout ::
    "('f, 'ef, 'c, 'cf, 'x, 'k) can_socket_ops \<Rightarrow> 'k tokio_socket_can \<Rightarrow> ('f, 'ef) can_frame \<Rightarrow> duration \<Rightarrow>
     (unit, ('x, 'c) socketcan_error) result \<times> 'k tokio_socket_can" where
  "tokio_can_send_timeout S a f tmo = tokio_can_send S a f"

definition tokio_can_recv ::
    "('f, 'ef, 'c, 'cf, 'x, 'k) can_socket_ops \<Rightarrow> 'k tokio_socket_can \<Rightarrow>
     (('f, 'ef) can_frame, ('x, 'c) socketcan_error) result \<times> 'k tokio_socket_can" where
  "tokio_can_recv S a =
     (let (r, k1) = sc_read_frame S (tsc_inner a) in (try_res (map_err ScIo r) (tokio_map_can_frame S), a\<lparr>tsc_inner := k1\<rparr>))"

definition tokio_can_recv_timeout ::
    "('f, 'ef, 'c, 'cf, 'x, 'k) can_socket_ops \<Rightarrow> 'k tokio_socket_can \<Rightarrow> duration \<Rightarrow>
     (('f, 'ef) can_frame, ('x, 'c) socketcan_error) result \<times> 'k tokio_socket_can" where
  "tokio_can_recv_timeout S a tmo = tokio_can_recv S a"

definition tokio_can_wait_not_empty ::
    "'k tokio_socket_can \<Rightarrow> (unit, ('x, 'c) socketcan_error) result \<times> 'k tokio_socket_can" where
  "tokio_can_wait_not_empty a = (Ok (), a)"

definition tokio_can_set_filters ::
    "('s, 'e) can_id_api \<Rightarrow> ('f, 'ef, 'c, 'cf, 'x, 'k) can_socket_ops \<Rightarrow> 'k tokio_socket_can \<Rightarrow> ('s, 'e) id_mask_filter list \<Rightarrow>
     (unit, ('x, 'c) socketcan_error) result \<times> 'k tokio_socket_can" where
  "tokio_can_set_filters A S a filters =
     (if filters = [] then
        let (r, k1) = sc_set_filter_accept_all S (tsc_inner a) in (map_err ScIo r, a\<lparr>tsc_inner := k1\<rparr>)
      else
        (case tokio_push_filters A S [] filters of
           Err e \<Rightarrow> (Err e, a)
         | Ok out \<Rightarrow> let (r, k1) = sc_set_filters S (tsc_inner a) out in (map_err ScIo r, a\<lparr>tsc_inner := k1\<rparr>)))"

section \<open>The tokio FD adapter\<close>

definition tokio_can_fd_open ::
    "('f, 'ef, 'c, 'cf, 'x, 'k) can_socket_ops \<Rightarrow> string \<Rightarrow> ('k tokio_socket_can, ('x, 'c) socketcan_error) result" where
  "tokio_can_fd_open S iface = (case sc_open S iface of Err e \<Rightarrow> Err (ScIo e) | Ok k \<Rightarrow> Ok \<lparr>tsc_inner = k\<rparr>)"

definition tokio_can_fd_send ::
    "('f, 'ef, 'c, 'cf, 'x, 'k) can_socket_ops \<Rightarrow> 'k tokio_socket_can \<Rightarrow> ('f, 'ef) can_frame \<Rightarrow>
     (unit, ('x, 'c) socketcan_error) result \<times> 'k tokio_socket_can" where
  "tokio_can_fd_send S a f = (let (r, k1) = sc_write_frame S (tsc_inner a) f in (map_err ScIo r, a\<lparr>tsc_inner := k1\<rparr>))"

definition tokio_can_fd_send_timeout ::
    "('f, 'ef, 'c, 'cf, 'x, 'k) can_socket_ops \<Rightarrow> 'k tokio_socket_can \<Rightarrow> ('f, 'ef) can_frame \<Rightarrow> duration \<Rightarrow>
     (unit, ('x, 'c) socketcan_error) result \<times> 'k tokio_socket_can" where
  "tokio_can_fd_send_timeout S a f tmo = tokio_can_fd_send S a f"

definition tokio_can_fd_recv ::
    "('f, 'ef, 'c, 'cf, 'x, 'k) can_socket_ops \<Rightarrow> 'k tokio_socket_can \<Rightarrow>
     (('f, 'ef) can_frame, ('x, 'c) socketcan_error) result \<times> 'k tokio_socket_can" where
  "tokio_can_fd_recv S a =
     (let (r, k1) = sc_read_frame S (tsc_inner a) in (try_res (map_err ScIo r) (tokio_map_any_frame S), a\<lparr>tsc_inner := k1\<rparr>))"

definition tokio_can_fd_recv_timeout ::
    "('f, 'ef, 'c, 'cf, 'x, 'k) can_socket_ops \<Rightarrow> 'k tokio_socket_can \<Rightarrow> duration \<Rightarrow>
     (('f, 'ef) can_frame, ('x, 'c) socketcan_error) result \<times> 'k tokio_socket_can" where
  "tokio_can_fd_recv_timeout S a tmo = tokio_can_fd_recv S a"

definition tokio_can_fd_wait_not_empty ::
    "'k tokio_socket_can \<Rightarrow> (unit, ('x, 'c) socketcan_error) result \<times> 'k tokio_socket_can" where
  "tokio_can_fd_wait_not_empty a = (Ok (), a)"

definition tokio_can_fd_set_filters ::
    "('s, 'e) can_id_api \<Rightarrow> ('f, 'ef, 'c, 'cf, 'x, 'k) can_socket_ops \<Rightarrow> 'k tokio_socket_can \<Rightarrow> ('s, 'e) id_mask_filter list \<Rightarrow>
     (unit, ('x, 'c) socketcan_error) result \<times> 'k tokio_socket_can" where
  "tokio_can_fd_set_filters A S a filters =
     (if filters = [] then
        let (r, k1) = sc_set_filter_accept_all S (tsc_inner a) in (map_err ScIo r, a\<lparr>tsc_inner := k1\<rparr>)
      else
        (case tokio_push_filters A S [] filters of
           Err e \<Rightarrow> (Err e, a)
         | Ok out \<Rightarrow> let (r, k1) = sc_set_filters S (tsc_inner a) out in (map_err ScIo r, a\<lparr>tsc_inner := k1\<rparr>)))"

end
