(* ===== verification/Can_Socket_Props.thy ===== *)
theory Can_Socket_Props
  imports Can_Socket
begin

text \<open>
  The SocketCAN adapters: a filter list is translated into kernel filters that pass exactly the same
  identifiers, so that the adapters implement \<open>filter_config\<close>; the operations that must not block access
  the socket only in non-blocking mode and restore the mode.
\<close>

unbundle bit_operations_syntax

named_theorems fd_eqs

section \<open>Classic and FD\<close>

text \<open>The FD adapters have the code of the classic ones, so that what follows holds of both.\<close>

lemma map_any_frame_eq [fd_eqs]: "map_any_frame S f = map_can_frame S f"
  by (cases f) simp_all

text \<open>The helpers of the tokio module are those of the blocking one.\<close>

lemma tokio_map_can_frame_eq [fd_eqs]: "tokio_map_can_frame S f = map_can_frame S f"
  by (cases f) simp_all

lemma tokio_map_any_frame_eq [fd_eqs]: "tokio_map_any_frame S f = map_can_frame S f"
  by (cases f) simp_all

lemma tokio_to_socketcan_filter_eq [fd_eqs]: "tokio_to_socketcan_filter A S f = to_socketcan_filter A S f"
  by (simp add: tokio_to_socketcan_filter_def to_socketcan_filter_def Let_def split: can_id.split id_mask.split)

lemma tokio_push_filters_eq [fd_eqs]: "tokio_push_filters A S out fs = push_socketcan_filters A S out fs"
  by (induction fs arbitrary: out) (simp_all add: tokio_to_socketcan_filter_eq)

lemma socket_can_fd_eq [fd_eqs]:
  "socket_can_fd_open S = socket_can_open S" "socket_can_fd_new S = socket_can_new S"
  "socket_can_fd_send S = socket_can_send S" "socket_can_fd_try_send S = socket_can_try_send S"
  "socket_can_fd_send_timeout S = socket_can_send_timeout S" "socket_can_fd_recv S = socket_can_recv S"
  "socket_can_fd_try_recv S = socket_can_try_recv S" "socket_can_fd_recv_timeout S = socket_can_recv_timeout S"
  "socket_can_fd_wait_not_empty n S = socket_can_wait_not_empty n S" "socket_can_fd_set_nonblocking S = socket_can_set_nonblocking S"
  "socket_can_fd_set_filters A S = socket_can_set_filters A S"
  by (simp_all add: fun_eq_iff map_any_frame_eq [abs_def] socket_can_fd_open_def socket_can_open_def socket_can_fd_new_def socket_can_new_def
    socket_can_fd_send_def socket_can_send_def socket_can_fd_try_send_def socket_can_try_send_def socket_can_fd_send_timeout_def
    socket_can_send_timeout_def socket_can_fd_recv_def socket_can_recv_def socket_can_fd_try_recv_def socket_can_try_recv_def
    socket_can_fd_recv_timeout_def socket_can_recv_timeout_def socket_can_fd_wait_not_empty_def socket_can_wait_not_empty_def
    socket_can_fd_set_nonblocking_def socket_can_set_nonblocking_def socket_can_fd_set_filters_def socket_can_set_filters_def)

lemma tokio_can_fd_eq [fd_eqs]:
  "tokio_can_fd_open S = tokio_can_open S" "tokio_can_fd_send S = tokio_can_send S" "tokio_can_fd_send_timeout S = tokio_can_send_timeout S"
  "tokio_can_fd_recv S = tokio_can_recv S" "tokio_can_fd_recv_timeout S = tokio_can_recv_timeout S"
  "tokio_can_fd_wait_not_empty = tokio_can_wait_not_empty" "tokio_can_fd_set_filters A S = tokio_can_set_filters A S"
  by (simp_all add: fun_eq_iff tokio_map_any_frame_eq [abs_def] tokio_map_can_frame_eq [abs_def] tokio_can_fd_open_def tokio_can_open_def tokio_can_fd_send_def tokio_can_send_def
    tokio_can_fd_send_timeout_def tokio_can_send_timeout_def tokio_can_fd_recv_def tokio_can_recv_def tokio_can_fd_recv_timeout_def
    tokio_can_recv_timeout_def tokio_can_fd_wait_not_empty_def tokio_can_wait_not_empty_def tokio_can_fd_set_filters_def tokio_can_set_filters_def)

section \<open>Filters\<close>

text \<open>The identifier word of a received frame, as the kernel has it.\<close>

fun frame_can_id :: "('s, 'e) can_id_api \<Rightarrow> ('s, 'e) can_id \<Rightarrow> bool \<Rightarrow> u32" where
  "frame_can_id A (Standard i) remote = ucast (std_raw A i) OR (if remote then CAN_RTR_FLAG else 0)"
| "frame_can_id A (Extended i) remote = ext_raw A i OR CAN_EFF_FLAG OR (if remote then CAN_RTR_FLAG else 0)"

text \<open>Identifiers have 11 and 29 bits.\<close>

definition can_id_range :: "('s, 'e) can_id_api \<Rightarrow> bool" where
  "can_id_range A \<longleftrightarrow> (\<forall>i n. bit (std_raw A i) n \<longrightarrow> n < 11) \<and> (\<forall>i n. bit (ext_raw A i) n \<longrightarrow> n < 29)"

text \<open>What the socket shows of its filters, and the rule of the kernel's raw sockets: a filter that is neither
  inverted nor for error frames (bit 29 clear) passes a frame when the masked words agree; a frame passes a socket when
  one of its filters passes it; a call that fails changes nothing.\<close>

record ('cf, 'k) can_filter_view =
  cv_passes :: "'k \<Rightarrow> u32 \<Rightarrow> bool"
  cv_match :: "'cf \<Rightarrow> u32 \<Rightarrow> bool"

definition raw_filter_laws :: "('f, 'ef, 'c, 'cf, 'x, 'k) can_socket_ops \<Rightarrow> ('cf, 'k) can_filter_view \<Rightarrow> bool" where
  "raw_filter_laws S V \<longleftrightarrow>
     (\<forall>i m c. \<not> bit i 29 \<longrightarrow> \<not> bit m 29 \<longrightarrow> cv_match V (sc_filter_new S i m) c \<longleftrightarrow> c AND m = i AND m) \<and>
     (\<forall>k fs r k'. sc_set_filters S k fs = (r, k') \<longrightarrow>
        cv_passes V k' = (if is_ok r then \<lambda>c. list_ex (\<lambda>f. cv_match V f c) fs else cv_passes V k)) \<and>
     (\<forall>k r k'. sc_set_filter_accept_all S k = (r, k') \<longrightarrow>
        cv_passes V k' = (if is_ok r then \<lambda>c. True else cv_passes V k))"

lemma bit_flags: "bit CAN_EFF_FLAG n \<longleftrightarrow> n = 31" "bit CAN_RTR_FLAG n \<longleftrightarrow> n = 30" "bit (0x1FFFFFFF :: u32) n \<longleftrightarrow> n < 29"
proof -
  have e: "CAN_EFF_FLAG = push_bit 31 1" "CAN_RTR_FLAG = push_bit 30 1" by (simp_all add: CAN_EFF_FLAG_def CAN_RTR_FLAG_def)
  show "bit CAN_EFF_FLAG n \<longleftrightarrow> n = 31" unfolding e by (subst bit_push_bit_iff) (auto simp: bit_1_iff)
  show "bit CAN_RTR_FLAG n \<longleftrightarrow> n = 30" unfolding e by (subst bit_push_bit_iff) (auto simp: bit_1_iff)
  have m: "(0x1FFFFFFF :: u32) = mask 29" by (simp add: mask_eq_exp_minus_1)
  show "bit (0x1FFFFFFF :: u32) n \<longleftrightarrow> n < 29" unfolding m by (subst bit_mask_iff) auto
qed

lemma and_eq_iff_bits: "(x :: 'a::len word) AND m = y AND m \<longleftrightarrow> (\<forall>n. bit m n \<longrightarrow> bit x n = bit y n)"
proof
  assume "x AND m = y AND m"
  then show "\<forall>n. bit m n \<longrightarrow> bit x n = bit y n" by (metis bit_and_iff)
next
  assume "\<forall>n. bit m n \<longrightarrow> bit x n = bit y n"
  then show "x AND m = y AND m" by (intro bit_word_eqI) (auto simp: bit_and_iff)
qed

lemma bit_ucast32: "bit (ucast (w :: u16) :: u32) n \<longleftrightarrow> bit w n"
  by (auto simp: bit_simps dest: bit_imp_le_length)

text \<open>The masked comparison of the words, for the four combinations of received and configured kind.\<close>

definition rtr_bits :: "bool \<Rightarrow> u32" where "rtr_bits remote = (if remote then CAN_RTR_FLAG else 0)"

lemma bit_rtr: "bit (rtr_bits remote) n \<longleftrightarrow> remote \<and> n = 30"
  by (simp add: rtr_bits_def bit_flags)

lemmas word_bits = and_eq_iff_bits bit_or_iff bit_and_iff bit_flags bit_rtr bit_ucast32

lemma std_std_words:
  assumes "\<forall>n. bit x n \<longrightarrow> n < 11" "\<forall>n. bit y n \<longrightarrow> n < 11"
  shows "(ucast x OR rtr_bits b) AND (ucast (m :: u16) OR CAN_EFF_FLAG) = ucast y AND (ucast m OR CAN_EFF_FLAG) \<longleftrightarrow> x AND m = y AND m"
  using assms bit_imp_le_length [of m 30] unfolding word_bits by fastforce

lemma ext_std_words:
  assumes "\<forall>n. bit (y :: u16) n \<longrightarrow> n < 11"
  shows "(x OR CAN_EFF_FLAG OR rtr_bits b) AND (ucast (m :: u16) OR CAN_EFF_FLAG) \<noteq> ucast y AND (ucast m OR CAN_EFF_FLAG)"
  using assms unfolding word_bits by (auto intro!: exI [of _ 31])

lemma ext_ext_words:
  assumes "\<forall>n. bit x n \<longrightarrow> n < 29" "\<forall>n. bit y n \<longrightarrow> n < 29"
  shows "(x OR CAN_EFF_FLAG OR rtr_bits b) AND (m AND 0x1FFFFFFF OR CAN_EFF_FLAG) = (y OR CAN_EFF_FLAG) AND (m AND 0x1FFFFFFF OR CAN_EFF_FLAG) \<longleftrightarrow>
    x AND m = y AND m"
  using assms unfolding word_bits by fastforce

lemma std_ext_words:
  assumes "\<forall>n. bit x n \<longrightarrow> n < 11"
  shows "(ucast (x :: u16) OR rtr_bits b) AND (m AND 0x1FFFFFFF OR CAN_EFF_FLAG) \<noteq> (y OR CAN_EFF_FLAG) AND (m AND 0x1FFFFFFF OR CAN_EFF_FLAG)"
  using assms unfolding word_bits by (auto intro!: exI [of _ 31])

lemma frame_can_id_words:
  "frame_can_id A (Standard i) remote = ucast (std_raw A i) OR rtr_bits remote"
  "frame_can_id A (Extended j) remote = ext_raw A j OR CAN_EFF_FLAG OR rtr_bits remote"
  by (simp_all add: rtr_bits_def)

lemma to_socketcan_filter_match:
  assumes A: "can_id_range A" and V: "raw_filter_laws S V" and c: "to_socketcan_filter A S f = Ok c"
  shows "cv_match V c (frame_can_id A i remote) \<longleftrightarrow> filter_match A f i"
proof (cases f rule: filter_cases)
  case (std j m)
  have rng: "\<forall>n. bit (std_raw A j) n \<longrightarrow> n < 11" for j using A by (simp add: can_id_range_def)
  have "c = sc_filter_new S (ucast (std_raw A j)) (ucast m OR CAN_EFF_FLAG)" using c std by (simp add: to_socketcan_filter_def)
  moreover have "\<not> bit (ucast (std_raw A j) :: u32) 29" "\<not> bit (ucast m OR CAN_EFF_FLAG) 29"
    using rng [of j] bit_imp_le_length [of m 29] by (auto simp: word_bits)
  ultimately have "cv_match V c w \<longleftrightarrow> w AND (ucast m OR CAN_EFF_FLAG) = ucast (std_raw A j) AND (ucast m OR CAN_EFF_FLAG)" for w
    using V by (simp add: raw_filter_laws_def)
  then show ?thesis using std std_std_words [OF rng rng] ext_std_words [OF rng]
    by (cases i) (simp_all only: frame_can_id_words filter_match.simps, simp_all)
next
  case (ext j m)
  have rng: "\<forall>n. bit (std_raw A j) n \<longrightarrow> n < 11" "\<forall>n. bit (ext_raw A e) n \<longrightarrow> n < 29" for j e using A by (simp_all add: can_id_range_def)
  have "c = sc_filter_new S (ext_raw A j OR CAN_EFF_FLAG) (m AND 0x1FFFFFFF OR CAN_EFF_FLAG)" using c ext by (simp add: to_socketcan_filter_def)
  moreover have "\<not> bit (ext_raw A j OR CAN_EFF_FLAG) 29" "\<not> bit (m AND 0x1FFFFFFF OR CAN_EFF_FLAG) 29"
    using rng(2) [of j] by (auto simp: word_bits)
  ultimately have "cv_match V c w \<longleftrightarrow>
      w AND (m AND 0x1FFFFFFF OR CAN_EFF_FLAG) = (ext_raw A j OR CAN_EFF_FLAG) AND (m AND 0x1FFFFFFF OR CAN_EFF_FLAG)" for w
    using V by (simp add: raw_filter_laws_def)
  then show ?thesis using ext ext_ext_words [OF rng(2) rng(2)] std_ext_words [OF rng(1)]
    by (cases i) (simp_all only: frame_can_id_words filter_match.simps, simp_all)
qed (use c in \<open>simp_all add: to_socketcan_filter_def\<close>)

text \<open>The list of filters, and the two adapters.\<close>

lemma push_socketcan_filters_match:
  assumes "can_id_range A" "raw_filter_laws S V" and "push_socketcan_filters A S out fs = Ok out'"
  shows "list_ex (\<lambda>c. cv_match V c (frame_can_id A i remote)) out' \<longleftrightarrow>
     list_ex (\<lambda>c. cv_match V c (frame_can_id A i remote)) out \<or> list_ex (\<lambda>f. filter_match A f i) fs"
  using assms(3)
proof (induction fs arbitrary: out)
  case (Cons f fs)
  then obtain c where c: "to_socketcan_filter A S f = Ok c" "push_socketcan_filters A S (out @ [c]) fs = Ok out'" by auto
  from Cons.IH [OF c(2)] to_socketcan_filter_match [OF assms(1,2) c(1)]
  show ?case by (simp del: filter_match.simps frame_can_id.simps)
qed simp

lemma push_socketcan_filters_ok: "is_ok (push_socketcan_filters A S out fs) \<longleftrightarrow> list_all same_width fs"
proof (induction fs arbitrary: out)
  case (Cons f fs)
  then show ?case by (cases f rule: filter_cases) (simp_all add: to_socketcan_filter_def)
qed simp

definition socket_can_configure ::
    "('s, 'e) can_id_api \<Rightarrow> ('f, 'ef, 'c, 'cf, 'x, 'k) can_socket_ops \<Rightarrow> 'k socket_can \<Rightarrow> ('s, 'e) id_mask_filter list \<Rightarrow> bool \<times> 'k socket_can" where
  "socket_can_configure A S a fs = (let (r, a1) = socket_can_set_filters A S a fs in (is_ok r, a1))"

definition socket_can_passes ::
    "('s, 'e) can_id_api \<Rightarrow> ('cf, 'k) can_filter_view \<Rightarrow> bool \<Rightarrow> 'k \<Rightarrow> ('s, 'e) can_id \<Rightarrow> bool" where
  "socket_can_passes A V remote k i = cv_passes V k (frame_can_id A i remote)"

definition can_filter_laws :: "('s, 'e) can_id_api \<Rightarrow> ('f, 'ef, 'c, 'cf, 'x, 'k) can_socket_ops \<Rightarrow> ('cf, 'k) can_filter_view \<Rightarrow> bool" where
  "can_filter_laws A S V \<longleftrightarrow> can_id_range A \<and> raw_filter_laws S V"

lemma is_ok_map_err [simp]: "is_ok (map_err f r) = is_ok r"
  by (cases r) simp_all

lemma socket_can_configure_spec:
  assumes laws: "can_filter_laws A S V" and run: "socket_can_configure A S a fs = (b, a')"
  shows "(b \<longrightarrow> list_all same_width fs) \<and>
    socket_can_passes A V remote (scn_inner a') i = (if b then passes A fs i else socket_can_passes A V remote (scn_inner a) i)"
proof -
  have A: "can_id_range A" and V: "raw_filter_laws S V" using laws by (auto simp: can_filter_laws_def)
  have sets: "sc_set_filters S k cs = (r, k') \<Longrightarrow> cv_passes V k' = (if is_ok r then \<lambda>c. list_ex (\<lambda>f. cv_match V f c) cs else cv_passes V k)"
    and all: "sc_set_filter_accept_all S k = (r, k') \<Longrightarrow> cv_passes V k' = (if is_ok r then \<lambda>c. True else cv_passes V k)" for k cs r k'
    using V unfolding raw_filter_laws_def by blast+
  show ?thesis
  proof (cases "fs = []")
    case True
    then show ?thesis using run all
      by (auto simp: socket_can_configure_def socket_can_set_filters_def socket_can_passes_def passes_def split: prod.splits)
  next
    case False
    show ?thesis
    proof (cases "push_socketcan_filters A S [] fs")
      case (Ok cs)
      have "list_all same_width fs" using push_socketcan_filters_ok [of A S "[]" fs] Ok by simp
      moreover have "list_ex (\<lambda>c. cv_match V c (frame_can_id A i remote)) cs = passes A fs i"
        using push_socketcan_filters_match [OF A V Ok] False by (simp add: passes_def)
      ultimately show ?thesis using run Ok False sets
        by (auto simp: socket_can_configure_def socket_can_set_filters_def socket_can_passes_def split: prod.splits)
    next
      case (Err e)
      then show ?thesis using run False by (simp add: socket_can_configure_def socket_can_set_filters_def)
    qed
  qed
qed

interpretation socket_can: filter_config A "\<lambda>_. can_filter_laws A S V" "socket_can_configure A S"
    "\<lambda>a. socket_can_passes A V remote (scn_inner a)" for A S V remote
  by unfold_locales (use socket_can_configure_spec in \<open>metis (full_types)\<close>)+

text \<open>The tokio adapter configures its socket as the blocking one does.\<close>

definition as_blocking :: "'k tokio_socket_can \<Rightarrow> 'k socket_can" where
  "as_blocking a = \<lparr>scn_inner = tsc_inner a, scn_nonblocking = True\<rparr>"

lemma tokio_can_set_filters_eq:
  "tokio_can_set_filters A S a fs = (let (r, b) = socket_can_set_filters A S (as_blocking a) fs in (r, a\<lparr>tsc_inner := scn_inner b\<rparr>))"
  by (auto simp: tokio_can_set_filters_def tokio_push_filters_eq socket_can_set_filters_def as_blocking_def split: prod.splits result.splits)

definition tokio_can_configure ::
    "('s, 'e) can_id_api \<Rightarrow> ('f, 'ef, 'c, 'cf, 'x, 'k) can_socket_ops \<Rightarrow> 'k tokio_socket_can \<Rightarrow> ('s, 'e) id_mask_filter list \<Rightarrow> bool \<times> 'k tokio_socket_can" where
  "tokio_can_configure A S a fs = (let (r, a1) = tokio_can_set_filters A S a fs in (is_ok r, a1))"

lemma tokio_can_configure_eq:
  "tokio_can_configure A S a fs = (b, a') \<Longrightarrow> \<exists>c. socket_can_configure A S (as_blocking a) fs = (b, c) \<and> scn_inner c = tsc_inner a'"
  by (auto simp: tokio_can_configure_def tokio_can_set_filters_eq socket_can_configure_def split: prod.splits)

interpretation tokio_can: filter_config A "\<lambda>_. can_filter_laws A S V" "tokio_can_configure A S"
    "\<lambda>a. socket_can_passes A V remote (tsc_inner a)" for A S V remote
proof unfold_locales
  fix a fs a' i
  assume laws: "can_filter_laws A S V" and run: "tokio_can_configure A S a fs = (True, a')"
  then obtain c where "socket_can_configure A S (as_blocking a) fs = (True, c)" "scn_inner c = tsc_inner a'"
    using tokio_can_configure_eq by blast
  then show "socket_can_passes A V remote (tsc_inner a') i = passes A fs i"
    using socket_can.configured [OF laws, of "as_blocking a" fs c remote i] by simp
next
  fix a fs a' i
  assume laws: "can_filter_laws A S V" and run: "tokio_can_configure A S a fs = (False, a')"
  then obtain c where "socket_can_configure A S (as_blocking a) fs = (False, c)" "scn_inner c = tsc_inner a'"
    using tokio_can_configure_eq by blast
  then show "socket_can_passes A V remote (tsc_inner a') i = socket_can_passes A V remote (tsc_inner a) i"
    using socket_can.rejected [OF laws, of "as_blocking a" fs c remote i] by (simp add: as_blocking_def)
qed simp

text \<open>C18: SocketCAN filters are exact: after any sequence of configurations of a blocking or a tokio adapter, a data or
  remote frame passes the socket exactly when its identifier passes the list of the last successful configuration, the
  kernel comparing words with flag bits and the lists having kinds. A list in which an identifier and its mask differ in
  width is never taken.\<close>

theorem socketcan_filters:
  assumes laws: "can_filter_laws A S V"
    and run: "configure_all (socket_can_configure A S) a fss = (bs, a')"
    and trun: "configure_all (tokio_can_configure A S) t fss = (cs, t')"
  shows "socket_can_passes A V remote (scn_inner a') i =
      (case filter snd (rev (zip fss bs)) of [] \<Rightarrow> socket_can_passes A V remote (scn_inner a) i | (fs, _) # _ \<Rightarrow> passes A fs i) \<and>
    socket_can_passes A V remote (tsc_inner t') i =
      (case filter snd (rev (zip fss cs)) of [] \<Rightarrow> socket_can_passes A V remote (tsc_inner t) i | (fs, _) # _ \<Rightarrow> passes A fs i) \<and>
    (is_ok (fst (socket_can_fd_set_filters A S a' fs)) \<longrightarrow> list_all same_width fs)"
proof -
  have "is_ok (fst (socket_can_set_filters A S a' fs)) \<longrightarrow> list_all same_width fs"
    using socket_can_configure_spec [OF laws, of a' fs "is_ok (fst (socket_can_set_filters A S a' fs))"]
    by (simp add: socket_can_configure_def split_beta)
  then show ?thesis unfolding fd_eqs
    using socket_can.last_success_wins [OF laws run] tokio_can.last_success_wins [OF laws trun] by blast
qed

text \<open>A socket with its mode, its filters and the frames that wait.\<close>

record sim_socket =
  sim_mode :: bool
  sim_filters :: "(u32 \<times> u32) list"
  sim_rx :: "nat list"

definition sim_read :: "sim_socket \<Rightarrow> ((nat, unit) can_frame, unit sc_io) result \<times> sim_socket" where
  "sim_read k = (case sim_rx k of [] \<Rightarrow> (Err (ScOs EWouldBlock), k) | f # fs \<Rightarrow> (Ok (CanOther f), k\<lparr>sim_rx := fs\<rparr>))"

definition sim_can :: "(nat, unit, unit, u32 \<times> u32, unit, sim_socket) can_socket_ops" where
  "sim_can = \<lparr>sc_open = \<lambda>_. Ok \<lparr>sim_mode = False, sim_filters = [(0, 0)], sim_rx = []\<rparr>,
     sc_nonblocking = \<lambda>k. (Ok (sim_mode k), k), sc_set_nonblocking = \<lambda>k b. (Ok (), k\<lparr>sim_mode := b\<rparr>),
     sc_write_frame = \<lambda>k f. (Ok (), k), sc_write_frame_insist = \<lambda>k f. (Ok (), k),
     sc_read_frame = sim_read, sc_read_frame_timeout = \<lambda>k t. sim_read k,
     sc_write_timeout = \<lambda>k. (Ok None, k), sc_set_write_timeout = \<lambda>k t. (Ok (), k), sc_poll = \<lambda>k. (Ok 1, k),
     sc_filter_new = Pair, sc_set_filters = \<lambda>k cs. (Ok (), k\<lparr>sim_filters := cs\<rparr>),
     sc_set_filter_accept_all = \<lambda>k. (Ok (), k\<lparr>sim_filters := [(0, 0)]\<rparr>), sc_into_error = \<lambda>_. ()\<rparr>"

definition sim_view :: "(u32 \<times> u32, sim_socket) can_filter_view" where
  "sim_view = \<lparr>cv_passes = \<lambda>k c. list_ex (\<lambda>f. c AND snd f = fst f AND snd f) (sim_filters k), cv_match = \<lambda>f c. c AND snd f = fst f AND snd f\<rparr>"

lemma sim_filter_laws: "can_filter_laws bit_id_api sim_can sim_view"
  by (auto simp: can_filter_laws_def can_id_range_def raw_filter_laws_def sim_can_def sim_view_def bit_id_api_def bit_simps
    dest: bit_imp_le_length)

theorem socketcan_filters_witness:
  "let fs = [std_filter 0x40 0x7F0, ext_filter 3 0x1FFFFFFF];
       (bs, a') = configure_all (socket_can_configure bit_id_api sim_can) (socket_can_new sim_can \<lparr>sim_mode = False, sim_filters = [], sim_rx = []\<rparr>)
         [fs, [\<lparr>flt_id = Standard 1, flt_mask = MaskExtended 1\<rparr>]]
   in bs = [True, False] \<and> socket_can_passes bit_id_api sim_view True (scn_inner a') (Standard 0x47) \<and>
      \<not> socket_can_passes bit_id_api sim_view False (scn_inner a') (Extended 0x40)"
proof -
  let ?fs = "[std_filter 0x40 0x7F0, ext_filter 3 0x1FFFFFFF]" and ?gs = "[\<lparr>flt_id = Standard 1, flt_mask = MaskExtended 1\<rparr>]"
  let ?a = "socket_can_new sim_can \<lparr>sim_mode = False, sim_filters = [], sim_rx = []\<rparr>"
  obtain bs a' where run: "configure_all (socket_can_configure bit_id_api sim_can) ?a [?fs, ?gs] = (bs, a')" by (rule prod.exhaust)
  obtain cs t' where trun: "configure_all (tokio_can_configure bit_id_api sim_can) \<lparr>tsc_inner = scn_inner ?a\<rparr> [?fs, ?gs] = (cs, t')" by (rule prod.exhaust)
  have bs: "bs = [True, False]" using run
    by (auto simp: socket_can_configure_def socket_can_set_filters_def to_socketcan_filter_def sim_can_def)
  have p: "passes bit_id_api ?fs (Standard 0x47)" "\<not> passes bit_id_api ?fs (Extended 0x40)" by (simp_all add: passes_def bit_id_api_def)
  show ?thesis unfolding Let_def run
    using socketcan_filters [OF sim_filter_laws run trun, of True "Standard 0x47"] socketcan_filters [OF sim_filter_laws run trun, of False "Extended 0x40"] bs p
    by simp
qed

section \<open>Operations that must not block\<close>

text \<open>The mode of the socket: reading it gives it, setting it sets it or fails, and no other operation changes it.\<close>

definition keeps :: "('k \<Rightarrow> bool) \<Rightarrow> ('k \<Rightarrow> 'r \<times> 'k) \<Rightarrow> bool" where
  "keeps mode f \<longleftrightarrow> (\<forall>k. mode (snd (f k)) = mode k)"

definition mode_laws :: "('f, 'ef, 'c, 'cf, 'x, 'k) can_socket_ops \<Rightarrow> ('k \<Rightarrow> bool) \<Rightarrow> bool" where
  "mode_laws S mode \<longleftrightarrow>
     keeps mode (sc_nonblocking S) \<and> (\<forall>k b k'. sc_nonblocking S k = (Ok b, k') \<longrightarrow> b = mode k) \<and>
     (\<forall>k b r k'. sc_set_nonblocking S k b = (r, k') \<longrightarrow> mode k' = (if is_ok r then b else mode k)) \<and>
     (\<forall>f. keeps mode (\<lambda>k. sc_write_frame S k f) \<and> keeps mode (\<lambda>k. sc_write_frame_insist S k f)) \<and>
     keeps mode (sc_read_frame S) \<and> (\<forall>t. keeps mode (\<lambda>k. sc_read_frame_timeout S k t)) \<and>
     keeps mode (sc_write_timeout S) \<and> (\<forall>t. keeps mode (\<lambda>k. sc_set_write_timeout S k t)) \<and> keeps mode (sc_poll S) \<and>
     (\<forall>cs. keeps mode (\<lambda>k. sc_set_filters S k cs)) \<and> keeps mode (sc_set_filter_accept_all S)"

lemma keepsD: "keeps mode f \<Longrightarrow> f k = (r, k') \<Longrightarrow> mode k' = mode k"
  unfolding keeps_def by (metis snd_conv)

text \<open>The calls of a client.\<close>

datatype ('s, 'e, 'f, 'ef) can_call =
    CcSend "('f, 'ef) can_frame"
  | CcTrySend "('f, 'ef) can_frame"
  | CcSendTimeout "('f, 'ef) can_frame" duration
  | CcRecv
  | CcTryRecv
  | CcRecvTimeout duration
  | CcWait nat
  | CcSetNonblocking bool
  | CcSetFilters "('s, 'e) id_mask_filter list"

fun can_step ::
    "('s, 'e) can_id_api \<Rightarrow> ('f, 'ef, 'c, 'cf, 'x, 'k) can_socket_ops \<Rightarrow> 'k socket_can \<Rightarrow> ('s, 'e, 'f, 'ef) can_call \<Rightarrow> 'k socket_can" where
  "can_step A S a (CcSend f) = snd (socket_can_send S a f)"
| "can_step A S a (CcTrySend f) = snd (socket_can_try_send S a f)"
| "can_step A S a (CcSendTimeout f t) = snd (socket_can_send_timeout S a f t)"
| "can_step A S a CcRecv = snd (socket_can_recv S a)"
| "can_step A S a CcTryRecv = snd (socket_can_try_recv S a)"
| "can_step A S a (CcRecvTimeout t) = snd (socket_can_recv_timeout S a t)"
| "can_step A S a (CcWait n) = (case socket_can_wait_not_empty n S a of None \<Rightarrow> a | Some (_, a1) \<Rightarrow> a1)"
| "can_step A S a (CcSetNonblocking b) = snd (socket_can_set_nonblocking S a b)"
| "can_step A S a (CcSetFilters fs) = snd (socket_can_set_filters A S a fs)"

text \<open>The flag that the adapter keeps is true only of a non-blocking socket.\<close>

definition flag_true :: "('k \<Rightarrow> bool) \<Rightarrow> 'k socket_can \<Rightarrow> bool" where
  "flag_true mode a \<longleftrightarrow> (scn_nonblocking a \<longrightarrow> mode (scn_inner a))"

text \<open>\<open>with_nonblocking\<close> runs its closure at most once, on a non-blocking socket, after and before operations that only
  read or set the mode; when it succeeds the mode is as before.\<close>

lemma with_nonblocking_spec:
  assumes laws: "mode_laws S mode" and inv: "flag_true mode a" and f: "keeps mode f"
    and run: "with_nonblocking S a f = (r, a')"
  shows "flag_true mode a'" "is_ok r \<Longrightarrow> mode (scn_inner a') = mode (scn_inner a)"
proof -
  have q: "sc_nonblocking S k = (Ok b, k') \<Longrightarrow> b = mode k" "sc_nonblocking S k = (r', k') \<Longrightarrow> mode k' = mode k"
    and st: "sc_set_nonblocking S k b = (s, k') \<Longrightarrow> mode k' = (if is_ok s then b else mode k)" for k b k' r' s
    using laws unfolding mode_laws_def by (auto dest: keepsD)
  note fD = keepsD [OF f]
  show "flag_true mode a'" "is_ok r \<Longrightarrow> mode (scn_inner a') = mode (scn_inner a)"
    using run inv q st fD unfolding with_nonblocking_def flag_true_def
    by (auto split: if_splits prod.splits result.splits)
qed

lemma wait_for_readable_mode: "keeps mode (sc_poll S) \<Longrightarrow> wait_for_readable n S k = Some (r, k') \<Longrightarrow> mode k' = mode k"
  by (induction n arbitrary: k) (auto split: prod.splits result.splits if_splits dest: keepsD)

lemma with_write_timeout_mode:
  assumes "mode_laws S mode" and "keeps mode f" and "with_write_timeout S k t f = (r, k')"
  shows "mode k' = mode k"
proof -
  have "sc_write_timeout S k = (r1, k1) \<Longrightarrow> mode k1 = mode k" "sc_set_write_timeout S k t' = (r2, k1) \<Longrightarrow> mode k1 = mode k" for k r1 k1 t' r2
    using assms(1) unfolding mode_laws_def by (auto dest: keepsD)
  then show ?thesis using assms(3) keepsD [OF assms(2)] unfolding with_write_timeout_def
    by (auto split: prod.splits result.splits)
qed

lemma can_step_flag:
  assumes laws: "mode_laws S mode" and inv: "flag_true mode a"
  shows "flag_true mode (can_step A S a c)"
proof -
  have k: "keeps mode (\<lambda>k. sc_write_frame S k f)" "keeps mode (\<lambda>k. sc_write_frame_insist S k f)" "keeps mode (sc_read_frame S)"
      "keeps mode (\<lambda>k. sc_read_frame_timeout S k t)" "keeps mode (\<lambda>k. sc_set_filters S k cs)" "keeps mode (sc_set_filter_accept_all S)"
      "keeps mode (sc_poll S)" for f t cs
    using laws by (simp_all add: mode_laws_def)
  note D = k [THEN keepsD]
  have st: "sc_set_nonblocking S k b = (s, k') \<Longrightarrow> mode k' = (if is_ok s then b else mode k)" for k b s k'
    using laws unfolding mode_laws_def by blast
  show ?thesis
  proof (cases c)
    case (CcTrySend f)
    then show ?thesis using with_nonblocking_spec(1) [OF laws inv k(1)] by (simp add: socket_can_try_send_def) (metis prod.collapse)
  next
    case CcTryRecv
    obtain r a1 where "with_nonblocking S a (sc_read_frame S) = (r, a1)" by (rule prod.exhaust)
    then show ?thesis using CcTryRecv with_nonblocking_spec(1) [OF laws inv k(3)] by (simp add: socket_can_try_recv_def)
  next
    case (CcSendTimeout f t)
    then show ?thesis using with_write_timeout_mode [OF laws k(1)] inv
      by (auto simp: socket_can_send_timeout_def flag_true_def split: prod.splits)
  next
    case (CcWait n)
    then show ?thesis using wait_for_readable_mode [OF k(7)] inv
      by (auto simp: socket_can_wait_not_empty_def flag_true_def split: option.splits)
  next
    case (CcSetNonblocking b)
    then show ?thesis using st [of "scn_inner a" b] inv
      by (auto simp: socket_can_set_nonblocking_def flag_true_def split: prod.splits result.splits)
  next
    case (CcSetFilters fs)
    then show ?thesis using D inv
      by (auto simp: socket_can_set_filters_def flag_true_def split: prod.splits result.splits)
  qed (use D inv in \<open>auto simp: socket_can_send_def socket_can_recv_def socket_can_recv_timeout_def flag_true_def split: prod.splits\<close>)
qed

lemma socket_can_new_flag:
  assumes "mode_laws S mode"
  shows "flag_true mode (socket_can_new S k)"
proof -
  obtain r k1 where r: "sc_nonblocking S k = (r, k1)" by (rule prod.exhaust)
  have kp: "keeps mode (sc_nonblocking S)" and b: "sc_nonblocking S k = (Ok b, k1) \<Longrightarrow> b = mode k" for b
    using assms unfolding mode_laws_def by blast+
  show ?thesis using r b keepsD [OF kp r] by (cases r) (auto simp: socket_can_new_def flag_true_def)
qed

lemma socket_can_open_flag:
  assumes laws: "mode_laws S mode" and run: "socket_can_open S iface = Ok a"
  shows "flag_true mode a"
proof -
  obtain k where "sc_open S iface = Ok k" "a = socket_can_new S k"
    using run by (auto simp: socket_can_open_def socket_can_new_def split: result.splits prod.splits)
  then show ?thesis using socket_can_new_flag [OF laws] by simp
qed

interpretation can_runs: run_invariant "can_step A S" "\<lambda>a. mode_laws S mode \<and> flag_true mode a" "\<lambda>_. True" for A S mode
  by unfold_locales (simp add: can_step_flag)

text \<open>The socket with a log of the mode at every read and write of a frame.\<close>

definition unlogged :: "('k \<Rightarrow> 'r \<times> 'k) \<Rightarrow> 'k \<times> bool list \<Rightarrow> 'r \<times> 'k \<times> bool list" where
  "unlogged f s = (let (r, k1) = f (fst s) in (r, k1, snd s))"

definition access :: "('k \<Rightarrow> bool) \<Rightarrow> ('k \<Rightarrow> 'r \<times> 'k) \<Rightarrow> 'k \<times> bool list \<Rightarrow> 'r \<times> 'k \<times> bool list" where
  "access mode f s = (let (r, k1) = f (fst s) in (r, k1, snd s @ [mode (fst s)]))"

definition mode_logged ::
    "('k \<Rightarrow> bool) \<Rightarrow> ('f, 'ef, 'c, 'cf, 'x, 'k) can_socket_ops \<Rightarrow> ('f, 'ef, 'c, 'cf, 'x, 'k \<times> bool list) can_socket_ops" where
  "mode_logged mode S =
     \<lparr>sc_open = \<lambda>iface. map_res (\<lambda>k. (k, [])) (sc_open S iface),
      sc_nonblocking = unlogged (sc_nonblocking S),
      sc_set_nonblocking = \<lambda>s b. unlogged (\<lambda>k. sc_set_nonblocking S k b) s,
      sc_write_frame = \<lambda>s f. access mode (\<lambda>k. sc_write_frame S k f) s,
      sc_write_frame_insist = \<lambda>s f. access mode (\<lambda>k. sc_write_frame_insist S k f) s,
      sc_read_frame = access mode (sc_read_frame S),
      sc_read_frame_timeout = \<lambda>s t. access mode (\<lambda>k. sc_read_frame_timeout S k t) s,
      sc_write_timeout = unlogged (sc_write_timeout S),
      sc_set_write_timeout = \<lambda>s t. unlogged (\<lambda>k. sc_set_write_timeout S k t) s,
      sc_poll = unlogged (sc_poll S),
      sc_filter_new = sc_filter_new S,
      sc_set_filters = \<lambda>s cs. unlogged (\<lambda>k. sc_set_filters S k cs) s,
      sc_set_filter_accept_all = unlogged (sc_set_filter_accept_all S),
      sc_into_error = sc_into_error S\<rparr>"

lemma keeps_logged [simp]: "keeps (\<lambda>s. mode (fst s)) (unlogged f) = keeps mode f" "keeps (\<lambda>s. mode (fst s)) (access mode g) = keeps mode g"
  by (simp_all add: keeps_def unlogged_def access_def split_beta)

lemma unlogged_eq: "unlogged f s = (r, s') \<longleftrightarrow> f (fst s) = (r, fst s') \<and> snd s' = snd s"
  by (cases s') (auto simp: unlogged_def split: prod.splits)

lemma mode_logged_laws:
  assumes "mode_laws S mode"
  shows "mode_laws (mode_logged mode S) (\<lambda>s. mode (fst s))"
  using assms unfolding mode_laws_def by (auto simp: mode_logged_def unlogged_eq)

text \<open>Between two states: the accesses were all made in non-blocking mode.\<close>

definition nonblocking_accesses :: "('k \<times> bool list) socket_can \<Rightarrow> ('k \<times> bool list) socket_can \<Rightarrow> bool" where
  "nonblocking_accesses a a' \<longleftrightarrow> (\<exists>bs. snd (scn_inner a') = snd (scn_inner a) @ bs \<and> list_all (\<lambda>b. b) bs)"

lemma with_nonblocking_accesses:
  assumes laws: "mode_laws S mode" and inv: "flag_true (\<lambda>s. mode (fst s)) a"
    and run: "with_nonblocking (mode_logged mode S) a (access mode f) = (r, a')"
  shows "nonblocking_accesses a a'"
proof -
  have q: "sc_nonblocking S k = (Ok b, k') \<Longrightarrow> b = mode k" "sc_nonblocking S k = (r', k') \<Longrightarrow> mode k' = mode k"
    and st: "sc_set_nonblocking S k b = (s, k') \<Longrightarrow> mode k' = (if is_ok s then b else mode k)" for k b k' r' s
    using laws unfolding mode_laws_def by (auto dest: keepsD)
  show ?thesis
    using run inv q st unfolding with_nonblocking_def flag_true_def nonblocking_accesses_def mode_logged_def unlogged_def access_def
    by (auto split: if_splits prod.splits result.splits)
qed


lemma sim_mode_laws: "mode_laws sim_can sim_mode"
  by (auto simp: mode_laws_def keeps_def sim_can_def sim_read_def split: list.splits)


end
