(* ===== verification/Can_Stm32.thy ===== *)
theory Can_Stm32
  imports Can_Filters
begin

text \<open>
  The adapters of \<open>embedded-can-embassy-stm32\<close>: \<open>stm32.rs\<close> (transmit and receive halves), \<open>bxcan.rs\<close> (filter
  banks) and \<open>fdcan.rs\<close> (filter elements). The driver \<open>embassy_stm32::can\<close> is a record of operations on the
  state of the peripheral; a call that it documents as panicking gives an \<open>outcome\<close>. An awaited call is its
  completion. The guard that \<open>modify_filters\<close> returns is the peripheral itself.
\<close>

section \<open>Errors\<close>

text \<open>\<open>can::BusError\<close>, which the adapters only pass on.\<close>

typedecl bus_error

datatype stm32_error = Stm32Bus bus_error | TooManyFilters | MaskWidthMismatch | MaskOutOfRange

definition stm32_error_from :: "bus_error \<Rightarrow> stm32_error" where
  "stm32_error_from v = Stm32Bus v"

section \<open>Transmit and receive halves\<close>

text \<open>\<open>CanTx::write\<close> gives the frame it displaced from the mailboxes, if any. \<open>CanRx::read\<close> gives an
  envelope of frame and time stamp.\<close>

record ('k, 'f) tx_ops =
  ct_write :: "'k \<Rightarrow> 'f \<Rightarrow> 'f option \<times> 'k"

record ('k, 'f, 't) rx_ops =
  cr_read :: "'k \<Rightarrow> ('f \<times> 't, bus_error) result \<times> 'k"

record 'k stm32_tx =
  stx_inner :: 'k

record ('k, 'f) stm32_rx =
  srx_inner :: 'k
  srx_pending :: "'f option"

definition stm32_tx_new :: "'k \<Rightarrow> 'k stm32_tx" where
  "stm32_tx_new inner = \<lparr>stx_inner = inner\<rparr>"

definition stm32_rx_new :: "'k \<Rightarrow> ('k, 'f) stm32_rx" where
  "stm32_rx_new inner = \<lparr>srx_inner = inner, srx_pending = None\<rparr>"

definition stm32_send :: "('k, 'f) tx_ops \<Rightarrow> 'k stm32_tx \<Rightarrow> 'f \<Rightarrow> (unit, stm32_error) result \<times> 'k stm32_tx" where
  "stm32_send T t f = (let (_, k1) = ct_write T (stx_inner t) f in (Ok (), t\<lparr>stx_inner := k1\<rparr>))"

definition stm32_send_timeout ::
    "('k, 'f) tx_ops \<Rightarrow> 'k stm32_tx \<Rightarrow> 'f \<Rightarrow> duration \<Rightarrow> (unit, stm32_error) result \<times> 'k stm32_tx" where
  "stm32_send_timeout T t f tmo = stm32_send T t f"

definition stm32_recv ::
    "('k, 'f, 't) rx_ops \<Rightarrow> ('k, 'f) stm32_rx \<Rightarrow> ('f, stm32_error) result \<times> ('k, 'f) stm32_rx" where
  "stm32_recv R r =
     (case srx_pending r of
        Some f \<Rightarrow> (Ok f, r\<lparr>srx_pending := None\<rparr>)
      | None \<Rightarrow>
          (case cr_read R (srx_inner r) of
             (Err e, k1) \<Rightarrow> (Err (stm32_error_from e), r\<lparr>srx_inner := k1\<rparr>)
           | (Ok env, k1) \<Rightarrow> (Ok (fst env), r\<lparr>srx_inner := k1\<rparr>)))"

definition stm32_recv_timeout ::
    "('k, 'f, 't) rx_ops \<Rightarrow> ('k, 'f) stm32_rx \<Rightarrow> duration \<Rightarrow> ('f, stm32_error) result \<times> ('k, 'f) stm32_rx" where
  "stm32_recv_timeout R r tmo = stm32_recv R r"

definition stm32_wait_not_empty ::
    "('k, 'f, 't) rx_ops \<Rightarrow> ('k, 'f) stm32_rx \<Rightarrow> (unit, stm32_error) result \<times> ('k, 'f) stm32_rx" where
  "stm32_wait_not_empty R r =
     (if srx_pending r \<noteq> None then (Ok (), r)
      else
        (case cr_read R (srx_inner r) of
           (Err e, k1) \<Rightarrow> (Err (stm32_error_from e), r\<lparr>srx_inner := k1\<rparr>)
         | (Ok env, k1) \<Rightarrow> (Ok (), r\<lparr>srx_inner := k1, srx_pending := Some (fst env)\<rparr>)))"

section \<open>Filter banks of bxCAN\<close>

text \<open>\<open>MasterFilters\<close> and the constructors of \<open>Mask16\<close> and \<open>Mask32\<close>.\<close>

record ('s, 'e, 'm16, 'm32, 'p) bxcan_ops =
  bx_num_banks :: "'p \<Rightarrow> u8"
  bx_clear :: "'p \<Rightarrow> 'p"
  bx_enable16 :: "'p \<Rightarrow> u8 \<Rightarrow> 'm16 \<Rightarrow> 'm16 \<Rightarrow> 'p outcome"
  bx_enable32 :: "'p \<Rightarrow> u8 \<Rightarrow> 'm32 \<Rightarrow> 'p outcome"
  m16_std :: "'s \<Rightarrow> 's \<Rightarrow> 'm16"
  m32_std :: "'s \<Rightarrow> 's \<Rightarrow> 'm32"
  m32_ext :: "'e \<Rightarrow> 'e \<Rightarrow> 'm32"
  m32_all :: 'm32

text \<open>The first pass: the banks required so far, and whether a standard filter waits for a partner.\<close>

fun bx_required ::
    "('s, 'e) can_id_api \<Rightarrow> usize \<Rightarrow> bool \<Rightarrow> ('s, 'e) id_mask_filter list \<Rightarrow> (usize \<times> bool, stm32_error) result" where
  "bx_required A required pending_std [] = Ok (required, pending_std)"
| "bx_required A required pending_std (f # fs) =
     (case (flt_id f, flt_mask f) of
        (Standard _, MaskStandard mask_raw) \<Rightarrow>
          if std_new A mask_raw = None then Err MaskOutOfRange
          else if pending_std then bx_required A (required + 1) False fs
          else bx_required A required True fs
      | (Extended _, MaskExtended mask_raw) \<Rightarrow>
          if ext_new A mask_raw = None then Err MaskOutOfRange
          else if pending_std then bx_required A (required + 1 + 1) False fs
          else bx_required A (required + 1) False fs
      | _ \<Rightarrow> Err MaskWidthMismatch)"

text \<open>\<open>bank += 1\<close> on a \<open>u8\<close>.\<close>

definition bank_succ :: "u8 \<Rightarrow> u8 outcome" where
  "bank_succ bank = (if bank = 255 then Panic else Return (bank + 1))"

text \<open>\<open>banks.enable_bank(bank, ..); bank += 1\<close>\<close>

definition bx_next :: "'p outcome \<Rightarrow> u8 \<Rightarrow> ('p \<times> u8) outcome" where
  "bx_next enabled bank =
     (case enabled of
        Panic \<Rightarrow> Panic
      | Return p \<Rightarrow> (case bank_succ bank of Panic \<Rightarrow> Panic | Return bank1 \<Rightarrow> Return (p, bank1)))"

text \<open>The second pass.\<close>

fun bx_fill ::
    "('s, 'e, 'm16, 'm32, 'p) bxcan_ops \<Rightarrow> ('s, 'e) can_id_api \<Rightarrow> 'p \<Rightarrow> u8 \<Rightarrow> ('s \<times> 's) option \<Rightarrow> ('s, 'e) id_mask_filter list \<Rightarrow>
     ((u8 \<times> ('s \<times> 's) option, stm32_error) result \<times> 'p) outcome" where
  "bx_fill X A p bank pending_std [] = Return (Ok (bank, pending_std), p)"
| "bx_fill X A p bank pending_std (f # fs) =
     (case (flt_id f, flt_mask f) of
        (Standard i, MaskStandard mask_raw) \<Rightarrow>
          (case std_new A mask_raw of
             None \<Rightarrow> Return (Err MaskOutOfRange, p)
           | Some m \<Rightarrow>
               (case pending_std of
                  Some (id2, mask2) \<Rightarrow>
                    (case bx_next (bx_enable16 X p bank (m16_std X id2 mask2) (m16_std X i m)) bank of
                       Panic \<Rightarrow> Panic
                     | Return (p1, bank1) \<Rightarrow> bx_fill X A p1 bank1 None fs)
                | None \<Rightarrow> bx_fill X A p bank (Some (i, m)) fs))
      | (Extended i, MaskExtended mask_raw) \<Rightarrow>
          (case ext_new A mask_raw of
             None \<Rightarrow> Return (Err MaskOutOfRange, p)
           | Some m \<Rightarrow>
               (case (case pending_std of
                        Some (std_id, std_mask) \<Rightarrow> bx_next (bx_enable32 X p bank (m32_std X std_id std_mask)) bank
                      | None \<Rightarrow> Return (p, bank)) of
                  Panic \<Rightarrow> Panic
                | Return (p1, bank1) \<Rightarrow>
                    (case bx_next (bx_enable32 X p1 bank1 (m32_ext X i m)) bank1 of
                       Panic \<Rightarrow> Panic
                     | Return (p2, bank2) \<Rightarrow> bx_fill X A p2 bank2 None fs)))
      | _ \<Rightarrow> Return (Err MaskWidthMismatch, p))"

definition bx_set_filters ::
    "('s, 'e, 'm16, 'm32, 'p) bxcan_ops \<Rightarrow> ('s, 'e) can_id_api \<Rightarrow> 'p \<Rightarrow> ('s, 'e) id_mask_filter list \<Rightarrow>
     ((unit, stm32_error) result \<times> 'p) outcome" where
  "bx_set_filters X A p filters =
     (let bank_limit = unat (bx_num_banks X p) in
      if filters = [] then
        (case bx_enable32 X (bx_clear X p) 0 (m32_all X) of Panic \<Rightarrow> Panic | Return p1 \<Rightarrow> Return (Ok (), p1))
      else
        (case bx_required A 0 False filters of
           Err e \<Rightarrow> Return (Err e, p)
         | Ok (required, pending_std) \<Rightarrow>
             let required = (if pending_std then required + 1 else required) in
             if required > bank_limit then Return (Err TooManyFilters, p)
             else
               (case bx_fill X A (bx_clear X p) 0 None filters of
                  Panic \<Rightarrow> Panic
                | Return (Err e, p1) \<Rightarrow> Return (Err e, p1)
                | Return (Ok (bank, Some (i, m)), p1) \<Rightarrow>
                    (case bx_enable32 X p1 bank (m32_std X i m) of Panic \<Rightarrow> Panic | Return p2 \<Rightarrow> Return (Ok (), p2))
                | Return (Ok (bank, None), p1) \<Rightarrow> Return (Ok (), p1))))"

section \<open>Filter elements of FDCAN\<close>

text \<open>The constants, constructors and setters of \<open>can::filter\<close> and \<open>can::Properties\<close>; \<open>fd_std_mask\<close> is the
  element with a \<open>BitMask\<close> filter that stores into FIFO 0.\<close>

record ('sf, 'ef, 'p) fdcan_ops =
  fd_std_max :: nat
  fd_ext_max :: nat
  fd_std_disable :: 'sf
  fd_std_all :: 'sf
  fd_std_mask :: "u16 \<Rightarrow> u16 \<Rightarrow> 'sf"
  fd_ext_disable :: 'ef
  fd_ext_all :: 'ef
  fd_ext_mask :: "u32 \<Rightarrow> u32 \<Rightarrow> 'ef"
  fd_set_standard :: "'p \<Rightarrow> 'sf list \<Rightarrow> 'p"
  fd_set_extended :: "'p \<Rightarrow> 'ef list \<Rightarrow> 'p"

fun fd_fill ::
    "('sf, 'ef, 'p) fdcan_ops \<Rightarrow> ('s, 'e) can_id_api \<Rightarrow> 'sf list \<Rightarrow> usize \<Rightarrow> 'ef list \<Rightarrow> usize \<Rightarrow> ('s, 'e) id_mask_filter list \<Rightarrow>
     ('sf list \<times> 'ef list, stm32_error) result" where
  "fd_fill X A std std_i ext ext_i [] = Ok (std, ext)"
| "fd_fill X A std std_i ext ext_i (f # fs) =
     (case (flt_id f, flt_mask f) of
        (Standard i, MaskStandard m) \<Rightarrow>
          if std_i \<ge> length std then Err TooManyFilters
          else if std_new A m = None then Err MaskOutOfRange
          else fd_fill X A (std[std_i := fd_std_mask X (std_raw A i) m]) (std_i + 1) ext ext_i fs
      | (Extended i, MaskExtended m) \<Rightarrow>
          if ext_i \<ge> length ext then Err TooManyFilters
          else if ext_new A m = None then Err MaskOutOfRange
          else fd_fill X A std std_i (ext[ext_i := fd_ext_mask X (ext_raw A i) m]) (ext_i + 1) fs
      | _ \<Rightarrow> Err MaskWidthMismatch)"

text \<open>The assignments \<open>std[0]\<close> and \<open>ext[0]\<close> are checked by the compiler against the constants.\<close>

definition fd_set_filters ::
    "('sf, 'ef, 'p) fdcan_ops \<Rightarrow> ('s, 'e) can_id_api \<Rightarrow> 'p \<Rightarrow> ('s, 'e) id_mask_filter list \<Rightarrow>
     (unit, stm32_error) result \<times> 'p" where
  "fd_set_filters X A p filters =
     (let std = replicate (fd_std_max X) (fd_std_disable X);
          ext = replicate (fd_ext_max X) (fd_ext_disable X) in
      if filters = [] then
        let std = std[0 := fd_std_all X]; ext = ext[0 := fd_ext_all X]
        in (Ok (), fd_set_extended X (fd_set_standard X p std) ext)
      else
        (case fd_fill X A std 0 ext 0 filters of
           Err e \<Rightarrow> (Err e, p)
         | Ok (std, ext) \<Rightarrow> (Ok (), fd_set_extended X (fd_set_standard X p std) ext)))"

end
