(* ===== verification/Can_Stm32_Props.thy ===== *)
theory Can_Stm32_Props
  imports Can_Stm32
begin

text \<open>
  The STM32 adapters: the receive half returns the frames of the driver in order although it may
  prefetch one; the filter configurations of both peripherals implement the contract \<open>filter_config\<close>,
  never use a bank or an element that does not exist, and leave the peripheral alone when they fail.
\<close>

section \<open>Receive half\<close>

text \<open>Calls of a receive half, with the driver's reads logged.\<close>

datatype rx_call = CallRecv | CallRecvTimeout duration | CallWait

definition logged_rx :: "('k, 'f, 't) rx_ops \<Rightarrow> ('k \<times> 'f list, 'f, 't) rx_ops" where
  "logged_rx R = \<lparr>cr_read = \<lambda>(k, fs).
     (case cr_read R k of
        (Err e, k1) \<Rightarrow> (Err e, (k1, fs))
      | (Ok env, k1) \<Rightarrow> (Ok env, (k1, fs @ [fst env])))\<rparr>"

fun rx_step ::
    "('k, 'f, 't) rx_ops \<Rightarrow> 'f list \<times> ('k, 'f) stm32_rx \<Rightarrow> rx_call \<Rightarrow> 'f list \<times> ('k, 'f) stm32_rx" where
  "rx_step R (got, r) CallWait = (got, snd (stm32_wait_not_empty R r))"
| "rx_step R (got, r) CallRecv =
     (case stm32_recv R r of (Ok f, r1) \<Rightarrow> (got @ [f], r1) | (Err _, r1) \<Rightarrow> (got, r1))"
| "rx_step R (got, r) (CallRecvTimeout t) =
     (case stm32_recv_timeout R r t of (Ok f, r1) \<Rightarrow> (got @ [f], r1) | (Err _, r1) \<Rightarrow> (got, r1))"

definition rx_in_order :: "'f list \<times> ('k \<times> 'f list, 'f) stm32_rx \<Rightarrow> bool" where
  "rx_in_order s \<longleftrightarrow> snd (srx_inner (snd s)) = fst s @ (case srx_pending (snd s) of None \<Rightarrow> [] | Some f \<Rightarrow> [f])"

interpretation stm32_rx: run_invariant "rx_step (logged_rx R)" rx_in_order "\<lambda>_. True" for R :: "('k, 'f, 't) rx_ops"
proof unfold_locales
  fix s :: "'f list \<times> ('k \<times> 'f list, 'f) stm32_rx" and c
  assume inv: "rx_in_order s"
  obtain got r where s: "s = (got, r)" by (cases s)
  show "rx_in_order (rx_step (logged_rx R) s c)"
    using inv unfolding s
    by (cases c; cases "srx_inner r")
      (auto simp: rx_in_order_def logged_rx_def stm32_recv_def stm32_recv_timeout_def stm32_wait_not_empty_def
        split: option.splits prod.splits result.splits)
qed

text \<open>The receive half loses, repeats and reorders nothing: over any sequence of calls the frames it
  returned, followed by the prefetched frame if there is one, are the frames the driver read. After a
  wait that succeeded the next receive returns a frame without touching the driver.\<close>

lemma stm32_rx_frames:
  assumes run: "run_steps (rx_step (logged_rx R)) ([], stm32_rx_new (k, [])) calls = (got, r)"
  shows "snd (srx_inner r) = got @ (case srx_pending r of None \<Rightarrow> [] | Some f \<Rightarrow> [f]) \<and>
     (\<forall>r1. stm32_wait_not_empty (logged_rx R) r = (Ok (), r1) \<longrightarrow>
       (\<exists>f. stm32_recv (logged_rx R) r1 = (Ok f, r1\<lparr>srx_pending := None\<rparr>)))"
proof -
  have "rx_in_order ([], stm32_rx_new (k, []))" by (simp add: rx_in_order_def stm32_rx_new_def)
  from stm32_rx.run_inv [OF this, of calls R]
  have "snd (srx_inner r) = got @ (case srx_pending r of None \<Rightarrow> [] | Some f \<Rightarrow> [f])"
    using run by (simp add: rx_in_order_def list_all_iff)
  then show ?thesis
    by (auto simp: stm32_wait_not_empty_def stm32_recv_def split: if_splits prod.splits result.splits)
qed

section \<open>Filter banks\<close>

text \<open>What a bank holds, and what the peripheral shows of its banks and masks.\<close>

datatype ('m16, 'm32) bank = Bank16 'm16 'm16 | Bank32 'm32

record ('s, 'e, 'm16, 'm32, 'p) bxcan_view =
  bv_banks :: "'p \<Rightarrow> u8 \<Rightarrow> ('m16, 'm32) bank option"
  bv_match16 :: "'m16 \<Rightarrow> ('s, 'e) can_id \<Rightarrow> bool"
  bv_match32 :: "'m32 \<Rightarrow> ('s, 'e) can_id \<Rightarrow> bool"

fun bank_match :: "('s, 'e, 'm16, 'm32, 'p) bxcan_view \<Rightarrow> ('m16, 'm32) bank \<Rightarrow> ('s, 'e) can_id \<Rightarrow> bool" where
  "bank_match V (Bank16 a b) i = (bv_match16 V a i \<or> bv_match16 V b i)"
| "bank_match V (Bank32 a) i = bv_match32 V a i"

definition bx_accepts :: "('s, 'e, 'm16, 'm32, 'p) bxcan_view \<Rightarrow> 'p \<Rightarrow> ('s, 'e) can_id \<Rightarrow> bool" where
  "bx_accepts V p i \<longleftrightarrow> (\<exists>j b. bv_banks V p j = Some b \<and> bank_match V b i)"

text \<open>The driver's documentation: clearing disables every bank, enabling an existing bank sets it and no
  other, a mask built from an identifier and a mask compares the bits set in the mask.\<close>

definition bank_laws :: "('s, 'e, 'm16, 'm32, 'p) bxcan_ops \<Rightarrow> ('s, 'e, 'm16, 'm32, 'p) bxcan_view \<Rightarrow> bool" where
  "bank_laws X V \<longleftrightarrow>
     (\<forall>p. bx_num_banks X (bx_clear X p) = bx_num_banks X p \<and> bv_banks V (bx_clear X p) = (\<lambda>_. None)) \<and>
     (\<forall>p j a b. j < bx_num_banks X p \<longrightarrow>
        (\<exists>p'. bx_enable16 X p j a b = Return p' \<and> bx_num_banks X p' = bx_num_banks X p \<and>
          bv_banks V p' = (bv_banks V p)(j \<mapsto> Bank16 a b))) \<and>
     (\<forall>p j a. j < bx_num_banks X p \<longrightarrow>
        (\<exists>p'. bx_enable32 X p j a = Return p' \<and> bx_num_banks X p' = bx_num_banks X p \<and>
          bv_banks V p' = (bv_banks V p)(j \<mapsto> Bank32 a)))"

definition mask_laws ::
    "('s, 'e) can_id_api \<Rightarrow> ('s, 'e, 'm16, 'm32, 'p) bxcan_ops \<Rightarrow> ('s, 'e, 'm16, 'm32, 'p) bxcan_view \<Rightarrow> bool" where
  "mask_laws A X V \<longleftrightarrow>
     (\<forall>i m c. bv_match16 V (m16_std X i m) c = filter_match A (std_filter i (std_raw A m)) c) \<and>
     (\<forall>i m c. bv_match32 V (m32_std X i m) c = filter_match A (std_filter i (std_raw A m)) c) \<and>
     (\<forall>i m c. bv_match32 V (m32_ext X i m) c = filter_match A (ext_filter i (ext_raw A m)) c) \<and>
     (\<forall>c. bv_match32 V (m32_all X) c)"

text \<open>The banks a list needs: adjacent standard filters share a bank in pairs.\<close>

definition is_std :: "('s, 'e) id_mask_filter \<Rightarrow> bool" where
  "is_std f = (case flt_id f of Standard _ \<Rightarrow> True | Extended _ \<Rightarrow> False)"

lemma is_std_simps [simp]: "is_std (std_filter i m)" "\<not> is_std (ext_filter j n)"
  by (simp_all add: is_std_def)

fun banks_needed :: "('s, 'e) id_mask_filter list \<Rightarrow> nat" where
  "banks_needed [] = 0"
| "banks_needed [f] = 1"
| "banks_needed (f # g # fs) = (if is_std f \<and> is_std g then 1 + banks_needed fs else 1 + banks_needed (g # fs))"

lemma banks_needed_ext: "\<not> is_std f \<Longrightarrow> banks_needed (f # fs) = 1 + banks_needed fs"
  by (cases fs) auto

lemma banks_needed_std_ext: "\<not> is_std g \<Longrightarrow> banks_needed (f # g # fs) = 2 + banks_needed fs"
  by (simp add: banks_needed_ext)

lemmas banks_needed_simps = banks_needed_ext banks_needed_std_ext banks_needed.simps(1,2)

text \<open>The first pass counts these banks, with a waiting standard filter in front of the list.\<close>

fun waiting :: "('s, 'e) id_mask_filter option \<Rightarrow> ('s, 'e) id_mask_filter list" where
  "waiting None = []"
| "waiting (Some f) = [f]"

lemma bx_required_ok:
  assumes "list_all (mask_in_range A) fs" and "\<And>g. w = Some g \<Longrightarrow> is_std g"
  shows "\<exists>r b. bx_required A n (w \<noteq> None) fs = Ok (r, b) \<and> (if b then r + 1 else r) = n + banks_needed (waiting w @ fs)"
  using assms
proof (induction fs arbitrary: n w)
  case Nil
  then show ?case by (cases w) auto
next
  case (Cons f fs)
  note IH = Cons.IH [of None] Cons.IH [of "Some f"]
  show ?case
  proof (cases f rule: filter_cases)
    case (std i m)
    then have f: "is_std f" and m: "std_new A m \<noteq> None" using Cons.prems(1) by auto
    show ?thesis
    proof (cases w)
      case None
      then show ?thesis using IH(2) [of n] Cons.prems(1) m f by (simp add: std)
    next
      case (Some g)
      then have "is_std g" using Cons.prems(2) by simp
      then have "banks_needed (g # f # fs) = 1 + banks_needed fs" using f by simp
      then show ?thesis using m Some IH(1) [of "n + 1"] Cons.prems(1) by (auto simp: std)
    qed
  next
    case (ext i m)
    then have f: "\<not> is_std f" and m: "ext_new A m \<noteq> None" using Cons.prems(1) by auto
    show ?thesis
    proof (cases w)
      case None
      then show ?thesis using m IH(1) [of "n + 1"] Cons.prems(1) banks_needed_ext [OF f, of fs] by (simp add: ext)
    next
      case (Some g)
      then show ?thesis using m IH(1) [of "n + 1 + 1"] Cons.prems(1) banks_needed_std_ext [OF f, of g fs] by (simp add: ext)
    qed
  qed (use Cons.prems(1) in simp_all)
qed

lemma bx_required_err: "\<not> list_all (mask_in_range A) fs \<Longrightarrow> \<exists>e. bx_required A n b fs = Err e"
proof (induction fs arbitrary: n b)
  case (Cons f fs)
  then show ?case by (cases f rule: filter_cases) auto
qed simp

text \<open>Enabling the next free bank.\<close>

definition banks_free :: "('s, 'e, 'm16, 'm32, 'p) bxcan_view \<Rightarrow> 'p \<Rightarrow> u8 \<Rightarrow> bool" where
  "banks_free V p bank \<longleftrightarrow> (\<forall>j\<ge>bank. bv_banks V p j = None)"

lemma bank_succ_room:
  assumes "unat bank < unat (n :: u8)"
  shows "bank_succ bank = Return (bank + 1)" "unat (bank + 1) = unat bank + 1" "bank < n"
proof -
  have "unat n < 2 ^ LENGTH(8)" by (rule unsigned_less)
  then have b: "unat bank < 255" using assms by simp
  then show "bank_succ bank = Return (bank + 1)" by (auto simp: bank_succ_def)
  show "unat (bank + 1) = unat bank + 1" using b by (subst unat_add_no_overflow) simp_all
  show "bank < n" using assms by (simp add: word_less_nat_alt)
qed

lemma bank_enabled:
  assumes banks: "bv_banks V p' = (bv_banks V p)(bank \<mapsto> b)" and free: "banks_free V p bank"
    and room: "unat bank < unat (n :: u8)"
  shows "banks_free V p' (bank + 1)" "bx_accepts V p' i \<longleftrightarrow> bx_accepts V p i \<or> bank_match V b i"
proof -
  have "bank < bank + 1" using bank_succ_room(2) [OF room] by (simp add: word_less_nat_alt)
  then show "banks_free V p' (bank + 1)" using free banks by (auto simp: banks_free_def)
  have "bv_banks V p bank = None" using free by (simp add: banks_free_def)
  then show "bx_accepts V p' i \<longleftrightarrow> bx_accepts V p i \<or> bank_match V b i"
    by (auto simp: bx_accepts_def banks split: if_splits) (metis option.distinct(1))
qed

definition bank_added ::
    "('s, 'e, 'm16, 'm32, 'p) bxcan_ops \<Rightarrow> ('s, 'e, 'm16, 'm32, 'p) bxcan_view \<Rightarrow> 'p \<Rightarrow> u8 \<Rightarrow> (('s, 'e) can_id \<Rightarrow> bool) \<Rightarrow> 'p \<Rightarrow> bool" where
  "bank_added X V p bank match p1 \<longleftrightarrow> bx_num_banks X p1 = bx_num_banks X p \<and> banks_free V p1 (bank + 1) \<and>
     (\<forall>i. bx_accepts V p1 i \<longleftrightarrow> bx_accepts V p i \<or> match i)"

lemma bx_next32:
  assumes laws: "bank_laws X V" and free: "banks_free V p bank" and room: "unat bank < unat (bx_num_banks X p)"
  obtains p1 where "bx_enable32 X p bank a = Return p1" "bx_next (bx_enable32 X p bank a) bank = Return (p1, bank + 1)"
    "bank_added X V p bank (bv_match32 V a) p1"
proof -
  obtain p1 where p1: "bx_enable32 X p bank a = Return p1" "bx_num_banks X p1 = bx_num_banks X p"
      "bv_banks V p1 = (bv_banks V p)(bank \<mapsto> Bank32 a)"
    using laws bank_succ_room(3) [OF room] unfolding bank_laws_def by meson
  then show thesis using that [of p1] bank_enabled [OF p1(3) free room] bank_succ_room(1) [OF room]
    by (simp add: bx_next_def bank_added_def)
qed

lemma bx_next16:
  assumes laws: "bank_laws X V" and free: "banks_free V p bank" and room: "unat bank < unat (bx_num_banks X p)"
  obtains p1 where "bx_next (bx_enable16 X p bank a b) bank = Return (p1, bank + 1)"
    "bank_added X V p bank (\<lambda>i. bv_match16 V a i \<or> bv_match16 V b i) p1"
proof -
  obtain p1 where p1: "bx_enable16 X p bank a b = Return p1" "bx_num_banks X p1 = bx_num_banks X p"
      "bv_banks V p1 = (bv_banks V p)(bank \<mapsto> Bank16 a b)"
    using laws bank_succ_room(3) [OF room] unfolding bank_laws_def by meson
  then show thesis using that [of p1] bank_enabled [OF p1(3) free room] bank_succ_room(1) [OF room]
    by (simp add: bx_next_def bank_added_def)
qed

text \<open>The second pass fills the banks that the first pass counted.\<close>

fun pend_filter :: "('s, 'e) can_id_api \<Rightarrow> ('s \<times> 's) option \<Rightarrow> ('s, 'e) id_mask_filter list" where
  "pend_filter A None = []"
| "pend_filter A (Some (i, m)) = [std_filter i (std_raw A m)]"

definition matches_any :: "('s, 'e) can_id_api \<Rightarrow> ('s, 'e) id_mask_filter list \<Rightarrow> ('s, 'e) can_id \<Rightarrow> bool" where
  "matches_any A fs i = list_ex (\<lambda>f. filter_match A f i) fs"

lemma matches_any_simps [simp]:
  "\<not> matches_any A [] i" "matches_any A (f # fs) i \<longleftrightarrow> filter_match A f i \<or> matches_any A fs i"
  "matches_any A (fs @ gs) i \<longleftrightarrow> matches_any A fs i \<or> matches_any A gs i"
  by (simp_all add: matches_any_def)

definition filled ::
    "('s, 'e, 'm16, 'm32, 'p) bxcan_ops \<Rightarrow> ('s, 'e, 'm16, 'm32, 'p) bxcan_view \<Rightarrow> ('s, 'e) can_id_api \<Rightarrow> 'p \<Rightarrow>
     ('s, 'e) id_mask_filter list \<Rightarrow> ((u8 \<times> ('s \<times> 's) option, stm32_error) result \<times> 'p) outcome \<Rightarrow> bool" where
  "filled X V A p fs out \<longleftrightarrow>
     (\<exists>bank w p'. out = Return (Ok (bank, w), p') \<and> bx_num_banks X p' = bx_num_banks X p \<and> banks_free V p' bank \<and>
        unat bank + length (pend_filter A w) \<le> unat (bx_num_banks X p) \<and>
        (\<forall>i. bx_accepts V p' i \<or> matches_any A (pend_filter A w) i \<longleftrightarrow> bx_accepts V p i \<or> matches_any A fs i))"

lemma filled_step:
  assumes "filled X V A p1 fs1 out" and "bx_num_banks X p1 = bx_num_banks X p"
    and "\<And>i. bx_accepts V p1 i \<or> matches_any A fs1 i \<longleftrightarrow> bx_accepts V p i \<or> matches_any A fs i"
  shows "filled X V A p fs out"
  using assms unfolding filled_def by auto

lemma mask_laws_match:
  assumes "mask_laws A X V"
  shows "bv_match16 V (m16_std X i m) = filter_match A (std_filter i (std_raw A m))"
    and "bv_match32 V (m32_std X i m) = filter_match A (std_filter i (std_raw A m))"
    and "bv_match32 V (m32_ext X j n) = filter_match A (ext_filter j (ext_raw A n))"
    and "bv_match32 V (m32_all X) = (\<lambda>_. True)"
  using assms unfolding mask_laws_def by (auto simp del: filter_match.simps)

text \<open>A waiting standard filter gets a bank of its own when an extended filter follows.\<close>

lemma bx_flush:
  assumes laws: "bank_laws X V" "mask_laws A X V" and free: "banks_free V p bank"
    and room: "unat bank + length (pend_filter A w) \<le> unat (bx_num_banks X p)"
  obtains p1 bank1 where
    "(case w of Some (i, m) \<Rightarrow> bx_next (bx_enable32 X p bank (m32_std X i m)) bank | None \<Rightarrow> Return (p, bank)) = Return (p1, bank1)"
    "unat bank1 = unat bank + length (pend_filter A w)" "bx_num_banks X p1 = bx_num_banks X p" "banks_free V p1 bank1"
    "\<forall>c. bx_accepts V p1 c \<longleftrightarrow> bx_accepts V p c \<or> matches_any A (pend_filter A w) c"
proof (cases w)
  case None
  then show thesis using that [of p bank] free by simp
next
  case (Some q)
  obtain i m where q: "q = (i, m)" by (cases q)
  have room: "unat bank < unat (bx_num_banks X p)" using room Some q by simp
  obtain p1 where "bx_next (bx_enable32 X p bank (m32_std X i m)) bank = Return (p1, bank + 1)"
      "bank_added X V p bank (bv_match32 V (m32_std X i m)) p1"
    by (rule bx_next32 [OF laws(1) free room])
  then show thesis using that [of p1 "bank + 1"] Some q bank_succ_room(2) [OF room]
    by (simp add: bank_added_def mask_laws_match [OF laws(2)] del: filter_match.simps)
qed

lemma bx_fill_ok:
  assumes laws: "bank_laws X V" "mask_laws A X V" "can_id_laws A"
    and fs: "list_all (mask_in_range A) fs" and free: "banks_free V p bank"
    and room: "unat bank + banks_needed (pend_filter A w @ fs) \<le> unat (bx_num_banks X p)"
  shows "filled X V A p (pend_filter A w @ fs) (bx_fill X A p bank w fs)"
  using fs free room
proof (induction fs arbitrary: p bank w)
  case Nil
  then show ?case by (cases w) (auto simp: filled_def)
next
  case (Cons f fs)
  note M = mask_laws_match [OF laws(2)]
  note noev [simp del] = filter_match.simps
  show ?case
  proof (cases f rule: filter_cases)
    case (std i m)
    then obtain m' where m': "std_new A m = Some m'" "std_raw A m' = m" using Cons.prems(1) laws(3) by (auto simp: can_id_laws_def)
    show ?thesis
    proof (cases w)
      case None
      then show ?thesis using Cons.IH [of p bank "Some (i, m')"] Cons.prems std m' by simp
    next
      case (Some q)
      obtain i2 m2 where q: "q = (i2, m2)" by (cases q)
      have need: "unat bank + 1 + banks_needed fs \<le> unat (bx_num_banks X p)" using Cons.prems(3) Some q std by simp
      then have room: "unat bank < unat (bx_num_banks X p)" by simp
      obtain p1 where p1: "bx_next (bx_enable16 X p bank (m16_std X i2 m2) (m16_std X i m')) bank = Return (p1, bank + 1)"
        "bank_added X V p bank (\<lambda>c. bv_match16 V (m16_std X i2 m2) c \<or> bv_match16 V (m16_std X i m') c) p1"
        by (rule bx_next16 [OF laws(1) Cons.prems(2) room])
      have "filled X V A p1 fs (bx_fill X A p1 (bank + 1) None fs)"
        using Cons.IH [of p1 "bank + 1" None] Cons.prems(1) p1(2) need bank_succ_room(2) [OF room] by (simp add: bank_added_def)
      from filled_step [OF this, of p "pend_filter A w @ f # fs"]
      have "filled X V A p (pend_filter A w @ f # fs) (bx_fill X A p1 (bank + 1) None fs)"
        using p1(2) Some q std m' by (auto simp: bank_added_def M)
      then show ?thesis using m' p1(1) Some q std by simp
    qed
  next
    case (ext i m)
    then obtain m' where m': "ext_new A m = Some m'" "ext_raw A m' = m" using Cons.prems(1) laws(3) by (auto simp: can_id_laws_def)
    have f: "\<not> is_std f" using ext by simp
    have need: "unat bank + length (pend_filter A w) + 1 + banks_needed fs \<le> unat (bx_num_banks X p)"
      using Cons.prems(3) f by (cases "(A, w)" rule: pend_filter.cases) (auto simp: banks_needed_ext)
    then have pend: "unat bank + length (pend_filter A w) \<le> unat (bx_num_banks X p)" by simp
    obtain p1 bank1 where p1: "(case w of Some (i, m) \<Rightarrow> bx_next (bx_enable32 X p bank (m32_std X i m)) bank | None \<Rightarrow> Return (p, bank)) =
          Return (p1, bank1)" "unat bank1 = unat bank + length (pend_filter A w)" "bx_num_banks X p1 = bx_num_banks X p"
        "banks_free V p1 bank1" "\<forall>c. bx_accepts V p1 c \<longleftrightarrow> bx_accepts V p c \<or> matches_any A (pend_filter A w) c"
      by (rule bx_flush [OF laws(1,2) Cons.prems(2) pend])
    have room: "unat bank1 < unat (bx_num_banks X p1)" using need p1(2,3) by simp
    obtain p2 where p2: "bx_next (bx_enable32 X p1 bank1 (m32_ext X i m')) bank1 = Return (p2, bank1 + 1)"
        "bank_added X V p1 bank1 (bv_match32 V (m32_ext X i m')) p2"
      by (rule bx_next32 [OF laws(1) p1(4) room])
    have "filled X V A p2 fs (bx_fill X A p2 (bank1 + 1) None fs)"
      using Cons.IH [of p2 "bank1 + 1" None] Cons.prems(1) p2(2) p1(2,3) need bank_succ_room(2) [OF room] by (simp add: bank_added_def)
    from filled_step [OF this, of p "pend_filter A w @ f # fs"]
    have "filled X V A p (pend_filter A w @ f # fs) (bx_fill X A p2 (bank1 + 1) None fs)"
      using p1(3,5) p2(2) ext m' by (auto simp: bank_added_def M)
    then show ?thesis using m' p1(1) p2(1) ext by simp
  qed (use Cons.prems(1) in simp_all)
qed

definition bx_can_hold :: "('s, 'e, 'm16, 'm32, 'p) bxcan_ops \<Rightarrow> ('s, 'e) can_id_api \<Rightarrow> 'p \<Rightarrow> ('s, 'e) id_mask_filter list \<Rightarrow> bool" where
  "bx_can_hold X A p fs \<longleftrightarrow> list_all (mask_in_range A) fs \<and> banks_needed fs \<le> unat (bx_num_banks X p)"

lemma bx_set_filters_room:
  assumes laws: "bank_laws X V" "mask_laws A X V" "can_id_laws A" and hold: "bx_can_hold X A p fs" and fs: "fs \<noteq> []"
  shows "\<exists>p'. bx_set_filters X A p fs = Return (Ok (), p') \<and>
     bx_num_banks X p' = bx_num_banks X p \<and> (\<forall>i. bx_accepts V p' i \<longleftrightarrow> passes A fs i)"
proof -
  let ?p = "bx_clear X p"
  have clear: "bx_num_banks X ?p = bx_num_banks X p" "banks_free V ?p 0" "\<not> bx_accepts V ?p i" for i
    using laws(1) by (auto simp: bank_laws_def banks_free_def bx_accepts_def)
  have range: "list_all (mask_in_range A) fs" and need: "banks_needed fs \<le> unat (bx_num_banks X p)"
    using hold by (auto simp: bx_can_hold_def)
  have "filled X V A ?p fs (bx_fill X A ?p 0 None fs)"
    using bx_fill_ok [OF laws range clear(2), of None] need clear(1) by simp
  then obtain bank w p1 where fill: "(bx_fill X A ?p 0 None fs) = Return (Ok (bank, w), p1)"
      "bx_num_banks X p1 = bx_num_banks X p" "banks_free V p1 bank" "unat bank + length (pend_filter A w) \<le> unat (bx_num_banks X p1)"
      "\<forall>i. bx_accepts V p1 i \<or> matches_any A (pend_filter A w) i \<longleftrightarrow> matches_any A fs i"
    using clear by (auto simp: filled_def)
  obtain r b where req: "bx_required A 0 False fs = Ok (r, b)" "(if b then r + 1 else r) = banks_needed fs"
    using bx_required_ok [OF range, of None 0] by auto
  have p: "passes A fs i \<longleftrightarrow> matches_any A fs i" for i using fs by (simp add: passes_def matches_any_def)
  show ?thesis
  proof (cases w)
    case None
    then show ?thesis using fs req need fill by (simp add: bx_set_filters_def p)
  next
    case (Some q)
    obtain i m where q: "q = (i, m)" by (cases q)
    have room: "unat bank < unat (bx_num_banks X p1)" using fill(4) Some q by simp
    obtain p2 where "bx_enable32 X p1 bank (m32_std X i m) = Return p2" "bank_added X V p1 bank (bv_match32 V (m32_std X i m)) p2"
      by (rule bx_next32 [OF laws(1) fill(3) room])
    then show ?thesis using Some q fs req need fill
      by (simp add: bx_set_filters_def p bank_added_def mask_laws_match [OF laws(2)] del: filter_match.simps)
  qed
qed

lemma bx_set_filters_no_room:
  assumes hold: "\<not> bx_can_hold X A p fs" and fs: "fs \<noteq> []"
  shows "\<exists>e. bx_set_filters X A p fs = Return (Err e, p)"
proof (cases "list_all (mask_in_range A) fs")
  case True
  obtain r b where "bx_required A 0 False fs = Ok (r, b)" "(if b then r + 1 else r) = banks_needed fs"
    using bx_required_ok [OF True, of None 0] by auto
  then show ?thesis using hold True fs by (simp add: bx_set_filters_def bx_can_hold_def)
next
  case False
  obtain e where "bx_required A 0 False fs = Err e" using bx_required_err [OF False] by blast
  then show ?thesis using fs by (simp add: bx_set_filters_def)
qed

lemma bx_set_filters_spec:
  assumes laws: "bank_laws X V" "mask_laws A X V" "can_id_laws A" and banks: "0 < bx_num_banks X p"
  shows "\<exists>r p'. bx_set_filters X A p fs = Return (r, p') \<and> bx_num_banks X p' = bx_num_banks X p \<and>
     (is_ok r \<longleftrightarrow> bx_can_hold X A p fs) \<and>
     (if is_ok r then (\<forall>i. bx_accepts V p' i \<longleftrightarrow> passes A fs i) else p' = p)"
proof -
  consider (empty) "fs = []" | (room) "fs \<noteq> []" "bx_can_hold X A p fs" | (no_room) "\<not> bx_can_hold X A p fs" "fs \<noteq> []" by blast
  then show ?thesis
  proof cases
    case empty
    have free: "banks_free V (bx_clear X p) 0" and n: "bx_num_banks X (bx_clear X p) = bx_num_banks X p"
      using laws(1) by (auto simp: bank_laws_def banks_free_def)
    have room: "unat (0 :: u8) < unat (bx_num_banks X (bx_clear X p))" using banks n by (simp add: word_less_nat_alt)
    obtain p1 where "bx_enable32 X (bx_clear X p) 0 (m32_all X) = Return p1"
        "bank_added X V (bx_clear X p) 0 (bv_match32 V (m32_all X)) p1"
      by (rule bx_next32 [OF laws(1) free room])
    then show ?thesis using n
      by (simp add: empty bx_set_filters_def bx_can_hold_def bank_added_def mask_laws_match [OF laws(2)] passes_def)
  next
    case room
    then show ?thesis using bx_set_filters_room [OF laws room(2,1)] by fastforce
  next
    case no_room
    then show ?thesis using bx_set_filters_no_room [OF no_room] by fastforce
  qed
qed

text \<open>The peripheral implements the contract of \<open>set_filters\<close>.\<close>

definition bx_configure ::
    "('s, 'e, 'm16, 'm32, 'p) bxcan_ops \<Rightarrow> ('s, 'e) can_id_api \<Rightarrow> 'p \<Rightarrow> ('s, 'e) id_mask_filter list \<Rightarrow> bool \<times> 'p" where
  "bx_configure X A p fs = (case bx_set_filters X A p fs of Return (r, p') \<Rightarrow> (is_ok r, p') | Panic \<Rightarrow> (False, p))"

definition bx_laws ::
    "('s, 'e, 'm16, 'm32, 'p) bxcan_ops \<Rightarrow> ('s, 'e, 'm16, 'm32, 'p) bxcan_view \<Rightarrow> ('s, 'e) can_id_api \<Rightarrow> 'p \<Rightarrow> bool" where
  "bx_laws X V A p \<longleftrightarrow> bank_laws X V \<and> mask_laws A X V \<and> can_id_laws A \<and> 0 < bx_num_banks X p"

lemma bx_configure_spec:
  assumes "bx_laws X V A p" and "bx_configure X A p fs = (b, p')"
  shows "bx_laws X V A p' \<and> b = bx_can_hold X A p fs \<and> bx_can_hold X A p' = bx_can_hold X A p \<and>
    (if b then \<forall>i. bx_accepts V p' i = passes A fs i else p' = p)"
proof -
  have l: "bank_laws X V" "mask_laws A X V" "can_id_laws A" "0 < bx_num_banks X p" using assms(1) by (simp_all add: bx_laws_def)
  obtain r q where "bx_set_filters X A p fs = Return (r, q)" "bx_num_banks X q = bx_num_banks X p" "is_ok r \<longleftrightarrow> bx_can_hold X A p fs"
      "if is_ok r then \<forall>i. bx_accepts V q i \<longleftrightarrow> passes A fs i else q = p"
    using bx_set_filters_spec [OF l, of fs] by blast
  then show ?thesis using assms(2) l by (auto simp: bx_laws_def bx_configure_def bx_can_hold_def fun_eq_iff)
qed

interpretation bxcan: sized_filter_config A "bx_laws X V A" "bx_configure X A" "bx_accepts V" "bx_can_hold X A" for X V A
proof unfold_locales
  show "bx_configure X A p fs = (b, p') \<Longrightarrow> bx_laws X V A p'" if "bx_laws X V A p" for p fs b p'
    using bx_configure_spec [OF that] by blast
  show "bx_configure X A p fs = (True, p') \<Longrightarrow> bx_accepts V p' i = passes A fs i" if "bx_laws X V A p" for p fs p' i
    using bx_configure_spec [OF that, of fs True] by simp
  show "bx_configure X A p fs = (False, p') \<Longrightarrow> bx_accepts V p' i = bx_accepts V p i" if "bx_laws X V A p" for p fs p' i
    using bx_configure_spec [OF that, of fs False] by simp
  show "bx_configure X A p fs = (b, p') \<Longrightarrow> b = bx_can_hold X A p fs" if "bx_laws X V A p" for p fs b p'
    using bx_configure_spec [OF that] by blast
  show "bx_configure X A p fs = (b, p') \<Longrightarrow> bx_can_hold X A p' = bx_can_hold X A p" if "bx_laws X V A p" for p fs b p'
    using bx_configure_spec [OF that] by blast
  show "bx_configure X A p fs = (False, p') \<Longrightarrow> p' = p" if "bx_laws X V A p" for p fs p'
    using bx_configure_spec [OF that, of fs False] by simp
qed

text \<open>C17: Filters of bxCAN: a configuration never touches a bank that does not exist, never overflows the
  bank counter and so never panics, from any state that a sequence of configurations reaches. The sequence succeeds
  exactly on the lists whose masks fit their identifiers and for which the banks, with adjacent standard filters in
  pairs, suffice. The peripheral then accepts exactly the identifiers that the last such list passes, and a refused
  list leaves it as it was.\<close>

theorem bxcan_filters:
  assumes laws: "bx_laws X V A p" and run: "configure_all (bx_configure X A) p fss = (bs, p')"
  shows "bs = map (bx_can_hold X A p) fss \<and>
    bx_accepts V p' i = (case filter (bx_can_hold X A p) (rev fss) of [] \<Rightarrow> bx_accepts V p i | fs # _ \<Rightarrow> passes A fs i) \<and>
    (\<exists>r q. bx_set_filters X A p' fs = Return (r, q) \<and> (\<not> is_ok r \<longrightarrow> q = p'))"
proof -
  have "bx_laws X V A p'" by (rule bxcan.all_ok [OF laws run])
  then have "\<exists>r q. bx_set_filters X A p' fs = Return (r, q) \<and> (\<not> is_ok r \<longrightarrow> q = p')"
    using bx_set_filters_spec [of X V A p' fs] by (auto simp: bx_laws_def)
  then show ?thesis using bxcan.successes [OF laws run] bxcan.last_fitting_wins [OF laws run] by blast
qed

text \<open>A driver that keeps its banks in a table.\<close>

datatype table_mask = MaskStd "11 word" "11 word" | MaskExt "29 word" "29 word" | MaskAll

fun table_match :: "table_mask \<Rightarrow> (11 word, 29 word) can_id \<Rightarrow> bool" where
  "table_match (MaskStd i m) c = filter_match bit_id_api (std_filter i (std_raw bit_id_api m)) c"
| "table_match (MaskExt i m) c = filter_match bit_id_api (ext_filter i (ext_raw bit_id_api m)) c"
| "table_match MaskAll c = True"

type_synonym table_banks = "u8 \<times> (u8 \<Rightarrow> (table_mask, table_mask) bank option)"

definition table_enable :: "table_banks \<Rightarrow> u8 \<Rightarrow> (table_mask, table_mask) bank \<Rightarrow> table_banks outcome" where
  "table_enable p j b = (if j < fst p then Return (fst p, (snd p)(j \<mapsto> b)) else Panic)"

definition table_bxcan :: "(11 word, 29 word, table_mask, table_mask, table_banks) bxcan_ops" where
  "table_bxcan = \<lparr>bx_num_banks = fst, bx_clear = (\<lambda>p. (fst p, \<lambda>_. None)),
     bx_enable16 = (\<lambda>p j a b. table_enable p j (Bank16 a b)), bx_enable32 = (\<lambda>p j a. table_enable p j (Bank32 a)),
     m16_std = MaskStd, m32_std = MaskStd, m32_ext = MaskExt, m32_all = MaskAll\<rparr>"

definition table_view :: "(11 word, 29 word, table_mask, table_mask, table_banks) bxcan_view" where
  "table_view = \<lparr>bv_banks = snd, bv_match16 = table_match, bv_match32 = table_match\<rparr>"

lemma table_laws: "bank_laws table_bxcan table_view" "mask_laws bit_id_api table_bxcan table_view"
  by (auto simp: bank_laws_def mask_laws_def table_bxcan_def table_view_def table_enable_def simp del: filter_match.simps)

theorem bxcan_filters_witness:
  "let fs = [std_filter 1 0x7FF, std_filter 2 0x7FF, ext_filter 3 0x1FFFFFFF, std_filter 0x40 0x7F0]; p = (3, \<lambda>_. None);
       (bs, p') = configure_all (bx_configure table_bxcan bit_id_api) p [fs, fs @ [ext_filter 5 0]] in
   bs = [True, False] \<and> bx_accepts table_view p' (Standard 2) \<and> bx_accepts table_view p' (Standard 0x47) \<and> \<not> bx_accepts table_view p' (Standard 3)"
proof -
  let ?fs = "[std_filter 1 0x7FF, std_filter 2 0x7FF, ext_filter 3 0x1FFFFFFF, std_filter 0x40 0x7F0]"
  obtain bs p' where run: "configure_all (bx_configure table_bxcan bit_id_api) (3, \<lambda>_. None) [?fs, ?fs @ [ext_filter 5 0]] = (bs, p')"
    by (rule prod.exhaust)
  have laws: "bx_laws table_bxcan table_view bit_id_api (3, \<lambda>_. None)"
    using table_laws bit_id_laws by (simp add: bx_laws_def table_bxcan_def)
  have hold: "bx_can_hold table_bxcan bit_id_api (3, \<lambda>_. None) ?fs"
      "\<not> bx_can_hold table_bxcan bit_id_api (3, \<lambda>_. None) (?fs @ [ext_filter 5 0])"
    by (simp_all add: bx_can_hold_def table_bxcan_def bit_id_api_def banks_needed_ext)
  have p: "passes bit_id_api ?fs (Standard 2)" "\<not> passes bit_id_api ?fs (Standard 3)" "passes bit_id_api ?fs (Standard 0x47)"
    by (simp_all add: passes_def bit_id_api_def)
  show ?thesis unfolding Let_def run using bxcan_filters [OF laws run] hold p by simp
qed

section \<open>Filter elements\<close>

record ('sf, 'ef, 'p) fdcan_view =
  fv_std :: "'p \<Rightarrow> 'sf list"
  fv_ext :: "'p \<Rightarrow> 'ef list"
  fv_match_std :: "'sf \<Rightarrow> u16 \<Rightarrow> bool"
  fv_match_ext :: "'ef \<Rightarrow> u32 \<Rightarrow> bool"

text \<open>The driver's documentation: the setters replace one of the two lists; a disabled element matches
  nothing, a bit mask compares the bits set in the mask.\<close>

definition element_laws :: "('sf, 'ef, 'p) fdcan_ops \<Rightarrow> ('sf, 'ef, 'p) fdcan_view \<Rightarrow> bool" where
  "element_laws X V \<longleftrightarrow>
     0 < fd_std_max X \<and> 0 < fd_ext_max X \<and>
     (\<forall>p xs. fv_std V (fd_set_standard X p xs) = xs \<and> fv_ext V (fd_set_standard X p xs) = fv_ext V p) \<and>
     (\<forall>p xs. fv_ext V (fd_set_extended X p xs) = xs \<and> fv_std V (fd_set_extended X p xs) = fv_std V p) \<and>
     (\<forall>r. fv_match_std V (fd_std_all X) r \<and> \<not> fv_match_std V (fd_std_disable X) r) \<and>
     (\<forall>r. fv_match_ext V (fd_ext_all X) r \<and> \<not> fv_match_ext V (fd_ext_disable X) r) \<and>
     (\<forall>i m r. fv_match_std V (fd_std_mask X i m) r \<longleftrightarrow> r AND m = i AND m) \<and>
     (\<forall>i m r. fv_match_ext V (fd_ext_mask X i m) r \<longleftrightarrow> r AND m = i AND m)"

text \<open>An element stores a frame with this identifier into FIFO 0.\<close>

fun fd_elements_match :: "('sf, 'ef, 'p) fdcan_view \<Rightarrow> ('s, 'e) can_id_api \<Rightarrow> 'sf list \<Rightarrow> 'ef list \<Rightarrow> ('s, 'e) can_id \<Rightarrow> bool" where
  "fd_elements_match V A std ext (Standard i) = list_ex (\<lambda>f. fv_match_std V f (std_raw A i)) std"
| "fd_elements_match V A std ext (Extended i) = list_ex (\<lambda>f. fv_match_ext V f (ext_raw A i)) ext"

definition fd_accepts :: "('sf, 'ef, 'p) fdcan_view \<Rightarrow> ('s, 'e) can_id_api \<Rightarrow> 'p \<Rightarrow> ('s, 'e) can_id \<Rightarrow> bool" where
  "fd_accepts V A p c = fd_elements_match V A (fv_std V p) (fv_ext V p) c"

definition std_count :: "('s, 'e) id_mask_filter list \<Rightarrow> nat" where "std_count fs = length (filter is_std fs)"
definition ext_count :: "('s, 'e) id_mask_filter list \<Rightarrow> nat" where "ext_count fs = length (filter (\<lambda>f. \<not> is_std f) fs)"

lemma list_ex_set_free:
  "i < length xs \<Longrightarrow> \<not> P (xs ! i) \<Longrightarrow> list_ex P (xs[i := x]) \<longleftrightarrow> list_ex P xs \<or> P x"
  by (auto simp: list_ex_length nth_list_update)

lemma fd_fill_matches:
  assumes laws: "element_laws X V"
    and free: "\<forall>j<length std. si \<le> j \<longrightarrow> std ! j = fd_std_disable X" "\<forall>j<length ext. ei \<le> j \<longrightarrow> ext ! j = fd_ext_disable X"
    and run: "fd_fill X A std si ext ei fs = Ok (std', ext')"
  shows "fd_elements_match V A std' ext' c \<longleftrightarrow> fd_elements_match V A std ext c \<or> matches_any A fs c"
  using free run
proof (induction fs arbitrary: std si ext ei)
  case (Cons f fs)
  show ?case
  proof (cases f rule: filter_cases)
    case (std i m)
    then have run: "si < length std" "fd_fill X A (std[si := fd_std_mask X (std_raw A i) m]) (si + 1) ext ei fs = Ok (std', ext')"
      using Cons.prems(3) by (auto split: if_splits)
    have "fd_elements_match V A (std[si := fd_std_mask X (std_raw A i) m]) ext c \<longleftrightarrow> fd_elements_match V A std ext c \<or> filter_match A f c"
      using laws std run(1) Cons.prems(1) by (cases c) (auto simp: element_laws_def list_ex_set_free)
    then show ?thesis using Cons.IH [OF _ _ run(2)] Cons.prems(1,2) by (auto simp: nth_list_update)
  next
    case (ext i m)
    then have run: "ei < length ext" "fd_fill X A std si (ext[ei := fd_ext_mask X (ext_raw A i) m]) (ei + 1) fs = Ok (std', ext')"
      using Cons.prems(3) by (auto split: if_splits)
    have "fd_elements_match V A std (ext[ei := fd_ext_mask X (ext_raw A i) m]) c \<longleftrightarrow> fd_elements_match V A std ext c \<or> filter_match A f c"
      using laws ext run(1) Cons.prems(2) by (cases c) (auto simp: element_laws_def list_ex_set_free)
    then show ?thesis using Cons.IH [OF _ _ run(2)] Cons.prems(1,2) by (auto simp: nth_list_update)
  qed (use Cons.prems(3) in simp_all)
qed simp

lemma fd_fill_ok_iff:
  assumes "si \<le> length std" "ei \<le> length ext"
  shows "is_ok (fd_fill X A std si ext ei fs) \<longleftrightarrow>
     list_all (mask_in_range A) fs \<and> si + std_count fs \<le> length std \<and> ei + ext_count fs \<le> length ext"
  using assms
proof (induction fs arbitrary: std si ext ei)
  case Nil
  then show ?case by (simp add: std_count_def ext_count_def)
next
  case (Cons f fs)
  show ?case
  proof (cases f rule: filter_cases)
    case (std i m)
    then show ?thesis using Cons.prems Cons.IH [of "si + 1" "std[si := fd_std_mask X (std_raw A i) m]" ei ext]
      by (cases "si < length std") (auto simp: std_count_def ext_count_def)
  next
    case (ext i m)
    then show ?thesis using Cons.prems Cons.IH [of si std "ei + 1" "ext[ei := fd_ext_mask X (ext_raw A i) m]"]
      by (cases "ei < length ext") (auto simp: std_count_def ext_count_def)
  qed simp_all
qed

definition fd_can_hold :: "('sf, 'ef, 'p) fdcan_ops \<Rightarrow> ('s, 'e) can_id_api \<Rightarrow> ('s, 'e) id_mask_filter list \<Rightarrow> bool" where
  "fd_can_hold X A fs \<longleftrightarrow> list_all (mask_in_range A) fs \<and> std_count fs \<le> fd_std_max X \<and> ext_count fs \<le> fd_ext_max X"

lemma fd_set_filters_spec:
  assumes laws: "element_laws X V"
  shows "\<exists>r p'. fd_set_filters X A p fs = (r, p') \<and> (is_ok r \<longleftrightarrow> fd_can_hold X A fs) \<and>
     (if is_ok r then (\<forall>i. fd_accepts V A p' i \<longleftrightarrow> passes A fs i) else p' = p)"
proof (cases "fs = []")
  case True
  have "fd_elements_match V A ((replicate (fd_std_max X) (fd_std_disable X))[0 := fd_std_all X])
      ((replicate (fd_ext_max X) (fd_ext_disable X))[0 := fd_ext_all X]) i" for i
    using laws by (cases i) (auto simp: element_laws_def list_ex_set_free)
  then show ?thesis using laws True
    by (simp add: fd_set_filters_def fd_can_hold_def std_count_def ext_count_def fd_accepts_def passes_def element_laws_def)
next
  case False
  let ?std = "replicate (fd_std_max X) (fd_std_disable X)" and ?ext = "replicate (fd_ext_max X) (fd_ext_disable X)"
  have none: "\<not> fd_elements_match V A ?std ?ext i" for i using laws by (cases i) (auto simp: element_laws_def list_ex_iff)
  have ok: "is_ok (fd_fill X A ?std 0 ?ext 0 fs) \<longleftrightarrow> fd_can_hold X A fs"
    using fd_fill_ok_iff [of 0 ?std 0 ?ext X A fs] by (simp add: fd_can_hold_def)
  have all: "fd_fill X A ?std 0 ?ext 0 fs = Ok (std', ext') \<Longrightarrow> fd_elements_match V A std' ext' i \<longleftrightarrow> passes A fs i" for std' ext' i
    using fd_fill_matches [OF laws, of ?std 0 ?ext 0 A fs std' ext' i] none False by (simp add: passes_def matches_any_def)
  show ?thesis
  proof (cases "fd_fill X A ?std 0 ?ext 0 fs")
    case (Ok q)
    then show ?thesis using ok all laws False
      by (cases q) (auto simp: fd_set_filters_def fd_accepts_def element_laws_def)
  next
    case (Err e)
    then show ?thesis using ok False by (auto simp: fd_set_filters_def)
  qed
qed

definition fd_configure ::
    "('sf, 'ef, 'p) fdcan_ops \<Rightarrow> ('s, 'e) can_id_api \<Rightarrow> 'p \<Rightarrow> ('s, 'e) id_mask_filter list \<Rightarrow> bool \<times> 'p" where
  "fd_configure X A p fs = (let (r, p') = fd_set_filters X A p fs in (is_ok r, p'))"

lemma fd_configure_spec:
  assumes "element_laws X V" and "fd_configure X A p fs = (b, p')"
  shows "b = fd_can_hold X A fs \<and> (if b then \<forall>i. fd_accepts V A p' i = passes A fs i else p' = p)"
proof -
  obtain r q where "fd_set_filters X A p fs = (r, q)" "is_ok r \<longleftrightarrow> fd_can_hold X A fs"
      "if is_ok r then \<forall>i. fd_accepts V A q i \<longleftrightarrow> passes A fs i else q = p"
    using fd_set_filters_spec [OF assms(1), of A p fs] by blast
  then show ?thesis using assms(2) by (auto simp: fd_configure_def)
qed

interpretation fdcan: sized_filter_config A "\<lambda>_. element_laws X V" "fd_configure X A" "fd_accepts V A" "\<lambda>_. fd_can_hold X A" for X V A
proof unfold_locales
  show "fd_configure X A p fs = (True, p') \<Longrightarrow> fd_accepts V A p' i = passes A fs i" if "element_laws X V" for p fs p' i
    using fd_configure_spec [OF that, of A p fs True] by simp
  show "fd_configure X A p fs = (False, p') \<Longrightarrow> fd_accepts V A p' i = fd_accepts V A p i" if "element_laws X V" for p fs p' i
    using fd_configure_spec [OF that, of A p fs False] by simp
  show "fd_configure X A p fs = (b, p') \<Longrightarrow> b = fd_can_hold X A fs" if "element_laws X V" for p fs b p'
    using fd_configure_spec [OF that, of A p fs b] by simp
  show "fd_configure X A p fs = (False, p') \<Longrightarrow> p' = p" if "element_laws X V" for p fs p'
    using fd_configure_spec [OF that, of A p fs False] by simp
qed simp_all

text \<open>C31: Filters of FDCAN: over any sequence of configurations exactly those lists are taken whose masks fit
  their identifiers and whose standard and extended filters fit their element lists. The elements then select exactly
  the identifiers that the last such list passes, and as long as no list fits the peripheral is untouched.\<close>

theorem fdcan_filters:
  assumes laws: "element_laws X V" and run: "configure_all (fd_configure X A) p fss = (bs, p')"
  shows "bs = map (fd_can_hold X A) fss \<and>
    fd_accepts V A p' i = (case filter (fd_can_hold X A) (rev fss) of [] \<Rightarrow> fd_accepts V A p i | fs # _ \<Rightarrow> passes A fs i) \<and>
    (list_all (\<lambda>fs. \<not> fd_can_hold X A fs) fss \<longrightarrow> p' = p)"
  using fdcan.successes [OF laws run] fdcan.last_fitting_wins [OF laws run] fdcan.nothing_fits [OF laws run] by blast

text \<open>A driver with two lists of masks.\<close>

definition lists_fdcan :: "((u16 \<times> u16) option, (u32 \<times> u32) option, (u16 \<times> u16) option list \<times> (u32 \<times> u32) option list) fdcan_ops" where
  "lists_fdcan = \<lparr>fd_std_max = 2, fd_ext_max = 1, fd_std_disable = None, fd_std_all = Some (0, 0), fd_std_mask = (\<lambda>i m. Some (i, m)),
     fd_ext_disable = None, fd_ext_all = Some (0, 0), fd_ext_mask = (\<lambda>i m. Some (i, m)),
     fd_set_standard = (\<lambda>p xs. (xs, snd p)), fd_set_extended = (\<lambda>p xs. (fst p, xs))\<rparr>"

definition lists_view :: "((u16 \<times> u16) option, (u32 \<times> u32) option, (u16 \<times> u16) option list \<times> (u32 \<times> u32) option list) fdcan_view" where
  "lists_view = \<lparr>fv_std = fst, fv_ext = snd, fv_match_std = (\<lambda>f r. case f of None \<Rightarrow> False | Some (i, m) \<Rightarrow> r AND m = i AND m),
     fv_match_ext = (\<lambda>f r. case f of None \<Rightarrow> False | Some (i, m) \<Rightarrow> r AND m = i AND m)\<rparr>"

lemma lists_laws: "element_laws lists_fdcan lists_view"
  by (simp add: element_laws_def lists_fdcan_def lists_view_def)

theorem fdcan_filters_witness:
  "let fs = [std_filter 1 0x7FF, ext_filter 3 0x1FFFFFFF, std_filter 0x40 0x7F0];
       (bs, p') = configure_all (fd_configure lists_fdcan bit_id_api) ([], []) [fs, fs @ [ext_filter 5 0]] in
   bs = [True, False] \<and> fd_accepts lists_view bit_id_api p' (Extended 3) \<and> \<not> fd_accepts lists_view bit_id_api p' (Extended 4)"
proof -
  let ?fs = "[std_filter 1 0x7FF, ext_filter 3 0x1FFFFFFF, std_filter 0x40 0x7F0]"
  obtain bs p' where run: "configure_all (fd_configure lists_fdcan bit_id_api) ([], []) [?fs, ?fs @ [ext_filter 5 0]] = (bs, p')"
    by (rule prod.exhaust)
  have hold: "fd_can_hold lists_fdcan bit_id_api ?fs" "\<not> fd_can_hold lists_fdcan bit_id_api (?fs @ [ext_filter 5 0])"
    by (simp_all add: fd_can_hold_def lists_fdcan_def bit_id_api_def std_count_def ext_count_def)
  have p: "passes bit_id_api ?fs (Extended 3)" "\<not> passes bit_id_api ?fs (Extended 4)"
    by (simp_all add: passes_def bit_id_api_def)
  show ?thesis unfolding Let_def run using fdcan_filters [OF lists_laws run] hold p by simp
qed

end
