(* ===== verification/FT_Transfer.thy ===== *)
theory FT_Transfer
  imports FT_Receiver FT_Codec Mailbox
begin

text \<open>
  A transfer with both ends: \<open>send_file_with_id_impl\<close> on one node, the receive of \<open>recv_file_impl\<close> on
  the other, and between them the mailboxes of \<open>thincan/src/lib.rs\<close>, one per message type, with their
  depth and their largest body. The messages are the bytes the encoders produce. The receiver takes its
  turns between the calls of the sender, as many as the schedule gives it; each turn is one block of the
  code between two waits. The link loses nothing, and the receiver gets at least one turn before the
  timer of a waiting sender fires.
  The locale \<open>write_store\<close> is what a receive needs of an \<open>AsyncFileStore\<close>.
\<close>

section \<open>Messages as bytes\<close>

definition encoded :: "scratch_encode \<Rightarrow> bytes" where
  "encoded e = (case fst e of Return (Ok n, out) \<Rightarrow> take n out | _ \<Rightarrow> [])"

fun msg_body :: "capnp_builder \<Rightarrow> ft_message \<Rightarrow> bytes" where
  "msg_body B (MReq v) = encoded (file_offer_encode B [] v
     (replicate (file_offer_max_encoded_len (length (fov_file_metadata v)) (length (fov_file_hash v))) 0))"
| "msg_body B (MChunk v) = encoded (file_chunk_encode B [] v (replicate (file_chunk_max_encoded_len (length (fcv_data v))) 0))"
| "msg_body B (MAck v) = encoded (file_ack_encode B [] v (replicate file_ack_max_encoded_len 0))"

section \<open>The receiving node\<close>

record endpoint =
  ep_req :: type_mailbox
  ep_chunk :: type_mailbox
  ep_ack :: type_mailbox

record link_config =
  lc_depth :: usize
  lc_body :: usize
  lc_sender :: u8
  lc_receiver :: u8
  lc_runtime :: runtime
  lc_timeout :: duration
  lc_config :: receiver_config

definition endpoint_new :: "link_config \<Rightarrow> endpoint" where
  "endpoint_new c = (let mb = type_mailbox_new (lc_depth c) (lc_body c) in \<lparr>ep_req = mb, ep_chunk = mb, ep_ack = mb\<rparr>)"

definition box_push :: "link_config \<Rightarrow> type_mailbox \<Rightarrow> u8 \<Rightarrow> bytes \<Rightarrow> type_mailbox" where
  "box_push c mb src body = fst (type_mailbox_push (lc_depth c) (lc_body c) mb src body)"

definition box_pop :: "link_config \<Rightarrow> type_mailbox \<Rightarrow> u8 \<Rightarrow> type_mailbox \<times> bytes option" where
  "box_pop c mb src = (case type_mailbox_take (lc_body c) mb src accept_all () of (mb', r, _) \<Rightarrow> (mb', r))"

text \<open>The bus of the receiver: what it sends goes to the mailbox of the sender.\<close>

definition endpoint_bus :: "capnp_builder \<Rightarrow> link_config \<Rightarrow> endpoint bus_ops" where
  "endpoint_bus B c =
     \<lparr>bus_send = \<lambda>ep dst m tmo. (Ok (), ep\<lparr>ep_ack := box_push c (ep_ack ep) (lc_receiver c) (msg_body B m)\<rparr>),
      bus_deadline = \<lambda>ep tmo. ep,
      bus_recv = \<lambda>ep k src. (case k of
          KChunk \<Rightarrow> (case box_pop c (ep_chunk ep) src of
            (mb, None) \<Rightarrow> (Elapsed, ep) | (mb, Some body) \<Rightarrow> (Arrived body, ep\<lparr>ep_chunk := mb\<rparr>))
        | KAck \<Rightarrow> (Elapsed, ep)),
      bus_recv_req = \<lambda>ep src. (case box_pop c (ep_req ep) src of
          (mb, None) \<Rightarrow> None | (mb, Some body) \<Rightarrow> Some (Ok body, ep\<lparr>ep_req := mb\<rparr>))\<rparr>"

datatype ('h, 'hs, 'se, 'ce) rx_phase =
    RxIdle
  | RxRunning recv_request "('h, 'hs) rx_xfer"
  | RxDone "(recv_file_result, ('se, 'ce) ft_error) result"

record ('s, 'h, 'hs, 'se, 'ce) link =
  lk_sched :: "nat list"
  lk_ep :: endpoint
  lk_phase :: "('h, 'hs, 'se, 'ce) rx_phase"
  lk_store :: 's

text \<open>The pieces of the program a transfer runs on.\<close>

record ('s, 'h, 'hs, 'se, 'ce) node_parts =
  np_builder :: capnp_builder
  np_reader :: "'ce capnp_reader"
  np_store :: "('s, 'h, 'se) store_ops"
  np_hasher :: "'hs hasher_ops"

text \<open>One turn. Waiting for a message that is not there takes no turn: the receiver's timer does not fire.\<close>

definition rx_turn ::
    "('s, 'h, 'hs, 'se, 'ce) node_parts \<Rightarrow> link_config \<Rightarrow> ('s, 'h, 'hs, 'se, 'ce) link \<Rightarrow> ('s, 'h, 'hs, 'se, 'ce) link" where
  "rx_turn P c lk =
     (let ops = endpoint_bus (np_builder P) c; src = lc_sender c; tmo = lc_timeout c; ep = lk_ep lk in
      case lk_phase lk of
        RxIdle \<Rightarrow>
          (case recv_request_alloc ops (np_reader P) ep src tmo (lc_config c) of
             None \<Rightarrow> lk
           | Some (Err e, ep1) \<Rightarrow> lk\<lparr>lk_phase := RxDone (Err e), lk_ep := ep1\<rparr>
           | Some (Ok q, ep1) \<Rightarrow>
               (case open_file ops (np_store P) (np_hasher P) q src tmo ep1 (lk_store lk) of
                  (OpenReturn r, ep2, st2) \<Rightarrow> lk\<lparr>lk_phase := RxDone r, lk_ep := ep2, lk_store := st2\<rparr>
                | (OpenReady x, ep2, st2) \<Rightarrow> lk\<lparr>lk_phase := RxRunning q x, lk_ep := ep2, lk_store := st2\<rparr>))
      | RxRunning q x \<Rightarrow>
          if mailbox_view (ep_chunk ep) = [] then lk
          else (case wait_for_transfer_chunk (Suc (used (ep_chunk ep))) (lc_runtime c) ops (np_reader P) ep src (rr_transfer_id q) tmo of
             None \<Rightarrow> lk
           | Some (Err _, ep1) \<Rightarrow>
               lk\<lparr>lk_phase := RxDone (Err FtProtocol), lk_ep := ep1, lk_store := st_abort (np_store P) (lk_store lk) (rx_handle x)\<rparr>
           | Some (Ok body, ep1) \<Rightarrow>
               (case recv_chunk ops (np_reader P) (np_store P) (np_hasher P) q src tmo x body ep1 (lk_store lk) of
                  (StepReturn r, ep2, st2) \<Rightarrow> lk\<lparr>lk_phase := RxDone r, lk_ep := ep2, lk_store := st2\<rparr>
                | (StepContinue x1, ep2, st2) \<Rightarrow> lk\<lparr>lk_phase := RxRunning q x1, lk_ep := ep2, lk_store := st2\<rparr>))
      | RxDone r \<Rightarrow> lk)"

section \<open>The link\<close>

definition link_new :: "link_config \<Rightarrow> nat list \<Rightarrow> 's \<Rightarrow> ('s, 'h, 'hs, 'se, 'ce) link" where
  "link_new c sched st = \<lparr>lk_sched = sched, lk_ep = endpoint_new c, lk_phase = RxIdle, lk_store = st\<rparr>"

text \<open>The turns of the next entry of the schedule.\<close>

definition run_slot ::
    "('s, 'h, 'hs, 'se, 'ce) node_parts \<Rightarrow> link_config \<Rightarrow> ('s, 'h, 'hs, 'se, 'ce) link \<Rightarrow> ('s, 'h, 'hs, 'se, 'ce) link" where
  "run_slot P c lk =
     (case lk_sched lk of [] \<Rightarrow> lk | k # ks \<Rightarrow> (rx_turn P c ^^ k) (lk\<lparr>lk_sched := ks\<rparr>))"

definition link_deliver :: "capnp_builder \<Rightarrow> link_config \<Rightarrow> ft_message \<Rightarrow> endpoint \<Rightarrow> endpoint" where
  "link_deliver B c m ep =
     (case m of
        MReq _ \<Rightarrow> ep\<lparr>ep_req := box_push c (ep_req ep) (lc_sender c) (msg_body B m)\<rparr>
      | MChunk _ \<Rightarrow> ep\<lparr>ep_chunk := box_push c (ep_chunk ep) (lc_sender c) (msg_body B m)\<rparr>
      | MAck _ \<Rightarrow> ep)"

definition link_recv ::
    "('s, 'h, 'hs, 'se, 'ce) node_parts \<Rightarrow> link_config \<Rightarrow> ('s, 'h, 'hs, 'se, 'ce) link \<Rightarrow> ft_kind \<Rightarrow> u8 \<Rightarrow>
     recv_event \<times> ('s, 'h, 'hs, 'se, 'ce) link" where
  "link_recv P c lk k src =
     (let lk1 = run_slot P c lk;
          lk2 = (if mailbox_view (ep_ack (lk_ep lk1)) = [] then rx_turn P c lk1 else lk1) in
      case (k, box_pop c (ep_ack (lk_ep lk2)) src) of
        (KAck, (mb, Some body)) \<Rightarrow> (Arrived body, lk2\<lparr>lk_ep := (lk_ep lk2)\<lparr>ep_ack := mb\<rparr>\<rparr>)
      | _ \<Rightarrow> (Elapsed, lk2))"

text \<open>The bus of the sender.\<close>

definition link_bus :: "('s, 'h, 'hs, 'se, 'ce) node_parts \<Rightarrow> link_config \<Rightarrow> ('s, 'h, 'hs, 'se, 'ce) link bus_ops" where
  "link_bus P c =
     \<lparr>bus_send = \<lambda>lk dst m tmo. (Ok (), run_slot P c (lk\<lparr>lk_ep := link_deliver (np_builder P) c m (lk_ep lk)\<rparr>)),
      bus_deadline = \<lambda>lk tmo. lk,
      bus_recv = link_recv P c,
      bus_recv_req = \<lambda>lk src. None\<rparr>"

section \<open>The contract of the store\<close>

text \<open>\<open>view st h\<close> is what the store holds under the handle of an open file, \<open>content st\<close> the file it holds
  after a commit. Opening gives zeros of the announced length, a write within that length overwrites its
  range, and none of the operations fails.\<close>

locale write_store =
  fixes S :: "('s, 'h, 'se) store_ops"
    and view :: "'s \<Rightarrow> 'h \<Rightarrow> bytes"
    and content :: "'s \<Rightarrow> bytes"
  assumes begin_ok: "\<exists>h st'. st_begin_write S st tid n = (Ok h, st') \<and> view st' h = replicate (unat n) 0"
    and write_ok: "unat offset + length bs \<le> length (view st h) \<Longrightarrow>
        \<exists>h' st'. st_write_at S st h offset bs = (Ok (), h', st') \<and> view st' h' = copy_at (unat offset) (view st h) bs"
    and commit_ok: "\<exists>st'. st_commit S st h = (Ok (), st') \<and> content st' = view st h"

end
