(* ===== verification/FT_Transfer_Props.thy ===== *)
theory FT_Transfer_Props
  imports FT_Transfer
begin

text \<open>
  A transfer over the link of \<open>FT_Transfer\<close> completes. The file is cut into the pieces the sender cuts it
  into; the invariant \<open>xfer_at\<close> says how many pieces are sent, stored and acknowledged and what the three
  mailboxes hold; a turn of the receiver, a send and a wait of the sender move these counters. The lemmas
  about the store are proved in \<open>write_store\<close>.
\<close>

section \<open>Messages and mailboxes\<close>

lemma div_ceil_mono: "0 < k \<Longrightarrow> a \<le> b \<Longrightarrow> div_ceil a k \<le> div_ceil b k"
  using div_ceil_le_iff [of k a "div_ceil b k"] div_ceil_le_iff [of k b "div_ceil b k"] by simp

lemma encoded_copy: "length seg \<le> length out \<Longrightarrow> encoded (Return (Ok (length seg), copy_into out seg), ws) = seg"
  by (simp add: encoded_def slice_simps)

lemma req_body_ok:
  assumes "capnp_laws B R" "length (fov_file_metadata v) < 2 ^ 29" "length (fov_file_hash v) < 2 ^ 29"
  shows "rd_req R (msg_body B (MReq v)) = Ok (req_fields v)"
    "length (msg_body B (MReq v)) \<le> file_offer_max_encoded_len (length (fov_file_metadata v)) (length (fov_file_hash v))"
proof -
  let ?m = "file_offer_max_encoded_len (length (fov_file_metadata v)) (length (fov_file_hash v))"
  obtain seg ws' where "file_offer_encode B [] v (replicate ?m 0) = (Return (Ok (length seg), copy_into (replicate ?m 0) seg), ws')"
    "length seg \<le> ?m" "rd_req R seg = Ok (req_fields v)"
    using file_offer_encode_ok [OF assms(1) zero_scratch(1) assms(2,3), of "replicate ?m 0"] by auto
  then show "rd_req R (msg_body B (MReq v)) = Ok (req_fields v)" "length (msg_body B (MReq v)) \<le> ?m"
    by (simp_all add: encoded_copy)
qed

lemma chunk_body_ok:
  assumes "capnp_laws B R" "length (fcv_data v) < 2 ^ 29"
  shows "rd_chunk R (msg_body B (MChunk v)) = Ok (chunk_fields v)"
    "length (msg_body B (MChunk v)) \<le> file_chunk_max_encoded_len (length (fcv_data v))"
proof -
  let ?m = "file_chunk_max_encoded_len (length (fcv_data v))"
  obtain seg ws' where "file_chunk_encode B [] v (replicate ?m 0) = (Return (Ok (length seg), copy_into (replicate ?m 0) seg), ws')"
    "length seg \<le> ?m" "rd_chunk R seg = Ok (chunk_fields v)"
    using file_chunk_encode_ok [OF assms(1) zero_scratch(1) assms(2), of "replicate ?m 0"] by auto
  then show "rd_chunk R (msg_body B (MChunk v)) = Ok (chunk_fields v)" "length (msg_body B (MChunk v)) \<le> ?m"
    by (simp_all add: encoded_copy)
qed

lemma ack_body_ok:
  assumes "capnp_laws B R"
  shows "rd_ack R (msg_body B (MAck v)) = Ok (ack_fields v)" "length (msg_body B (MAck v)) \<le> file_ack_max_encoded_len"
proof -
  let ?m = file_ack_max_encoded_len
  obtain seg ws' where "file_ack_encode B [] v (replicate ?m 0) = (Return (Ok (length seg), copy_into (replicate ?m 0) seg), ws')"
    "length seg \<le> ?m" "rd_ack R seg = Ok (ack_fields v)"
    using file_ack_encode_ok [OF assms zero_scratch(1), of "replicate ?m 0" v] by auto
  then show "rd_ack R (msg_body B (MAck v)) = Ok (ack_fields v)" "length (msg_body B (MAck v)) \<le> ?m"
    by (simp_all add: encoded_copy)
qed

declare msg_body.simps [simp del]

text \<open>What a mailbox holds when all its bodies come from one sender.\<close>

definition box_holds :: "link_config \<Rightarrow> u8 \<Rightarrow> type_mailbox \<Rightarrow> bytes list \<Rightarrow> bool" where
  "box_holds c src mb bodies \<longleftrightarrow> mailbox_wf (lc_depth c) (lc_body c) mb \<and> mailbox_view mb = map (Pair src) bodies"

lemma box_holds_new: "box_holds c src (type_mailbox_new (lc_depth c) (lc_body c)) []"
  by (simp add: box_holds_def type_mailbox_new_wf)

lemma box_holds_push:
  assumes "box_holds c src mb bodies" "length bodies < lc_depth c" "length body \<le> lc_body c"
  shows "box_holds c src (box_push c mb src body) (bodies @ [body])"
  using tm.push_ok [of "lc_depth c" "lc_body c" mb body src] assms by (auto simp: box_holds_def box_push_def)

lemma box_holds_view: "box_holds c src mb bodies \<Longrightarrow> mailbox_view mb = [] \<longleftrightarrow> bodies = []"
  by (simp add: box_holds_def)

lemma box_pop_spec:
  assumes "box_holds c src mb bodies"
  obtains mb' where "box_pop c mb src = (mb', case bodies of [] \<Rightarrow> None | b # _ \<Rightarrow> Some b)" "box_holds c src mb' (tl bodies)"
proof -
  obtain mb' r st where q: "type_mailbox_take (lc_body c) mb src accept_all () = (mb', r, st)" by (rule prod_cases3)
  have wf: "mailbox_wf (lc_depth c) (lc_body c) mb" and v: "mailbox_view mb = map (Pair src) bodies"
    using assms by (auto simp: box_holds_def)
  have "mailbox_wf (lc_depth c) (lc_body c) mb' \<and> fifo_pop src accept_all () (map (Pair src) bodies) = (mailbox_view mb', r, st)"
    using tm.pop_spec [OF wf q] v by simp
  then show ?thesis using q that [of mb'] by (cases bodies) (auto simp: box_pop_def box_holds_def accept_all_def)
qed

lemma endpoint_bus_simps [simp]:
  "bus_send (endpoint_bus B c) ep dst m tmo = (Ok (), ep\<lparr>ep_ack := box_push c (ep_ack ep) (lc_receiver c) (msg_body B m)\<rparr>)"
  "bus_deadline (endpoint_bus B c) ep d = ep"
  "bus_recv (endpoint_bus B c) ep KChunk src = (case box_pop c (ep_chunk ep) src of
     (mb, None) \<Rightarrow> (Elapsed, ep) | (mb, Some body) \<Rightarrow> (Arrived body, ep\<lparr>ep_chunk := mb\<rparr>))"
  "bus_recv_req (endpoint_bus B c) ep src = (case box_pop c (ep_req ep) src of
     (mb, None) \<Rightarrow> None | (mb, Some body) \<Rightarrow> Some (Ok body, ep\<lparr>ep_req := mb\<rparr>))"
  by (simp_all add: endpoint_bus_def)

section \<open>A turn is an iteration of the receive loop\<close>

text \<open>The fuel of the wait inside a turn covers what the mailbox holds, so a turn is the iteration of
  \<open>recv_loop\<close> that starts in the same state.\<close>

lemma chunk_wait_more_fuel:
  "chunk_wait_loop k ops R b src tid = Some v \<Longrightarrow> k \<le> n \<Longrightarrow> chunk_wait_loop n ops R b src tid = Some v"
proof (induction k arbitrary: b n)
  case (Suc k)
  then obtain m where "n = Suc m" "k \<le> m" by (cases n) auto
  then show ?case using Suc.prems(1) Suc.IH by (auto split: prod.splits recv_event.splits result.splits if_splits)
qed simp

lemma fifo_pop_length: "fifo_pop src p st xs = (ys, Some b, st') \<Longrightarrow> length xs = Suc (length ys)"
  by (induction src p st xs arbitrary: ys b st' rule: fifo_pop.induct) (auto split: if_splits prod.splits bool.splits)

lemma chunk_wait_enough:
  "mailbox_wf (lc_depth c) (lc_body c) (ep_chunk ep) \<Longrightarrow> length (mailbox_view (ep_chunk ep)) < k \<Longrightarrow>
   \<exists>v. chunk_wait_loop k (endpoint_bus B c) R ep src tid = Some v"
proof (induction k arbitrary: ep)
  case (Suc k)
  obtain mb r st where q: "type_mailbox_take (lc_body c) (ep_chunk ep) src accept_all () = (mb, r, st)" by (rule prod_cases3)
  note pop = tm.pop_spec [OF Suc.prems(1) q]
  show ?case
  proof (cases r)
    case None
    then show ?thesis using q by (simp add: box_pop_def)
  next
    case (Some body)
    then have "length (mailbox_view mb) < k" using pop Suc.prems(2) fifo_pop_length by fastforce
    then have "\<exists>v. chunk_wait_loop k (endpoint_bus B c) R (ep\<lparr>ep_chunk := mb\<rparr>) src tid = Some v" using pop by (intro Suc.IH) auto
    then show ?thesis using q Some by (cases "chunk_transfer_id R body") (auto simp: box_pop_def)
  qed
qed simp

lemma recv_loop_turn:
  assumes ph: "lk_phase lk = RxRunning q x" and lt: "rx_next_offset x < rr_total_len q"
    and wf: "mailbox_wf (lc_depth c) (lc_body c) (ep_chunk (lk_ep lk))" and ne: "mailbox_view (ep_chunk (lk_ep lk)) \<noteq> []"
    and n: "used (ep_chunk (lk_ep lk)) < n"
  shows "recv_loop (Suc n) (lc_runtime c) (endpoint_bus (np_builder P) c) (np_reader P) (np_store P) (np_hasher P) q (lc_sender c) (lc_timeout c) x
      (lk_ep lk) (lk_store lk) =
    (let lk' = rx_turn P c lk in case lk_phase lk' of
       RxDone r \<Rightarrow> Some (r, lk_ep lk', lk_store lk')
     | RxRunning q' x' \<Rightarrow> recv_loop n (lc_runtime c) (endpoint_bus (np_builder P) c) (np_reader P) (np_store P) (np_hasher P) q' (lc_sender c) (lc_timeout c) x'
        (lk_ep lk') (lk_store lk')
     | RxIdle \<Rightarrow> None)"
proof -
  obtain w ep1 where w: "chunk_wait_loop (Suc (used (ep_chunk (lk_ep lk)))) (endpoint_bus (np_builder P) c) (np_reader P) (lk_ep lk) (lc_sender c) (rr_transfer_id q) =
      Some (w, ep1)"
    using chunk_wait_enough [OF wf, of "Suc (used (ep_chunk (lk_ep lk)))"] mailbox_view_length [OF wf] by fastforce
  have w': "chunk_wait_loop n (endpoint_bus (np_builder P) c) (np_reader P) (lk_ep lk) (lc_sender c) (rr_transfer_id q) = Some (w, ep1)"
    using n by (intro chunk_wait_more_fuel [OF w]) simp
  show ?thesis
    by (simp add: rx_turn_def ph ne lt wait_for_transfer_chunk_def w w' Let_def split: result.splits prod.splits chunk_step.splits del: chunk_wait_loop.simps)
qed

section \<open>The pieces of a file\<close>

definition off :: "nat \<Rightarrow> bytes \<Rightarrow> nat \<Rightarrow> nat" where
  "off cs data i = min (i * cs) (length data)"

definition piece :: "nat \<Rightarrow> bytes \<Rightarrow> nat \<Rightarrow> bytes" where
  "piece cs data i = slice_of (off cs data i) (off cs data (Suc i)) data"

definition pieces_count :: "nat \<Rightarrow> bytes \<Rightarrow> nat" where
  "pieces_count cs data = div_ceil (length data) cs"

lemma off_simps [simp]: "off cs data 0 = 0" "off cs data i \<le> length data"
  by (simp_all add: off_def)

lemma off_not_greater: "\<not> length data < off cs data i"
  by (simp add: not_less)

lemma off_small: "length data < 2 ^ 32 \<Longrightarrow> unat (word_of_nat (off cs data i) :: u32) = off cs data i"
  by (rule unat_of_nat32 [OF le_less_trans [OF off_simps(2)]])

lemma off_mono: "i \<le> j \<Longrightarrow> off cs data i \<le> off cs data j"
  by (auto simp: off_def min_def intro: order_trans [OF mult_le_mono1])

lemma off_less_iff: "0 < cs \<Longrightarrow> off cs data i < length data \<longleftrightarrow> i < pieces_count cs data"
  using div_ceil_le_iff [of cs "length data" i] by (auto simp: off_def pieces_count_def)

lemma off_end: "0 < cs \<Longrightarrow> pieces_count cs data \<le> i \<Longrightarrow> off cs data i = length data"
  using off_less_iff [of cs data i] off_simps(2) [of cs data i] by linarith

lemma off_exact: "0 < cs \<Longrightarrow> i < pieces_count cs data \<Longrightarrow> off cs data i = i * cs"
  using off_less_iff [of cs data i] by (simp add: off_def)

lemma off_Suc: "off cs data (Suc i) = min (off cs data i + cs) (length data)"
  by (auto simp: off_def min_def)

lemma pieces_count_le: "0 < cs \<Longrightarrow> pieces_count cs data \<le> length data"
  using div_ceil_le_iff [of cs "length data" "length data"] by (simp add: pieces_count_def)

lemma length_piece: "length (piece cs data i) = off cs data (Suc i) - off cs data i"
  by (simp add: piece_def slice_simps)

lemma length_piece_le: "length (piece cs data i) \<le> cs"
  by (simp add: length_piece off_Suc)

lemma piece_pos: "0 < cs \<Longrightarrow> i < pieces_count cs data \<Longrightarrow> 0 < length (piece cs data i)"
  using off_less_iff [of cs data i] by (simp add: length_piece off_Suc)

lemma take_off_Suc: "take (off cs data (Suc i)) data = take (off cs data i) data @ piece cs data i"
proof -
  have "off cs data (Suc i) = off cs data i + (off cs data (Suc i) - off cs data i)" using off_mono [of i "Suc i" cs data] by simp
  then show ?thesis by (metis piece_def slice_of_def take_add take_drop add_diff_cancel_left' le_add_diff_inverse)
qed

lemma concat_pieces: "concat (map (piece cs data) [0..<i]) = take (off cs data i) data"
  by (induction i) (simp_all add: take_off_Suc)

lemma inflight_pieces:
  assumes "0 < cs" "a \<le> s" "s < pieces_count cs data"
  shows "div_ceil (off cs data s - off cs data a) cs = s - a"
  using assms off_exact [of cs] by (simp add: div_ceil_def flip: diff_mult_distrib)


section \<open>The messages of a transfer\<close>

definition offer_of :: "(bytes \<Rightarrow> bytes) \<Rightarrow> u32 \<Rightarrow> usize \<Rightarrow> bytes \<Rightarrow> file_offer_value" where
  "offer_of sha256 tid maxc data = file_offer tid (word_of_nat (length data)) (word_of_nat maxc) [] Sha256 (sha256 data)"

definition chunk_of :: "u32 \<Rightarrow> nat \<Rightarrow> bytes \<Rightarrow> nat \<Rightarrow> file_chunk_value" where
  "chunk_of tid cs data i = file_chunk tid (word_of_nat (off cs data i)) (piece cs data i)"

definition ack_of :: "u32 \<Rightarrow> nat \<Rightarrow> bytes \<Rightarrow> nat \<Rightarrow> file_ack_value" where
  "ack_of tid cs data i =
     (if i < pieces_count cs data then file_ack_progress tid (word_of_nat (off cs data i))
      else file_ack_value_new tid Complete (word_of_nat (length data)) 0 NoError)"

definition agreed_size :: "receiver_config \<Rightarrow> usize \<Rightarrow> nat" where
  "agreed_size rc maxc = unat (negotiate_chunk_size (max_chunk_size rc) (word_of_nat maxc))"

definition request_of :: "(bytes \<Rightarrow> bytes) \<Rightarrow> receiver_config \<Rightarrow> u32 \<Rightarrow> usize \<Rightarrow> bytes \<Rightarrow> recv_request" where
  "request_of sha256 rc tid maxc data =
     \<lparr>rr_transfer_id = tid, rr_total_len = word_of_nat (length data), rr_sender_max_chunk_size = word_of_nat maxc,
      rr_negotiated = negotiate_chunk_size (max_chunk_size rc) (word_of_nat maxc), rr_metadata = [],
      rr_file_hash_algo = Sha256, rr_file_hash = sha256 data\<rparr>"

text \<open>What a transfer needs: the libraries keep their laws, the sizes fit their fields and the mailboxes.\<close>

definition transfer_fits ::
    "('s, 'h, 'hs, 'se, 'ce) node_parts \<Rightarrow> link_config \<Rightarrow> (bytes \<Rightarrow> bytes) \<Rightarrow> usize \<Rightarrow> bytes \<Rightarrow> bool" where
  "transfer_fits P c sha256 maxc data \<longleftrightarrow>
     capnp_laws (np_builder P) (np_reader P) \<and> hasher_laws (np_hasher P) sha256 \<and> length (sha256 data) = SHA256_HASH_LEN \<and>
     length data < 2 ^ 32 \<and> 0 < maxc \<and> maxc < 2 ^ 29 \<and>
     file_chunk_max_encoded_len maxc \<le> lc_body c \<and> file_offer_max_encoded_len 0 SHA256_HASH_LEN \<le> lc_body c \<and> 0 < lc_depth c"

lemma agreed_size_bounds:
  assumes "0 < maxc" "maxc < 2 ^ 29"
  shows "0 < agreed_size rc maxc" "agreed_size rc maxc \<le> maxc"
proof -
  have m: "unat (word_of_nat maxc :: u32) = maxc" using assms by (intro unat_of_nat32) simp
  then have "(word_of_nat maxc :: u32) \<noteq> 0" using assms by (metis unat_0 less_not_refl)
  then show "0 < agreed_size rc maxc" "agreed_size rc maxc \<le> maxc"
    using m by (auto simp: agreed_size_def negotiate_chunk_size_def min_def word_le_nat_alt unat_gt_0)
qed

definition rx_at :: "'hs hasher_ops \<Rightarrow> nat \<Rightarrow> bytes \<Rightarrow> nat \<Rightarrow> ('h, 'hs) rx_xfer \<Rightarrow> bool" where
  "rx_at H cs data i x \<longleftrightarrow>
     rx_next_offset x = word_of_nat (off cs data i) \<and> rx_last_progress x = word_of_nat (off cs data i) \<and>
     rx_hasher x = foldl (hs_update H) (hs_new H) (map (piece cs data) [0..<i])"

definition filled :: "nat \<Rightarrow> bytes \<Rightarrow> nat \<Rightarrow> bytes" where
  "filled cs data i = take (off cs data i) data @ replicate (length data - off cs data i) 0"

lemma length_filled [simp]: "length (filled cs data i) = length data"
  by (simp add: filled_def)

lemma filled_Suc: "copy_at (off cs data i) (filled cs data i) (piece cs data i) = filled cs data (Suc i)"
  using off_mono [of i "Suc i" cs data]
  by (simp add: filled_def copy_at_append take_off_Suc length_piece)

lemma filled_end: "0 < cs \<Longrightarrow> pieces_count cs data \<le> i \<Longrightarrow> filled cs data i = data"
  by (simp add: filled_def off_end)

lemma filled_0: "filled cs data 0 = replicate (length data) 0"
  by (simp add: filled_def)

context write_store
begin

lemma store_piece:
  fixes x :: "('h, 'hs) rx_xfer" and R :: "'ce capnp_reader"
  assumes q_def: "q = request_of sha256 rc tid maxc data" and cs_def: "cs = agreed_size rc maxc"
    and H: "hasher_laws H sha256" and len: "length data < 2 ^ 32" and mc: "0 < maxc" "maxc < 2 ^ 29"
    and i: "i < pieces_count cs data" and x: "rx_at H cs data i x" and st: "view st (rx_handle x) = filled cs data i"
    and send: "bus_send ops b src (MAck (ack_of tid cs data (Suc i))) tmo = (Ok (), b1)"
  shows "\<exists>st'. (store_chunk ops S H q src tmo x (piece cs data i) b st :: ('h, 'hs, 'se, 'ce) chunk_step \<times> _) =
        (StepReturn (Ok (recv_result q (rr_total_len q))), b1, st') \<and> Suc i = pieces_count cs data \<and> content st' = data \<or>
      (\<exists>x'. (store_chunk ops S H q src tmo x (piece cs data i) b st :: ('h, 'hs, 'se, 'ce) chunk_step \<times> _) = (StepContinue x', b1, st') \<and>
        Suc i < pieces_count cs data \<and> rx_at H cs data (Suc i) x' \<and> view st' (rx_handle x') = filled cs data (Suc i))"
proof -
  have cs: "0 < cs" using agreed_size_bounds [OF mc] by (simp add: cs_def)
  have small: "off cs data j < 2 ^ 32" for j using len by (rule le_less_trans [OF off_simps(2)])
  then have o: "unat (word_of_nat (off cs data j) :: u32) = off cs data j" for j by (rule unat_of_nat32)
  have le: "off cs data i \<le> off cs data (Suc i)" by (rule off_mono) simp
  have pl: "unat (word_of_nat (length (piece cs data i)) :: u32) = length (piece cs data i)"
    unfolding length_piece using small [of "Suc i"] by (intro unat_of_nat32) linarith
  have nx: "rx_next_offset x = word_of_nat (off cs data i)" using x by (simp add: rx_at_def)
  obtain h1 st1 where wr: "st_write_at S st (rx_handle x) (rx_next_offset x) (piece cs data i) = (Ok (), h1, st1)"
    and v1: "view st1 h1 = filled cs data (Suc i)"
    using write_ok [of "rx_next_offset x" "piece cs data i" st "rx_handle x"] st le o [of i]
    by (auto simp: nx length_piece filled_Suc)
  have n: "saturating_add (rx_next_offset x) (word_of_nat (length (piece cs data i))) = word_of_nat (off cs data (Suc i))"
    using le small [of "Suc i"] o [of i] pl by (simp add: nx saturating_add_def length_piece flip: of_nat_add)
  let ?x1 = "x\<lparr>rx_handle := h1, rx_hasher := hs_update H (rx_hasher x) (piece cs data i), rx_next_offset := word_of_nat (off cs data (Suc i))\<rparr>"
  have hs: "rx_hasher ?x1 = foldl (hs_update H) (hs_new H) (map (piece cs data) [0..<Suc i])" using x by (simp add: rx_at_def)
  have total: "unat (rr_total_len q) = length data" using len by (simp add: q_def request_of_def unat_of_nat32)
  show ?thesis
  proof (cases "Suc i < pieces_count cs data")
    case False
    then have last: "Suc i = pieces_count cs data" using i by simp
    then have oe: "off cs data (Suc i) = length data" by (simp add: off_end cs)
    have dig: "hs_finalize H (rx_hasher ?x1) = sha256 data"
      using H [unfolded hasher_laws_def, rule_format, of "map (piece cs data) [0..<Suc i]"] hs concat_pieces [of cs data "Suc i"] oe
      by (simp del: upt_Suc)
    obtain st2 where "st_commit S st1 h1 = (Ok (), st2)" "content st2 = data"
      using commit_ok [of st1 h1] v1 filled_end [OF cs, of data "Suc i"] last by auto
    moreover have "ack_of tid cs data (Suc i) = file_ack_value_new (rr_transfer_id q) Complete (rr_total_len q) 0 NoError"
      using False by (simp add: ack_of_def q_def request_of_def)
    ultimately show ?thesis using wr n dig send last oe
      by (auto simp: store_chunk_def finish_file_def send_to_with_timeout_def q_def request_of_def Let_def)
  next
    case True
    then have lt: "off cs data (Suc i) < length data" by (simp add: off_less_iff cs)
    have "\<not> rr_total_len q \<le> word_of_nat (off cs data (Suc i))" using lt total o [of "Suc i"] by (simp add: word_le_nat_alt)
    moreover have "saturating_mul (rr_negotiated q) PROGRESS_ACK_EVERY_CHUNKS
        \<le> saturating_sub (word_of_nat (off cs data (Suc i))) (rx_last_progress x)"
    proof -
      have "off cs data (Suc i) - off cs data i = cs" using lt by (simp add: off_Suc)
      then have "unat (saturating_sub (word_of_nat (off cs data (Suc i))) (rx_last_progress x) :: u32) = cs"
        using x o by (simp add: unat_saturating_sub rx_at_def)
      moreover have "unat (rr_negotiated q) < 2 ^ LENGTH(32)" by (rule unsigned_less)
      then have "saturating_mul (rr_negotiated q) PROGRESS_ACK_EVERY_CHUNKS = rr_negotiated q"
        by (simp add: saturating_mul_def PROGRESS_ACK_EVERY_CHUNKS_def)
      ultimately show ?thesis by (simp add: word_le_nat_alt q_def request_of_def cs_def agreed_size_def)
    qed
    moreover have "file_ack_progress (rr_transfer_id q) (word_of_nat (off cs data (Suc i))) = ack_of tid cs data (Suc i)"
      using True by (simp add: ack_of_def q_def request_of_def)
    moreover have "rx_at H cs data (Suc i) (?x1\<lparr>rx_last_progress := word_of_nat (off cs data (Suc i))\<rparr>)" using hs by (simp add: rx_at_def)
    ultimately show ?thesis using wr n send True v1
      by (auto simp: store_chunk_def send_to_with_timeout_def Let_def)
  qed
qed

lemma recv_piece:
  fixes x :: "('h, 'hs) rx_xfer" and R :: "'ce capnp_reader"
  assumes q_def: "q = request_of sha256 rc tid maxc data" and cs_def: "cs = agreed_size rc maxc"
    and laws: "capnp_laws B R" and H: "hasher_laws H sha256" and len: "length data < 2 ^ 32" and mc: "0 < maxc" "maxc < 2 ^ 29"
    and i: "i < pieces_count cs data" and x: "rx_at H cs data i x" and st: "view st (rx_handle x) = filled cs data i"
    and send: "bus_send ops b src (MAck (ack_of tid cs data (Suc i))) tmo = (Ok (), b1)"
  shows "\<exists>st'. recv_chunk ops R S H q src tmo x (msg_body B (MChunk (chunk_of tid cs data i))) b st =
        (StepReturn (Ok (recv_result q (rr_total_len q))), b1, st') \<and> Suc i = pieces_count cs data \<and> content st' = data \<or>
      (\<exists>x'. recv_chunk ops R S H q src tmo x (msg_body B (MChunk (chunk_of tid cs data i))) b st = (StepContinue x', b1, st') \<and>
        Suc i < pieces_count cs data \<and> rx_at H cs data (Suc i) x' \<and> view st' (rx_handle x') = filled cs data (Suc i))"
proof -
  have cs: "0 < cs" "cs \<le> maxc" using agreed_size_bounds [OF mc] by (simp_all add: cs_def)
  let ?d = "piece cs data i"
  have d: "length ?d < 2 ^ 29" "0 < length ?d" "length ?d \<le> cs"
    using length_piece_le [of cs data i] cs mc piece_pos [OF cs(1) i] by simp_all
  have off: "off cs data i < 2 ^ 32" using len by (rule le_less_trans [OF off_simps(2)])
  have rd: "rd_chunk R (msg_body B (MChunk (chunk_of tid cs data i))) = Ok (chunk_fields (chunk_of tid cs data i))"
    using d(1) by (intro chunk_body_ok [OF laws]) (simp add: chunk_of_def file_chunk_def)
  have ud: "unat (word_of_nat (length ?d) :: u32) = length ?d" using d(1) by (intro unat_of_nat32) simp
  have small: "\<not> word_of_nat (length ?d) > rr_negotiated q"
    using d(3) ud by (simp add: q_def request_of_def word_less_nat_alt cs_def agreed_size_def)
  have fits: "off cs data i + length ?d \<le> length data"
    using off_simps(2) [of cs data "Suc i"] off_mono [of i "Suc i" cs data] by (simp add: length_piece del: off_simps)
  have rem: "unat (saturating_sub (rr_total_len q) (rx_next_offset x)) = length data - off cs data i"
    using x unat_of_nat32 [OF off] unat_of_nat32 [OF len] by (simp add: unat_saturating_sub rx_at_def q_def request_of_def)
  have "unat (min (word_of_nat (length ?d)) (saturating_sub (rr_total_len q) (rx_next_offset x))) = length ?d"
    using fits rem ud by (auto simp: min_def word_le_nat_alt)
  then have eq: "recv_chunk ops R S H q src tmo x (msg_body B (MChunk (chunk_of tid cs data i))) b st =
      store_chunk ops S H q src tmo x ?d b st"
    using rd small d(2) x by (simp add: recv_chunk_def chunk_fields_def chunk_of_def file_chunk_def unwrap_bytes_def rx_at_def
        q_def request_of_def Let_def)
  show ?thesis unfolding eq by (rule store_piece [OF q_def cs_def H len mc i x st send])
qed

end

section \<open>The state of a transfer\<close>

text \<open>\<open>a\<close> acknowledgements have reached the sender, \<open>r\<close> chunks are stored, \<open>s\<close> are sent: the chunks and the
  acknowledgements in between are in the mailboxes.\<close>

definition setting ::
    "('s, 'h, 'se) store_ops \<Rightarrow> ('s, 'h, 'hs, 'se, 'ce) node_parts \<Rightarrow> link_config \<Rightarrow> (bytes \<Rightarrow> bytes) \<Rightarrow> u32 \<Rightarrow> usize \<Rightarrow> bytes \<Rightarrow>
     recv_request \<Rightarrow> nat \<Rightarrow> bool" where
  "setting S P c sha256 tid maxc data q cs \<longleftrightarrow>
     np_store P = S \<and> transfer_fits P c sha256 maxc data \<and> q = request_of sha256 (lc_config c) tid maxc data \<and>
     cs = agreed_size (lc_config c) maxc"

definition stored_at ::
    "('s \<Rightarrow> 'h \<Rightarrow> bytes) \<Rightarrow> ('s \<Rightarrow> bytes) \<Rightarrow> 'hs hasher_ops \<Rightarrow> recv_request \<Rightarrow> nat \<Rightarrow> bytes \<Rightarrow> nat \<Rightarrow> ('s, 'h, 'hs, 'se, 'ce) link \<Rightarrow> bool" where
  "stored_at view content H q cs data r lk \<longleftrightarrow>
     (if r < pieces_count cs data then
        \<exists>x. lk_phase lk = RxRunning q x \<and> rx_at H cs data r x \<and> view (lk_store lk) (rx_handle x) = filled cs data r
      else lk_phase lk = RxDone (Ok (recv_result q (rr_total_len q))) \<and> content (lk_store lk) = data)"

definition chunk_bodies :: "capnp_builder \<Rightarrow> u32 \<Rightarrow> nat \<Rightarrow> bytes \<Rightarrow> nat \<Rightarrow> nat \<Rightarrow> bytes list" where
  "chunk_bodies B tid cs data i j = map (\<lambda>k. msg_body B (MChunk (chunk_of tid cs data k))) [i..<j]"

definition ack_bodies :: "capnp_builder \<Rightarrow> u32 \<Rightarrow> nat \<Rightarrow> bytes \<Rightarrow> nat \<Rightarrow> nat \<Rightarrow> bytes list" where
  "ack_bodies B tid cs data i j = map (\<lambda>k. msg_body B (MAck (ack_of tid cs data k))) [Suc i..<Suc j]"

definition boxes_at :: "capnp_builder \<Rightarrow> link_config \<Rightarrow> u32 \<Rightarrow> nat \<Rightarrow> bytes \<Rightarrow> nat \<Rightarrow> nat \<Rightarrow> nat \<Rightarrow> endpoint \<Rightarrow> bool" where
  "boxes_at B c tid cs data a r s ep \<longleftrightarrow>
     box_holds c (lc_sender c) (ep_req ep) [] \<and>
     box_holds c (lc_sender c) (ep_chunk ep) (chunk_bodies B tid cs data r s) \<and>
     box_holds c (lc_receiver c) (ep_ack ep) (ack_bodies B tid cs data a r)"

definition xfer_at ::
    "('s \<Rightarrow> 'h \<Rightarrow> bytes) \<Rightarrow> ('s \<Rightarrow> bytes) \<Rightarrow> ('s, 'h, 'hs, 'se, 'ce) node_parts \<Rightarrow> link_config \<Rightarrow> recv_request \<Rightarrow> nat \<Rightarrow> bytes \<Rightarrow>
     nat \<Rightarrow> nat \<Rightarrow> nat \<Rightarrow> ('s, 'h, 'hs, 'se, 'ce) link \<Rightarrow> bool" where
  "xfer_at view content P c q cs data a r s lk \<longleftrightarrow>
     a \<le> r \<and> r \<le> s \<and> s \<le> pieces_count cs data \<and> s \<le> a + lc_depth c \<and>
     boxes_at (np_builder P) c (rr_transfer_id q) cs data a r s (lk_ep lk) \<and> stored_at view content (np_hasher P) q cs data r lk"

definition offered_at ::
    "('s, 'h, 'hs, 'se, 'ce) node_parts \<Rightarrow> link_config \<Rightarrow> file_offer_value \<Rightarrow> ('s, 'h, 'hs, 'se, 'ce) link \<Rightarrow> bool" where
  "offered_at P c v lk \<longleftrightarrow>
     lk_phase lk = RxIdle \<and> box_holds c (lc_sender c) (ep_req (lk_ep lk)) [msg_body (np_builder P) (MReq v)] \<and>
     box_holds c (lc_sender c) (ep_chunk (lk_ep lk)) [] \<and> box_holds c (lc_receiver c) (ep_ack (lk_ep lk)) []"

definition accepted_at ::
    "('s \<Rightarrow> 'h \<Rightarrow> bytes) \<Rightarrow> ('s \<Rightarrow> bytes) \<Rightarrow> ('s, 'h, 'hs, 'se, 'ce) node_parts \<Rightarrow> link_config \<Rightarrow> recv_request \<Rightarrow> nat \<Rightarrow> bytes \<Rightarrow>
     ('s, 'h, 'hs, 'se, 'ce) link \<Rightarrow> bool" where
  "accepted_at view content P c q cs data lk \<longleftrightarrow>
     box_holds c (lc_sender c) (ep_req (lk_ep lk)) [] \<and> box_holds c (lc_sender c) (ep_chunk (lk_ep lk)) [] \<and>
     box_holds c (lc_receiver c) (ep_ack (lk_ep lk))
       [msg_body (np_builder P) (MAck (file_ack_accept (rr_transfer_id q) (rr_negotiated q)))] \<and>
     stored_at view content (np_hasher P) q cs data 0 lk"

lemma chunk_bodies_simps [simp]:
  "length (chunk_bodies B tid cs data i j) = j - i" "chunk_bodies B tid cs data i i = []" "chunk_bodies B tid cs data i j = [] \<longleftrightarrow> j \<le> i"
  "i \<le> j \<Longrightarrow> chunk_bodies B tid cs data i (Suc j) = chunk_bodies B tid cs data i j @ [msg_body B (MChunk (chunk_of tid cs data j))]"
  by (auto simp: chunk_bodies_def)

lemma chunk_bodies_Cons:
  "i < j \<Longrightarrow> chunk_bodies B tid cs data i j = msg_body B (MChunk (chunk_of tid cs data i)) # chunk_bodies B tid cs data (Suc i) j"
  by (simp add: chunk_bodies_def upt_conv_Cons)

lemma ack_bodies_simps [simp]:
  "length (ack_bodies B tid cs data i j) = j - i" "ack_bodies B tid cs data i i = []" "ack_bodies B tid cs data i j = [] \<longleftrightarrow> j \<le> i"
  "i \<le> j \<Longrightarrow> ack_bodies B tid cs data i (Suc j) = ack_bodies B tid cs data i j @ [msg_body B (MAck (ack_of tid cs data (Suc j)))]"
  by (auto simp: ack_bodies_def)

lemma ack_bodies_Cons:
  "i < j \<Longrightarrow> ack_bodies B tid cs data i j = msg_body B (MAck (ack_of tid cs data (Suc i))) # ack_bodies B tid cs data (Suc i) j"
  by (simp add: ack_bodies_def upt_conv_Cons del: upt_Suc)

lemma stored_at_sched [simp]:
  "stored_at view content H q cs data r (lk\<lparr>lk_sched := ks\<rparr>) \<longleftrightarrow> stored_at view content H q cs data r lk"
  "stored_at view content H q cs data r (lk\<lparr>lk_ep := ep\<rparr>) \<longleftrightarrow> stored_at view content H q cs data r lk"
  by (simp_all add: stored_at_def)

lemma ack_size: "transfer_fits P c sha256 maxc data \<Longrightarrow> length (msg_body (np_builder P) (MAck v)) \<le> lc_body c"
  using ack_body_ok(2) [of "np_builder P" "np_reader P" v]
  by (simp add: transfer_fits_def file_ack_max_encoded_len_def file_offer_max_encoded_len_def)

lemma settingD:
  assumes "setting S P c sha256 tid maxc data q cs"
  shows "np_store P = S" "capnp_laws (np_builder P) (np_reader P)" "hasher_laws (np_hasher P) sha256"
    "length (sha256 data) = SHA256_HASH_LEN" "length data < 2 ^ 32" "0 < maxc" "maxc < 2 ^ 29" "0 < lc_depth c"
    "q = request_of sha256 (lc_config c) tid maxc data" "cs = agreed_size (lc_config c) maxc" "0 < cs" "cs \<le> maxc"
    "rr_transfer_id q = tid" "transfer_fits P c sha256 maxc data"
  using assms agreed_size_bounds [of maxc "lc_config c"] by (auto simp: setting_def transfer_fits_def request_of_def)

lemma chunk_size:
  assumes "setting S P c sha256 tid maxc data q cs"
  shows "length (msg_body (np_builder P) (MChunk (chunk_of tid cs data i))) \<le> lc_body c"
proof -
  note s = settingD [OF assms]
  have l: "length (piece cs data i) \<le> maxc" using length_piece_le [of cs data i] s(12) by simp
  then have "length (msg_body (np_builder P) (MChunk (chunk_of tid cs data i))) \<le> file_chunk_max_encoded_len (length (piece cs data i))"
    using chunk_body_ok(2) [OF s(2), of "chunk_of tid cs data i"] s(7) by (simp add: chunk_of_def file_chunk_def)
  also have "\<dots> \<le> file_chunk_max_encoded_len maxc"
    using div_ceil_mono [OF _ l, of 8] by (simp add: file_chunk_max_encoded_len_def capnp_padded_len_words capnp_scratch_words_for_bytes_def)
  also have "\<dots> \<le> lc_body c" using s(14) by (simp add: transfer_fits_def)
  finally show ?thesis .
qed

lemma endpoint_wait_chunk:
  assumes "box_holds c (lc_sender c) (ep_chunk ep) (body # rest)" "chunk_transfer_id R body = Ok tid"
  obtains mb where "\<forall>n. wait_for_transfer_chunk (Suc n) rt (endpoint_bus B c) R ep (lc_sender c) tid tmo = Some (Ok body, ep\<lparr>ep_chunk := mb\<rparr>)"
    "box_holds c (lc_sender c) mb rest"
proof -
  obtain mb where "box_pop c (ep_chunk ep) (lc_sender c) = (mb, Some body)" "box_holds c (lc_sender c) mb rest"
    by (rule box_pop_spec [OF assms(1)]) simp
  then show ?thesis using assms(2) that [of mb] by (simp add: wait_for_transfer_chunk_def)
qed

context write_store
begin

lemma turn_receives:
  assumes set: "setting S P c sha256 tid maxc data q cs"
    and inv: "xfer_at view content P c q cs data a r s lk" and rs: "r < s"
  shows "xfer_at view content P c q cs data a (Suc r) s (rx_turn P c lk)"
proof -
  note f = settingD [OF set]
  let ?B = "np_builder P" and ?R = "np_reader P" and ?H = "np_hasher P" and ?ep = "lk_ep lk"
  let ?body = "msg_body ?B (MChunk (chunk_of tid cs data r))"
  have ord: "a \<le> r" "s \<le> pieces_count cs data" "s \<le> a + lc_depth c" and box: "boxes_at ?B c tid cs data a r s ?ep"
    and sto: "stored_at view content ?H q cs data r lk"
    using inv by (simp_all add: xfer_at_def f(13))
  obtain x where ph: "lk_phase lk = RxRunning q x" and x: "rx_at ?H cs data r x"
    and st: "view (lk_store lk) (rx_handle x) = filled cs data r"
    using sto ord rs by (auto simp: stored_at_def)
  have id: "chunk_transfer_id ?R ?body = Ok tid"
    using chunk_body_ok(1) [OF f(2), of "chunk_of tid cs data r"] length_piece_le [of cs data r] f(7,12)
    by (simp add: chunk_transfer_id_def chunk_of_def file_chunk_def chunk_fields_def)
  obtain mb where wait: "\<forall>n. wait_for_transfer_chunk (Suc n) (lc_runtime c) (endpoint_bus ?B c) ?R ?ep (lc_sender c) tid (lc_timeout c)
      = Some (Ok ?body, ?ep\<lparr>ep_chunk := mb\<rparr>)" and mb: "box_holds c (lc_sender c) mb (chunk_bodies ?B tid cs data (Suc r) s)"
    using endpoint_wait_chunk [OF _ id] box rs unfolding boxes_at_def chunk_bodies_Cons [OF rs] by blast
  let ?b1 = "?ep\<lparr>ep_chunk := mb, ep_ack := box_push c (ep_ack ?ep) (lc_receiver c) (msg_body ?B (MAck (ack_of tid cs data (Suc r))))\<rparr>"
  have out: "boxes_at ?B c tid cs data a (Suc r) s ?b1"
    using box mb ord rs box_holds_push [OF _ _ ack_size [OF f(14)], of "lc_receiver c" "ep_ack ?ep" "ack_bodies ?B tid cs data a r"]
    by (simp add: boxes_at_def)
  have ne: "mailbox_view (ep_chunk ?ep) \<noteq> []" using box rs by (auto simp: boxes_at_def dest: box_holds_view)
  obtain st' where step: "recv_chunk (endpoint_bus ?B c) ?R S ?H q (lc_sender c) (lc_timeout c) x ?body (?ep\<lparr>ep_chunk := mb\<rparr>) (lk_store lk) =
        (StepReturn (Ok (recv_result q (rr_total_len q))), ?b1, st') \<and> Suc r = pieces_count cs data \<and> content st' = data \<or>
      (\<exists>x'. recv_chunk (endpoint_bus ?B c) ?R S ?H q (lc_sender c) (lc_timeout c) x ?body (?ep\<lparr>ep_chunk := mb\<rparr>) (lk_store lk) = (StepContinue x', ?b1, st') \<and>
        Suc r < pieces_count cs data \<and> rx_at ?H cs data (Suc r) x' \<and> view st' (rx_handle x') = filled cs data (Suc r))"
    using recv_piece [OF f(9,10,2,3,5-7) _ x st, of "endpoint_bus ?B c" "?ep\<lparr>ep_chunk := mb\<rparr>" "lc_sender c" "lc_timeout c" ?b1] ord rs by auto
  have turn: "rx_turn P c lk =
      (case recv_chunk (endpoint_bus ?B c) ?R S ?H q (lc_sender c) (lc_timeout c) x ?body (?ep\<lparr>ep_chunk := mb\<rparr>) (lk_store lk) of
         (StepReturn r, ep2, st2) \<Rightarrow> lk\<lparr>lk_phase := RxDone r, lk_ep := ep2, lk_store := st2\<rparr>
       | (StepContinue x1, ep2, st2) \<Rightarrow> lk\<lparr>lk_phase := RxRunning q x1, lk_ep := ep2, lk_store := st2\<rparr>)"
    using ph ne wait by (simp add: rx_turn_def Let_def f(1,13))
  from step show ?thesis
  proof
    assume "recv_chunk (endpoint_bus ?B c) ?R S ?H q (lc_sender c) (lc_timeout c) x ?body (?ep\<lparr>ep_chunk := mb\<rparr>) (lk_store lk) =
        (StepReturn (Ok (recv_result q (rr_total_len q))), ?b1, st') \<and> Suc r = pieces_count cs data \<and> content st' = data"
    then show ?thesis using turn out ord rs by (simp add: xfer_at_def f(13) stored_at_def)
  qed (use turn out ord rs in \<open>auto simp: xfer_at_def f(13) stored_at_def\<close>)
qed

lemma turn_waits:
  assumes "stored_at view content (np_hasher P) q cs data r lk" "box_holds c (lc_sender c) (ep_chunk (lk_ep lk)) []"
  shows "rx_turn P c lk = lk"
  using assms box_holds_view [OF assms(2)] by (auto simp: stored_at_def rx_turn_def Let_def split: if_splits)

lemma turn_inv:
  assumes set: "setting S P c sha256 tid maxc data q cs" and inv: "xfer_at view content P c q cs data a r s lk"
  shows "\<exists>r' \<ge> r. xfer_at view content P c q cs data a r' s (rx_turn P c lk)"
proof (cases "r < s")
  case True
  then show ?thesis using turn_receives [OF assms] by (meson le_SucI order_refl)
next
  case False
  then have rs: "r = s" using inv by (simp add: xfer_at_def)
  have "stored_at view content (np_hasher P) q cs data s lk" "box_holds c (lc_sender c) (ep_chunk (lk_ep lk)) []"
    using inv unfolding rs by (simp_all add: xfer_at_def boxes_at_def)
  then have "rx_turn P c lk = lk" by (rule turn_waits)
  then show ?thesis using inv by auto
qed

lemma slot_inv:
  assumes set: "setting S P c sha256 tid maxc data q cs" and inv: "xfer_at view content P c q cs data a r s lk"
  shows "\<exists>r' \<ge> r. xfer_at view content P c q cs data a r' s (run_slot P c lk)"
proof -
  have turns: "\<exists>r' \<ge> r. xfer_at view content P c q cs data a r' s ((rx_turn P c ^^ k) l)"
    if "xfer_at view content P c q cs data a r s l" for k l
    using that by (induction k) (auto dest: turn_inv [OF set] intro: order_trans)
  have "xfer_at view content P c q cs data a r s (lk\<lparr>lk_sched := ks\<rparr>)" for ks
    using inv by (simp add: xfer_at_def)
  then show ?thesis using turns inv by (cases "lk_sched lk") (auto simp: run_slot_def)
qed

section \<open>The sender over the link\<close>

lemma send_next:
  assumes set: "setting S P c sha256 tid maxc data q cs" and inv: "xfer_at view content P c q cs data a r s lk"
    and s: "s < pieces_count cs data" "s < a + lc_depth c"
  obtains r' lk' where "r \<le> r'" "xfer_at view content P c q cs data a r' (Suc s) lk'"
    "bus_send (link_bus P c) lk dst (MChunk (chunk_of tid cs data s)) tmo = (Ok (), lk')"
proof -
  note f = settingD [OF set]
  let ?lk = "lk\<lparr>lk_ep := link_deliver (np_builder P) c (MChunk (chunk_of tid cs data s)) (lk_ep lk)\<rparr>"
  have "a \<le> r" "r \<le> s" using inv by (simp_all add: xfer_at_def)
  then have "s - r < lc_depth c" using s by linarith
  then have "xfer_at view content P c q cs data a r (Suc s) ?lk"
    using inv s box_holds_push [OF _ _ chunk_size [OF set], of "lc_sender c" _ "chunk_bodies (np_builder P) tid cs data r s" s]
    by (auto simp: xfer_at_def boxes_at_def link_deliver_def stored_at_def f(13))
  from slot_inv [OF set this] obtain r' where "r \<le> r'" "xfer_at view content P c q cs data a r' (Suc s) (run_slot P c ?lk)" by blast
  then show ?thesis by (intro that) (auto simp: link_bus_def)
qed

lemma recv_next:
  assumes set: "setting S P c sha256 tid maxc data q cs" and inv: "xfer_at view content P c q cs data a r s lk" and s: "a < s"
  obtains r' lk' where "xfer_at view content P c q cs data (Suc a) r' s lk'"
    "bus_recv (link_bus P c) lk KAck (lc_receiver c) = (Arrived (msg_body (np_builder P) (MAck (ack_of tid cs data (Suc a)))), lk')"
proof -
  note f = settingD [OF set]
  let ?lk1 = "run_slot P c lk"
  let ?lk2 = "if mailbox_view (ep_ack (lk_ep ?lk1)) = [] then rx_turn P c ?lk1 else ?lk1"
  obtain r1 where r1: "xfer_at view content P c q cs data a r1 s ?lk1" using slot_inv [OF set inv] by blast
  then have empty: "mailbox_view (ep_ack (lk_ep ?lk1)) = [] \<longleftrightarrow> r1 \<le> a" by (auto simp: xfer_at_def boxes_at_def dest!: box_holds_view)
  have "\<exists>r2. xfer_at view content P c q cs data a r2 s ?lk2 \<and> a < r2"
  proof (cases "r1 \<le> a")
    case True
    then have "r1 < s" "a = r1" using s r1 by (simp_all add: xfer_at_def)
    then show ?thesis using turn_receives [OF set r1] empty by auto
  qed (use r1 empty in auto)
  then obtain r2 where r2: "xfer_at view content P c q cs data a r2 s ?lk2" "a < r2" by blast
  let ?ep = "lk_ep ?lk2"
  have "box_holds c (lc_receiver c) (ep_ack ?ep) (ack_bodies (np_builder P) tid cs data a r2)"
    using r2(1) by (simp add: xfer_at_def boxes_at_def f(13))
  then obtain mb where mb: "box_pop c (ep_ack ?ep) (lc_receiver c) = (mb, Some (msg_body (np_builder P) (MAck (ack_of tid cs data (Suc a)))))"
    "box_holds c (lc_receiver c) mb (ack_bodies (np_builder P) tid cs data (Suc a) r2)"
    unfolding ack_bodies_Cons [OF r2(2)] by (rule box_pop_spec) simp
  have "xfer_at view content P c q cs data (Suc a) r2 s (?lk2\<lparr>lk_ep := ?ep\<lparr>ep_ack := mb\<rparr>\<rparr>)"
    using r2 mb(2) by (simp add: xfer_at_def boxes_at_def stored_at_def f(13))
  then show ?thesis using mb(1) that by (simp add: link_bus_def link_recv_def Let_def)
qed

lemma fill_reaches:
  assumes set: "setting S P c sha256 tid maxc data q cs" and w: "0 < w" "w \<le> lc_depth c"
  shows "xfer_at view content P c q cs data a r s lk \<Longrightarrow> s \<le> a + w \<Longrightarrow> pieces_count cs data - s < n \<Longrightarrow>
    \<exists>r' lk'. fill_window n (link_bus P c) lk dst tid data cs w tmo (word_of_nat (off cs data a)) (word_of_nat (off cs data s)) k =
        Some (Ok (word_of_nat (off cs data (min (pieces_count cs data) (a + w))), k + (min (pieces_count cs data) (a + w) - s)), lk') \<and>
      xfer_at view content P c q cs data a r' (min (pieces_count cs data) (a + w)) lk'"
proof (induction n arbitrary: r s lk k)
  case (Suc n)
  note f = settingD [OF set]
  let ?N = "pieces_count cs data"
  have small: "off cs data i < 2 ^ 32" for i using f(5) by (rule le_less_trans [OF off_simps(2)])
  note u = unat_of_nat32 [OF small]
  have ord: "a \<le> s" "s \<le> ?N" using Suc.prems(1) by (simp_all add: xfer_at_def)
  have infl: "inflight_chunk_count (word_of_nat (off cs data a)) (word_of_nat (off cs data s)) cs = Ok (div_ceil (off cs data s - off cs data a) cs)"
    using off_mono [OF ord(1), of cs data] by (simp add: inflight_chunk_count_def word_le_nat_alt u unat_sub Let_def)
  have more: "div_ceil (off cs data s - off cs data a) cs < w \<and> off cs data s < length data \<longleftrightarrow> s < ?N \<and> s < a + w"
    using inflight_pieces [OF f(11) ord(1)] off_less_iff [OF f(11)] ord by fastforce
  show ?case
  proof (cases "s < ?N \<and> s < a + w")
    case False
    then have "min ?N (a + w) = s" using ord Suc.prems(2) by linarith
    then show ?thesis using Suc.prems(1) infl False more by (auto simp: u)
  next
    case True
    have "s < ?N" "s < a + lc_depth c" using True w by linarith+
    then obtain r1 lk1 where r1: "xfer_at view content P c q cs data a r1 (Suc s) lk1"
      and send: "bus_send (link_bus P c) lk dst (MChunk (chunk_of tid cs data s)) tmo = (Ok (), lk1)"
      by (rule send_next [OF set Suc.prems(1)])
    have stop: "slice_of (off cs data s) (min (off cs data s + cs) (length data)) data = piece cs data s" by (simp add: piece_def off_Suc)
    have "advance_next (word_of_nat (off cs data s)) (length (piece cs data s)) = Ok (word_of_nat (off cs data (Suc s)))"
    proof -
      have o: "off cs data s + length (piece cs data s) = off cs data (Suc s)" using off_mono [of s "Suc s" cs data] by (simp add: length_piece)
      then have l: "length (piece cs data s) < 2 ^ 32" using small [of "Suc s"] by linarith
      then show ?thesis using o small [of "Suc s"] u by (simp add: advance_next_def checked_add_def u32_try_from_def unat_of_nat32 flip: of_nat_add)
    qed
    moreover have fuel: "?N - Suc s < n" using True Suc.prems(3) by linarith
    obtain r' lk' where "fill_window n (link_bus P c) lk1 dst tid data cs w tmo (word_of_nat (off cs data a)) (word_of_nat (off cs data (Suc s))) (k + 1) =
        Some (Ok (word_of_nat (off cs data (min ?N (a + w))), k + 1 + (min ?N (a + w) - Suc s)), lk')"
      "xfer_at view content P c q cs data a r' (min ?N (a + w)) lk'"
      using Suc.IH [OF r1 Suc_leI fuel, of "k + 1"] True by blast
    moreover have "k + 1 + (min ?N (a + w) - Suc s) = k + (min ?N (a + w) - s)" using True by linarith
    ultimately show ?thesis using infl more True send stop
      by (auto simp: u send_to_with_timeout_def Let_def chunk_of_def [of tid cs data s, symmetric])
  qed
qed simp

lemma ack_arrives:
  assumes set: "setting S P c sha256 tid maxc data q cs" and inv: "xfer_at view content P c q cs data a r s lk" and s: "a < s" and n: "0 < n"
  obtains r' lk' where "xfer_at view content P c q cs data (Suc a) r' s lk'"
    "wait_for_transfer_ack n rt (link_bus P c) (np_reader P) lk (lc_receiver c) tid tmo =
       Some (Ok \<lparr>ack_transfer_id = tid, ack_kind = (if Suc a < pieces_count cs data then Ack else Complete),
                 ack_next_offset = word_of_nat (off cs data (Suc a)), ack_chunk_size = 0, ack_error = NoError\<rparr>, lk')"
proof -
  note f = settingD [OF set]
  obtain r' lk' where x: "xfer_at view content P c q cs data (Suc a) r' s lk'"
    and recv: "bus_recv (link_bus P c) lk KAck (lc_receiver c) = (Arrived (msg_body (np_builder P) (MAck (ack_of tid cs data (Suc a)))), lk')"
    by (rule recv_next [OF set inv s])
  have "Suc a < pieces_count cs data \<or> off cs data (Suc a) = length data" using off_end [OF f(11), of data "Suc a"] by linarith
  then have "decode_file_ack (np_reader P) (msg_body (np_builder P) (MAck (ack_of tid cs data (Suc a)))) =
      Ok \<lparr>ack_transfer_id = tid, ack_kind = (if Suc a < pieces_count cs data then Ack else Complete),
          ack_next_offset = word_of_nat (off cs data (Suc a)), ack_chunk_size = 0, ack_error = NoError\<rparr>"
    using decode_file_ack_fields_eq [OF ack_body_ok(1) [OF f(2)], of "ack_of tid cs data (Suc a)"]
    by (auto simp: ack_of_def file_ack_progress_def file_ack_value_new_def)
  moreover have "bus_deadline (link_bus P c) lk d = lk" for d by (simp add: link_bus_def)
  ultimately show ?thesis using n recv x that by (cases n) (auto simp: wait_for_transfer_ack_def)
qed

lemma transfer_completes:
  assumes set: "setting S P c sha256 tid maxc data q cs" and w: "0 < w" "w \<le> lc_depth c"
  shows "xfer_at view content P c q cs data a r s lk \<Longrightarrow> s \<le> a + w \<Longrightarrow> pieces_count cs data - a < n \<Longrightarrow>
    \<exists>lk'. transfer_loop n rt (link_bus P c) (np_reader P) lk (lc_receiver c) tid data cs w max_r tmo
        \<lparr>xf_chunks_sent = s, xf_retries = 0, last_acked = word_of_nat (off cs data a), next_to_send = word_of_nat (off cs data s)\<rparr> =
      Some (Ok \<lparr>xf_chunks_sent = pieces_count cs data, xf_retries = 0, last_acked = word_of_nat (length data), next_to_send = word_of_nat (length data)\<rparr>, lk') \<and>
      xfer_at view content P c q cs data (pieces_count cs data) (pieces_count cs data) (pieces_count cs data) lk'"
proof (induction n arbitrary: a r s lk)
  case (Suc n)
  note f = settingD [OF set]
  let ?N = "pieces_count cs data" and ?s = "min (pieces_count cs data) (a + w)"
  have small: "off cs data i < 2 ^ 32" for i using f(5) by (rule le_less_trans [OF off_simps(2)])
  note u = unat_of_nat32 [OF small]
  have ord: "a \<le> r" "r \<le> s" "s \<le> ?N" using Suc.prems(1) by (simp_all add: xfer_at_def)
  show ?case
  proof (cases "a < ?N")
    case False
    then have "a = ?N" "s = ?N" "r = ?N" using ord by simp_all
    then show ?thesis using Suc.prems(1) off_end [OF f(11), of data ?N] f(5) by (auto simp: unat_of_nat32)
  next
    case True
    then have more: "unat (word_of_nat (off cs data a) :: u32) < length data" using off_less_iff [OF f(11)] by (simp add: u)
    have fuel: "?N - s < Suc (length data)" using pieces_count_le [OF f(11), of data] by linarith
    obtain r1 lk1 where fill: "fill_window (Suc (length data)) (link_bus P c) lk (lc_receiver c) tid data cs w tmo (word_of_nat (off cs data a))
        (word_of_nat (off cs data s)) s = Some (Ok (word_of_nat (off cs data ?s), s + (?s - s)), lk1)"
      and x1: "xfer_at view content P c q cs data a r1 ?s lk1"
      using fill_reaches [OF set w Suc.prems(1,2) fuel] by blast
    have s: "a < ?s" "s \<le> ?s" using True w Suc.prems(2) ord by auto
    have n: "0 < n" using Suc.prems(3) True by linarith
    obtain r2 lk2 where x2: "xfer_at view content P c q cs data (Suc a) r2 ?s lk2"
      and ack: "wait_for_transfer_ack n rt (link_bus P c) (np_reader P) lk1 (lc_receiver c) tid tmo =
       Some (Ok \<lparr>ack_transfer_id = tid, ack_kind = (if Suc a < ?N then Ack else Complete),
                 ack_next_offset = word_of_nat (off cs data (Suc a)), ack_chunk_size = 0, ack_error = NoError\<rparr>, lk2)"
      by (rule ack_arrives [OF set x1 s(1) n])
    have le: "off cs data a \<le> off cs data (Suc a)" "off cs data (Suc a) \<le> off cs data ?s" using s by (auto intro!: off_mono)
    show ?thesis
    proof (cases "Suc a < ?N")
      case more_acks: True
      have "\<exists>lk'. transfer_loop n rt (link_bus P c) (np_reader P) lk2 (lc_receiver c) tid data cs w max_r tmo
          \<lparr>xf_chunks_sent = ?s, xf_retries = 0, last_acked = word_of_nat (off cs data (Suc a)), next_to_send = word_of_nat (off cs data ?s)\<rparr> =
        Some (Ok \<lparr>xf_chunks_sent = ?N, xf_retries = 0, last_acked = word_of_nat (length data), next_to_send = word_of_nat (length data)\<rparr>, lk') \<and>
        xfer_at view content P c q cs data ?N ?N ?N lk'"
        using Suc.IH [OF x2] Suc.prems(3) True by simp
      then show ?thesis using more fill ack le s more_acks
        by (auto simp: on_ack_def u word_less_nat_alt off_not_greater Let_def simp del: fill_window.simps)
    next
      case False
      then have a: "Suc a = ?N" using True by simp
      then have "?s = ?N" using w by linarith
      moreover have "off cs data ?N = length data" by (simp add: off_end f(11))
      moreover have "r2 = ?N" using x2 a \<open>?s = ?N\<close> by (simp add: xfer_at_def)
      ultimately show ?thesis using more fill ack le s False a x2 ord f(5)
        by (auto simp: on_ack_def u word_less_nat_alt unat_of_nat32 off_not_greater Let_def simp del: fill_window.simps)
    qed
  qed
qed simp

section \<open>The offer over the link\<close>

lemma turn_accepts:
  fixes lk :: "('s, 'h, 'hs, 'se, 'ce) link"
  assumes set: "setting S P c sha256 tid maxc data q cs" and off: "offered_at P c (offer_of sha256 tid maxc data) lk"
  shows "accepted_at view content P c q cs data (rx_turn P c lk)"
proof -
  have ph: "lk_phase lk = RxIdle"
    and box: "box_holds c (lc_sender c) (ep_req (lk_ep lk)) [msg_body (np_builder P) (MReq (offer_of sha256 tid maxc data))]"
      "box_holds c (lc_sender c) (ep_chunk (lk_ep lk)) []" "box_holds c (lc_receiver c) (ep_ack (lk_ep lk)) []"
    using off by (simp_all add: offered_at_def)
  note f = settingD [OF set]
  let ?B = "np_builder P" and ?R = "np_reader P" and ?H = "np_hasher P" and ?ep = "lk_ep lk"
  let ?v = "offer_of sha256 tid maxc data"
  obtain mb where pop: "box_pop c (ep_req ?ep) (lc_sender c) = (mb, Some (msg_body ?B (MReq ?v)))" and mb: "box_holds c (lc_sender c) mb []"
    by (rule box_pop_spec [OF box(1)]) simp
  have rd: "rd_req ?R (msg_body ?B (MReq ?v)) = Ok (req_fields ?v)"
    using f(4) by (intro req_body_ok [OF f(2)]) (simp_all add: offer_of_def file_offer_def SHA256_HASH_LEN_def)
  have hash: "validate_sha256_file_hash (sha256 data) = Ok (sha256 data)"
    using f(4) by (auto simp: validate_sha256_file_hash_def copy_into_def SHA256_HASH_LEN_def)
  have "negotiate_chunk_size (max_chunk_size (lc_config c)) (word_of_nat maxc) \<noteq> 0"
    using f(10,11) by (auto simp: agreed_size_def)
  then have req: "(recv_request_alloc (endpoint_bus ?B c) ?R ?ep (lc_sender c) (lc_timeout c) (lc_config c) :: ((_, ('se, 'ce) ft_error) result \<times> _) option) =
      Some (Ok q, ?ep\<lparr>ep_req := mb\<rparr>)"
    using pop rd hash by (simp add: recv_request_alloc_def req_fields_def offer_of_def file_offer_def unwrap_bytes_def f(9) request_of_def Let_def)
  obtain h st1 where beg: "st_begin_write S (lk_store lk) (rr_transfer_id q) (rr_total_len q) = (Ok h, st1)"
    and v1: "view st1 h = filled cs data 0"
    using begin_ok [of "lk_store lk" "rr_transfer_id q" "rr_total_len q"] f(5) by (auto simp: f(9) request_of_def unat_of_nat32 filled_0)
  let ?ep1 = "?ep\<lparr>ep_req := mb, ep_ack := box_push c (ep_ack ?ep) (lc_receiver c) (msg_body ?B (MAck (file_ack_accept tid (rr_negotiated q))))\<rparr>"
  have boxes: "box_holds c (lc_receiver c) (ep_ack ?ep1) [msg_body ?B (MAck (file_ack_accept tid (rr_negotiated q)))]"
    using box_holds_push [OF box(3) _ ack_size [OF f(14)]] f(8) by simp
  have dig: "hs_finalize ?H (hs_new ?H) = sha256 []" using f(3) [unfolded hasher_laws_def, rule_format, of "[]"] by simp
  have hash_eq: "rr_file_hash q = sha256 data" by (simp add: f(9) request_of_def)
  have zero: "rr_total_len q = 0 \<longleftrightarrow> data = []"
  proof -
    have "unat (rr_total_len q) = length data" using unat_of_nat32 [OF f(5)] by (simp add: f(9) request_of_def)
    then show ?thesis by (metis length_0_conv unat_0 unat_eq_zero)
  qed
  show ?thesis
  proof (cases "data = []")
    case True
    obtain st2 where "st_commit S st1 h = (Ok (), st2)" "content st2 = data" using commit_ok [of st1 h] v1 True by (auto simp: filled_def)
    then have "open_file (endpoint_bus ?B c) S ?H q (lc_sender c) (lc_timeout c) (?ep\<lparr>ep_req := mb\<rparr>) (lk_store lk) =
        (OpenReturn (Ok (recv_result q (rr_total_len q))) :: ('h, 'hs, 'se, 'ce) open_step, ?ep1, st2)" "content st2 = data"
      using beg dig zero True by (simp_all add: open_file_def send_to_with_timeout_def f(13) hash_eq)
    then show ?thesis using ph req boxes mb box(2) True
      by (simp add: rx_turn_def accepted_at_def stored_at_def pieces_count_def f(1,13))
  next
    case False
    then have "0 < pieces_count cs data" using off_less_iff [OF f(11), of data 0] by simp
    moreover have "open_file (endpoint_bus ?B c) S ?H q (lc_sender c) (lc_timeout c) (?ep\<lparr>ep_req := mb\<rparr>) (lk_store lk) =
        (OpenReady \<lparr>rx_handle = h, rx_hasher = hs_new ?H, rx_next_offset = 0, rx_last_progress = 0\<rparr> :: ('h, 'hs, 'se, 'ce) open_step, ?ep1, st1)"
      using beg zero False by (simp add: open_file_def send_to_with_timeout_def f(13))
    ultimately show ?thesis using ph req boxes mb box(2) v1
      by (simp add: rx_turn_def accepted_at_def stored_at_def rx_at_def f(1,13))
  qed
qed

lemma accepted_turn: "accepted_at view content P c q cs data lk \<Longrightarrow> rx_turn P c lk = lk"
  by (rule turn_waits) (auto simp: accepted_at_def)

lemma offered_turns:
  assumes set: "setting S P c sha256 tid maxc data q cs"
  shows "offered_at P c (offer_of sha256 tid maxc data) lk \<or> accepted_at view content P c q cs data lk \<Longrightarrow>
     offered_at P c (offer_of sha256 tid maxc data) ((rx_turn P c ^^ k) lk) \<or> accepted_at view content P c q cs data ((rx_turn P c ^^ k) lk)"
  using turn_accepts [OF set] by (induction k) (auto simp: accepted_turn)

lemma offered_slot:
  assumes set: "setting S P c sha256 tid maxc data q cs"
    and lk: "offered_at P c (offer_of sha256 tid maxc data) lk \<or> accepted_at view content P c q cs data lk"
  shows "offered_at P c (offer_of sha256 tid maxc data) (run_slot P c lk) \<or> accepted_at view content P c q cs data (run_slot P c lk)"
proof (cases "lk_sched lk")
  case (Cons k ks)
  have "offered_at P c (offer_of sha256 tid maxc data) (lk\<lparr>lk_sched := ks\<rparr>) \<or> accepted_at view content P c q cs data (lk\<lparr>lk_sched := ks\<rparr>)"
    using lk by (simp add: offered_at_def accepted_at_def)
  from offered_turns [OF set this, of k] Cons show ?thesis by (simp add: run_slot_def)
qed (use lk in \<open>simp add: run_slot_def\<close>)

lemma offer_accepted:
  fixes P :: "('s, 'h, 'hs, 'se, 'ce) node_parts"
  assumes set: "setting S P c sha256 tid maxc data q cs" and n: "1 < n"
  obtains lk where "xfer_at view content P c q cs data 0 0 0 lk"
    "offer_loop n rt (link_bus P c) (np_reader P) (link_new c sched st0) (lc_receiver c) (offer_of sha256 tid maxc data) tid tmo max_r 0 =
       Some (Ok \<lparr>ack_transfer_id = tid, ack_kind = Accept, ack_next_offset = 0, ack_chunk_size = rr_negotiated q, ack_error = NoError\<rparr>, lk)"
proof -
  note f = settingD [OF set]
  let ?B = "np_builder P" and ?v = "offer_of sha256 tid maxc data" and ?acc = "file_ack_accept tid (rr_negotiated q)"
  define lk0 where "lk0 = (link_new c sched st0 \<lparr>lk_ep := link_deliver ?B c (MReq ?v) (endpoint_new c)\<rparr> :: ('s, 'h, 'hs, 'se, 'ce) link)"
  have len: "length (msg_body ?B (MReq ?v)) \<le> lc_body c"
    using req_body_ok(2) [OF f(2), of ?v] f(4,14) by (simp add: offer_of_def file_offer_def transfer_fits_def SHA256_HASH_LEN_def)
  have "offered_at P c ?v lk0"
    using box_holds_push [OF box_holds_new _ len] f(8)
    by (simp add: lk0_def offered_at_def link_new_def link_deliver_def endpoint_new_def Let_def box_holds_new)
  then have two: "offered_at P c ?v (run_slot P c (run_slot P c lk0)) \<or> accepted_at view content P c q cs data (run_slot P c (run_slot P c lk0))"
    by (intro offered_slot [OF set]) simp
  define lk2 where "lk2 = run_slot P c (run_slot P c lk0)"
  define lk3 where "lk3 = (if mailbox_view (ep_ack (lk_ep lk2)) = [] then rx_turn P c lk2 else lk2)"
  have acc: "accepted_at view content P c q cs data lk3"
    using two turn_accepts [OF set] accepted_turn unfolding lk3_def lk2_def [symmetric]
    by (auto simp: offered_at_def accepted_at_def dest: box_holds_view)
  then have "box_holds c (lc_receiver c) (ep_ack (lk_ep lk3)) [msg_body ?B (MAck ?acc)]" by (simp add: accepted_at_def f(13))
  then obtain mb where pop: "box_pop c (ep_ack (lk_ep lk3)) (lc_receiver c) = (mb, Some (msg_body ?B (MAck ?acc)))"
    and mb: "box_holds c (lc_receiver c) mb []"
    by (rule box_pop_spec) simp
  define lk4 where "lk4 = lk3\<lparr>lk_ep := (lk_ep lk3)\<lparr>ep_ack := mb\<rparr>\<rparr>"
  have x: "xfer_at view content P c q cs data 0 0 0 lk4"
    using acc mb by (simp add: lk4_def xfer_at_def accepted_at_def boxes_at_def stored_at_def f(13))
  have recv: "bus_recv (link_bus P c) (run_slot P c lk0) KAck (lc_receiver c) = (Arrived (msg_body ?B (MAck ?acc)), lk4)"
    unfolding link_bus_def bus_ops.select_convs link_recv_def Let_def lk2_def [symmetric] lk3_def [symmetric] using pop by (simp add: lk4_def)
  have send: "bus_send (link_bus P c) (link_new c sched st0) (lc_receiver c) (MReq ?v) tmo = (Ok (), run_slot P c lk0)"
    by (simp add: link_bus_def lk0_def link_new_def)
  have dec: "decode_file_ack (np_reader P) (msg_body ?B (MAck ?acc)) =
      Ok \<lparr>ack_transfer_id = tid, ack_kind = Accept, ack_next_offset = 0, ack_chunk_size = rr_negotiated q, ack_error = NoError\<rparr>"
    using decode_file_ack_fields_eq [OF ack_body_ok(1) [OF f(2)], of ?acc] by (simp add: file_ack_accept_def file_ack_value_new_def)
  obtain k where k: "n = Suc (Suc k)" using n by (metis One_nat_def less_imp_Suc_add plus_1_eq_Suc add_Suc_right)
  have "bus_deadline (link_bus P c) b d = b" for b d by (simp add: link_bus_def)
  then show ?thesis using k send recv dec x that
    by (simp add: offer_send_failure_def send_to_with_timeout_def wait_for_transfer_ack_def)
qed

lemma send_completes:
  assumes set: "setting S P c sha256 tid maxc data q cs" and w: "0 < window_chunks config" "window_chunks config \<le> lc_depth c"
    and maxc: "sender_max_chunk_size config = maxc" and n: "pieces_count cs data < n" "1 < n"
  shows "\<exists>lk'. send_file_with_id_impl n rt sha256 (link_bus P c) (np_reader P) (link_new c sched st0) (lc_receiver c) st tid data tmo config =
       Some (Ok \<lparr>sfr_transfer_id = tid, sfr_total_len = length data, sfr_chunk_size = cs,
                 sfr_chunks_sent = pieces_count cs data, sfr_retries = 0\<rparr>, observe_transfer_id st tid, lk') \<and>
     lk_phase lk' = RxDone (Ok (recv_result q (word_of_nat (length data)))) \<and> content (lk_store lk') = data"
proof -
  note f = settingD [OF set]
  obtain lk where x: "xfer_at view content P c q cs data 0 0 0 lk"
    and offer: "offer_loop n rt (link_bus P c) (np_reader P) (link_new c sched st0) (lc_receiver c) (offer_of sha256 tid maxc data) tid tmo
        (max_retries config) 0 =
       Some (Ok \<lparr>ack_transfer_id = tid, ack_kind = Accept, ack_next_offset = 0, ack_chunk_size = rr_negotiated q, ack_error = NoError\<rparr>, lk)"
    by (rule offer_accepted [OF set n(2)])
  have n0: "pieces_count cs data - 0 < n" using n by simp
  obtain lk' where run: "transfer_loop n rt (link_bus P c) (np_reader P) lk (lc_receiver c) tid data cs (window_chunks config) (max_retries config) tmo
        \<lparr>xf_chunks_sent = 0, xf_retries = 0, last_acked = 0, next_to_send = 0\<rparr> =
      Some (Ok \<lparr>xf_chunks_sent = pieces_count cs data, xf_retries = 0, last_acked = word_of_nat (length data), next_to_send = word_of_nat (length data)\<rparr>, lk')"
    and x': "xfer_at view content P c q cs data (pieces_count cs data) (pieces_count cs data) (pieces_count cs data) lk'"
    using transfer_completes [OF set w x _ n0, of rt "max_retries config" tmo] by auto
  have cs: "unat (rr_negotiated q) = cs" by (simp add: f(9,10) request_of_def agreed_size_def)
  have "lk_phase lk' = RxDone (Ok (recv_result q (word_of_nat (length data))))" "content (lk_store lk') = data"
    using x' by (simp_all add: xfer_at_def stored_at_def) (simp add: f(9) request_of_def)
  then show ?thesis using offer run f(5,6,7,11,12) w maxc cs
    by (simp add: send_file_with_id_impl_def send_config_validate_def u32_try_from_def offer_of_def send_accepted_def Let_def)
qed

end

end
