(* ===== verification/FT_Ends.thy ===== *)
theory FT_Ends
  imports FT_Receiver_Props FT_Sender_Props FT_Transfer_Props
begin

text \<open>
  When the transfers of \<open>tokio_impl.rs\<close> end. Every wait of both sides has a timer, and the sender counts the timers
  that fire, but neither side counts the messages it skips; a transfer therefore ends on every bus over which only
  finitely many more bodies arrive. The locale \<open>finite_bus\<close> is this contract, with a measure of what may still
  arrive; its lemmas give the fuel at which the loops of the sender and of the receivers return.
\<close>

section \<open>The contract\<close>

definition quieter :: "('b \<Rightarrow> bool) \<Rightarrow> ('b \<Rightarrow> nat) \<Rightarrow> 'b \<Rightarrow> 'b \<Rightarrow> bool" where
  "quieter good left b b' \<longleftrightarrow> good b' \<and> left b' \<le> left b"

lemma quieter_refl: "good b \<Longrightarrow> quieter good left b b"
  by (simp add: quieter_def)

lemma quieter_trans: "quieter good left b c \<Longrightarrow> quieter good left c d \<Longrightarrow> quieter good left b d"
  by (simp add: quieter_def)

lemma quieter_good: "quieter good left b c \<Longrightarrow> good c"
  by (simp add: quieter_def)

lemma recv_request_some:
  assumes "bus_recv_req ops b src \<noteq> None"
  shows "\<exists>r b1. recv_request_alloc ops R b src tmo cfg = Some (r, b1)"
    and "\<exists>r b1. recv_request_no_alloc m ops R b src tmo cfg = Some (r, b1)"
  using assms by (auto simp: recv_request_alloc_def recv_request_no_alloc_def Let_def split: option.split result.split prod.split)

locale finite_bus =
  fixes ops :: "'b bus_ops"
    and good :: "'b \<Rightarrow> bool"
    and left :: "'b \<Rightarrow> nat"
  assumes send_quieter: "good b \<Longrightarrow> quieter good left b (snd (bus_send ops b dst m tmo))"
    and deadline_quieter: "good b \<Longrightarrow> quieter good left b (bus_deadline ops b tmo)"
    and recv_quieter: "good b \<Longrightarrow> quieter good left b (snd (bus_recv ops b k src))"
    and request_quieter: "good b \<Longrightarrow> bus_recv_req ops b src = Some (r, b') \<Longrightarrow> quieter good left b b'"
    and arrival: "good b \<Longrightarrow> bus_recv ops b k src = (Arrived body, b') \<Longrightarrow> left b' < left b"
begin

lemma send_to_quieter: "good b \<Longrightarrow> send_to_with_timeout ops b dst m tmo = (r, b') \<Longrightarrow> quieter good left b b'"
  using send_quieter [of b dst m tmo] by (simp add: send_to_with_timeout_def)

lemma bus_recv_quieter: "good b \<Longrightarrow> bus_recv ops b k src = (ev, b') \<Longrightarrow> quieter good left b b'"
  using recv_quieter [of b k src] by simp

section \<open>The sender\<close>

text \<open>A wait returns, and an acknowledgement it returns has used up an arrival.\<close>

lemma ack_wait_ends:
  "good b \<Longrightarrow> left b < n \<Longrightarrow>
   \<exists>r b'. ack_wait_loop n ops R b src tid = Some (r, b') \<and> quieter good left b b' \<and> (\<forall>a. r = Ok a \<longrightarrow> left b' < left b)"
proof (induction n arbitrary: b)
  case (Suc n)
  obtain ev b1 where recv: "bus_recv ops b KAck src = (ev, b1)" by (rule prod.exhaust)
  note q = bus_recv_quieter [OF Suc.prems(1) recv]
  show ?case
  proof (cases ev)
    case (Arrived body)
    then have lt: "left b1 < left b" using arrival [OF Suc.prems(1)] recv by simp
    then have "left b1 < n" using Suc.prems(2) by simp
    from Suc.IH [OF quieter_good [OF q] this] obtain r b' where
      "ack_wait_loop n ops R b1 src tid = Some (r, b')" "quieter good left b1 b'" "\<forall>a. r = Ok a \<longrightarrow> left b' < left b1" by blast
    then show ?thesis using recv Arrived lt q quieter_trans [OF q]
      by (cases "decode_file_ack R body") (fastforce simp: quieter_def)+
  qed (use recv q in auto)
qed simp

lemma wait_ack_ends:
  assumes "good b" and "left b < n"
  shows "\<exists>r b'. wait_for_transfer_ack n rt ops R b src tid tmo = Some (r, b') \<and> quieter good left b b' \<and>
    (\<forall>a. r = Ok a \<longrightarrow> left b' < left b)"
proof -
  let ?b = "bus_deadline ops b (runtime_timeout rt tmo)"
  have q: "quieter good left b ?b" by (rule deadline_quieter [OF assms(1)])
  then have "good ?b" "left ?b < n" using assms(2) by (auto simp: quieter_def)
  from ack_wait_ends [OF this] show ?thesis using q unfolding wait_for_transfer_ack_def by (fastforce simp: quieter_def)
qed

lemma offer_loop_ends:
  "good b \<Longrightarrow> left b + (max_r - k) + 1 < n \<Longrightarrow>
   \<exists>r b'. offer_loop n rt ops R b dst offer tid tmo max_r k = Some (r, b') \<and> quieter good left b b'"
proof (induction n arbitrary: b k)
  case (Suc n)
  obtain s b1 where send: "send_to_with_timeout ops b dst (MReq offer) tmo = (s, b1)" by (rule prod.exhaust)
  note q1 = send_to_quieter [OF Suc.prems(1) send]
  have "left b1 < n" using q1 Suc.prems(2) by (simp add: quieter_def)
  from wait_ack_ends [OF quieter_good [OF q1] this] obtain r b2 where
    w: "wait_for_transfer_ack n rt ops R b1 dst tid tmo = Some (r, b2)" "quieter good left b1 b2" "\<forall>a. r = Ok a \<longrightarrow> left b2 < left b1" by blast
  have q2: "quieter good left b b2" by (rule quieter_trans [OF q1 w(2)])
  show ?case
  proof (cases "offer_send_failure s")
    case (Some e)
    then show ?thesis using send q1 by simp
  next
    case sent: None
    show ?thesis
    proof (cases r)
      case (Err e)
      have "\<exists>r b'. offer_loop n rt ops R b2 dst offer tid tmo max_r (k + 1) = Some (r, b') \<and> quieter good left b2 b'" if "\<not> max_r < k + 1"
        using Suc.prems(2) that q2 [unfolded quieter_def] by (intro Suc.IH) linarith+
      then show ?thesis using send sent w(1) Err q2 quieter_trans [OF q2] by auto
    next
      case (Ok a)
      have "\<exists>r b'. offer_loop n rt ops R b2 dst offer tid tmo max_r k = Some (r, b') \<and> quieter good left b2 b'"
        using Suc.prems(2) w(3) Ok q1 by (intro Suc.IH quieter_good [OF q2]) (simp add: quieter_def)
      then show ?thesis using send sent w(1) Ok q2 quieter_trans [OF q2] by (cases "ack_kind a") auto
    qed
  qed
qed simp

lemma fill_window_quieter:
  "good b \<Longrightarrow> fill_window n ops b dst tid bytes cs w tmo la nx ch = Some (r, b') \<Longrightarrow> quieter good left b b'"
proof (induction n arbitrary: b nx ch)
  case (Suc n)
  let ?m = "MChunk (file_chunk tid nx (slice_of (unat nx) (min (unat nx + cs) (length bytes)) bytes))"
  obtain s b1 where send: "send_to_with_timeout ops b dst ?m tmo = (s, b1)" by (rule prod.exhaust)
  note q = send_to_quieter [OF Suc.prems(1) send]
  show ?case using Suc.prems send q Suc.IH [OF quieter_good [OF q]] quieter_trans [OF q] quieter_refl [of good b left, OF Suc.prems(1)]
    by (auto simp: inflight_chunk_count_Ok Let_def split: if_splits result.splits)
qed simp

lemma on_ack_retries: "on_ack T s a = AckAgain s' \<Longrightarrow> xf_retries s' = xf_retries s"
  using on_ack_cases(1) [of T s a s'] by auto

lemma transfer_loop_ends:
  assumes cs: "0 < cs" and small: "length bytes < 2 ^ 32"
  shows "good b \<Longrightarrow> left b + (max_r - xf_retries s) + 1 < n \<Longrightarrow>
    \<exists>r b'. transfer_loop n rt ops R b dst tid bytes cs w max_r tmo s = Some (r, b')"
proof (induction n arbitrary: b s)
  case (Suc n)
  show ?case
  proof (cases "unat (last_acked s) < length bytes")
    case True
    obtain f b1 where fill: "fill_window (Suc (length bytes)) ops b dst tid bytes cs w tmo (last_acked s) (next_to_send s) (xf_chunks_sent s) = Some (f, b1)"
      using fill_window_total [OF cs small, of "next_to_send s" "Suc (length bytes)"] by force
    note q1 = fill_window_quieter [OF Suc.prems(1) fill]
    show ?thesis
    proof (cases f)
      case (Err e)
      then show ?thesis using fill True by (simp del: fill_window.simps)
    next
      case (Ok nc)
      obtain nx ch where nc: "nc = (nx, ch)" by (rule prod.exhaust)
      let ?s = "s\<lparr>next_to_send := nx, xf_chunks_sent := ch\<rparr>"
      have "left b1 < n" using q1 Suc.prems(2) by (simp add: quieter_def)
      from wait_ack_ends [OF quieter_good [OF q1] this] obtain r b2 where
        w: "wait_for_transfer_ack n rt ops R b1 dst tid tmo = Some (r, b2)" "quieter good left b1 b2" "\<forall>a. r = Ok a \<longrightarrow> left b2 < left b1" by blast
      have q2: "quieter good left b b2" by (rule quieter_trans [OF q1 w(2)])
      show ?thesis
      proof (cases r)
        case Err2: (Err e)
        let ?s2 = "?s\<lparr>xf_retries := xf_retries s + 1, next_to_send := last_acked s\<rparr>"
        have "\<exists>r b'. transfer_loop n rt ops R b2 dst tid bytes cs w max_r tmo ?s2 = Some (r, b')" if "\<not> max_r < xf_retries s + 1"
          using Suc.prems(2) that q2 unfolding quieter_def by (intro Suc.IH) (linarith, simp, linarith)
        then show ?thesis using fill True Ok nc w(1) Err2 by (auto simp: Let_def simp del: fill_window.simps)
      next
        case Ok2: (Ok a)
        have "\<exists>r b'. transfer_loop n rt ops R b2 dst tid bytes cs w max_r tmo s2 = Some (r, b')" if "on_ack (length bytes) ?s a = AckAgain s2" for s2
          using Suc.prems(2) on_ack_retries [OF that] w(3) Ok2 q1 by (intro Suc.IH quieter_good [OF q2]) (simp add: quieter_def)
        then show ?thesis using fill True Ok nc w(1) Ok2 by (auto simp: Let_def simp del: fill_window.simps split: ack_step.split)
      qed
    qed
  qed (use Suc.prems in simp)
qed simp

lemma send_file_ends:
  assumes "good b" and n: "left b + max_retries config + 1 < n"
  shows "\<exists>v. send_file_with_id_impl n rt sha256 ops R b dst st tid bytes tmo config = Some v"
proof (cases "send_config_validate config")
  case (Ok c)
  then have c: "c = config" by (auto simp: send_config_validate_def split: if_splits)
  show ?thesis
  proof (cases "length bytes < 2 ^ 32 \<and> sender_max_chunk_size config < 2 ^ 32")
    case True
    let ?offer = "file_offer tid (word_of_nat (length bytes)) (word_of_nat (sender_max_chunk_size config)) [] Sha256 (sha256 bytes)"
    obtain r b1 where offer: "offer_loop n rt ops R b dst ?offer tid tmo (max_retries config) 0 = Some (r, b1)" "quieter good left b b1"
      using offer_loop_ends [OF assms(1)] n by (metis diff_zero)
    have "\<exists>v. send_accepted n rt ops R b1 dst tid bytes tmo config a = Some v" for a
    proof -
      let ?cs = "unat (ack_chunk_size a)"
      have "\<exists>r b'. transfer_loop n rt ops R b1 dst tid bytes ?cs (window_chunks config) (max_retries config) tmo
          \<lparr>xf_chunks_sent = 0, xf_retries = 0, last_acked = 0, next_to_send = 0\<rparr> = Some (r, b')" if "0 < ?cs"
        using that True offer(2) n by (intro transfer_loop_ends) (auto simp: quieter_def)
      then show ?thesis by (auto simp: send_accepted_def Let_def split: result.split)
    qed
    then show ?thesis using Ok c offer(1) True
      by (cases r) (auto simp: send_file_with_id_impl_def Let_def u32_try_from_def)
  qed (use Ok c in \<open>auto simp: send_file_with_id_impl_def u32_try_from_def Let_def\<close>)
qed (simp add: send_file_with_id_impl_def)

section \<open>The receivers\<close>

lemma chunk_wait_ends:
  "good b \<Longrightarrow> left b < n \<Longrightarrow>
   \<exists>r b'. chunk_wait_loop n ops R b src tid = Some (r, b') \<and> quieter good left b b' \<and> (\<forall>body. r = Ok body \<longrightarrow> left b' < left b)"
proof (induction n arbitrary: b)
  case (Suc n)
  obtain ev b1 where recv: "bus_recv ops b KChunk src = (ev, b1)" by (rule prod.exhaust)
  note q = bus_recv_quieter [OF Suc.prems(1) recv]
  show ?case
  proof (cases ev)
    case (Arrived body)
    then have lt: "left b1 < left b" using arrival [OF Suc.prems(1)] recv by simp
    then have "left b1 < n" using Suc.prems(2) by simp
    from Suc.IH [OF quieter_good [OF q] this] obtain r b' where
      "chunk_wait_loop n ops R b1 src tid = Some (r, b')" "quieter good left b1 b'" "\<forall>body. r = Ok body \<longrightarrow> left b' < left b1" by blast
    then show ?thesis using recv Arrived lt q quieter_trans [OF q]
      by (cases "chunk_transfer_id R body") (fastforce simp: quieter_def)+
  qed (use recv q in auto)
qed simp

lemma wait_chunk_ends:
  assumes "good b" and "left b < n"
  shows "\<exists>r b'. wait_for_transfer_chunk n rt ops R b src tid tmo = Some (r, b') \<and> quieter good left b b' \<and>
    (\<forall>body. r = Ok body \<longrightarrow> left b' < left b)"
proof -
  let ?b = "bus_deadline ops b (runtime_timeout rt tmo)"
  have q: "quieter good left b ?b" by (rule deadline_quieter [OF assms(1)])
  then have "good ?b" "left ?b < n" using assms(2) by (auto simp: quieter_def)
  from chunk_wait_ends [OF this] show ?thesis using q unfolding wait_for_transfer_chunk_def by (fastforce simp: quieter_def)
qed

lemmas quieter_intros = send_to_quieter quieter_refl [of good _ left]

lemma abort_and_tell_quieter: "abort_and_tell ops S b st h src tid at e tmo = (b', st') \<Longrightarrow> good b \<Longrightarrow> quieter good left b b'"
  by (auto simp: abort_and_tell_def split: prod.splits intro: quieter_intros)

lemma finish_file_quieter: "finish_file ops S H q src tmo x b st = (r, b', st') \<Longrightarrow> good b \<Longrightarrow> quieter good left b b'"
  by (auto simp: finish_file_def Let_def split: prod.splits result.splits if_splits intro: quieter_intros abort_and_tell_quieter)

lemma store_chunk_quieter: "store_chunk ops S H q src tmo x bs b st = (c, b', st') \<Longrightarrow> good b \<Longrightarrow> quieter good left b b'"
  by (auto simp: store_chunk_def Let_def split: prod.splits result.splits if_splits intro: quieter_intros finish_file_quieter)

lemma resync_quieter: "resync ops S q src tmo x b st = (c, b', st') \<Longrightarrow> good b \<Longrightarrow> quieter good left b b'"
  by (auto simp: resync_def split: prod.splits result.splits intro: quieter_intros)

lemmas chunk_quieter = quieter_intros abort_and_tell_quieter resync_quieter store_chunk_quieter

lemma recv_chunk_quieter: "recv_chunk ops R S H q src tmo x body b st = (c, b', st') \<Longrightarrow> good b \<Longrightarrow> quieter good left b b'"
  by (auto simp: recv_chunk_def Let_def split: prod.splits result.splits if_splits intro: chunk_quieter)

lemma recv_chunk_no_alloc_quieter:
  "recv_chunk_no_alloc m ops R S H q src tmo x body b st = (c, b', st') \<Longrightarrow> good b \<Longrightarrow> quieter good left b b'"
  by (auto simp: recv_chunk_no_alloc_def no_alloc_copies Let_def split: prod.splits result.splits if_splits intro: chunk_quieter)

lemma open_file_quieter:
  assumes "open_file ops S H q src tmo b st = (c, b', st')" and "good b"
  shows "quieter good left b b'"
proof -
  obtain h st1 where bw: "st_begin_write S st (rr_transfer_id q) (rr_total_len q) = (h, st1)" by (rule prod.exhaust)
  obtain r b1 where send: "send_to_with_timeout ops b src (MAck (file_ack_accept (rr_transfer_id q) (rr_negotiated q))) tmo = (r, b1)"
    by (rule prod.exhaust)
  note q1 = send_to_quieter [OF assms(2) send]
  show ?thesis
  proof (cases h)
    case (Ok hd)
    obtain b2 st2 where ab: "abort_and_tell ops S b1 st1 hd src (rr_transfer_id q) 0 HashMismatch tmo = (b2, st2)" by (rule prod.exhaust)
    have "quieter good left b b2" by (rule quieter_trans [OF q1 abort_and_tell_quieter [OF ab quieter_good [OF q1]]])
    then show ?thesis using assms(1) bw send q1 Ok ab
      by (cases r) (auto simp: open_file_def Let_def split: prod.splits result.splits if_splits)
  qed (use assms bw in \<open>auto simp: open_file_def intro: quieter_intros\<close>)
qed

lemma recv_loop_ends: "good b \<Longrightarrow> left b + 1 < n \<Longrightarrow> \<exists>v. recv_loop n rt ops R S H q src tmo x b st = Some v"
proof (induction n arbitrary: b x st)
  case (Suc n)
  have "left b < n" using Suc.prems(2) by simp
  from wait_chunk_ends [OF Suc.prems(1) this] obtain r b1 where
    w: "wait_for_transfer_chunk n rt ops R b src (rr_transfer_id q) tmo = Some (r, b1)" "quieter good left b b1"
    "\<forall>body. r = Ok body \<longrightarrow> left b1 < left b" by blast
  show ?case
  proof (cases r)
    case (Ok body)
    obtain c b2 st2 where ch: "recv_chunk ops R S H q src tmo x body b1 st = (c, b2, st2)" by (rule prod_cases3)
    have "quieter good left b1 b2" by (rule recv_chunk_quieter [OF ch quieter_good [OF w(2)]])
    then have "good b2" "left b2 + 1 < n" using Suc.prems(2) w(3) Ok by (auto simp: quieter_def)
    from Suc.IH [OF this] show ?thesis using w(1) Ok ch by (auto split: chunk_step.split)
  qed (use w in auto)
qed simp

lemma recv_loop_no_alloc_ends: "good b \<Longrightarrow> left b + 1 < n \<Longrightarrow> \<exists>v. recv_loop_no_alloc n m rt ops R S H q src tmo x b st = Some v"
proof (induction n arbitrary: b x st)
  case (Suc n)
  have "left b < n" using Suc.prems(2) by simp
  from wait_chunk_ends [OF Suc.prems(1) this] obtain r b1 where
    w: "wait_for_transfer_chunk n rt ops R b src (rr_transfer_id q) tmo = Some (r, b1)" "quieter good left b b1"
    "\<forall>body. r = Ok body \<longrightarrow> left b1 < left b" by blast
  show ?case
  proof (cases r)
    case (Ok body)
    obtain c b2 st2 where ch: "recv_chunk_no_alloc m ops R S H q src tmo x body b1 st = (c, b2, st2)" by (rule prod_cases3)
    have "quieter good left b1 b2" by (rule recv_chunk_no_alloc_quieter [OF ch quieter_good [OF w(2)]])
    then have "good b2" "left b2 + 1 < n" using Suc.prems(2) w(3) Ok by (auto simp: quieter_def)
    from Suc.IH [OF this] show ?thesis using w(1) Ok ch by (auto split: chunk_step.split)
  qed (use w in auto)
qed simp

lemma reject_quieter: "good b \<Longrightarrow> quieter good left b (send_reject ops b src tid e tmo)"
  by (cases "send_to_with_timeout ops b src (MAck (file_ack_reject tid e)) tmo") (auto simp: send_reject_def intro: send_to_quieter)

lemma recv_request_quieter:
  assumes "good b" and "recv_request_alloc ops R b src tmo cfg = Some (r, b')"
  shows "quieter good left b b'"
proof -
  obtain v b1 where rq: "bus_recv_req ops b src = Some (v, b1)" using assms(2) by (auto simp: recv_request_alloc_def split: option.splits)
  have q: "quieter good left b b1" by (rule request_quieter [OF assms(1) rq])
  have "b' = b1 \<or> (\<exists>tid e. b' = send_reject ops b1 src tid e tmo)"
    using assms(2) rq by (auto simp: recv_request_alloc_def Let_def split: result.splits option.splits if_splits)
  then show ?thesis using q quieter_trans [OF q reject_quieter [OF quieter_good [OF q]]] by auto
qed

lemma recv_request_no_alloc_quieter:
  assumes "good b" and "recv_request_no_alloc m ops R b src tmo cfg = Some (r, b')"
  shows "quieter good left b b'"
proof -
  obtain v b1 where rq: "bus_recv_req ops b src = Some (v, b1)" using assms(2) by (auto simp: recv_request_no_alloc_def split: option.splits)
  have q: "quieter good left b b1" by (rule request_quieter [OF assms(1) rq])
  have "b' = b1 \<or> (\<exists>tid e. b' = send_reject ops b1 src tid e tmo)"
    using assms(2) rq by (auto simp: recv_request_no_alloc_def Let_def split: result.splits option.splits if_splits prod.splits)
  then show ?thesis using q quieter_trans [OF q reject_quieter [OF quieter_good [OF q]]] by auto
qed

lemma opened_enough:
  assumes "quieter good left b b1" and "open_file ops S H q src tmo b1 st = (c, b2, st2)" and "left b + 1 < n"
  shows "good b2 \<and> left b2 + 1 < n"
  using open_file_quieter [OF assms(2) quieter_good [OF assms(1)]] assms(1,3) by (auto simp: quieter_def)

lemma recv_file_ends:
  fixes R :: "'ce capnp_reader" and S :: "('s, 'h, 'se) store_ops" and H :: "'hs hasher_ops"
  assumes b: "good b" and n: "left b + 1 < n" and req: "bus_recv_req ops b src \<noteq> None"
  shows "\<exists>v. recv_file_impl n rt ops R S H b src st tmo cfg = Some v"
proof -
  obtain r :: "(recv_request, ('se, 'ce) ft_error) result" and b1
    where rq: "recv_request_alloc ops R b src tmo cfg = Some (r, b1)" using recv_request_some(1) [OF req] by fast
  show ?thesis
  proof (cases r)
    case (Ok q)
    obtain c :: "('h, 'hs, 'se, 'ce) open_step" and b2 st2 where op: "open_file ops S H q src tmo b1 st = (c, b2, st2)" by (rule prod_cases3)
    have e: "good b2 \<and> left b2 + 1 < n" by (rule opened_enough [OF recv_request_quieter [OF b rq] op n])
    show ?thesis using rq Ok op recv_loop_ends [OF conjunct1 [OF e] conjunct2 [OF e]] by (cases c) (simp_all add: recv_file_impl_def)
  qed (use rq in \<open>simp add: recv_file_impl_def\<close>)
qed

lemma recv_file_no_alloc_ends:
  fixes R :: "'ce capnp_reader" and S :: "('s, 'h, 'se) store_ops" and H :: "'hs hasher_ops"
  assumes b: "good b" and n: "left b + 1 < n" and req: "bus_recv_req ops b src \<noteq> None"
  shows "\<exists>v. recv_file_no_alloc_impl n mm mc rt ops R S H b src st tmo cfg = Some v"
proof -
  obtain r :: "(recv_request, ('se, 'ce) ft_error) result" and b1
    where rq: "recv_request_no_alloc mm ops R b src tmo cfg = Some (r, b1)" using recv_request_some(2) [OF req] by fast
  show ?thesis
  proof (cases r)
    case (Ok q)
    obtain c :: "('h, 'hs, 'se, 'ce) open_step" and b2 st2 where op: "open_file ops S H q src tmo b1 st = (c, b2, st2)" by (rule prod_cases3)
    have e: "good b2 \<and> left b2 + 1 < n" by (rule opened_enough [OF recv_request_no_alloc_quieter [OF b rq] op n])
    show ?thesis using rq Ok op recv_loop_no_alloc_ends [OF conjunct1 [OF e] conjunct2 [OF e]] by (cases c) (simp_all add: recv_file_no_alloc_impl_def no_alloc_copies)
  qed (use rq in \<open>simp add: recv_file_no_alloc_impl_def\<close>)
qed

end

section \<open>The mailboxes of a node\<close>

text \<open>What may still arrive at a receiving node whose peer is silent is what its chunk mailbox holds.\<close>

interpretation ep: finite_bus "endpoint_bus B c" "\<lambda>ep. mailbox_wf (lc_depth c) (lc_body c) (ep_chunk ep)"
    "\<lambda>ep. length (mailbox_view (ep_chunk ep))"
  for B c
proof
  fix ep :: endpoint and k src
  assume wf: "mailbox_wf (lc_depth c) (lc_body c) (ep_chunk ep)"
  obtain mb r st where q: "type_mailbox_take (lc_body c) (ep_chunk ep) src accept_all () = (mb, r, st)" by (rule prod_cases3)
  note pop = tm.pop_spec [OF wf q]
  have recv: "bus_recv (endpoint_bus B c) ep k src =
      (case (k, r) of (KChunk, Some body) \<Rightarrow> (Arrived body, ep\<lparr>ep_chunk := mb\<rparr>) | _ \<Rightarrow> (Elapsed, ep))"
    using q by (cases k; cases r) (simp_all add: box_pop_def endpoint_bus_def)
  have shorter: "length (mailbox_view (ep_chunk ep)) = Suc (length (mailbox_view mb))" if "r = Some body" for body
    using pop that fifo_pop_length by fastforce
  show "quieter (\<lambda>ep. mailbox_wf (lc_depth c) (lc_body c) (ep_chunk ep)) (\<lambda>ep. length (mailbox_view (ep_chunk ep))) ep
      (snd (bus_recv (endpoint_bus B c) ep k src))"
    unfolding recv using wf pop shorter by (cases k; cases r) (simp_all add: quieter_def)
  show "length (mailbox_view (ep_chunk ep')) < length (mailbox_view (ep_chunk ep))"
    if "bus_recv (endpoint_bus B c) ep k src = (Arrived body, ep')" for body ep'
    using that [unfolded recv] shorter by (cases k; cases r) auto
qed (auto simp: quieter_def split: prod.splits option.splits)

lemma node_receive_ends:
  assumes "mailbox_wf (lc_depth c) (lc_body c) (ep_chunk ep)" and "lc_depth c + 1 < n"
    and "bus_recv_req (endpoint_bus B c) ep src \<noteq> None"
  shows "\<exists>v. recv_file_impl n rt (endpoint_bus B c) R S H ep src st tmo cfg = Some v"
  using assms mailbox_view_length [OF assms(1)] by (intro ep.recv_file_ends) (auto simp: mailbox_wf_def)

section \<open>Properties\<close>

text \<open>C7: Sending a file always ends, with a result or an error, on every bus over which only finitely many more bodies
  arrive, whatever these bodies are, whichever sends fail and whatever the configuration: fuel for the arrivals
  and the retries is enough for the offer loop and for the transfer loop.\<close>

theorem sender_returns:
  assumes "finite_bus ops good left" and "good b" and "left b + max_retries config + 1 < n"
  shows "\<exists>r st' b'. send_file_with_id_impl n rt sha256 ops R b dst st tid bytes tmo config = Some (r, st', b')"
  using finite_bus.send_file_ends [OF assms] by (metis prod_cases3)

lemma script_bus_finite: "finite_bus script_bus (\<lambda>_. True) length"
proof
  fix evs :: "recv_event list" and k src
  show "quieter (\<lambda>_. True) length evs (snd (bus_recv script_bus evs k src))"
    by (cases evs) (simp_all add: script_bus_def quieter_def)
  show "length evs' < length evs" if "bus_recv script_bus evs k src = (Arrived body, evs')" for body evs'
    using that by (cases evs) (auto simp: script_bus_def)
qed (simp_all add: script_bus_def quieter_def)

theorem sender_returns_witness:
  "\<exists>r st' b'. send_file_with_id_impl 9 Embassy (\<lambda>_. [0]) script_bus flat_reader [ack_event 2 Accept 0 2, ack_event 1 Accept 0 2, Elapsed,
      ack_event 1 Ack 1 0] 9 send_state_new 1 [10, 11, 12] 5 \<lparr>sender_max_chunk_size = 2, window_chunks = 1, max_retries = 2\<rparr> = Some (r, st', b')"
  by (rule sender_returns [OF script_bus_finite]) simp_all

text \<open>Without the bound on what arrives it does not: a progress acknowledgement in answer to an offer makes the sender
  send the offer again without counting a retry.\<close>

definition chatty_bus :: "unit bus_ops" where
  "chatty_bus = \<lparr>bus_send = \<lambda>b dst m tmo. (Ok (), b), bus_deadline = \<lambda>b tmo. b,
     bus_recv = \<lambda>b k src. (ack_event 1 Ack 0 0, b), bus_recv_req = \<lambda>b src. None\<rparr>"

lemma offer_loop_chatty: "offer_loop n rt chatty_bus flat_reader () dst offer 1 tmo max_r k = None"
proof (induction n)
  case (Suc n)
  have "wait_for_transfer_ack n rt chatty_bus flat_reader () dst 1 tmo = (if n = 0 then None else Some (Ok
      \<lparr>ack_transfer_id = 1, ack_kind = Ack, ack_next_offset = 0, ack_chunk_size = 0, ack_error = NoError\<rparr>, ()))"
    by (cases n) (simp_all add: wait_for_transfer_ack_def chatty_bus_def ack_event_def file_ack_value_new_def)
  then show ?case using Suc by (simp add: send_to_with_timeout_def chatty_bus_def offer_send_failure_def)
qed simp

text \<open>C8: Receiving a file, with and without an allocator, ends once a request has arrived, on every bus over which
  only finitely many more bodies arrive and whatever the store does: fuel for the arrivals is enough.\<close>

theorem receiver_returns:
  fixes R :: "'ce capnp_reader" and S :: "('s, 'h, 'se) store_ops" and H :: "'hs hasher_ops"
  assumes "finite_bus ops good left" and "good b" and "left b + 1 < n" and "bus_recv_req ops b src \<noteq> None"
  shows "(\<exists>r b' st'. recv_file_impl n rt ops R S H b src st tmo cfg = Some (r, b', st')) \<and>
    (\<exists>r b' st'. recv_file_no_alloc_impl n mm mc rt ops R S H b src st tmo cfg = Some (r, b', st'))"
  using finite_bus.recv_file_ends [OF assms, of rt R S H st tmo cfg] finite_bus.recv_file_no_alloc_ends [OF assms, of mm mc rt R S H st tmo cfg]
  by (metis prod_cases3)

lemma req_bus_finite: "finite_bus req_bus (\<lambda>_. True) (\<lambda>b. length (snd b))"
proof
  fix b :: "bytes option \<times> recv_event list" and k src
  obtain q evs where b: "b = (q, evs)" by (rule prod.exhaust)
  show "quieter (\<lambda>_. True) (\<lambda>b. length (snd b)) b (snd (bus_recv req_bus b k src))"
    unfolding b by (cases evs) (simp_all add: req_bus_def quieter_def)
  show "length (snd b') < length (snd b)" if "bus_recv req_bus b k src = (Arrived body, b')" for body b'
    using that unfolding b by (cases evs) (auto simp: req_bus_def)
qed (auto simp: req_bus_def quieter_def)

theorem receiver_returns_witness:
  "(\<exists>r b' st'. recv_file_impl 4 Tokio req_bus flat_reader byte_store checksum_hasher
       (Some example_req, [chunk_event 3 0 [10, 11], chunk_event 5 0 [10, 11]]) 7 [] 5 \<lparr>max_chunk_size = 0\<rparr> = Some (r, b', st')) \<and>
   (\<exists>r b' st'. recv_file_no_alloc_impl 4 16 2 Tokio req_bus flat_reader byte_store checksum_hasher
       (Some example_req, [chunk_event 3 0 [10, 11], chunk_event 5 0 [10, 11]]) 7 [] 5 \<lparr>max_chunk_size = 0\<rparr> = Some (r, b', st'))"
  by (rule receiver_returns [OF req_bus_finite]) (simp_all add: req_bus_def)

end
