(* ===== verification/Bench_Common.thy ===== *)
theory Bench_Common
  imports FT_Transfer_Props FT_Receiver_Props
begin

text \<open>
  The file-transfer benchmark of \<open>examples/thincan-example\<close>, the part its two programs share: the constants
  and configurations, the store in memory, and a whole transfer between the two ends with that store.
\<close>

section \<open>Constants and configurations\<close>

definition NODE_A_ADDR :: u8 where "NODE_A_ADDR = 0x11"
definition NODE_B_ADDR :: u8 where "NODE_B_ADDR = 0x22"

definition DEPTH :: usize where "DEPTH = 16"
definition MAX_BODY :: usize where "MAX_BODY = 4096"

definition SEND_CHUNK_SIZE :: usize where "SEND_CHUNK_SIZE = 1024"
definition SEND_WINDOW_CHUNKS :: usize where "SEND_WINDOW_CHUNKS = 8"
definition SEND_MAX_RETRIES :: usize where "SEND_MAX_RETRIES = 5"

definition default_send_config :: send_config where
  "default_send_config =
     \<lparr>sender_max_chunk_size = SEND_CHUNK_SIZE, window_chunks = SEND_WINDOW_CHUNKS, max_retries = SEND_MAX_RETRIES\<rparr>"

definition default_receiver_config :: receiver_config where
  "default_receiver_config = \<lparr>max_chunk_size = word_of_nat SEND_CHUNK_SIZE\<rparr>"

section \<open>The store in memory\<close>

record memory_store =
  ms_bytes :: bytes

text \<open>The message of \<open>anyhow::bail!\<close>, with its two numbers.\<close>

datatype store_failure = WriteOutOfBounds usize usize

definition memory_begin_write :: "memory_store \<Rightarrow> u32 \<Rightarrow> u32 \<Rightarrow> (unit, store_failure) result \<times> memory_store" where
  "memory_begin_write st transfer_id total_len = (Ok (), st\<lparr>ms_bytes := replicate (unat total_len) 0\<rparr>)"

definition memory_write_at ::
    "memory_store \<Rightarrow> unit \<Rightarrow> u32 \<Rightarrow> bytes \<Rightarrow> (unit, store_failure) result \<times> unit \<times> memory_store" where
  "memory_write_at st h offset bs =
     (let stop = unat offset + length bs in
      if stop > length (ms_bytes st) then (Err (WriteOutOfBounds stop (length (ms_bytes st))), h, st)
      else (Ok (), h, st\<lparr>ms_bytes := copy_at (unat offset) (ms_bytes st) bs\<rparr>))"

definition memory_commit :: "memory_store \<Rightarrow> unit \<Rightarrow> (unit, store_failure) result \<times> memory_store" where
  "memory_commit st h = (Ok (), st)"

definition memory_abort :: "memory_store \<Rightarrow> unit \<Rightarrow> memory_store" where
  "memory_abort st h = st"

definition memory_store_ops :: "(memory_store, unit, store_failure) store_ops" where
  "memory_store_ops = \<lparr>st_begin_write = memory_begin_write, st_write_at = memory_write_at,
     st_commit = memory_commit, st_abort = memory_abort\<rparr>"

interpretation memory: write_store memory_store_ops "\<lambda>st h. ms_bytes st" ms_bytes
  by unfold_locales (auto simp: memory_store_ops_def memory_begin_write_def memory_write_at_def memory_commit_def Let_def)

text \<open>C4: A file sent over a link with both ends completes: whatever the turns of the receiver, when the libraries
  keep their laws, the sizes fit their fields and the mailboxes and the window fits a mailbox, the sender
  returns success after one chunk per piece of the file and without a retry, the receiver has returned
  success, and its store holds the file. The fuel is one more than the pieces of the file, and at least two.\<close>

theorem file_transfer_completes:
  assumes "np_store P = memory_store_ops" and "transfer_fits P c sha256 (sender_max_chunk_size config) data"
    and "0 < window_chunks config" and "window_chunks config \<le> lc_depth c"
    and "cs = agreed_size (lc_config c) (sender_max_chunk_size config)"
    and "div_ceil (length data) cs < n" and "1 < n"
  shows "\<exists>lk'. send_file_with_id_impl n rt sha256 (link_bus P c) (np_reader P) (link_new c sched st0) (lc_receiver c) st tid data tmo config =
       Some (Ok \<lparr>sfr_transfer_id = tid, sfr_total_len = length data, sfr_chunk_size = cs,
                 sfr_chunks_sent = div_ceil (length data) cs, sfr_retries = 0\<rparr>, observe_transfer_id st tid, lk') \<and>
     (\<exists>res. lk_phase lk' = RxDone (Ok res) \<and> rfr_received_len res = word_of_nat (length data)) \<and> ms_bytes (lk_store lk') = data"
proof -
  let ?q = "request_of sha256 (lc_config c) tid (sender_max_chunk_size config) data"
  have set: "setting memory_store_ops P c sha256 tid (sender_max_chunk_size config) data ?q cs"
    using assms by (simp add: setting_def)
  show ?thesis using memory.send_completes [OF set assms(3,4) refl, of n rt sched st0 st tmo] assms(6,7)
    by (auto simp: pieces_count_def recv_result_def)
qed

text \<open>The configuration of the benchmark, with a concrete codec and checksum in the place of the libraries.\<close>

definition bench_parts :: "(memory_store, unit, bytes, store_failure, unit) node_parts" where
  "bench_parts = \<lparr>np_builder = flat_builder, np_reader = flat_reader, np_store = memory_store_ops, np_hasher = checksum_hasher\<rparr>"

definition bench_link :: link_config where
  "bench_link = \<lparr>lc_depth = DEPTH, lc_body = MAX_BODY, lc_sender = NODE_A_ADDR, lc_receiver = NODE_B_ADDR, lc_runtime = Tokio,
     lc_timeout = 5000000000, lc_config = default_receiver_config\<rparr>"

lemma bench_fits: "length data < 2 ^ 32 \<Longrightarrow> transfer_fits bench_parts bench_link checksum (sender_max_chunk_size default_send_config) data"
  by (simp add: transfer_fits_def bench_parts_def bench_link_def flat_laws checksum_laws checksum_def SHA256_HASH_LEN_def
      default_send_config_def SEND_CHUNK_SIZE_def MAX_BODY_def DEPTH_def file_chunk_max_encoded_len_def file_offer_max_encoded_len_def
      capnp_padded_len_def Let_def)

theorem file_transfer_completes_witness:
  "\<exists>lk'. send_file_with_id_impl 4 Tokio checksum (link_bus bench_parts bench_link) flat_reader
      (link_new bench_link [0, 3, 1] \<lparr>ms_bytes = [1, 2]\<rparr>) NODE_B_ADDR send_state_new 1 (replicate 3000 7) 5000000000 default_send_config =
     Some (Ok \<lparr>sfr_transfer_id = 1, sfr_total_len = 3000, sfr_chunk_size = 1024, sfr_chunks_sent = 3, sfr_retries = 0\<rparr>,
       \<lparr>next_transfer_id = 2\<rparr>, lk') \<and> ms_bytes (lk_store lk') = replicate 3000 7"
proof -
  have p: "np_store bench_parts = memory_store_ops" "np_reader bench_parts = flat_reader" by (simp_all add: bench_parts_def)
  have cs: "agreed_size (lc_config bench_link) (sender_max_chunk_size default_send_config) = 1024"
    by (simp add: agreed_size_def bench_link_def default_receiver_config_def default_send_config_def SEND_CHUNK_SIZE_def negotiate_chunk_size_def)
  have len: "length (replicate 3000 (7 :: u8)) = 3000" by (rule length_replicate)
  show ?thesis
    using file_transfer_completes [OF p(1) bench_fits, of "replicate 3000 7" 1024 4 Tokio "[0, 3, 1]" "\<lparr>ms_bytes = [1, 2]\<rparr>" send_state_new 1 5000000000] cs p(2)
    by (simp only: len) (auto simp: default_send_config_def SEND_WINDOW_CHUNKS_def bench_link_def DEPTH_def div_ceil_def
        observe_transfer_id_def send_state_new_def)
qed

end
