(* ===== verification/Bench_Io.thy ===== *)
theory Bench_Io
  imports Bench_Common Interface Unix_Client
begin

text \<open>
  The input and output of the benchmark in \<open>file_transfer_bench_common.rs\<close>: the asynchronous sender over
  the blocking unix-socket client, the thread that forwards received frames into a channel and the receiver
  on the channel, the ISO-TP endpoint of a node, connecting with retries, and the task that feeds received
  payloads into the interface. The clock, the blocking pool and the connection are records of operations on
  an environment; the ISO-TP stack of the crate \<open>can-iso-tp\<close> is a record of the three functions that are
  called. Loops that wait take fuel.
\<close>

section \<open>Constants\<close>

definition MAX_PEERS :: usize where "MAX_PEERS = 4"
definition MAX_ISOTP_PAYLOAD :: usize where "MAX_ISOTP_PAYLOAD = 4095"
definition MAX_WAITERS :: usize where "MAX_WAITERS = 8"
definition TX_BUF_LEN :: usize where "TX_BUF_LEN = 8192"

text \<open>The ids of the atlas, in the order of the bundle.\<close>

definition bench_atlas_ids :: "u16 list" where "bench_atlas_ids = [0x1001, 0x1002, 0x1003]"

definition IO_SLICE :: duration where "IO_SLICE = 20000000"

section \<open>Sending\<close>

text \<open>The clock, the result of joining the blocking task (\<open>Some\<close> its error), the state of the mutex, the
  client's \<open>send_timeout\<close> (\<open>None\<close> when the call does not return), and \<open>yield_now\<close>.\<close>

record ('w, 'f, 'x) tx_env =
  te_now :: "'w \<Rightarrow> nat \<times> 'w"
  te_join :: "'w \<Rightarrow> string option \<times> 'w"
  te_poisoned :: "'w \<Rightarrow> bool"
  te_send :: "'w \<Rightarrow> 'f \<Rightarrow> duration \<Rightarrow> ((unit, 'x unix_can_error) result \<times> 'w) option"
  te_yield :: "'w \<Rightarrow> 'w"
  te_other :: "string \<Rightarrow> 'x"

definition join_err_to_unix_can :: "('w, 'f, 'x) tx_env \<Rightarrow> string \<Rightarrow> 'x unix_can_error" where
  "join_err_to_unix_can E err = UcIo (EOther (te_other E (''spawn_blocking join error: '' @ err)))"

definition blocking_send ::
    "('w, 'f, 'x) tx_env \<Rightarrow> 'w \<Rightarrow> 'f \<Rightarrow> duration \<Rightarrow> ((unit, 'x unix_can_error) result \<times> 'w) option" where
  "blocking_send E w frame part =
     (case te_join E w of
        (Some err, w1) \<Rightarrow> Some (Err (join_err_to_unix_can E err), w1)
      | (None, w1) \<Rightarrow>
          if te_poisoned E w1 then Some (Err (UcProtocol ''mutex poisoned''), w1) else te_send E w1 frame part)"

definition retryable :: "(unit, 'x unix_can_error) result \<Rightarrow> bool" where
  "retryable r \<longleftrightarrow> r = Err UcTimeout \<or> r = Err UcWouldBlock"

fun async_send_loop ::
    "nat \<Rightarrow> ('w, 'f, 'x) tx_env \<Rightarrow> 'w \<Rightarrow> 'f \<Rightarrow> nat \<Rightarrow> ((unit, 'x unix_can_error) result \<times> 'w) option" where
  "async_send_loop 0 E w frame deadline = None"
| "async_send_loop (Suc n) E w frame deadline =
     (let (now, w1) = te_now E w in
      if now \<ge> deadline then Some (Err UcTimeout, w1)
      else
        let part = min IO_SLICE (deadline - now) in
        (case blocking_send E w1 frame part of
           None \<Rightarrow> None
         | Some (res, w2) \<Rightarrow>
             if retryable res then async_send_loop n E (te_yield E w2) frame deadline else Some (res, w2)))"

definition async_send_timeout ::
    "nat \<Rightarrow> ('w, 'f, 'x) tx_env \<Rightarrow> 'w \<Rightarrow> 'f \<Rightarrow> duration \<Rightarrow> ((unit, 'x unix_can_error) result \<times> 'w) option" where
  "async_send_timeout n E w frame tmo =
     (let (now, w1) = te_now E w in async_send_loop n E w1 frame (now + tmo))"

fun async_send :: "nat \<Rightarrow> ('w, 'f, 'x) tx_env \<Rightarrow> 'w \<Rightarrow> 'f \<Rightarrow> ((unit, 'x unix_can_error) result \<times> 'w) option" where
  "async_send 0 E w frame = None"
| "async_send (Suc n) E w frame =
     (case async_send_timeout n E w frame IO_SLICE of
        None \<Rightarrow> None
      | Some (r, w1) \<Rightarrow> if retryable r then async_send n E (te_yield E w1) frame else Some (r, w1))"

section \<open>Receiving\<close>

text \<open>The unbounded channel between the forwarder thread and the receiver: the events in it, and whether each
  end still exists.\<close>

record ('f, 'x) rx_channel =
  ch_events :: "('f, 'x unix_can_error) result list"
  ch_sender :: bool
  ch_receiver :: bool

definition rx_channel_new :: "('f, 'x) rx_channel" where
  "rx_channel_new = \<lparr>ch_events = [], ch_sender = True, ch_receiver = True\<rparr>"

definition events_send :: "('f, 'x) rx_channel \<Rightarrow> ('f, 'x unix_can_error) result \<Rightarrow> bool \<times> ('f, 'x) rx_channel" where
  "events_send ch ev = (if ch_receiver ch then (True, ch\<lparr>ch_events := ch_events ch @ [ev]\<rparr>) else (False, ch))"

text \<open>One iteration of the forwarder: what \<open>rx_can.recv()\<close> gave, and whether the thread goes on.\<close>

definition forward_step :: "('f, 'x) rx_channel \<Rightarrow> ('f, 'x unix_can_error) result \<Rightarrow> bool \<times> ('f, 'x) rx_channel" where
  "forward_step ch ev =
     (case ev of
        Ok frame \<Rightarrow> events_send ch (Ok frame)
      | Err e \<Rightarrow>
          if e = UcTimeout \<or> e = UcWouldBlock then (True, ch)
          else let (_, ch1) = events_send ch (Err e) in (False, ch1))"

text \<open>A thread that ends drops its end of the channel.\<close>

definition forwarder :: "('f, 'x) rx_channel \<Rightarrow> ('f, 'x unix_can_error) result \<Rightarrow> ('f, 'x) rx_channel" where
  "forwarder ch ev =
     (if ch_sender ch then (case forward_step ch ev of (True, ch1) \<Rightarrow> ch1 | (False, ch1) \<Rightarrow> ch1\<lparr>ch_sender := False\<rparr>) else ch)"

text \<open>\<open>recv().await\<close> polled once: ready with an event or with the end of the channel, or pending.\<close>

definition chan_poll :: "('f, 'x) rx_channel \<Rightarrow> ('f, 'x unix_can_error) result option option \<times> ('f, 'x) rx_channel" where
  "chan_poll ch =
     (case ch_events ch of
        ev # evs \<Rightarrow> (Some (Some ev), ch\<lparr>ch_events := evs\<rparr>)
      | [] \<Rightarrow> (if ch_sender ch then None else Some None, ch))"

definition async_recv :: "('f, 'x) rx_channel \<Rightarrow> ('f, 'x unix_can_error) result option \<times> ('f, 'x) rx_channel" where
  "async_recv ch =
     (case chan_poll ch of
        (Some (Some (Ok frame)), ch1) \<Rightarrow> (Some (Ok frame), ch1)
      | (Some (Some (Err err)), ch1) \<Rightarrow> (Some (Err err), ch1)
      | (Some None, ch1) \<Rightarrow> (Some (Err UcDisconnected), ch1)
      | (None, ch1) \<Rightarrow> (None, ch1))"

text \<open>Under a timer: \<open>elapsed\<close> says that the timer fires while the receive is pending.\<close>

definition async_recv_timeout ::
    "bool \<Rightarrow> ('f, 'x) rx_channel \<Rightarrow> ('f, 'x unix_can_error) result option \<times> ('f, 'x) rx_channel" where
  "async_recv_timeout elapsed ch =
     (case chan_poll ch of
        (Some (Some (Ok frame)), ch1) \<Rightarrow> (Some (Ok frame), ch1)
      | (Some (Some (Err err)), ch1) \<Rightarrow> (Some (Err err), ch1)
      | (Some None, ch1) \<Rightarrow> (Some (Err UcDisconnected), ch1)
      | (None, ch1) \<Rightarrow> (if elapsed then Some (Err UcTimeout) else None, ch1))"

definition async_wait_not_empty :: "('f, 'x) rx_channel \<Rightarrow> (unit, 'x unix_can_error) result" where
  "async_wait_not_empty ch = Ok ()"

section \<open>The endpoint of a node\<close>

datatype 'e stack_error = StackTimeout | StackOther 'e

datatype 'e app_recv_error = AppBufferTooSmall usize usize | AppIsoTp "'e stack_error"

record ('d, 'e) isotp_app =
  ap_send_to :: "'d \<Rightarrow> u8 \<Rightarrow> bytes \<Rightarrow> duration \<Rightarrow> (unit, 'e stack_error) result \<times> 'd"
  ap_send_functional_to :: "'d \<Rightarrow> u8 \<Rightarrow> bytes \<Rightarrow> duration \<Rightarrow> (unit, 'e stack_error) result \<times> 'd"
  ap_recv_next_into :: "'d \<Rightarrow> duration \<Rightarrow> bytes \<Rightarrow> ((u8 \<times> usize) option, 'e app_recv_error) result \<times> bytes \<times> 'd"

fun bench_map_send :: "'e stack_error \<Rightarrow> 'e stack_error send_error" where
  "bench_map_send StackTimeout = SendTimeout"
| "bench_map_send e = SendBackend e"

definition bench_send_to ::
    "('d, 'e) isotp_app \<Rightarrow> 'd \<Rightarrow> u8 \<Rightarrow> bytes \<Rightarrow> duration \<Rightarrow> (unit, 'e stack_error send_error) result \<times> 'd" where
  "bench_send_to A demux dst payload tmo =
     (let (r, demux1) = ap_send_to A demux dst payload tmo in (map_err bench_map_send r, demux1))"

definition bench_send_functional_to ::
    "('d, 'e) isotp_app \<Rightarrow> 'd \<Rightarrow> u8 \<Rightarrow> bytes \<Rightarrow> duration \<Rightarrow> (unit, 'e stack_error send_error) result \<times> 'd" where
  "bench_send_functional_to A demux functional_to payload tmo =
     (let (r, demux1) = ap_send_functional_to A demux functional_to payload tmo in (map_err bench_map_send r, demux1))"

text \<open>\<open>recv_one\<close>, with the callback and what it captures passed in; \<open>&out[..len]\<close> panics when it is too long.\<close>

definition bench_recv_one ::
    "('d, 'e) isotp_app \<Rightarrow> 'd \<Rightarrow> duration \<Rightarrow> (recv_meta \<Rightarrow> bytes \<Rightarrow> 'c \<Rightarrow> (recv_control, 'e stack_error) result \<times> 'c) \<Rightarrow> 'c \<Rightarrow>
     (recv_status, 'e stack_error recv_error) result outcome \<times> 'd \<times> 'c" where
  "bench_recv_one A demux tmo on_payload captured =
     (case ap_recv_next_into A demux tmo (replicate MAX_ISOTP_PAYLOAD 0) of
        (Ok None, out, demux1) \<Rightarrow> (Return (Ok RecvTimedOut), demux1, captured)
      | (Ok (Some (src, len)), out, demux1) \<Rightarrow>
          if len > length out then (Panic, demux1, captured)
          else (case on_payload \<lparr>reply_to = src\<rparr> (take len out) captured of
                  (Err e, c1) \<Rightarrow> (Return (Err (RecvBackend e)), demux1, c1)
                | (Ok _, c1) \<Rightarrow> (Return (Ok RecvDeliveredOne), demux1, c1))
      | (Err (AppBufferTooSmall n g), out, demux1) \<Rightarrow> (Return (Err (RecvBufferTooSmall n g)), demux1, captured)
      | (Err (AppIsoTp StackTimeout), out, demux1) \<Rightarrow> (Return (Ok RecvTimedOut), demux1, captured)
      | (Err (AppIsoTp e), out, demux1) \<Rightarrow> (Return (Err (RecvBackend e)), demux1, captured))"

definition build_interface :: "('w, 'r) watch_ops \<Rightarrow> 'd \<Rightarrow> ('d, 'w) iface" where
  "build_interface W nd = iface_new W (length bench_atlas_ids) DEPTH MAX_BODY nd nd (replicate TX_BUF_LEN 0)"

section \<open>Connecting\<close>

datatype io_kind = NotFound | ConnectionRefused | OtherKind

datatype 'e retry_error = WaitedTooLong 'e | NonRetryable 'e

record ('w, 'c, 'e) connect_env =
  ce_connect :: "'w \<Rightarrow> ('c, 'e) result \<times> 'w"
  ce_kind :: "'e \<Rightarrow> io_kind"
  ce_now :: "'w \<Rightarrow> nat \<times> 'w"
  ce_sleep :: "'w \<Rightarrow> duration \<Rightarrow> 'w"

definition RETRY_PAUSE :: duration where "RETRY_PAUSE = 100000000"

fun connect_retry_loop ::
    "nat \<Rightarrow> ('w, 'c, 'e) connect_env \<Rightarrow> 'w \<Rightarrow> nat \<Rightarrow> duration \<Rightarrow> (('c, 'e retry_error) result \<times> 'w) option" where
  "connect_retry_loop 0 E w started wait_timeout = None"
| "connect_retry_loop (Suc n) E w started wait_timeout =
     (case ce_connect E w of
        (Ok can, w1) \<Rightarrow> Some (Ok can, w1)
      | (Err err, w1) \<Rightarrow>
          if ce_kind E err = NotFound \<or> ce_kind E err = ConnectionRefused then
            let (now, w2) = ce_now E w1 in
            if now - started \<ge> wait_timeout then Some (Err (WaitedTooLong err), w2)
            else connect_retry_loop n E (ce_sleep E w2 RETRY_PAUSE) started wait_timeout
          else Some (Err (NonRetryable err), w1))"

definition connect_with_retry ::
    "nat \<Rightarrow> ('w, 'c, 'e) connect_env \<Rightarrow> 'w \<Rightarrow> duration \<Rightarrow> (('c, 'e retry_error) result \<times> 'w) option" where
  "connect_with_retry n E w wait_timeout = (let (started, w1) = ce_now E w in connect_retry_loop n E w1 started wait_timeout)"

text \<open>Two connections, one to send on and one for the forwarder thread, then the demultiplexer over both. Starting
  the thread and \<open>IsoTpAsyncDemux::new\<close> are operations of the environment, as is the default configuration.\<close>

record ('w, 'c, 'f, 'x, 'd, 'z, 'e) bench_env =
  be_connect :: "('w, 'c, 'e) connect_env"
  be_spawn :: "'w \<Rightarrow> 'c \<Rightarrow> (unit, 'e) result \<times> 'w"
  be_default_cfg :: "'z isotp_config_scheme"
  be_demux :: "'c \<Rightarrow> ('f, 'x) rx_channel \<Rightarrow> 'z isotp_config_scheme \<Rightarrow> u8 \<Rightarrow> bytes list \<Rightarrow> ('d, 'e) result"

datatype 'e node_error = NodeConnect "'e retry_error" | NodeSpawn 'e | NodeDemux 'e

definition bench_isotp_config :: "'z isotp_config_scheme \<Rightarrow> 'z isotp_config_scheme" where
  "bench_isotp_config d = d\<lparr>ic_max_payload_len := MAX_ISOTP_PAYLOAD, ic_frame_len := 64, ic_block_size := 0\<rparr>"

definition connect_bench_node ::
    "nat \<Rightarrow> ('w, 'c, 'f, 'x, 'd, 'z, 'e) bench_env \<Rightarrow> 'w \<Rightarrow> u8 \<Rightarrow> duration \<Rightarrow> (('d, 'e node_error) result \<times> 'w) option" where
  "connect_bench_node n E w local_addr wait_timeout =
     (case connect_with_retry n (be_connect E) w wait_timeout of
        None \<Rightarrow> None
      | Some (Err e, w1) \<Rightarrow> Some (Err (NodeConnect e), w1)
      | Some (Ok tx_can, w1) \<Rightarrow>
          (case connect_with_retry n (be_connect E) w1 wait_timeout of
             None \<Rightarrow> None
           | Some (Err e, w2) \<Rightarrow> Some (Err (NodeConnect e), w2)
           | Some (Ok rx_can, w2) \<Rightarrow>
               (case be_spawn E w2 rx_can of
                  (Err e, w3) \<Rightarrow> Some (Err (NodeSpawn e), w3)
                | (Ok _, w3) \<Rightarrow>
                    Some (map_err NodeDemux
                      (be_demux E tx_can rx_channel_new (bench_isotp_config (be_default_cfg E)) local_addr
                         (replicate MAX_PEERS (replicate MAX_ISOTP_PAYLOAD 0))), w3))))"

section \<open>The ingress pump\<close>

datatype 'e pump_end =
    PumpStopped
  | PumpPanicked
  | PumpIngestError ingest_error
  | PumpTooSmall usize usize
  | PumpTransportError 'e

text \<open>One iteration: receive at most one payload into \<open>delivered\<close>, then ingest it.\<close>

definition pump_iteration ::
    "('d, 'e) isotp_app \<Rightarrow> ('w, 'r) watch_ops \<Rightarrow> duration \<Rightarrow> 'd \<Rightarrow> ('n, 'w) iface \<Rightarrow>
     'e stack_error pump_end option \<times> 'd \<times> ('n, 'w) iface" where
  "pump_iteration A W recv_timeout nd ifc =
     (case bench_recv_one A nd recv_timeout (\<lambda>meta payload delivered. (Ok RecvContinue, Some (reply_to meta, payload))) None of
        (Panic, nd1, _) \<Rightarrow> (Some PumpPanicked, nd1, ifc)
      | (Return (Ok RecvTimedOut), nd1, _) \<Rightarrow> (None, nd1, ifc)
      | (Return (Ok RecvDeliveredOne), nd1, None) \<Rightarrow> (None, nd1, ifc)
      | (Return (Ok RecvDeliveredOne), nd1, Some (src, payload)) \<Rightarrow>
          (case ingest W bench_atlas_ids DEPTH MAX_BODY ifc src payload of
             (Err e, ifc1) \<Rightarrow> (Some (PumpIngestError e), nd1, ifc1)
           | (Ok _, ifc1) \<Rightarrow> (None, nd1, ifc1))
      | (Return (Err (RecvBufferTooSmall n g)), nd1, _) \<Rightarrow> (Some (PumpTooSmall n g), nd1, ifc)
      | (Return (Err (RecvBackend e)), nd1, _) \<Rightarrow> (Some (PumpTransportError e), nd1, ifc))"

text \<open>The task over what happens around it: before each iteration it reads \<open>stop\<close>, and the other tasks have
  changed the interface. \<open>None\<close>: it still runs.\<close>

fun run_ingress_pump ::
    "('d, 'e) isotp_app \<Rightarrow> ('w, 'r) watch_ops \<Rightarrow> duration \<Rightarrow> (bool \<times> (('n, 'w) iface \<Rightarrow> ('n, 'w) iface)) list \<Rightarrow> 'd \<Rightarrow> ('n, 'w) iface \<Rightarrow>
     'e stack_error pump_end option \<times> 'd \<times> ('n, 'w) iface" where
  "run_ingress_pump A W recv_timeout [] nd ifc = (None, nd, ifc)"
| "run_ingress_pump A W recv_timeout ((stop, others) # rest) nd ifc =
     (if stop then (Some PumpStopped, nd, others ifc)
      else (case pump_iteration A W recv_timeout nd (others ifc) of
              (Some e, nd1, ifc1) \<Rightarrow> (Some e, nd1, ifc1)
            | (None, nd1, ifc1) \<Rightarrow> run_ingress_pump A W recv_timeout rest nd1 ifc1))"

section \<open>The message set\<close>

text \<open>The maplet of the benchmark compiles, and its table is the one the interface and the pump work with.\<close>

lemma bench_maplet:
  "maplet_expand (BundleAliases [(''file_transfer'', file_transfer_message_ids 0x1001 0x1002 0x1003)]) = Return bench_atlas_ids"
  "length bench_atlas_ids = FILE_TRANSFER_MESSAGE_COUNT"
  by (simp_all add: maplet_expand_eq file_transfer_message_ids_def bench_atlas_ids_def FILE_TRANSFER_MESSAGE_COUNT_def)

lemma build_interface_wf: "iface_wf bench_atlas_ids DEPTH MAX_BODY (build_interface W nd)"
  by (simp add: build_interface_def iface_new_wf)

section \<open>Attempts of the sender\<close>

text \<open>A log of the calls of the client: the time given to each, and its result.\<close>

definition logged_tx ::
    "('w, 'f, 'x) tx_env \<Rightarrow> ('w \<times> (duration \<times> (unit, 'x unix_can_error) result) list, 'f, 'x) tx_env" where
  "logged_tx E =
     \<lparr>te_now = \<lambda>(w, l). case te_now E w of (t, w1) \<Rightarrow> (t, w1, l),
      te_join = \<lambda>(w, l). case te_join E w of (j, w1) \<Rightarrow> (j, w1, l),
      te_poisoned = \<lambda>(w, l). te_poisoned E w,
      te_send = \<lambda>(w, l) f t. map_option (\<lambda>(r, w1). (r, w1, l @ [(t, r)])) (te_send E w f t),
      te_yield = \<lambda>(w, l). (te_yield E w, l),
      te_other = te_other E\<rparr>"

text \<open>A clock that never goes back and moves on while the task yields.\<close>

definition tx_clock :: "('w, 'f, 'x) tx_env \<Rightarrow> ('w \<Rightarrow> nat) \<Rightarrow> bool" where
  "tx_clock E time \<longleftrightarrow>
     (\<forall>w t w'. te_now E w = (t, w') \<longrightarrow> t = time w \<and> time w \<le> time w') \<and>
     (\<forall>w j w'. te_join E w = (j, w') \<longrightarrow> time w \<le> time w') \<and>
     (\<forall>w f d. \<exists>r w'. te_send E w f d = Some (r, w') \<and> time w \<le> time w') \<and>
     (\<forall>w. time w < time (te_yield E w))"

definition attempts_ok :: "duration \<Rightarrow> (unit, 'x unix_can_error) result \<Rightarrow> (duration \<times> (unit, 'x unix_can_error) result) list \<Rightarrow> bool" where
  "attempts_ok tmo r l \<longleftrightarrow>
     (\<forall>(t, q) \<in> set l. 0 < t \<and> t \<le> IO_SLICE \<and> t \<le> tmo) \<and> (\<forall>(t, q) \<in> set (butlast l). retryable q) \<and>
     (r = Ok () \<longleftrightarrow> l \<noteq> [] \<and> snd (last l) = Ok ())"

lemma logged_tx_simps [simp]:
  "te_now (logged_tx E) (w, l) = (fst (te_now E w), snd (te_now E w), l)"
  "te_join (logged_tx E) (w, l) = (fst (te_join E w), snd (te_join E w), l)"
  "te_poisoned (logged_tx E) (w, l) = te_poisoned E w"
  "te_send (logged_tx E) (w, l) f t = map_option (\<lambda>(r, w'). (r, w', l @ [(t, r)])) (te_send E w f t)"
  "te_yield (logged_tx E) (w, l) = (te_yield E w, l)"
  by (simp_all add: logged_tx_def split: prod.splits)

lemma retryable_simps [simp]: "\<not> retryable (Ok ())" "retryable (Err UcTimeout)"
  by (simp_all add: retryable_def)

text \<open>The task either fails before the client is called, or the client's result is logged.\<close>

lemma blocking_send_logged:
  assumes clock: "tx_clock E time" and run: "blocking_send (logged_tx E) (w, l) f t = Some (r, w1, l1)"
  shows "time w \<le> time w1 \<and> (l1 = l @ [(t, r)] \<or> l1 = l \<and> r \<noteq> Ok () \<and> \<not> retryable r)"
proof -
  obtain j w0 where j: "te_join E w = (j, w0)" by (rule prod.exhaust)
  obtain q w2 where q: "te_send E w0 f t = Some (q, w2)" "time w0 \<le> time w2" using clock unfolding tx_clock_def by blast
  have "time w \<le> time w0" using clock j by (auto simp: tx_clock_def)
  then show ?thesis using run j q
    by (cases j) (auto simp: blocking_send_def join_err_to_unix_can_def retryable_def split: if_splits)
qed

lemma blocking_send_returns: "tx_clock E time \<Longrightarrow> \<exists>r w1 l1. blocking_send (logged_tx E) (w, l) f t = Some (r, w1, l1)"
  unfolding tx_clock_def blocking_send_def by (fastforce split: prod.splits option.splits)

lemma async_send_loop_attempts:
  assumes clock: "tx_clock E time"
  shows "deadline - time w < n \<Longrightarrow> deadline \<le> time w + tmo \<Longrightarrow>
    \<exists>r w' as. async_send_loop n (logged_tx E) (w, l) f deadline = Some (r, w', l @ as) \<and> attempts_ok tmo r as"
proof (induction n arbitrary: w l)
  case (Suc n)
  obtain t w1 where now: "te_now E w = (t, w1)" by (rule prod.exhaust)
  then have t: "t = time w" "time w \<le> time w1" using clock by (auto simp: tx_clock_def)
  show ?case
  proof (cases "deadline \<le> t")
    case True
    then show ?thesis using now by (auto simp: attempts_ok_def intro!: exI [of _ "[]"])
  next
    case False
    let ?p = "min IO_SLICE (deadline - t)"
    obtain q w2 l2 where send: "blocking_send (logged_tx E) (w1, l) f ?p = Some (q, w2, l2)"
      using blocking_send_returns [OF clock] by blast
    have p: "0 < ?p" "?p \<le> IO_SLICE" "?p \<le> tmo" using False Suc.prems(2) t by (auto simp: IO_SLICE_def)
    note b = blocking_send_logged [OF clock send]
    show ?thesis
    proof (cases "retryable q")
      case True
      then have l2: "l2 = l @ [(?p, q)]" using b by auto
      have y: "time w2 < time (te_yield E w2)" using clock by (simp add: tx_clock_def)
      then have f1: "deadline - time (te_yield E w2) < n" and d1: "deadline \<le> time (te_yield E w2) + tmo"
        using Suc.prems b t False by linarith+
      obtain r w' as where ih: "async_send_loop n (logged_tx E) (te_yield E w2, l2) f deadline = Some (r, w', l2 @ as)" "attempts_ok tmo r as"
        using Suc.IH [OF f1 d1] by blast
      have "attempts_ok tmo r ((?p, q) # as)" using ih(2) p True by (auto simp: attempts_ok_def)
      then show ?thesis using ih(1) now send False True l2 t
        by (intro exI [of _ r] exI [of _ w'] exI [of _ "(?p, q) # as"]) (simp add: Let_def)
    next
      case no_retry: False
      have "attempts_ok tmo q (drop (length l) l2) \<and> l2 = l @ drop (length l) l2"
        using b p no_retry by (cases q) (auto simp: attempts_ok_def)
      then show ?thesis using now send False no_retry t
        by (intro exI [of _ q] exI [of _ w2] exI [of _ "drop (length l) l2"]) (simp add: Let_def)
    qed
  qed
qed simp



section \<open>Connecting\<close>

definition connect_clock :: "('w, 'c, 'e) connect_env \<Rightarrow> ('w \<Rightarrow> nat) \<Rightarrow> bool" where
  "connect_clock E time \<longleftrightarrow>
     (\<forall>w t w'. ce_now E w = (t, w') \<longrightarrow> t = time w \<and> time w \<le> time w') \<and>
     (\<forall>w r w'. ce_connect E w = (r, w') \<longrightarrow> time w \<le> time w') \<and>
     (\<forall>w d. time w + d \<le> time (ce_sleep E w d))"

lemma connect_retry_loop_returns:
  assumes clock: "connect_clock E time"
  shows "started + wait_timeout \<le> time w + n * RETRY_PAUSE \<Longrightarrow> \<exists>r w'. connect_retry_loop (Suc n) E w started wait_timeout = Some (r, w')"
proof (induction n arbitrary: w)
  case 0
  obtain r w1 where c: "ce_connect E w = (r, w1)" by (rule prod.exhaust)
  obtain t w2 where t: "ce_now E w1 = (t, w2)" by (rule prod.exhaust)
  have "time w \<le> time w1" using clock c unfolding connect_clock_def by blast
  moreover have "t = time w1" using clock t unfolding connect_clock_def by blast
  ultimately show ?case using 0 c t by (auto split: result.splits)
next
  case (Suc n)
  obtain r w1 where c: "ce_connect E w = (r, w1)" by (rule prod.exhaust)
  obtain t w2 where t: "ce_now E w1 = (t, w2)" by (rule prod.exhaust)
  have "time w \<le> time w1" "time w1 \<le> time w2" "time w2 + RETRY_PAUSE \<le> time (ce_sleep E w2 RETRY_PAUSE)"
    using clock c t unfolding connect_clock_def by blast+
  then have "started + wait_timeout \<le> time (ce_sleep E w2 RETRY_PAUSE) + n * RETRY_PAUSE" using Suc.prems by simp
  from Suc.IH [OF this] show ?case using c t by (simp only: connect_retry_loop.simps) (auto split: result.splits)
qed

lemma connect_with_retry_returns:
  assumes "connect_clock E time"
  shows "\<exists>r w'. connect_with_retry (Suc (div_ceil wait_timeout RETRY_PAUSE)) E w wait_timeout = Some (r, w')"
proof -
  obtain t w1 where t: "ce_now E w = (t, w1)" by (rule prod.exhaust)
  have "wait_timeout \<le> div_ceil wait_timeout RETRY_PAUSE * RETRY_PAUSE"
    using div_ceil_le_iff [of RETRY_PAUSE wait_timeout "div_ceil wait_timeout RETRY_PAUSE"] by (simp add: RETRY_PAUSE_def)
  moreover have "t \<le> time w1" using assms t by (auto simp: connect_clock_def)
  ultimately have "t + wait_timeout \<le> time w1 + div_ceil wait_timeout RETRY_PAUSE * RETRY_PAUSE" by linarith
  from connect_retry_loop_returns [OF assms this] show ?thesis using t by (simp add: connect_with_retry_def)
qed

lemma connect_bench_node_returns:
  assumes "connect_clock (be_connect E) time"
  shows "\<exists>r w'. connect_bench_node (Suc (div_ceil wait_timeout RETRY_PAUSE)) E w local_addr wait_timeout = Some (r, w')"
proof -
  let ?n = "Suc (div_ceil wait_timeout RETRY_PAUSE)"
  obtain r w1 where 1: "connect_with_retry ?n (be_connect E) w wait_timeout = Some (r, w1)"
    using connect_with_retry_returns [OF assms] by blast
  obtain q w2 where 2: "connect_with_retry ?n (be_connect E) w1 wait_timeout = Some (q, w2)"
    using connect_with_retry_returns [OF assms] by blast
  show ?thesis using 1 2 by (cases r; cases q) (auto simp: connect_bench_node_def split: prod.splits result.splits)
qed

section \<open>The channel of received frames\<close>

text \<open>The forwarder and the receiver in any order: every result the client gives is either dropped by the
  forwarder (a timeout) or handed out once, in order, up to and including the error that ends the thread.\<close>

datatype ('f, 'x) chan_event = Forward "('f, 'x unix_can_error) result" | Poll

record ('f, 'x) chan_run =
  cr_chan :: "('f, 'x) rx_channel"
  cr_in :: "('f, 'x unix_can_error) result list"
  cr_out :: "('f, 'x unix_can_error) result list"

fun chan_step :: "('f, 'x) chan_run \<Rightarrow> ('f, 'x) chan_event \<Rightarrow> ('f, 'x) chan_run" where
  "chan_step s (Forward ev) = s\<lparr>cr_chan := forwarder (cr_chan s) ev, cr_in := (if ch_sender (cr_chan s) then cr_in s @ [ev] else cr_in s)\<rparr>"
| "chan_step s Poll =
     (case async_recv (cr_chan s) of
        (Some r, ch) \<Rightarrow> s\<lparr>cr_chan := ch, cr_out := cr_out s @ [r]\<rparr>
      | (None, ch) \<Rightarrow> s\<lparr>cr_chan := ch\<rparr>)"

definition passed :: "('f, 'x unix_can_error) result list \<Rightarrow> ('f, 'x unix_can_error) result list" where
  "passed evs = filter (\<lambda>ev. ev \<noteq> Err UcTimeout \<and> ev \<noteq> Err UcWouldBlock) evs"

definition chan_inv :: "('f, 'x) chan_run \<Rightarrow> bool" where
  "chan_inv s \<longleftrightarrow> ch_receiver (cr_chan s) \<and>
     (\<exists>k. cr_out s @ ch_events (cr_chan s) = passed (cr_in s) \<or>
        \<not> ch_sender (cr_chan s) \<and> ch_events (cr_chan s) = [] \<and> cr_out s = passed (cr_in s) @ replicate k (Err UcDisconnected))"

lemma chan_step_inv: "chan_inv s \<Longrightarrow> chan_inv (chan_step s e)"
proof (cases e)
  case (Forward ev)
  assume inv: "chan_inv s"
  show ?thesis
  proof (cases "ch_sender (cr_chan s)")
    case True
    then show ?thesis using inv Forward
      by (cases ev) (auto simp: chan_inv_def forwarder_def forward_step_def events_send_def passed_def Let_def split: if_splits)
  qed (use inv Forward in \<open>simp add: chan_inv_def forwarder_def\<close>)
next
  case Poll
  assume inv: "chan_inv s"
  show ?thesis
  proof (cases "ch_events (cr_chan s)")
    case (Cons ev evs)
    then show ?thesis using inv Poll by (cases ev) (auto simp: chan_inv_def async_recv_def chan_poll_def)
  next
    case Nil
    show ?thesis
    proof (cases "ch_sender (cr_chan s)")
      case True
      then show ?thesis using inv Poll Nil by (auto simp: chan_inv_def async_recv_def chan_poll_def)
    next
      case False
      obtain k where "cr_out s = passed (cr_in s) @ replicate k (Err UcDisconnected)"
        using inv Nil False by (auto simp: chan_inv_def intro: exI [of _ 0])
      then have "cr_out s @ [Err UcDisconnected] = passed (cr_in s) @ replicate (Suc k) (Err UcDisconnected)"
        by (simp add: replicate_append_same)
      then show ?thesis using inv Poll Nil False unfolding chan_inv_def
        by (intro conjI exI [of _ "Suc k"] disjI2) (simp_all add: async_recv_def chan_poll_def)
    qed
  qed
qed

interpretation chan_runs: run_invariant chan_step chan_inv "\<lambda>_. True"
  by unfold_locales (simp add: chan_step_inv)

lemma channel_in_order:
  assumes "s = run_steps chan_step \<lparr>cr_chan = rx_channel_new, cr_in = [], cr_out = []\<rparr> evs" "ch_sender (cr_chan s)"
  shows "cr_out s @ ch_events (cr_chan s) = passed (cr_in s)"
proof -
  have "list_all (\<lambda>_. True) evs" by (induction evs) simp_all
  then have "chan_inv s" unfolding assms(1)
    by (intro chan_runs.run_inv) (simp_all add: chan_inv_def rx_channel_new_def passed_def)
  then show ?thesis using assms(2) by (simp add: chan_inv_def)
qed

section \<open>The pump\<close>

text \<open>An ingest that fails, for instance on a full mailbox, ends the pump for good.\<close>

lemma pump_ends_on_ingest_error:
  assumes "ap_recv_next_into A nd t (replicate MAX_ISOTP_PAYLOAD 0) = (Ok (Some (src, len)), out, nd1)" "len \<le> length out"
    and "ingest W bench_atlas_ids DEPTH MAX_BODY (others ifc) src (take len out) = (Err e, ifc1)"
  shows "run_ingress_pump A W t ((False, others) # rest) nd ifc = (Some (PumpIngestError e), nd1, ifc1)"
  using assms by (simp add: pump_iteration_def bench_recv_one_def)

lemma pump_ingests:
  assumes "ap_recv_next_into A nd t (replicate MAX_ISOTP_PAYLOAD 0) = (Ok (Some (src, len)), out, nd1)" "len \<le> length out"
    and "ingest W bench_atlas_ids DEPTH MAX_BODY (others ifc) src (take len out) = (Ok oc, ifc1)"
  shows "run_ingress_pump A W t ((False, others) # rest) nd ifc = run_ingress_pump A W t rest nd1 ifc1"
  using assms by (simp add: pump_iteration_def bench_recv_one_def)

end
