(* ===== verification/Bench_Client.thy ===== *)
theory Bench_Client
  imports Bench_Io Unix_Client_Sent
begin

text \<open>
  The asynchronous sender of the benchmark over the unix-socket client of the other crate: every slice calls the
  client's \<open>send_timeout\<close> again, which writes the frame again under the next sequence number.
\<close>

section \<open>The sender on the client\<close>

text \<open>The environment of the sender is a connected client: the clock is the one of its socket, the blocking task always
  joins, nobody poisons the mutex, and between two slices the peer may do anything to the stream but what was read
  and written stays.\<close>

definition client_tx_env ::
    "nat \<Rightarrow> ('s, 'e) can_id_api \<Rightarrow> ('k, 'x) sock_ops \<Rightarrow> ('k \<Rightarrow> 'k) \<Rightarrow> (string \<Rightarrow> 'x) \<Rightarrow>
     (('s, 'e, 'k \<times> bytes \<times> bytes) unix_can, ('s, 'e) unix_frame, 'x) tx_env" where
  "client_tx_env n A S pause other =
     \<lparr>te_now = \<lambda>c. (case so_now (logged_sock S) (uc_stream c) of (t, k) \<Rightarrow> (t, c\<lparr>uc_stream := k\<rparr>)),
      te_join = \<lambda>c. (None, c), te_poisoned = \<lambda>c. False,
      te_send = uc_send_timeout n A (logged_sock S),
      te_yield = \<lambda>c. c\<lparr>uc_stream := apfst pause (uc_stream c)\<rparr>,
      te_other = other\<rparr>"

text \<open>The bytes that attempts with the time slices \<open>ts\<close> leave on the stream.\<close>

definition attempts_sent ::
    "('s, 'e) can_id_api \<Rightarrow> ('s, 'e) unix_frame \<Rightarrow> ('s, 'e, 'k \<times> bytes \<times> bytes) unix_can \<Rightarrow> duration list \<Rightarrow> bytes list \<Rightarrow>
     ('s, 'e, 'k \<times> bytes \<times> bytes) unix_can \<Rightarrow> bool" where
  "attempts_sent A f c ts ps c' \<longleftrightarrow>
     out_log (uc_stream c') = out_log (uc_stream c) @ concat ps \<and>
     list_all2 prefix ps (spec_messages A (uc_next_seq c) (uc_filters c) (map (CSendTimeout f) ts))"

lemma attempts_sent_Nil [simp]: "attempts_sent A f c [] [] c' \<longleftrightarrow> out_log (uc_stream c') = out_log (uc_stream c)"
  by (simp add: attempts_sent_def)

lemma client_tx_keeps:
  assumes "te_now (client_tx_env n A S pause other) c = (t, c')"
  shows "\<exists>k. c' = c\<lparr>uc_stream := k\<rparr> \<and> out_log k = out_log (uc_stream c)"
  using assms logged_now [of S "uc_stream c"] by (auto simp: client_tx_env_def split: prod.splits)

lemma client_tx_send:
  fixes A :: "('s, 'e) can_id_api" and S :: "('k, 'x) sock_ops"
  assumes S: "sock_laws S" and wf: "buffer_wf c" and run: "blocking_send (client_tx_env n A S pause other) c f t = Some (r, c')"
  shows "buffer_wf c' \<and> uc_filters c' = uc_filters c \<and> uc_next_seq c' = uc_next_seq c + 1 \<and>
    (\<exists>p. attempts_sent A f c [t] [p] c' \<and> (r = Ok () \<longrightarrow> p = op_message A (uc_next_seq c) (uc_filters c) (CSendTimeout f t)))"
proof -
  have send: "uc_send_timeout n A (logged_sock S) c f t = Some (r, c')" using run by (simp add: blocking_send_def client_tx_env_def)
  then have st: "client_step n A (logged_sock S) c (CSendTimeout f t) = Some ([], c')" by simp
  have "buffer_wf c'" by (rule hands_out_wf [OF client_step_hands_out [OF S wf st]])
  moreover have "op_ok n A (logged_sock S) c (CSendTimeout f t) \<longleftrightarrow> r = Ok ()" using send by (cases r) (simp_all add: succeeds_def)
  ultimately show ?thesis using client_step_sends [OF S wf st] by (auto simp: sends_def attempts_sent_def)
qed

lemma async_send_loop_sent:
  fixes A :: "('s, 'e) can_id_api" and S :: "('k, 'x) sock_ops"
  assumes S: "sock_laws S"
  shows "buffer_wf c \<Longrightarrow> async_send_loop l (client_tx_env n A S pause other) c f deadline = Some (r, c') \<Longrightarrow>
    \<exists>ts ps. attempts_sent A f c ts ps c' \<and>
      (r = Ok () \<longrightarrow> ts \<noteq> [] \<and> last ps = last (spec_messages A (uc_next_seq c) (uc_filters c) (map (CSendTimeout f) ts)))"
proof (induction l arbitrary: c)
  case (Suc l)
  let ?E = "client_tx_env n A S pause other"
  obtain t c1 where now: "te_now ?E c = (t, c1)" by (rule prod.exhaust)
  obtain k where k: "c1 = c\<lparr>uc_stream := k\<rparr>" "out_log k = out_log (uc_stream c)" using client_tx_keeps [OF now] by blast
  show ?case
  proof (cases "deadline \<le> t")
    case True
    then have "attempts_sent A f c [] [] c' \<and> r = Err UcTimeout" using Suc.prems(2) now k by auto
    then show ?thesis by (metis result.distinct(1))
  next
    case False
    let ?p = "min IO_SLICE (deadline - t)"
    obtain q c2 where send: "blocking_send ?E c1 f ?p = Some (q, c2)"
      using Suc.prems(2) now False by (cases "blocking_send ?E c1 f ?p") auto
    have wf: "buffer_wf c1" using Suc.prems(1) k by (simp add: buffer_wf_def)
    obtain p where b: "buffer_wf c2" "uc_filters c2 = uc_filters c" "uc_next_seq c2 = uc_next_seq c + 1"
      "attempts_sent A f c [?p] [p] c2" "q = Ok () \<longrightarrow> p = op_message A (uc_next_seq c) (uc_filters c) (CSendTimeout f ?p)"
      using client_tx_send [OF S wf send] k by (auto simp: attempts_sent_def)
    show ?thesis
    proof (cases "retryable q")
      case True
      let ?c = "te_yield ?E c2"
      have y: "buffer_wf ?c" "uc_filters ?c = uc_filters c2" "uc_next_seq ?c = uc_next_seq c2" "out_log (uc_stream ?c) = out_log (uc_stream c2)"
        using b(1) by (simp_all add: client_tx_env_def buffer_wf_def out_log_def)
      have "async_send_loop l ?E ?c f deadline = Some (r, c')" using Suc.prems(2) now False send True by simp
      from Suc.IH [OF y(1) this] obtain ts ps where ih: "attempts_sent A f ?c ts ps c'"
        "r = Ok () \<longrightarrow> ts \<noteq> [] \<and> last ps = last (spec_messages A (uc_next_seq c2) (uc_filters c2) (map (CSendTimeout f) ts))"
        unfolding y by blast
      have "attempts_sent A f c (?p # ts) (p # ps) c'" using ih(1) b(2,3,4) y unfolding attempts_sent_def by auto
      moreover have "last (p # ps) = last (spec_messages A (uc_next_seq c) (uc_filters c) (map (CSendTimeout f) (?p # ts)))" if "r = Ok ()"
      proof -
        have "ts \<noteq> []" "ps \<noteq> []" using ih that unfolding attempts_sent_def by (cases ts; auto)+
        then show ?thesis using ih(2) that b(2,3) by (cases ts) auto
      qed
      ultimately show ?thesis by blast
    next
      case no: False
      then have "r = q \<and> c' = c2" using Suc.prems(2) now False send by simp
      then show ?thesis using b(4,5) by (intro exI [of _ "[?p]"] exI [of _ "[p]"]) simp
    qed
  qed
qed simp

section \<open>A late acknowledgement\<close>

text \<open>A socket whose acknowledgements are late: at an empty chunk a read would block and a wait runs out, which takes the
  time it was given.\<close>

definition slow_sock :: "(nat \<times> bytes list, unit) sock_ops" where
  "slow_sock =
     \<lparr>so_read = \<lambda>(t, cs) n. (case cs of [] \<Rightarrow> (Ok [], (t, cs)) | c # rest \<Rightarrow> if c = [] then (Err EWouldBlock, (t, cs)) else (Ok c, (t, rest))),
      so_write = \<lambda>k bs. (Ok (length bs), k),
      so_poll = \<lambda>(t, cs) w ms. (case cs of [] # rest \<Rightarrow> (Ok 0, (t + nat ms * 1000000, rest)) | _ \<Rightarrow> (Ok 1, (t, cs))),
      so_now = \<lambda>k. (fst k, k)\<rparr>"

lemma slow_sock_laws: "sock_laws slow_sock"
  by (simp add: sock_laws_def slow_sock_def)

lemma slow_sock_write_frame:
  "frame_wf f \<Longrightarrow> write_frame (Suc (Suc n)) A (logged_sock slow_sock) c q x f d =
     (let (k, i, out) = uc_stream c in Some (Ok (), c\<lparr>uc_stream := (k, i, out @ msg_bytes MSG_SEND_FRAME (send_payload A q x f))\<rparr>))"
  by (rule eager_write_frame) (simp_all add: slow_sock_def)

definition slow_acks :: bytes where
  "slow_acks = [3, 9, 0, 0, 0, 1, 0, 0, 0, 0, 0, 0, 0, 0] @ [3, 9, 0, 0, 0, 2, 0, 0, 0, 0, 0, 0, 0, 0]"

definition slow_client :: "nat \<Rightarrow> bytes list \<Rightarrow> bytes \<Rightarrow> bytes \<Rightarrow> nat \<Rightarrow> u64 \<Rightarrow>
    (11 word, 29 word, (nat \<times> bytes list) \<times> bytes \<times> bytes) unix_can" where
  "slow_client t cs i out at q = \<lparr>uc_stream = ((t, cs), i, out), uc_rx_queue = [], uc_rx_bytes = i, uc_rx_off = at,
     uc_next_seq = q, uc_filters = []\<rparr>"

abbreviation slow_message :: "u64 \<Rightarrow> bytes" where
  "slow_message q \<equiv> msg_bytes MSG_SEND_FRAME (send_payload bit_id_api q True example_frame)"

lemmas slow_reads_simps = wait_for_ack_def deadline_after_def next_decoded_msg_def with_next_msg_def read_more_once_def
  wait_readable_def remaining_ms_def logged_sock_def slow_sock_def slice_of_def u32_from_le_bytes_def decode_msg_def decode_ack_def
  u64_from_le_bytes_def wire_consts

lemma slow_first:
  "uc_send_timeout nine bit_id_api (logged_sock slow_sock) (slow_client 0 [[], slow_acks] [] [] 0 1) example_frame 20000000 =
     Some (Err UcTimeout, slow_client 20000000 [slow_acks] [] (slow_message 1) 0 2)"
  by (simp add: uc_send_timeout_def slow_sock_write_frame [OF example_frame_wf] uc_take_seq_def slow_client_def)
     (simp add: slow_reads_simps)

lemma slow_second:
  "uc_send_timeout nine bit_id_api (logged_sock slow_sock) (slow_client 20000000 [slow_acks] [] (slow_message 1) 0 2) example_frame 20000000 =
     Some (Ok (), slow_client 20000000 [] slow_acks (slow_message 1 @ slow_message 2) 28 3)"
  by (simp add: uc_send_timeout_def slow_sock_write_frame [OF example_frame_wf] uc_take_seq_def slow_client_def)
     (simp add: slow_reads_simps slow_acks_def)

lemma slow_run:
  "async_send_timeout (Suc (Suc 0)) (client_tx_env nine bit_id_api slow_sock id (\<lambda>_. ())) (slow_client 0 [[], slow_acks] [] [] 0 1)
     example_frame 50000000 = Some (Ok (), slow_client 20000000 [] slow_acks (slow_message 1 @ slow_message 2) 28 3)"
proof -
  let ?E = "client_tx_env nine bit_id_api slow_sock id (\<lambda>_. ())"
  have now: "te_now ?E (slow_client t cs i out at q) = (t, slow_client t cs i out at q)" for t cs i out at q
    by (simp add: client_tx_env_def slow_client_def logged_sock_def slow_sock_def)
  have pause: "te_yield ?E c = c" for c by (simp add: client_tx_env_def apfst_def map_prod_def)
  have send: "blocking_send ?E c f t = uc_send_timeout nine bit_id_api (logged_sock slow_sock) c f t" for c f t
    by (simp add: blocking_send_def client_tx_env_def)
  show ?thesis by (simp add: async_send_timeout_def now pause send slow_first slow_second IO_SLICE_def)
qed



end
