(* ===== verification/Bench_Programs.thy ===== *)
theory Bench_Programs
  imports Bench_Io
begin

text \<open>
  The two programs of the file-transfer benchmark, \<open>file-transfer-bench-a.rs\<close> (sends a random file and
  receives the echo) and \<open>file-transfer-bench-b.rs\<close> (receives and sends back): the rounds of \<open>run\<close>, over the
  sender and the receiver of the file-transfer crate and the store in memory. A round reports what the
  program prints of it, timings apart. The random generator is a parameter, and pauses are an operation on
  the bus.
\<close>

section \<open>Arguments and reports\<close>

record bench_a_args =
  ba_bytes :: usize
  ba_rounds :: u32
  ba_timeout_ms :: u64
  ba_wait_for_socket_ms :: u64
  ba_startup_delay_ms :: u64
  ba_offer_retries :: usize
  ba_offer_retry_delay_ms :: u64
  ba_seed :: "u64 option"
  ba_start_bus_server :: bool

record bench_b_args =
  bb_rounds :: u32
  bb_timeout_ms :: u64
  bb_wait_for_socket_ms :: u64

definition from_millis :: "u64 \<Rightarrow> duration" where
  "from_millis ms = unat ms * 1000000"

datatype 'ce bench_error =
    SendFailed error
  | SendExhausted
  | RecvFailedWith "(store_failure, 'ce) ft_error"
  | EchoMismatch nat usize

record round_report =
  rp_sent :: send_file_result
  rp_received :: recv_file_result
  rp_bytes :: bytes

text \<open>Everything outside the programs: the fuel of the loops that wait, the runtime, the libraries, the bus
  and the pauses.\<close>

record ('b, 'hs, 'ce) bench_world =
  bw_fuel :: nat
  bw_sha256 :: "bytes \<Rightarrow> bytes"
  bw_hasher :: "'hs hasher_ops"
  bw_reader :: "'ce capnp_reader"
  bw_ops :: "'b bus_ops"
  bw_sleep :: "'b file_transfer_bundle_instance \<Rightarrow> duration \<Rightarrow> 'b file_transfer_bundle_instance"
  bw_fill :: "u64 \<Rightarrow> usize \<Rightarrow> bytes"

definition bench_send ::
    "('b, 'hs, 'ce) bench_world \<Rightarrow> 'b file_transfer_bundle_instance \<Rightarrow> u8 \<Rightarrow> bytes \<Rightarrow> duration \<Rightarrow>
     ((send_file_result, error) result \<times> 'b file_transfer_bundle_instance) option" where
  "bench_send W self dst payload tmo =
     send_file (bw_fuel W) Tokio (bw_sha256 W) (bw_ops W) (bw_reader W) self dst payload tmo default_send_config"

definition bench_recv ::
    "('b, 'hs, 'ce) bench_world \<Rightarrow> 'b file_transfer_bundle_instance \<Rightarrow> u8 \<Rightarrow> memory_store \<Rightarrow> duration \<Rightarrow>
     ((recv_file_result, (store_failure, 'ce) ft_error) result \<times> 'b file_transfer_bundle_instance \<times> memory_store) option" where
  "bench_recv W self src st tmo =
     recv_file (bw_fuel W) Tokio (bw_ops W) (bw_reader W) memory_store_ops (bw_hasher W) self src st tmo default_receiver_config"

definition memory_store_default :: memory_store where
  "memory_store_default = \<lparr>ms_bytes = []\<rparr>"

section \<open>The initiator\<close>

text \<open>\<open>for attempt in 0..args.offer_retries\<close>: the attempts left and the next attempt. \<open>Ok None\<close>: the loop ends
  without a result.\<close>

fun send_attempts ::
    "('b, 'hs, 'ce) bench_world \<Rightarrow> bench_a_args \<Rightarrow> bytes \<Rightarrow> nat \<Rightarrow> nat \<Rightarrow> 'b file_transfer_bundle_instance \<Rightarrow>
     ((send_file_result option, 'ce bench_error) result \<times> 'b file_transfer_bundle_instance) option" where
  "send_attempts W args payload 0 attempt self = Some (Ok None, self)"
| "send_attempts W args payload (Suc left) attempt self =
     (case bench_send W self NODE_B_ADDR payload (from_millis (ba_timeout_ms args)) of
        None \<Rightarrow> None
      | Some (Ok out, self1) \<Rightarrow> Some (Ok (Some out), self1)
      | Some (Err e, self1) \<Rightarrow>
          if kind e = Timeout \<and> attempt + 1 < ba_offer_retries args
          then send_attempts W args payload left (attempt + 1) (bw_sleep W self1 (from_millis (ba_offer_retry_delay_ms args)))
          else Some (Err (SendFailed e), self1))"

definition round_payload :: "('b, 'hs, 'ce) bench_world \<Rightarrow> bench_a_args \<Rightarrow> u64 \<Rightarrow> nat \<Rightarrow> bytes" where
  "round_payload W args seed round = bw_fill W (seed + word_of_nat round) (ba_bytes args)"

definition a_round ::
    "('b, 'hs, 'ce) bench_world \<Rightarrow> bench_a_args \<Rightarrow> u64 \<Rightarrow> nat \<Rightarrow> 'b file_transfer_bundle_instance \<Rightarrow>
     ((round_report, 'ce bench_error) result \<times> 'b file_transfer_bundle_instance) option" where
  "a_round W args seed round self =
     (let payload = round_payload W args seed round in
      case send_attempts W args payload (ba_offer_retries args) 0 self of
        None \<Rightarrow> None
      | Some (Err e, self1) \<Rightarrow> Some (Err e, self1)
      | Some (Ok None, self1) \<Rightarrow> Some (Err SendExhausted, self1)
      | Some (Ok (Some send_out), self1) \<Rightarrow>
          (case bench_recv W self1 NODE_B_ADDR memory_store_default (from_millis (ba_timeout_ms args)) of
             None \<Rightarrow> None
           | Some (Err e, self2, st) \<Rightarrow> Some (Err (RecvFailedWith e), self2)
           | Some (Ok recv_out, self2, st) \<Rightarrow>
               if ms_bytes st \<noteq> payload then Some (Err (EchoMismatch (round + 1) (length payload)), self2)
               else Some (Ok \<lparr>rp_sent = send_out, rp_received = recv_out, rp_bytes = ms_bytes st\<rparr>, self2)))"

fun a_rounds ::
    "('b, 'hs, 'ce) bench_world \<Rightarrow> bench_a_args \<Rightarrow> u64 \<Rightarrow> nat \<Rightarrow> nat \<Rightarrow> 'b file_transfer_bundle_instance \<Rightarrow>
     ((round_report list, 'ce bench_error) result \<times> 'b file_transfer_bundle_instance) option" where
  "a_rounds W args seed 0 round self = Some (Ok [], self)"
| "a_rounds W args seed (Suc left) round self =
     (case a_round W args seed round self of
        None \<Rightarrow> None
      | Some (Err e, self1) \<Rightarrow> Some (Err e, self1)
      | Some (Ok report, self1) \<Rightarrow>
          map_option (\<lambda>(r, self2). (map_res (Cons report) r, self2)) (a_rounds W args seed left (round + 1) self1))"

definition bench_a_run ::
    "('b, 'hs, 'ce) bench_world \<Rightarrow> bench_a_args \<Rightarrow> u64 \<Rightarrow> 'b file_transfer_bundle_instance \<Rightarrow>
     ((round_report list, 'ce bench_error) result \<times> 'b file_transfer_bundle_instance) option" where
  "bench_a_run W args random self =
     (let seed = (case ba_seed args of None \<Rightarrow> random | Some s \<Rightarrow> s);
          self1 = (if ba_startup_delay_ms args > 0 then bw_sleep W self (from_millis (ba_startup_delay_ms args)) else self)
      in a_rounds W args seed (unat (ba_rounds args)) 0 self1)"

section \<open>The responder\<close>

definition b_round ::
    "('b, 'hs, 'ce) bench_world \<Rightarrow> bench_b_args \<Rightarrow> 'b file_transfer_bundle_instance \<Rightarrow>
     ((round_report, 'ce bench_error) result \<times> 'b file_transfer_bundle_instance) option" where
  "b_round W args self =
     (let tmo = from_millis (bb_timeout_ms args) in
      case bench_recv W self NODE_A_ADDR memory_store_default tmo of
        None \<Rightarrow> None
      | Some (Err e, self1, st) \<Rightarrow> Some (Err (RecvFailedWith e), self1)
      | Some (Ok recv_out, self1, st) \<Rightarrow>
          let payload = ms_bytes st in
          (case bench_send W self1 NODE_A_ADDR payload tmo of
             None \<Rightarrow> None
           | Some (Err e, self2) \<Rightarrow> Some (Err (SendFailed e), self2)
           | Some (Ok send_out, self2) \<Rightarrow> Some (Ok \<lparr>rp_sent = send_out, rp_received = recv_out, rp_bytes = payload\<rparr>, self2)))"

fun b_rounds ::
    "('b, 'hs, 'ce) bench_world \<Rightarrow> bench_b_args \<Rightarrow> nat \<Rightarrow> 'b file_transfer_bundle_instance \<Rightarrow>
     ((round_report list, 'ce bench_error) result \<times> 'b file_transfer_bundle_instance) option" where
  "b_rounds W args 0 self = Some (Ok [], self)"
| "b_rounds W args (Suc left) self =
     (case b_round W args self of
        None \<Rightarrow> None
      | Some (Err e, self1) \<Rightarrow> Some (Err e, self1)
      | Some (Ok report, self1) \<Rightarrow>
          map_option (\<lambda>(r, self2). (map_res (Cons report) r, self2)) (b_rounds W args left self1))"

definition bench_b_run ::
    "('b, 'hs, 'ce) bench_world \<Rightarrow> bench_b_args \<Rightarrow> 'b file_transfer_bundle_instance \<Rightarrow>
     ((round_report list, 'ce bench_error) result \<times> 'b file_transfer_bundle_instance) option" where
  "bench_b_run W args self = b_rounds W args (unat (bb_rounds args)) self"

section \<open>A whole program\<close>

datatype ('e, 'j, 'ce) program_error =
    ServerStart 'e
  | NodeFailed "'e node_error"
  | PumpJoin 'j
  | RoundsFailed "'ce bench_error"

text \<open>Both programs stop the pump and join its task. An error of joining is returned; the error the pump itself
  ended with is only printed, so the result of the rounds stands.\<close>

definition bench_finish :: "('p, 'j) result \<Rightarrow> ('r, 'ce bench_error) result \<Rightarrow> ('r, ('e, 'j, 'ce) program_error) result" where
  "bench_finish joined bench_result =
     (case joined of Err j \<Rightarrow> Err (PumpJoin j) | Ok pump_res \<Rightarrow> map_err RoundsFailed bench_result)"

text \<open>\<open>run\<close>: the server if asked for, the node, the interface with its bundle and the pump, the rounds, and the end.
  \<open>bus_of\<close> gives the bus that the interface and its pump make of a node, \<open>joined\<close> is what joining the pump gives.\<close>

definition bench_a_main ::
    "nat \<Rightarrow> ('w, 'c, 'f, 'x, 'd, 'z, 'e) bench_env \<Rightarrow> ('b, 'hs, 'ce) bench_world \<Rightarrow> ('d \<Rightarrow> 'b) \<Rightarrow> (unit, 'e) result \<Rightarrow> ('p, 'j) result \<Rightarrow>
     u64 \<Rightarrow> 'w \<Rightarrow> bench_a_args \<Rightarrow> (round_report list, ('e, 'j, 'ce) program_error) result option" where
  "bench_a_main n E W bus_of server joined random w args =
     (case (if ba_start_bus_server args then server else Ok ()) of
        Err e \<Rightarrow> Some (Err (ServerStart e))
      | Ok _ \<Rightarrow>
          (case connect_bench_node n E w NODE_A_ADDR (from_millis (ba_wait_for_socket_ms args)) of
             None \<Rightarrow> None
           | Some (Err e, w1) \<Rightarrow> Some (Err (NodeFailed e))
           | Some (Ok nd, w1) \<Rightarrow>
               map_option (\<lambda>(r, self). bench_finish joined r)
                 (bench_a_run W args random (file_transfer_bundle_new (bus_of nd)))))"

definition bench_b_main ::
    "nat \<Rightarrow> ('w, 'c, 'f, 'x, 'd, 'z, 'e) bench_env \<Rightarrow> ('b, 'hs, 'ce) bench_world \<Rightarrow> ('d \<Rightarrow> 'b) \<Rightarrow> ('p, 'j) result \<Rightarrow>
     'w \<Rightarrow> bench_b_args \<Rightarrow> (round_report list, ('e, 'j, 'ce) program_error) result option" where
  "bench_b_main n E W bus_of joined w args =
     (case connect_bench_node n E w NODE_B_ADDR (from_millis (bb_wait_for_socket_ms args)) of
        None \<Rightarrow> None
      | Some (Err e, w1) \<Rightarrow> Some (Err (NodeFailed e))
      | Some (Ok nd, w1) \<Rightarrow>
          map_option (\<lambda>(r, self). bench_finish joined r) (bench_b_run W args (file_transfer_bundle_new (bus_of nd))))"

section \<open>What a successful run has checked\<close>

lemma send_file_total_len:
  assumes "send_file n rt sha256 ops R self dst bytes tmo config = Some (Ok res, self')"
  shows "sfr_total_len res = length bytes"
proof -
  obtain tid st1 st2 b2 where run: "send_file_with_id_impl n rt sha256 ops R (fti_bus self) dst st1 tid bytes tmo config = Some (Ok res, st2, b2)"
    using assms by (auto simp: send_file_def send_file_impl_def alloc_transfer_id_def)
  then show ?thesis
    by (auto simp: send_file_with_id_impl_def send_config_validate_def send_accepted_def Let_def
        split: option.splits prod.splits result.splits if_splits)
qed

lemma send_attempts_total_len:
  "send_attempts W args payload k attempt self = Some (Ok (Some out), self') \<Longrightarrow> sfr_total_len out = length payload"
proof (induction k arbitrary: attempt self)
  case (Suc k)
  then show ?case
    by (auto simp: bench_send_def split: option.splits result.splits if_splits dest: send_file_total_len)
qed simp

lemma a_round_checks:
  assumes "a_round W args seed round self = Some (Ok report, self')"
  shows "rp_bytes report = round_payload W args seed round"
    "sfr_total_len (rp_sent report) = length (round_payload W args seed round)"
  using assms by (auto simp: a_round_def Let_def split: option.splits prod.splits result.splits if_splits dest: send_attempts_total_len)

lemma a_rounds_check:
  "a_rounds W args seed k round self = Some (Ok reports, self') \<Longrightarrow>
   length reports = k \<and> (\<forall>i < k. rp_bytes (reports ! i) = round_payload W args seed (round + i) \<and>
     sfr_total_len (rp_sent (reports ! i)) = length (round_payload W args seed (round + i)))"
proof (induction k arbitrary: round self reports)
  case (Suc k)
  obtain r self1 where one: "a_round W args seed round self = Some (Ok r, self1)"
    using Suc.prems by (auto split: option.splits result.splits)
  obtain rs where rest: "a_rounds W args seed k (round + 1) self1 = Some (Ok rs, self')" and rep: "reports = r # rs"
  proof -
    from Suc.prems one obtain q self2 where q: "a_rounds W args seed k (round + 1) self1 = Some (q, self2)" by auto
    then show ?thesis using Suc.prems one that by (cases q) auto
  qed
  from Suc.IH [OF rest] show ?case using a_round_checks [OF one] rep by (auto simp: nth_Cons split: nat.split)
qed simp

lemma bench_a_run_checks:
  assumes "bench_a_run W args random self = Some (Ok reports, self')" and "i < unat (ba_rounds args)"
  shows "length reports = unat (ba_rounds args)"
    "rp_bytes (reports ! i) = round_payload W args (case ba_seed args of None \<Rightarrow> random | Some s \<Rightarrow> s) i"
  using a_rounds_check [of W args _ "unat (ba_rounds args)" 0 _ reports self'] assms by (auto simp: bench_a_run_def Let_def)

text \<open>An initiator that exits successfully has got back, in every round, the file of that round.\<close>

lemma bench_a_main_checks:
  assumes "bench_a_main n E W bus_of server joined random w args = Some (Ok reports)" and "i < unat (ba_rounds args)"
  shows "rp_bytes (reports ! i) = round_payload W args (case ba_seed args of None \<Rightarrow> random | Some s \<Rightarrow> s) i"
proof -
  obtain self self' where "bench_a_run W args random self = Some (Ok reports, self')"
    using assms(1) by (cases joined) (auto simp: bench_a_main_def bench_finish_def split: result.splits option.splits if_splits)
  from bench_a_run_checks(2) [OF this assms(2)] show ?thesis .
qed

lemma bench_a_no_retries_fails:
  "ba_offer_retries args = 0 \<Longrightarrow> a_round W args seed round self = Some (Err SendExhausted, self)"
  by (simp add: a_round_def Let_def)

end
