(* ===== verification/Example_Ping.thy ===== *)
theory Example_Ping
  imports Interface
begin

text \<open>
  The example program of \<open>examples/thincan-example/src/main.rs\<close>: the addresses on its command line, the
  \<open>PersonValue\<close> message, the shared CAN adapter, and the two commands \<open>listen\<close> and \<open>ping\<close>, which send through
  the interface of the thincan crate. Cap'n Proto is a parameter: a function that builds a person in zeroed
  memory and one that reads the name back. So is the ISO-TP stack: an endpoint whose \<open>recv_one\<close> delivers at
  most one payload. Text is ASCII. The loops take fuel; \<open>None\<close> means the program still runs.
\<close>

section \<open>Numbers as text\<close>

definition digit_value :: "nat \<Rightarrow> char \<Rightarrow> nat option" where
  "digit_value radix c =
     (let n = of_char c :: nat;
          v = (if 48 \<le> n \<and> n \<le> 57 then Some (n - 48)
               else if 97 \<le> n \<and> n \<le> 122 then Some (n - 87)
               else if 65 \<le> n \<and> n \<le> 90 then Some (n - 55)
               else None)
      in case v of None \<Rightarrow> None | Some d \<Rightarrow> if d < radix then Some d else None)"

text \<open>\<open>u32::from_str_radix\<close>: a sign of its own is an error, a leading plus is skipped, every step is checked
  for overflow.\<close>

fun radix_digits :: "nat \<Rightarrow> nat \<Rightarrow> string \<Rightarrow> u32 option" where
  "radix_digits radix acc [] = Some (word_of_nat acc)"
| "radix_digits radix acc (c # cs) =
     (case digit_value radix c of
        None \<Rightarrow> None
      | Some d \<Rightarrow> if acc * radix + d < 2 ^ 32 then radix_digits radix (acc * radix + d) cs else None)"

definition from_str_radix :: "nat \<Rightarrow> string \<Rightarrow> u32 option" where
  "from_str_radix radix s =
     (if s = [] \<or> s = [CHR ''+''] \<or> s = [CHR ''-''] then None
      else radix_digits radix 0 (if hd s = CHR ''+'' then tl s else s))"

text \<open>\<open>to_string\<close> of a \<open>u32\<close>.\<close>

definition digit_char :: "nat \<Rightarrow> char" where
  "digit_char d = (if d < 10 then char_of (48 + d) else char_of (87 + d))"

function show_radix :: "nat \<Rightarrow> nat \<Rightarrow> string" where
  "show_radix radix n =
     (if n < radix \<or> radix < 2 then [digit_char n] else show_radix radix (n div radix) @ [digit_char (n mod radix)])"
  by pat_completeness auto
termination
  by (relation "measure snd") auto

declare show_radix.simps [simp del]

definition u32_to_string :: "u32 \<Rightarrow> string" where
  "u32_to_string w = show_radix 10 (unat w)"

section \<open>Addresses\<close>

definition is_space :: "char \<Rightarrow> bool" where
  "is_space c = (let n = of_char c :: nat in 9 \<le> n \<and> n \<le> 13 \<or> n = 32)"

definition trim :: "string \<Rightarrow> string" where
  "trim s = rev (dropWhile is_space (rev (dropWhile is_space s)))"

definition parse_uds_addr :: "string \<Rightarrow> (u8, string) result" where
  "parse_uds_addr raw0 =
     (let raw = trim raw0;
          parsed = (if take 2 raw = ''0x'' then ok_or (from_str_radix 16 (drop 2 raw)) ''invalid hex address''
                    else ok_or (from_str_radix 10 raw) ''invalid address'')
      in try_res parsed (\<lambda>v.
           if v > 0xFF then Err ''address must fit in 8 bits (0x00..0xFF)'' else Ok (ucast v)))"

section \<open>Messages\<close>

definition PING_ID :: u16 where "PING_ID = 0x0100"
definition PONG_ID :: u16 where "PONG_ID = 0x0101"

definition example_message_ids :: "u16 list" where "example_message_ids = [PING_ID, PONG_ID]"

record person_value =
  pv_name :: string
  pv_email :: string

text \<open>The builder gives the segments of a message built in the memory it is given.\<close>

record person_codec =
  pc_build :: "bytes \<Rightarrow> person_value \<Rightarrow> bytes list"
  pc_name :: "bytes \<Rightarrow> string option"

definition person_encode :: "person_codec \<Rightarrow> person_value \<Rightarrow> bytes \<Rightarrow> (usize, error) result \<times> bytes" where
  "person_encode C v out =
     (let segments = pc_build C (replicate 256 0) v in
      if length segments \<noteq> 1 then (Err \<lparr>kind = Other\<rparr>, out)
      else let bs = segments ! 0 in
        if length out < length bs then (Err \<lparr>kind = BufferTooSmall (length bs) (length out)\<rparr>, out)
        else (Ok (length bs), copy_into out bs))"

definition person_capnp_value :: "person_codec \<Rightarrow> person_value \<Rightarrow> capnp_value" where
  "person_capnp_value C v = \<lparr>max_encoded_len = 256, encode = person_encode C v\<rparr>"

definition decode_seq_capnp :: "person_codec \<Rightarrow> bytes \<Rightarrow> u32 option" where
  "decode_seq_capnp C body = (case pc_name C body of None \<Rightarrow> None | Some name \<Rightarrow> from_str_radix 10 name)"

section \<open>The shared adapter\<close>

text \<open>\<open>Arc<Mutex<T>>\<close>: both halves lock it for one call; \<open>unwrap\<close> panics when the mutex is poisoned.\<close>

record 'c shared =
  sh_can :: 'c
  sh_poisoned :: bool

definition split_shared :: "'c \<Rightarrow> 'c shared" where
  "split_shared can = \<lparr>sh_can = can, sh_poisoned = False\<rparr>"

definition with_shared :: "'c shared \<Rightarrow> ('c \<Rightarrow> 'r \<times> 'c) \<Rightarrow> 'r outcome \<times> 'c shared" where
  "with_shared s f = (if sh_poisoned s then (Panic, s) else let (r, c1) = f (sh_can s) in (Return r, s\<lparr>sh_can := c1\<rparr>))"

record ('c, 'f, 'e) frame_io =
  io_send :: "'c \<Rightarrow> 'f \<Rightarrow> (unit, 'e) result \<times> 'c"
  io_try_send :: "'c \<Rightarrow> 'f \<Rightarrow> (unit, 'e) result \<times> 'c"
  io_send_timeout :: "'c \<Rightarrow> 'f \<Rightarrow> duration \<Rightarrow> (unit, 'e) result \<times> 'c"
  io_recv :: "'c \<Rightarrow> ('f, 'e) result \<times> 'c"
  io_try_recv :: "'c \<Rightarrow> ('f, 'e) result \<times> 'c"
  io_recv_timeout :: "'c \<Rightarrow> duration \<Rightarrow> ('f, 'e) result \<times> 'c"
  io_wait_not_empty :: "'c \<Rightarrow> (unit, 'e) result \<times> 'c"

definition shared_tx_send :: "('c, 'f, 'e) frame_io \<Rightarrow> 'c shared \<Rightarrow> 'f \<Rightarrow> (unit, 'e) result outcome \<times> 'c shared" where
  "shared_tx_send F s frame = with_shared s (\<lambda>can. io_send F can frame)"

definition shared_tx_try_send :: "('c, 'f, 'e) frame_io \<Rightarrow> 'c shared \<Rightarrow> 'f \<Rightarrow> (unit, 'e) result outcome \<times> 'c shared" where
  "shared_tx_try_send F s frame = with_shared s (\<lambda>can. io_try_send F can frame)"

definition shared_tx_send_timeout ::
    "('c, 'f, 'e) frame_io \<Rightarrow> 'c shared \<Rightarrow> 'f \<Rightarrow> duration \<Rightarrow> (unit, 'e) result outcome \<times> 'c shared" where
  "shared_tx_send_timeout F s frame tmo = with_shared s (\<lambda>can. io_send_timeout F can frame tmo)"

definition shared_rx_recv :: "('c, 'f, 'e) frame_io \<Rightarrow> 'c shared \<Rightarrow> ('f, 'e) result outcome \<times> 'c shared" where
  "shared_rx_recv F s = with_shared s (io_recv F)"

definition shared_rx_try_recv :: "('c, 'f, 'e) frame_io \<Rightarrow> 'c shared \<Rightarrow> ('f, 'e) result outcome \<times> 'c shared" where
  "shared_rx_try_recv F s = with_shared s (io_try_recv F)"

definition shared_rx_recv_timeout ::
    "('c, 'f, 'e) frame_io \<Rightarrow> 'c shared \<Rightarrow> duration \<Rightarrow> ('f, 'e) result outcome \<times> 'c shared" where
  "shared_rx_recv_timeout F s tmo = with_shared s (\<lambda>can. io_recv_timeout F can tmo)"

definition shared_rx_wait_not_empty :: "('c, 'f, 'e) frame_io \<Rightarrow> 'c shared \<Rightarrow> (unit, 'e) result outcome \<times> 'c shared" where
  "shared_rx_wait_not_empty F s = with_shared s (io_wait_not_empty F)"

section \<open>Listening\<close>

definition IO_TIMEOUT :: duration where "IO_TIMEOUT = 5000000000"

text \<open>The endpoint of the ISO-TP stack: its send functions, and \<open>recv_one\<close>, which gives the payload its
  callback is called with, if any. \<open>node_mut\<close> of the interface is the node it sends on.\<close>

record ('n, 'e) example_stack =
  es_endpoint :: "('n, 'e) isotp_endpoint"
  es_recv_one :: "'n \<Rightarrow> duration \<Rightarrow> ((recv_meta \<times> bytes) option, 'e recv_error) result \<times> 'n"

datatype 'e example_error = RecvErr "'e recv_error" | SendErr error | PingTimedOut

definition iface_recv_one ::
    "('n, 'e) example_stack \<Rightarrow> ('n, 'w) iface \<Rightarrow> duration \<Rightarrow> ((recv_meta \<times> bytes) option, 'e recv_error) result \<times> ('n, 'w) iface" where
  "iface_recv_one N ifc tmo = node_mut (\<lambda>nd. es_recv_one N nd tmo) ifc"

definition on_ping :: "person_codec \<Rightarrow> (recv_meta \<times> bytes) \<Rightarrow> (u8 \<times> u32) list \<Rightarrow> (u8 \<times> u32) list" where
  "on_ping C delivered pending_pongs =
     (case delivered of (meta, payload) \<Rightarrow>
        (case decode_wire payload of
           Err _ \<Rightarrow> pending_pongs
         | Ok raw \<Rightarrow>
             if raw_id raw = PING_ID then
               (case decode_seq_capnp C (raw_body raw) of
                  None \<Rightarrow> pending_pongs
                | Some seq \<Rightarrow> pending_pongs @ [(reply_to meta, seq)])
             else pending_pongs))"

fun send_pongs ::
    "person_codec \<Rightarrow> ('n, 'e) example_stack \<Rightarrow> ('n, 'w) iface \<Rightarrow> (u8 \<times> u32) list \<Rightarrow> (unit, error) result \<times> ('n, 'w) iface" where
  "send_pongs C N ifc [] = (Ok (), ifc)"
| "send_pongs C N ifc ((dst, seq) # rest) =
     (case send_capnp_to (es_endpoint N) PONG_ID ifc dst
             (person_capnp_value C \<lparr>pv_name = u32_to_string seq, pv_email = ''pong''\<rparr>) IO_TIMEOUT of
        (Err e, ifc1) \<Rightarrow> (Err e, ifc1)
      | (Ok _, ifc1) \<Rightarrow> send_pongs C N ifc1 rest)"

text \<open>An iteration of the loop starts and ends with no pending pong.\<close>

definition listen_iteration ::
    "person_codec \<Rightarrow> ('n, 'e) example_stack \<Rightarrow> ('n, 'w) iface \<Rightarrow> (unit, 'e example_error) result \<times> ('n, 'w) iface" where
  "listen_iteration C N ifc =
     (case iface_recv_one N ifc 1000000000 of
        (Err e, ifc1) \<Rightarrow> (Err (RecvErr e), ifc1)
      | (Ok delivered, ifc1) \<Rightarrow>
          let pending_pongs = (case delivered of None \<Rightarrow> [] | Some d \<Rightarrow> on_ping C d []);
              (r, ifc2) = send_pongs C N ifc1 pending_pongs
          in (map_err SendErr r, ifc2))"

fun run_listen ::
    "nat \<Rightarrow> person_codec \<Rightarrow> ('n, 'e) example_stack \<Rightarrow> ('n, 'w) iface \<Rightarrow> ('e example_error \<times> ('n, 'w) iface) option" where
  "run_listen 0 C N ifc = None"
| "run_listen (Suc n) C N ifc =
     (case listen_iteration C N ifc of
        (Err e, ifc1) \<Rightarrow> Some (e, ifc1)
      | (Ok _, ifc1) \<Rightarrow> run_listen n C N ifc1)"

section \<open>Pinging\<close>

definition on_pong :: "person_codec \<Rightarrow> u8 \<Rightarrow> u32 \<Rightarrow> (recv_meta \<times> bytes) \<Rightarrow> bool" where
  "on_pong C dest seq delivered =
     (case delivered of (meta, payload) \<Rightarrow>
        if reply_to meta \<noteq> dest then False
        else (case decode_wire payload of
                Err _ \<Rightarrow> False
              | Ok raw \<Rightarrow>
                  if raw_id raw = PONG_ID then
                    (case decode_seq_capnp C (raw_body raw) of None \<Rightarrow> False | Some got_seq \<Rightarrow> got_seq = seq)
                  else False))"

text \<open>The clock is read through the node's environment; \<open>now\<close> gives the instant before each iteration.\<close>

fun ping_loop ::
    "nat \<Rightarrow> person_codec \<Rightarrow> ('n, 'e) example_stack \<Rightarrow> (('n, 'w) iface \<Rightarrow> nat \<times> ('n, 'w) iface) \<Rightarrow> ('n, 'w) iface \<Rightarrow> u8 \<Rightarrow> u32 \<Rightarrow> nat \<Rightarrow>
     ((u32, 'e example_error) result \<times> ('n, 'w) iface) option" where
  "ping_loop 0 C N now ifc dest seq deadline = None"
| "ping_loop (Suc n) C N now ifc dest seq deadline =
     (let (t, ifc0) = now ifc in
      if t \<ge> deadline then Some (Err PingTimedOut, ifc0)
      else
        (case iface_recv_one N ifc0 100000000 of
           (Err e, ifc1) \<Rightarrow> Some (Err (RecvErr e), ifc1)
         | (Ok delivered, ifc1) \<Rightarrow>
             if (case delivered of None \<Rightarrow> False | Some d \<Rightarrow> on_pong C dest seq d) then Some (Ok seq, ifc1)
             else ping_loop n C N now ifc1 dest seq deadline))"

definition ping_seq :: "nat \<Rightarrow> u32" where
  "ping_seq millis = word_of_nat millis"

definition run_ping ::
    "nat \<Rightarrow> person_codec \<Rightarrow> ('n, 'e) example_stack \<Rightarrow> (('n, 'w) iface \<Rightarrow> nat \<times> ('n, 'w) iface) \<Rightarrow> ('n, 'w) iface \<Rightarrow> u8 \<Rightarrow> nat \<Rightarrow>
     ((u32, 'e example_error) result \<times> ('n, 'w) iface) option" where
  "run_ping n C N now ifc dest millis =
     (let seq = ping_seq millis in
      case send_capnp_to (es_endpoint N) PING_ID ifc dest
             (person_capnp_value C \<lparr>pv_name = u32_to_string seq, pv_email = ''ping''\<rparr>) IO_TIMEOUT of
        (Err e, ifc1) \<Rightarrow> Some (Err (SendErr e), ifc1)
      | (Ok _, ifc1) \<Rightarrow>
          let (t, ifc2) = now ifc1 in ping_loop n C N now ifc2 dest seq (t + 2000000000))"

definition example_interface :: "('w, 'r) watch_ops \<Rightarrow> 'n \<Rightarrow> 'n \<Rightarrow> ('n, 'w) iface" where
  "example_interface W tx_node rx_node = iface_new W (length example_message_ids) 8 256 tx_node rx_node (replicate 4096 0)"

section \<open>Setting up\<close>

text \<open>The arguments that matter after parsing, and the stack that is built from them: opening the adapter,
  setting its filter, and one demultiplexer each for sending and receiving over the shared adapter.\<close>

datatype example_command = Listen | Ping u8

record example_cli =
  cli_id :: u8
  cli_isotp_block_size :: u8
  cli_isotp_frame_len :: usize
  cli_command :: example_command

definition MAX_ISO_TP_PAYLOAD :: usize where "MAX_ISO_TP_PAYLOAD = 4095"
definition EXAMPLE_MAX_PEERS :: usize where "EXAMPLE_MAX_PEERS = 16"

definition base_isotp_cfg :: "'z isotp_config_scheme \<Rightarrow> 'z isotp_config_scheme" where
  "base_isotp_cfg d = d\<lparr>ic_max_payload_len := MAX_ISO_TP_PAYLOAD\<rparr>"

definition isotp_cfg_for_cli :: "'z isotp_config_scheme \<Rightarrow> example_cli \<Rightarrow> 'z isotp_config_scheme" where
  "isotp_cfg_for_cli d cli =
     (base_isotp_cfg d)\<lparr>ic_block_size := cli_isotp_block_size cli, ic_frame_len := cli_isotp_frame_len cli\<rparr>"

record ('c, 'i, 'n, 'z, 'e) example_env =
  ee_open_can :: "('c, 'e) result"
  ee_filter_phys :: "u8 \<Rightarrow> 'i"
  ee_set_filters :: "'c \<Rightarrow> 'i list \<Rightarrow> (unit, 'e) result \<times> 'c"
  ee_default_cfg :: "'z isotp_config_scheme"
  ee_demux :: "'c shared \<Rightarrow> 'z isotp_config_scheme \<Rightarrow> u8 \<Rightarrow> bytes list \<Rightarrow> 'n option"

datatype 'e setup_error = OpenFailed 'e | FilterFailed 'e | TxDemuxFailed | RxDemuxFailed

definition example_setup ::
    "('c, 'i, 'n, 'z, 'e) example_env \<Rightarrow> ('w, 'r) watch_ops \<Rightarrow> example_cli \<Rightarrow> (('n, 'w) iface, 'e setup_error) result" where
  "example_setup E W cli =
     (case ee_open_can E of
        Err e \<Rightarrow> Err (OpenFailed e)
      | Ok can \<Rightarrow>
          (case ee_set_filters E can [ee_filter_phys E (cli_id cli)] of
             (Err e, _) \<Rightarrow> Err (FilterFailed e)
           | (Ok _, can1) \<Rightarrow>
               let sh = split_shared can1;
                   storages = replicate EXAMPLE_MAX_PEERS (replicate MAX_ISO_TP_PAYLOAD 0);
                   cfg = isotp_cfg_for_cli (ee_default_cfg E) cli in
               (case ee_demux E sh cfg (cli_id cli) storages of
                  None \<Rightarrow> Err TxDemuxFailed
                | Some tx_node \<Rightarrow>
                    (case ee_demux E sh cfg (cli_id cli) storages of
                       None \<Rightarrow> Err RxDemuxFailed
                     | Some rx_node \<Rightarrow> Ok (example_interface W tx_node rx_node)))))"

text \<open>\<open>main\<close>: what the chosen command ends with; listening ends with an error or not at all.\<close>

definition example_main ::
    "nat \<Rightarrow> ('c, 'i, 'n, 'z, 'x) example_env \<Rightarrow> ('w, 'r) watch_ops \<Rightarrow> person_codec \<Rightarrow> ('n, 'e) example_stack \<Rightarrow>
     (('n, 'w) iface \<Rightarrow> nat \<times> ('n, 'w) iface) \<Rightarrow> nat \<Rightarrow> example_cli \<Rightarrow> (u32, 'x setup_error + 'e example_error) result option" where
  "example_main n E W C N now millis cli =
     (case example_setup E W cli of
        Err e \<Rightarrow> Some (Err (Inl e))
      | Ok ifc \<Rightarrow>
          (case cli_command cli of
             Listen \<Rightarrow> map_option (\<lambda>(e, _). Err (Inr e)) (run_listen n C N ifc)
           | Ping dst \<Rightarrow> map_option (\<lambda>(r, _). map_err Inr r) (run_ping n C N now ifc dst millis)))"

text \<open>The maplet of the program compiles to this table.\<close>

lemma example_maplet: "maplet_expand (Bundles [[PING_ID, PONG_ID]]) = Return example_message_ids"
  by (simp add: maplet_expand_eq example_message_ids_def PING_ID_def PONG_ID_def)

text \<open>A set-up that succeeds gives an interface that meets its invariant; the adapter has the one filter for the
  own address, and both nodes were made over the adapter in the state the filter left it in.\<close>

lemma example_setup_ok:
  assumes "example_setup E W cli = Ok ifc"
  obtains can can1 u where "ee_open_can E = Ok can"
    and "ee_set_filters E can [ee_filter_phys E (cli_id cli)] = (Ok u, can1)"
    and "ee_demux E (split_shared can1) (isotp_cfg_for_cli (ee_default_cfg E) cli) (cli_id cli)
        (replicate EXAMPLE_MAX_PEERS (replicate MAX_ISO_TP_PAYLOAD 0)) = Some (node (tx_state ifc))"
    and "iface_wf example_message_ids 8 256 ifc" and "length (tx (tx_state ifc)) = 4096"
proof -
  obtain can can1 u n1 where s: "ee_open_can E = Ok can"
      "ee_set_filters E can [ee_filter_phys E (cli_id cli)] = (Ok u, can1)"
      "ee_demux E (split_shared can1) (isotp_cfg_for_cli (ee_default_cfg E) cli) (cli_id cli)
        (replicate EXAMPLE_MAX_PEERS (replicate MAX_ISO_TP_PAYLOAD 0)) = Some n1"
      "ifc = example_interface W n1 n1"
    using assms by (auto simp: example_setup_def Let_def split: result.splits option.splits prod.splits)
  then show thesis
    by (intro that [of can u can1]) (simp_all add: example_interface_def iface_new_wf, simp_all add: iface_new_def)
qed

section \<open>Numbers and addresses read back\<close>

lemma digit_value_char: "d < radix \<Longrightarrow> radix \<le> 36 \<Longrightarrow> digit_value radix (digit_char d) = Some d"
  by (simp add: digit_value_def digit_char_def)

lemma show_radix_digits:
  "1 < radix \<Longrightarrow> radix \<le> 36 \<Longrightarrow> c \<in> set (show_radix radix n) \<Longrightarrow> \<exists>d. digit_value radix c = Some d"
proof (induction radix n rule: show_radix.induct)
  case (1 radix n)
  then show ?case by (subst (asm) show_radix.simps) (auto simp: digit_value_char split: if_splits)
qed

lemma radix_digits_show:
  "1 < radix \<Longrightarrow> radix \<le> 36 \<Longrightarrow> n < 2 ^ 32 \<Longrightarrow> radix_digits radix 0 (show_radix radix n @ cs) = radix_digits radix n cs"
proof (induction radix n arbitrary: cs rule: show_radix.induct)
  case (1 radix n)
  show ?case
  proof (cases "n < radix")
    case True
    then show ?thesis using "1.prems" by (subst show_radix.simps) (simp add: digit_value_char)
  next
    case False
    have q: "n div radix < 2 ^ 32" using "1.prems"(3) by (rule le_less_trans [OF div_le_dividend])
    have "n mod radix < radix" using "1.prems"(1) by simp
    then show ?thesis using "1.IH" [of "digit_char (n mod radix) # cs"] "1.prems" q False
      by (subst show_radix.simps) (simp add: digit_value_char)
  qed
qed

lemma show_radix_ne: "show_radix radix n \<noteq> []"
  by (subst show_radix.simps) simp

lemma from_str_radix_show:
  assumes "1 < radix" "radix \<le> 36" "n < 2 ^ 32"
  shows "from_str_radix radix (show_radix radix n) = Some (word_of_nat n)"
proof -
  have sign: "digit_value radix (CHR ''+'') = None" "digit_value radix (CHR ''-'') = None" by (simp_all add: digit_value_def)
  have "c \<noteq> CHR ''+'' \<and> c \<noteq> CHR ''-''" if "c \<in> set (show_radix radix n)" for c
    using show_radix_digits [OF assms(1,2) that] sign by auto
  then have "hd (show_radix radix n) \<noteq> CHR ''+''" "show_radix radix n \<noteq> [CHR ''+'']" "show_radix radix n \<noteq> [CHR ''-'']"
    using hd_in_set [OF show_radix_ne [of radix n]] by (auto simp del: hd_in_set)
  then show ?thesis using radix_digits_show [OF assms, of "[]"] show_radix_ne [of radix n] by (simp add: from_str_radix_def)
qed

lemma u32_to_string_parses: "from_str_radix 10 (u32_to_string w) = Some w"
proof -
  have "unat w < 2 ^ LENGTH(32)" by (rule unsigned_less)
  then show ?thesis using from_str_radix_show [of 10 "unat w"] by (simp add: u32_to_string_def)
qed

lemma trim_padded:
  assumes "list_all is_space pre" "list_all is_space post" "s \<noteq> []" "\<not> is_space (hd s)" "\<not> is_space (last s)"
  shows "trim (pre @ s @ post) = s"
proof -
  have d: "dropWhile is_space (xs @ y # ys) = y # ys" if "list_all is_space xs" "\<not> is_space y" for xs y ys
    using that by (induction xs) auto
  obtain y ys where s: "s = y # ys" using assms(3) by (cases s) auto
  obtain z zs where r: "rev s = z # zs" using assms(3) by (cases "rev s") auto
  have "z = last s" using r by (metis hd_rev list.sel(1))
  then have "dropWhile is_space (rev post @ rev s) = rev s" using d [of "rev post" z zs] assms(2,5) unfolding r by (simp add: list_all_iff)
  moreover have "dropWhile is_space (pre @ s @ post) = s @ post" using d [of pre y "ys @ post"] assms(1,4) s by simp
  ultimately show ?thesis by (simp add: trim_def)
qed

lemma digit_not_space: "digit_value radix c = Some d \<Longrightarrow> \<not> is_space c"
  by (auto simp: digit_value_def is_space_def Let_def split: if_splits)

lemma byte_u32:
  shows "unat (word_of_nat (unat (a :: u8)) :: u32) = unat a" "ucast (word_of_nat (unat (a :: u8)) :: u32) = a"
    "\<not> (word_of_nat (unat (a :: u8)) :: u32) > 0xFF"
proof -
  have lt: "unat a < 2 ^ LENGTH(8)" by (rule unsigned_less)
  then show u: "unat (word_of_nat (unat a) :: u32) = unat a" by (intro unat_of_nat32) simp
  have "ucast w = (word_of_nat (unat w) :: u8)" for w :: u32 by simp
  moreover have "(word_of_nat (unat a) :: u8) = a" by simp
  ultimately show "ucast (word_of_nat (unat a) :: u32) = a" using u by metis
  have "unat (0xFF :: u32) = 255" by simp
  then show "\<not> (word_of_nat (unat a) :: u32) > 0xFF" using lt u by (simp add: word_less_nat_alt del: of_nat_unat)
qed

lemma parse_padded:
  assumes "list_all is_space pre" "list_all is_space post" and s: "s \<noteq> []" "\<forall>c \<in> set s. \<not> is_space c"
  shows "trim (pre @ s @ post) = s"
  using trim_padded [OF assms(1,2) s(1)] s(2) hd_in_set [OF s(1)] last_in_set [OF s(1)] by blast

text \<open>Every node address is read back from its decimal and from its hexadecimal text with the prefix \<open>0x\<close>,
  with any white space around it.\<close>

lemma uds_addr_round_trip:
  assumes pre: "list_all is_space pre" and post: "list_all is_space post"
  shows "parse_uds_addr (pre @ show_radix 10 (unat a) @ post) = Ok a \<and>
    parse_uds_addr (pre @ (''0x'' @ show_radix 16 (unat a)) @ post) = Ok a"
proof -
  have n: "unat a < 2 ^ 32" by (rule less_trans [OF unsigned_less]) simp
  note byte = byte_u32 [of a] and plain = show_radix_digits
  have nosp: "\<forall>c \<in> set (show_radix r (unat a)). \<not> is_space c" if "1 < r" "r \<le> 36" for r
    using that by (meson digit_not_space show_radix_digits)
  have d10: "trim (pre @ show_radix 10 (unat a) @ post) = show_radix 10 (unat a)"
    using nosp [of 10] by (intro parse_padded [OF pre post] show_radix_ne) simp
  have d16: "trim (pre @ (''0x'' @ show_radix 16 (unat a)) @ post) = ''0x'' @ show_radix 16 (unat a)"
    using nosp [of 16] by (intro parse_padded [OF pre post]) (auto simp: is_space_def)
  have "take 2 (show_radix 10 (unat a)) \<noteq> ''0x''"
  proof
    assume "take 2 (show_radix 10 (unat a)) = ''0x''"
    then have "CHR ''x'' \<in> set (show_radix 10 (unat a))" by (metis in_set_takeD list.set_intros(1,2))
    then show False using show_radix_digits [of 10 "CHR ''x''" "unat a"] by (auto simp: digit_value_def)
  qed
  then have "parse_uds_addr (pre @ show_radix 10 (unat a) @ post) = Ok a"
    using from_str_radix_show [of 10 "unat a"] n byte d10 by (simp add: parse_uds_addr_def Let_def del: of_nat_unat)
  moreover have "parse_uds_addr (pre @ (''0x'' @ show_radix 16 (unat a)) @ post) = Ok a"
    unfolding parse_uds_addr_def Let_def d16 using from_str_radix_show [of 16 "unat a"] n byte by (simp del: of_nat_unat)
  ultimately show ?thesis ..
qed

section \<open>Listening and pinging\<close>

text \<open>The documented layout of a person: a root pointer, two text pointers, the texts with their final zero,
  padded to words.\<close>

definition person_size :: "person_value \<Rightarrow> nat" where
  "person_size v = 24 + 8 * div_ceil (length (pv_name v) + 1) 8 + 8 * div_ceil (length (pv_email v) + 1) 8"

definition person_laws :: "person_codec \<Rightarrow> bool" where
  "person_laws C \<longleftrightarrow> (\<forall>v. person_size v \<le> 256 \<longrightarrow>
     (\<exists>seg. pc_build C (replicate 256 0) v = [seg] \<and> length seg = person_size v \<and> pc_name C seg = Some (pv_name v)))"

lemma length_show_10: "n < 10 ^ k \<Longrightarrow> 0 < k \<Longrightarrow> length (show_radix 10 n) \<le> k"
proof (induction k arbitrary: n)
  case (Suc k)
  show ?case
  proof (cases "n < 10")
    case False
    then have "0 < k" using Suc.prems(1) by (cases k) auto
    moreover have "n div 10 < 10 ^ k" using Suc.prems(1) by (simp add: div_less_iff_less_mult)
    ultimately have "length (show_radix 10 (n div 10)) \<le> k" by (intro Suc.IH)
    then show ?thesis using False by (subst show_radix.simps) simp
  qed (subst show_radix.simps, simp)
qed simp

lemma seq_person_size:
  assumes "length email = 4"
  shows "person_size \<lparr>pv_name = u32_to_string w, pv_email = email\<rparr> \<le> 256"
proof -
  have "unat w < 2 ^ LENGTH(32)" by (rule unsigned_less)
  then have "length (u32_to_string w) \<le> 10" unfolding u32_to_string_def by (intro length_show_10) simp_all
  then have "div_ceil (length (u32_to_string w) + 1) 8 \<le> 2" by (simp add: div_ceil_le_iff)
  then show ?thesis using assms by (simp add: person_size_def div_ceil_def)
qed

lemma seq_encodes:
  assumes laws: "person_laws C" and email: "length email = 4" and buf: "258 \<le> length buf"
  obtains payload buf' where
    "encode_capnp_into_buf mid buf (person_capnp_value C \<lparr>pv_name = u32_to_string w, pv_email = email\<rparr>) = (Ok payload, buf')"
    "\<exists>body. decode_wire payload = Ok \<lparr>raw_id = mid, raw_body = body\<rparr> \<and> decode_seq_capnp C body = Some w"
proof -
  let ?v = "\<lparr>pv_name = u32_to_string w, pv_email = email\<rparr>"
  obtain seg where seg: "pc_build C (replicate 256 0) ?v = [seg]" "length seg = person_size ?v" "pc_name C seg = Some (u32_to_string w)"
    using laws seq_person_size [OF email] unfolding person_laws_def by fastforce
  have small: "length seg \<le> 256" using seg(2) seq_person_size [OF email, of w] by simp
  let ?b1 = "copy_into buf (u16_to_le_bytes mid)"
  let ?out = "slice_of 2 258 ?b1"
  have lo: "length ?out = 256" using buf by (simp add: slice_simps)
  let ?b2 = "copy_at 2 ?b1 (copy_into ?out seg)"
  have enc: "encode_capnp_into_buf mid buf (person_capnp_value C ?v) = (Ok (take (2 + length seg) ?b2), ?b2)"
    using seg small buf lo by (simp add: encode_capnp_into_buf_def person_capnp_value_def person_encode_def HEADER_LEN_def Let_def)
  have "take (2 + length seg) ?b2 = u16_to_le_bytes mid @ seg"
    using small by (simp add: copy_at_def copy_into_def)
  then have "decode_wire (take (2 + length seg) ?b2) = Ok \<lparr>raw_id = mid, raw_body = seg\<rparr>"
    by (simp only: decode_wire_header)
  then show ?thesis using enc seg(3) u32_to_string_parses [of w] by (intro that) (auto simp: decode_seq_capnp_def)
qed

text \<open>The payload a \<open>ping\<close> sends.\<close>

definition ping_payload :: "person_codec \<Rightarrow> bytes \<Rightarrow> u32 \<Rightarrow> bytes \<Rightarrow> bool" where
  "ping_payload C buf seq payload \<longleftrightarrow>
     fst (encode_capnp_into_buf PING_ID buf (person_capnp_value C \<lparr>pv_name = u32_to_string seq, pv_email = ''ping''\<rparr>)) = Ok payload"

text \<open>C38: A listener that receives the payload of a ping answers with one send, to the node the ping came from, of a
  pong that the \<open>ping\<close> command with this sequence number accepts; what the stack reports of that send is what
  the iteration returns.\<close>

theorem listen_answers_ping:
  assumes laws: "person_laws C" and ping: "258 \<le> length buf" "ping_payload C buf seq payload"
    and recv: "es_recv_one N (node (tx_state ifc)) 1000000000 = (Ok (Some (\<lparr>reply_to = src\<rparr>, payload)), nd1)"
    and buf: "258 \<le> length (tx (tx_state ifc))"
  shows "\<exists>pong. fst (listen_iteration C N ifc) =
        map_err SendErr (map_err map_isotp_send_error (fst (ep_send_to (es_endpoint N) nd1 src pong IO_TIMEOUT))) \<and>
      node (tx_state (snd (listen_iteration C N ifc))) = snd (ep_send_to (es_endpoint N) nd1 src pong IO_TIMEOUT) \<and>
      on_pong C me seq (\<lparr>reply_to = me\<rparr>, pong)"
proof -
  have four: "length ''ping'' = 4" "length ''pong'' = 4" by simp_all
  obtain p0 b0 where "encode_capnp_into_buf PING_ID buf (person_capnp_value C \<lparr>pv_name = u32_to_string seq, pv_email = ''ping''\<rparr>) = (Ok p0, b0)"
    and p0: "\<exists>body. decode_wire p0 = Ok \<lparr>raw_id = PING_ID, raw_body = body\<rparr> \<and> decode_seq_capnp C body = Some seq"
    by (rule seq_encodes [OF laws four(1) ping(1)])
  then have "p0 = payload" using ping(2) by (simp add: ping_payload_def)
  then have pend: "on_ping C (\<lparr>reply_to = src\<rparr>, payload) [] = [(src, seq)]" using p0 by (auto simp: on_ping_def)
  obtain pong b1 where enc: "encode_capnp_into_buf PONG_ID (tx (tx_state ifc))
      (person_capnp_value C \<lparr>pv_name = u32_to_string seq, pv_email = ''pong''\<rparr>) = (Ok pong, b1)"
    and body: "\<exists>body. decode_wire pong = Ok \<lparr>raw_id = PONG_ID, raw_body = body\<rparr> \<and> decode_seq_capnp C body = Some seq"
    by (rule seq_encodes [OF laws four(2) buf])
  obtain r nd2 where send: "ep_send_to (es_endpoint N) nd1 src pong IO_TIMEOUT = (r, nd2)" by (rule prod.exhaust)
  have "on_pong C me seq (\<lparr>reply_to = me\<rparr>, pong)" using body by (auto simp: on_pong_def)
  then show ?thesis using recv pend enc send
    by (intro exI [of _ pong]) (cases r; simp add: listen_iteration_def iface_recv_one_def node_mut_def tx_node_mut_def send_capnp_to_def Let_def)
qed

text \<open>A concrete codec that satisfies the laws.\<close>

definition flat_person :: person_codec where
  "flat_person =
     \<lparr>pc_build = \<lambda>mem v. [word_of_nat (length (pv_name v)) # map (\<lambda>c. word_of_nat (of_char c)) (pv_name v) @
        replicate (person_size v - 1 - length (pv_name v)) 0],
      pc_name = \<lambda>bs. Some (map (\<lambda>b. char_of (unat b)) (take (unat (hd bs)) (tl bs)))\<rparr>"

lemma char_byte: "char_of (unat (word_of_nat (of_char c) :: u8)) = c"
proof -
  have "of_char c < (256 :: nat)" by simp
  then have "unat (word_of_nat (of_char c) :: u8) = of_char c" by (simp add: unat_of_nat take_bit_nat_eq_self_iff unsigned_of_nat)
  then show ?thesis by simp
qed

lemma flat_person_laws: "person_laws flat_person"
  unfolding person_laws_def
proof (intro allI impI)
  fix v assume size: "person_size v \<le> 256"
  have "length (pv_name v) + 1 \<le> 8 * div_ceil (length (pv_name v) + 1) 8"
    using div_ceil_le_iff [of 8 "length (pv_name v) + 1" "div_ceil (length (pv_name v) + 1) 8"] by simp
  then have fit: "1 + length (pv_name v) \<le> person_size v" by (simp add: person_size_def)
  then have "unat (word_of_nat (length (pv_name v)) :: u8) = length (pv_name v)"
    using size by (simp add: unat_of_nat take_bit_nat_eq_self_iff unsigned_of_nat)
  then show "\<exists>seg. pc_build flat_person (replicate 256 0) v = [seg] \<and> length seg = person_size v \<and> pc_name flat_person seg = Some (pv_name v)"
    using fit by (simp add: flat_person_def char_byte o_def)
qed

theorem listen_answers_ping_witness:
  "\<exists>payload pong. ping_payload flat_person (replicate 4096 0) 77 payload \<and>
     on_pong flat_person 9 77 (\<lparr>reply_to = 9\<rparr>, pong) \<and>
     snd (node (tx_state (snd (listen_iteration flat_person
       \<lparr>es_endpoint = \<lparr>ep_send_to = \<lambda>(d, l) dst p t. (Ok () :: (unit, unit send_error) result, d, l @ [(dst, p)]),
          ep_send_functional_to = \<lambda>n dst p t. (Ok (), n), ep_recv_one_into = \<lambda>n t b. (Ok IntoTimedOut, b, n)\<rparr>,
        es_recv_one = \<lambda>(d, l) t. (Ok d, None, l)\<rparr>
       \<lparr>tx_state = \<lparr>node = (Some (\<lparr>reply_to = 5\<rparr>, payload), []), tx = replicate 4096 0\<rparr>, rx_transport = (None, []), rx_state = [],
        notify = [] :: unit list\<rparr>)))) = [(5 :: u8, pong)]"
proof -
  obtain payload b where "encode_capnp_into_buf PING_ID (replicate 4096 0)
      (person_capnp_value flat_person \<lparr>pv_name = u32_to_string 77, pv_email = ''ping''\<rparr>) = (Ok payload, b)"
    by (rule seq_encodes [OF flat_person_laws, of "''ping''" "replicate 4096 0" PING_ID 77]) simp_all
  then have p: "ping_payload flat_person (replicate 4096 0) 77 payload" by (simp add: ping_payload_def)
  let ?N = "\<lparr>es_endpoint = \<lparr>ep_send_to = \<lambda>(d, l) dst p t. (Ok () :: (unit, unit send_error) result, d, l @ [(dst, p)]),
          ep_send_functional_to = \<lambda>n dst p t. (Ok (), n), ep_recv_one_into = \<lambda>n t b. (Ok IntoTimedOut, b, n)\<rparr>,
        es_recv_one = \<lambda>(d, l) t. (Ok d, None, l)\<rparr>"
  let ?ifc = "\<lparr>tx_state = \<lparr>node = (Some (\<lparr>reply_to = 5\<rparr>, payload), []), tx = replicate 4096 0\<rparr>, rx_transport = (None, []), rx_state = [],
        notify = [] :: unit list\<rparr>"
  have recv: "es_recv_one ?N (node (tx_state ?ifc)) 1000000000 = (Ok (Some (\<lparr>reply_to = 5\<rparr>, payload)), (None, []))" by simp
  have buf: "258 \<le> length (replicate 4096 (0 :: u8))" "258 \<le> length (tx (tx_state ?ifc))" by simp_all
  from listen_answers_ping [OF flat_person_laws buf(1) p recv buf(2), of 9] p show ?thesis by fastforce
qed

lemma ping_loop_ok:
  "ping_loop n C N now ifc dest seq deadline = Some (Ok s, ifc') \<Longrightarrow>
   s = seq \<and> (\<exists>ifc0 d. iface_recv_one N ifc0 100000000 = (Ok (Some d), ifc') \<and> on_pong C dest seq d)"
proof (induction n arbitrary: ifc)
  case (Suc n)
  obtain t ifc0 where t: "now ifc = (t, ifc0)" by (rule prod.exhaust)
  obtain r ifc1 where r: "iface_recv_one N ifc0 100000000 = (r, ifc1)" by (rule prod.exhaust)
  show ?case using Suc.prems Suc.IH [of ifc1] t r by (auto split: if_splits result.splits option.splits)
qed simp

lemma run_ping_ok:
  assumes "run_ping n C N now ifc dest millis = Some (Ok s, ifc')"
  shows "s = ping_seq millis \<and> (\<exists>ifc0 meta payload body. iface_recv_one N ifc0 100000000 = (Ok (Some (meta, payload)), ifc') \<and>
     reply_to meta = dest \<and> decode_wire payload = Ok \<lparr>raw_id = PONG_ID, raw_body = body\<rparr> \<and> decode_seq_capnp C body = Some s)"
proof -
  obtain ifc2 deadline where "ping_loop n C N now ifc2 dest (ping_seq millis) deadline = Some (Ok s, ifc')"
    using assms by (auto simp: run_ping_def Let_def split: result.splits prod.splits)
  from ping_loop_ok [OF this] obtain ifc0 meta payload where s: "s = ping_seq millis"
    and recv: "iface_recv_one N ifc0 100000000 = (Ok (Some (meta, payload)), ifc')" and pong: "on_pong C dest (ping_seq millis) (meta, payload)"
    by auto
  obtain raw where "decode_wire payload = Ok raw" "reply_to meta = dest" "raw_id raw = PONG_ID" "decode_seq_capnp C (raw_body raw) = Some s"
    using pong s by (auto simp: on_pong_def split: if_splits result.splits option.splits)
  then have "decode_wire payload = Ok \<lparr>raw_id = PONG_ID, raw_body = raw_body raw\<rparr>" by (cases raw) simp
  then show ?thesis using s recv \<open>reply_to meta = dest\<close> \<open>decode_seq_capnp C (raw_body raw) = Some s\<close> by blast
qed

end

