(* ===== verification/Unix_Server_Life.thy ===== *)
theory Unix_Server_Life
  imports Unix_Server
begin

text \<open>
  The life of a \<open>BusServer\<close>: \<open>start\<close>, the accept thread, the bus thread and the threads of the clients around
  the two channels of \<open>server.rs\<close>, and \<open>shutdown\<close>, which \<open>Drop\<close> calls too. The threads take their turns in any
  order: a run is a list of turns, and every turn is one iteration of a thread's loop, or one blocking call of
  the thread that shuts the server down. The program \<open>uds-server.rs\<close> is the server without a shutdown.
\<close>

section \<open>State\<close>

text \<open>Where the thread that calls \<open>shutdown\<close> is: not in the call, at one of the two joins, or past them.\<close>

datatype shutdown_phase = NotCalled | JoinAccept | JoinBus | Returned

record ('s, 'e) server_life =
  sl_path_exists :: bool
  sl_commands :: "('s, 'e) bus_command list"
  sl_tokens :: nat
  sl_bus :: "('s, 'e) bus_server"
  sl_bus_done :: bool
  sl_accept_done :: bool
  sl_next_id :: u64
  sl_readers :: "u64 list"
  sl_accept_handle :: bool
  sl_bus_handle :: bool
  sl_phase :: shutdown_phase

definition server_start :: "(unit, 'x) result \<Rightarrow> (unit, 'x) result \<Rightarrow> (('s, 'e) server_life, 'x) result" where
  "server_start bound nonblocking =
     try_res bound (\<lambda>_. try_res nonblocking (\<lambda>_.
       Ok \<lparr>sl_path_exists = True, sl_commands = [], sl_tokens = 0, sl_bus = bus_server_new, sl_bus_done = False,
           sl_accept_done = False, sl_next_id = 1, sl_readers = [], sl_accept_handle = True, sl_bus_handle = True,
           sl_phase = NotCalled\<rparr>))"

text \<open>A command for the bus thread; sending fails, and is ignored, when that thread has ended.\<close>

definition push_command :: "('s, 'e) server_life \<Rightarrow> ('s, 'e) bus_command \<Rightarrow> ('s, 'e) server_life" where
  "push_command s cmd = (if sl_bus_done s then s else s\<lparr>sl_commands := sl_commands s @ [cmd]\<rparr>)"

section \<open>The turns\<close>

text \<open>\<open>handle_client\<close>: nothing happens when preparing the stream fails; otherwise the client is announced and
  its two threads start.\<close>

definition handle_client :: "bool \<Rightarrow> ('s, 'e) server_life \<Rightarrow> u64 \<Rightarrow> ('s, 'e) server_life" where
  "handle_client prepared s i =
     (if prepared then let s1 = push_command s (AddClient i (unat i)) in s1\<lparr>sl_readers := sl_readers s1 @ [i]\<rparr> else s)"

text \<open>\<open>accept()\<close> gives a connection, would block, or fails.\<close>

datatype accept_result = Connection bool | WouldBlock | ListenerError

definition accept_turn :: "accept_result \<Rightarrow> ('s, 'e) server_life \<Rightarrow> ('s, 'e) server_life" where
  "accept_turn res s =
     (if sl_accept_done s then s
      else if sl_tokens s > 0 then s\<lparr>sl_tokens := sl_tokens s - 1, sl_accept_done := True\<rparr>
      else
        (case res of
           Connection prepared \<Rightarrow> handle_client prepared (s\<lparr>sl_next_id := sl_next_id s + 1\<rparr>) (sl_next_id s)
         | WouldBlock \<Rightarrow> s
         | ListenerError \<Rightarrow> s\<lparr>sl_accept_done := True\<rparr>))"

definition bus_turn :: "('s, 'e) can_id_api \<Rightarrow> ('s, 'e) server_life \<Rightarrow> ('s, 'e) server_life" where
  "bus_turn A s =
     (if sl_bus_done s then s
      else
        (case sl_commands s of
           [] \<Rightarrow> s
         | cmd # cmds \<Rightarrow>
             if cmd = Shutdown then s\<lparr>sl_commands := cmds, sl_bus_done := True\<rparr>
             else s\<lparr>sl_commands := cmds, sl_bus := handle_command A (sl_bus s) cmd\<rparr>))"

text \<open>A client's reader thread handles one message, or the stream fails; its writer thread reports a failed
  write.\<close>

definition reader_turn :: "('s, 'e) can_id_api \<Rightarrow> u64 \<Rightarrow> (u8 \<times> bytes) option \<Rightarrow> ('s, 'e) server_life \<Rightarrow> ('s, 'e) server_life" where
  "reader_turn A i msg s =
     (if i \<notin> set (sl_readers s) then s
      else
        let (cmds, continues) = (case msg of None \<Rightarrow> ([RemoveClient i], False) | Some (t, payload) \<Rightarrow> reader_message A i t payload);
            s1 = foldl push_command s cmds
        in if continues then s1 else s1\<lparr>sl_readers := removeAll i (sl_readers s1)\<rparr>)"

definition writer_failed :: "u64 \<Rightarrow> ('s, 'e) server_life \<Rightarrow> ('s, 'e) server_life" where
  "writer_failed i s = push_command s (RemoveClient i)"

text \<open>\<open>shutdown\<close>: both signals, the join of each thread whose handle is still there, the socket file.\<close>

definition remove_path :: "('s, 'e) server_life \<Rightarrow> ('s, 'e) server_life" where
  "remove_path s = s\<lparr>sl_path_exists := False, sl_phase := Returned\<rparr>"

definition to_join_bus :: "('s, 'e) server_life \<Rightarrow> ('s, 'e) server_life" where
  "to_join_bus s = (if sl_bus_handle s then s\<lparr>sl_bus_handle := False, sl_phase := JoinBus\<rparr> else remove_path s)"

definition shutdown_call :: "('s, 'e) server_life \<Rightarrow> ('s, 'e) server_life" where
  "shutdown_call s =
     (let s1 = (if sl_accept_done s then s else s\<lparr>sl_tokens := sl_tokens s + 1\<rparr>);
          s2 = push_command s1 Shutdown
      in if sl_accept_handle s2 then s2\<lparr>sl_accept_handle := False, sl_phase := JoinAccept\<rparr> else to_join_bus s2)"

definition main_turn :: "('s, 'e) server_life \<Rightarrow> ('s, 'e) server_life" where
  "main_turn s =
     (case sl_phase s of
        JoinAccept \<Rightarrow> if sl_accept_done s then to_join_bus s else s
      | JoinBus \<Rightarrow> if sl_bus_done s then remove_path s else s
      | _ \<Rightarrow> s)"

datatype life_event =
    AcceptTurn accept_result
  | BusTurn
  | ReaderTurn u64 "(u8 \<times> bytes) option"
  | WriterFailed u64
  | MainTurn

fun life_step :: "('s, 'e) can_id_api \<Rightarrow> ('s, 'e) server_life \<Rightarrow> life_event \<Rightarrow> ('s, 'e) server_life" where
  "life_step A s (AcceptTurn res) = accept_turn res s"
| "life_step A s BusTurn = bus_turn A s"
| "life_step A s (ReaderTurn i msg) = reader_turn A i msg s"
| "life_step A s (WriterFailed i) = writer_failed i s"
| "life_step A s MainTurn = main_turn s"

section \<open>The server program\<close>

text \<open>\<open>main\<close> of \<open>uds-server.rs\<close>: it returns the error of \<open>start\<close>, or prints two lines and parks for ever while the other threads
  take their turns; a spurious wake-up parks it again.\<close>

fun parked_step :: "('s, 'e) can_id_api \<Rightarrow> ('s, 'e) server_life \<Rightarrow> life_event \<Rightarrow> ('s, 'e) server_life" where
  "parked_step A s MainTurn = s"
| "parked_step A s e = life_step A s e"

definition uds_server_main ::
    "('s, 'e) can_id_api \<Rightarrow> (unit, 'x) result \<Rightarrow> (unit, 'x) result \<Rightarrow> life_event list \<Rightarrow> (('s, 'e) server_life, 'x) result" where
  "uds_server_main A bound nonblocking evs =
     try_res (server_start bound nonblocking) (\<lambda>server. Ok (run_steps (parked_step A) server evs))"

section \<open>Shutting down\<close>

fun is_accept_turn :: "life_event \<Rightarrow> bool" where
  "is_accept_turn (AcceptTurn _) = True"
| "is_accept_turn _ = False"

text \<open>The shutdown command is in the queue with at most \<open>k\<close> commands before it, or the bus thread has ended.\<close>

definition bus_ends_within :: "nat \<Rightarrow> ('s, 'e) server_life \<Rightarrow> bool" where
  "bus_ends_within k s \<longleftrightarrow> sl_bus_done s \<or> (\<exists>pre post. sl_commands s = pre @ Shutdown # post \<and> length pre \<le> k)"

lemma push_command_simps [simp]:
  "sl_bus_done (push_command s cmd) = sl_bus_done s" "sl_accept_done (push_command s cmd) = sl_accept_done s"
  "sl_tokens (push_command s cmd) = sl_tokens s" "sl_phase (push_command s cmd) = sl_phase s"
  "sl_bus_handle (push_command s cmd) = sl_bus_handle s" "sl_accept_handle (push_command s cmd) = sl_accept_handle s"
  "sl_bus (push_command s cmd) = sl_bus s" "sl_path_exists (push_command s cmd) = sl_path_exists s"
  by (simp_all add: push_command_def)

lemma push_command_bus: "bus_ends_within k s \<Longrightarrow> bus_ends_within k (push_command s cmd)"
  by (fastforce simp: bus_ends_within_def push_command_def)

lemma foldl_push:
  "sl_bus_done (foldl push_command s cmds) = sl_bus_done s" "sl_accept_done (foldl push_command s cmds) = sl_accept_done s"
  "sl_tokens (foldl push_command s cmds) = sl_tokens s" "sl_phase (foldl push_command s cmds) = sl_phase s"
  "sl_bus_handle (foldl push_command s cmds) = sl_bus_handle s" "sl_bus (foldl push_command s cmds) = sl_bus s"
  "bus_ends_within k s \<Longrightarrow> bus_ends_within k (foldl push_command s cmds)"
  by (induction cmds arbitrary: s) (simp_all add: push_command_bus)

lemma bus_turn_within: "bus_ends_within k s \<Longrightarrow> bus_ends_within (k - Suc 0) (bus_turn A s)"
proof -
  assume "bus_ends_within k s"
  then consider "sl_bus_done s" | pre post where "\<not> sl_bus_done s" "sl_commands s = pre @ Shutdown # post" "length pre \<le> k"
    by (auto simp: bus_ends_within_def)
  then show ?thesis
  proof cases
    case (2 pre post)
    then show ?thesis by (cases pre) (fastforce simp: bus_ends_within_def bus_turn_def)+
  qed (simp add: bus_ends_within_def bus_turn_def)
qed

lemma bus_turn_ends: "bus_ends_within 0 s \<Longrightarrow> sl_bus_done (bus_turn A s)"
  by (auto simp: bus_ends_within_def bus_turn_def)

lemma reader_turn_keeps:
  "sl_bus_done (reader_turn A i msg s) = sl_bus_done s" "sl_accept_done (reader_turn A i msg s) = sl_accept_done s"
  "sl_tokens (reader_turn A i msg s) = sl_tokens s" "sl_phase (reader_turn A i msg s) = sl_phase s"
  "sl_bus_handle (reader_turn A i msg s) = sl_bus_handle s" "sl_bus (reader_turn A i msg s) = sl_bus s"
  by (simp_all add: reader_turn_def foldl_push Let_def split: prod.splits)

lemma handle_client_simps [simp]:
  "sl_bus_done (handle_client p s i) = sl_bus_done s" "sl_accept_done (handle_client p s i) = sl_accept_done s"
  "sl_tokens (handle_client p s i) = sl_tokens s" "sl_phase (handle_client p s i) = sl_phase s"
  "sl_bus_handle (handle_client p s i) = sl_bus_handle s" "sl_bus (handle_client p s i) = sl_bus s"
  "sl_path_exists (handle_client p s i) = sl_path_exists s"
  by (simp_all add: handle_client_def Let_def)

lemma bus_ends_within_upd [simp]:
  "bus_ends_within k (s\<lparr>sl_next_id := n\<rparr>) = bus_ends_within k s" "bus_ends_within k (s\<lparr>sl_readers := rs\<rparr>) = bus_ends_within k s"
  "bus_ends_within k (s\<lparr>sl_tokens := t, sl_accept_done := b\<rparr>) = bus_ends_within k s"
  "bus_ends_within k (s\<lparr>sl_accept_done := b\<rparr>) = bus_ends_within k s" "bus_ends_within k (s\<lparr>sl_tokens := n'\<rparr>) = bus_ends_within k s"
  by (simp_all add: bus_ends_within_def)

lemma bus_ends_step: "bus_ends_within k s \<Longrightarrow> bus_ends_within (if e = BusTurn then k - 1 else k) (life_step A s e)"
proof (cases e)
  case (AcceptTurn res)
  assume "bus_ends_within k s"
  then show ?thesis using AcceptTurn
    by (cases res) (simp_all add: accept_turn_def handle_client_def push_command_bus Let_def)
next
  case MainTurn
  assume "bus_ends_within k s"
  then show ?thesis using MainTurn
    by (cases "sl_phase s") (auto simp: main_turn_def to_join_bus_def remove_path_def bus_ends_within_def)
next
  case (ReaderTurn i msg)
  assume "bus_ends_within k s"
  then show ?thesis using ReaderTurn by (simp add: reader_turn_def foldl_push Let_def split: prod.splits)
qed (simp_all add: bus_turn_within writer_failed_def push_command_bus)

lemma bus_done_step: "sl_bus_done s \<Longrightarrow> sl_bus_done (life_step A s e) \<and> sl_bus (life_step A s e) = sl_bus s"
  by (cases e) (auto simp: accept_turn_def bus_turn_def reader_turn_keeps writer_failed_def main_turn_def to_join_bus_def remove_path_def
      split: accept_result.splits shutdown_phase.splits)

lemma accept_done_step: "sl_accept_done s \<Longrightarrow> sl_accept_done (life_step A s e)"
  by (cases e) (auto simp: accept_turn_def bus_turn_def reader_turn_keeps writer_failed_def main_turn_def to_join_bus_def remove_path_def
      split: accept_result.splits shutdown_phase.splits list.splits)

lemma accept_signalled_step:
  "sl_accept_done s \<or> 0 < sl_tokens s \<Longrightarrow> sl_accept_done (life_step A s e) \<or> 0 < sl_tokens (life_step A s e) \<and> \<not> is_accept_turn e"
  by (cases e) (auto simp: accept_turn_def bus_turn_def reader_turn_keeps writer_failed_def main_turn_def to_join_bus_def remove_path_def
      split: accept_result.splits shutdown_phase.splits list.splits)

definition shutting_down :: "('s, 'e) server_life \<Rightarrow> bool" where
  "shutting_down s \<longleftrightarrow> sl_phase s = JoinAccept \<and> sl_bus_handle s \<or> sl_phase s = JoinBus \<or> sl_phase s = Returned \<and> \<not> sl_path_exists s"

lemma shutting_down_step: "shutting_down s \<Longrightarrow> shutting_down (life_step A s e)"
proof (cases e)
  case (ReaderTurn i msg)
  have p: "sl_path_exists (foldl push_command s cmds) = sl_path_exists s" for cmds by (induction cmds arbitrary: s) simp_all
  have "sl_path_exists (reader_turn A i msg s) = sl_path_exists s"
    using p by (simp add: reader_turn_def Let_def split: prod.splits)
  then show "shutting_down s \<Longrightarrow> ?thesis" using ReaderTurn by (simp add: shutting_down_def reader_turn_keeps)
qed (auto simp: shutting_down_def accept_turn_def bus_turn_def writer_failed_def main_turn_def to_join_bus_def remove_path_def
      split: accept_result.splits shutdown_phase.splits list.splits)

interpretation life_shutting: run_invariant "life_step A" shutting_down "\<lambda>_. True" for A
  by unfold_locales (simp add: shutting_down_step)

interpretation life_accept: run_invariant "life_step A" sl_accept_done "\<lambda>_. True" for A
  by unfold_locales (simp add: accept_done_step)

interpretation life_frozen: run_invariant "life_step A" "\<lambda>s. sl_bus_done s \<and> sl_bus s = b" "\<lambda>_. True" for A b
  by unfold_locales (simp add: bus_done_step)

lemma past_accept_step:
  "sl_phase s = JoinBus \<or> sl_phase s = Returned \<Longrightarrow> sl_phase (life_step A s e) = JoinBus \<or> sl_phase (life_step A s e) = Returned"
  by (cases e) (auto simp: accept_turn_def bus_turn_def reader_turn_keeps writer_failed_def main_turn_def remove_path_def
      split: accept_result.splits list.splits)

interpretation life_past: run_invariant "life_step A" "\<lambda>s. sl_phase s = JoinBus \<or> sl_phase s = Returned" "\<lambda>_. True" for A
  by unfold_locales (simp only: past_accept_step)

lemma all_true [simp]: "list_all (\<lambda>_. True) xs"
  by (induction xs) simp_all

lemma accept_ends:
  "sl_accept_done s \<or> 0 < sl_tokens s \<Longrightarrow> list_ex is_accept_turn es \<Longrightarrow> sl_accept_done (run_steps (life_step A) s es)"
proof (induction es arbitrary: s)
  case (Cons e es)
  show ?case
  proof (cases "sl_accept_done (life_step A s e)")
    case True
    then show ?thesis by (simp add: life_accept.run_inv)
  next
    case False
    then have "0 < sl_tokens (life_step A s e)" "\<not> is_accept_turn e" using accept_signalled_step [OF Cons.prems(1)] by blast+
    then show ?thesis using Cons.IH [of "life_step A s e"] Cons.prems(2) by simp
  qed
qed simp

lemma bus_ends:
  "bus_ends_within k s \<Longrightarrow> k < count_list es BusTurn \<Longrightarrow> sl_bus_done (run_steps (life_step A) s es)"
proof (induction es arbitrary: s k)
  case (Cons e es)
  show ?case
  proof (cases "e = BusTurn \<and> k = 0")
    case True
    then have "sl_bus_done (life_step A s e)" using bus_turn_ends [of s A] Cons.prems(1) by simp
    then show ?thesis using life_frozen.run_inv [of "life_step A s e" "sl_bus (life_step A s e)" es A] by simp
  next
    case False
    then show ?thesis using Cons.IH [OF bus_ends_step [OF Cons.prems(1), of e A]] Cons.prems(2) by (auto split: if_splits)
  qed
qed simp

lemma main_turn_returns: "sl_bus_done s \<Longrightarrow> sl_phase s = JoinBus \<or> sl_phase s = Returned \<Longrightarrow> sl_phase (main_turn s) = Returned"
  by (auto simp: main_turn_def remove_path_def)

lemma joins_return:
  assumes "shutting_down s" "sl_accept_done s" "sl_bus_done s"
  shows "sl_phase (run_steps (life_step A) s (MainTurn # es @ [MainTurn])) = Returned"
proof -
  let ?s1 = "main_turn s" and ?s2 = "run_steps (life_step A) (main_turn s) es"
  have "shutting_down ?s1" "sl_bus_done ?s1" and ph: "sl_phase ?s1 = JoinBus \<or> sl_phase ?s1 = Returned"
    using assms shutting_down_step [OF assms(1), of A MainTurn] bus_done_step [OF assms(3), of A MainTurn]
    by (auto simp: shutting_down_def main_turn_def to_join_bus_def remove_path_def)
  then have "sl_bus_done ?s2" using life_frozen.run_inv [of ?s1 "sl_bus ?s1" es A] by simp
  moreover have "sl_phase ?s2 = JoinBus \<or> sl_phase ?s2 = Returned" by (rule life_past.run_inv [OF ph all_true])
  ultimately have "sl_phase (main_turn ?s2) = Returned" by (rule main_turn_returns)
  then show ?thesis by (simp add: run_steps_append)
qed

text \<open>C35: \<open>shutdown\<close> of a running server returns, whatever the clients do: once the accept thread has had a turn and
  the bus thread one more turn than there were commands in its queue, the joins succeed, and at the return the
  socket file is gone. After that nothing a client sends changes what the server has sent it.\<close>

theorem server_shutdown_returns:
  assumes "sl_phase s = NotCalled" and "sl_accept_handle s" and "sl_bus_handle s"
    and "list_ex is_accept_turn es" and "length (sl_commands s) < count_list es BusTurn"
    and "t = run_steps (life_step A) (shutdown_call s) (es @ MainTurn # es' @ [MainTurn])"
  shows "sl_phase t = Returned \<and> \<not> sl_path_exists t \<and> sl_bus (run_steps (life_step A) t more_events) = sl_bus t"
proof -
  let ?s0 = "shutdown_call s" and ?s1 = "run_steps (life_step A) (shutdown_call s) es"
  have call: "shutting_down ?s0" "sl_accept_done ?s0 \<or> 0 < sl_tokens ?s0" "bus_ends_within (length (sl_commands s)) ?s0"
    using assms(2,3) by (auto simp: shutdown_call_def shutting_down_def bus_ends_within_def push_command_def Let_def)
  have s1: "shutting_down ?s1" "sl_accept_done ?s1" "sl_bus_done ?s1"
    using life_shutting.run_inv [OF call(1)] accept_ends [OF call(2) assms(4)] bus_ends [OF call(3) assms(5)] by simp_all
  have t: "t = run_steps (life_step A) ?s1 (MainTurn # es' @ [MainTurn])" using assms(6) by (simp add: run_steps_append)
  have ret: "sl_phase t = Returned" unfolding t by (rule joins_return [OF s1])
  moreover have "shutting_down t" unfolding t by (rule life_shutting.run_inv [OF s1(1) all_true])
  moreover have "sl_bus_done t \<and> sl_bus t = sl_bus ?s1" unfolding t by (rule life_frozen.run_inv) (use s1(3) in simp_all)
  ultimately show ?thesis using life_frozen.run_inv [of t "sl_bus t" more_events A] by (simp add: shutting_down_def)
qed

definition busy_server :: "(unit, unit) server_life" where
  "busy_server = \<lparr>sl_path_exists = True, sl_commands = [AddClient 1 1], sl_tokens = 0, sl_bus = bus_server_new, sl_bus_done = False,
     sl_accept_done = False, sl_next_id = 2, sl_readers = [1], sl_accept_handle = True, sl_bus_handle = True, sl_phase = NotCalled\<rparr>"

theorem server_shutdown_returns_witness:
  "\<exists>A t. t = run_steps (life_step A) (shutdown_call busy_server)
       ([BusTurn, AcceptTurn WouldBlock, WriterFailed 1, BusTurn] @ MainTurn # [ReaderTurn 1 None] @ [MainTurn]) \<and>
     sl_phase t = Returned \<and> \<not> sl_path_exists t"
proof (intro exI conjI)
  let ?A = "\<lparr>std_new = \<lambda>_. Some (), std_raw = \<lambda>_. 0, ext_new = \<lambda>_. Some (), ext_raw = \<lambda>_. 0\<rparr>"
  let ?t = "run_steps (life_step ?A) (shutdown_call busy_server)
       ([BusTurn, AcceptTurn WouldBlock, WriterFailed 1, BusTurn] @ MainTurn # [ReaderTurn 1 None] @ [MainTurn])"
  have "sl_phase ?t = Returned \<and> \<not> sl_path_exists ?t \<and> sl_bus (run_steps (life_step ?A) ?t []) = sl_bus ?t"
    by (rule server_shutdown_returns [OF _ _ _ _ _ refl]) (simp_all add: busy_server_def)
  then show "sl_phase ?t = Returned" "\<not> sl_path_exists ?t" by blast+
qed (rule refl)

section \<open>The server program serves\<close>

text \<open>No thread of the server program ends the bus or removes the socket file, whatever the clients send: only the
  accept thread can stop, on an error of its listener.\<close>

definition serving :: "('s, 'e) server_life \<Rightarrow> bool" where
  "serving s \<longleftrightarrow> sl_phase s = NotCalled \<and> \<not> sl_bus_done s \<and> sl_path_exists s \<and> Shutdown \<notin> set (sl_commands s)"

lemma push_command_serving: "serving s \<Longrightarrow> cmd \<noteq> Shutdown \<Longrightarrow> serving (push_command s cmd)"
  by (auto simp: serving_def push_command_def)

lemma foldl_push_serving: "serving s \<Longrightarrow> Shutdown \<notin> set cmds \<Longrightarrow> serving (foldl push_command s cmds)"
proof (induction cmds arbitrary: s)
  case (Cons cmd cmds)
  then show ?case using push_command_serving [OF Cons.prems(1), of cmd] by auto
qed simp

lemma serving_upd [simp]:
  "serving (s\<lparr>sl_next_id := n\<rparr>) = serving s" "serving (s\<lparr>sl_readers := rs\<rparr>) = serving s" "serving (s\<lparr>sl_accept_done := b\<rparr>) = serving s"
  "serving (s\<lparr>sl_tokens := t\<rparr>) = serving s"
  by (simp_all add: serving_def)

lemma reader_message_serving: "Shutdown \<notin> set (fst (reader_message A i t payload))"
  by (auto simp: reader_message_def split: result.splits if_splits)

lemma parked_step_serving:
  assumes s: "serving s"
  shows "serving (parked_step A s e)"
proof (cases e)
  case (AcceptTurn res)
  then show ?thesis using s by (cases res) (simp_all add: accept_turn_def handle_client_def Let_def push_command_serving)
next
  case BusTurn
  then show ?thesis using s by (auto simp: bus_turn_def serving_def split: list.split)
next
  case (ReaderTurn i msg)
  have "Shutdown \<notin> set (fst (case msg of None \<Rightarrow> ([RemoveClient i], False) | Some (t, payload) \<Rightarrow> reader_message A i t payload))"
    using reader_message_serving by (auto split: option.split prod.split)
  then show ?thesis using s ReaderTurn foldl_push_serving [OF s] by (auto simp: reader_turn_def Let_def split: prod.splits)
qed (use s in \<open>simp_all add: writer_failed_def push_command_serving\<close>)

interpretation serve: run_invariant "parked_step A" serving "\<lambda>_. True" for A
  by unfold_locales (simp add: parked_step_serving)

lemma uds_server_serves:
  assumes "uds_server_main A bound nonblocking evs = Ok s"
  shows "serving s"
proof -
  obtain s0 where s0: "server_start bound nonblocking = Ok s0" "s = run_steps (parked_step A) s0 evs"
    using assms by (auto simp: uds_server_main_def)
  then have "serving s0" by (auto simp: server_start_def serving_def)
  moreover have "list_all (\<lambda>_. True) evs" by (simp add: list_all_iff)
  ultimately show ?thesis using s0(2) serve.run_inv by blast
qed

end
