(* ===== verification/Platform_Stubs.thy ===== *)
theory Platform_Stubs
  imports IsoTp_Linux Interface
begin

text \<open>
  What \<open>linux-socketcan-iso-tp\<close> and \<open>embedded-can-socketcan\<close> are on targets other than Linux
  (\<open>non_linux.rs\<close> of each): the same types, and operations that always fail. The option structures have the
  fields of the Linux ones and are modelled by the same records. The lemmas show that a program on the stubs
  sees an error from every operation and never a payload, and that options and flags mean the same on both.
\<close>

section \<open>ISO-TP sockets\<close>

datatype stub_error = StubError

definition stub_flow_control_options_new :: "u8 \<Rightarrow> u8 \<Rightarrow> u8 \<Rightarrow> isotp_flow_control_options" where
  "stub_flow_control_options_new block_size st_min wft_max =
     \<lparr>fo_block_size = block_size, fo_st_min = st_min, fo_wft_max = wft_max\<rparr>"

definition stub_link_layer_options_new :: "u8 \<Rightarrow> u8 \<Rightarrow> u8 \<Rightarrow> isotp_link_layer_options" where
  "stub_link_layer_options_new mtu tx_dl tx_flags = \<lparr>lo_mtu = mtu, lo_tx_dl = tx_dl, lo_tx_flags = tx_flags\<rparr>"

definition stub_kernel_options_default :: isotp_kernel_options where
  "stub_kernel_options_default =
     \<lparr>ko_max_rx_payload = 4095,
      ko_socket = \<lparr>so_flags = 0, so_frame_txtime = None, so_ext_address = None, so_tx_padding = None, so_rx_padding = None,
        so_rx_ext_address = None\<rparr>,
      ko_flow_control = None, ko_link_layer = None, ko_force_tx_stmin = None, ko_force_rx_stmin = None\<rparr>"

datatype stub_isotp = StubIsoTp

definition stub_isotp_open :: "string \<Rightarrow> 'i \<Rightarrow> 'i \<Rightarrow> isotp_kernel_options \<Rightarrow> (stub_isotp, stub_error) result" where
  "stub_isotp_open ifname rx_id tx_id options = Err StubError"

definition stub_isotp_send_to :: "(stub_isotp, stub_error) send_fn" where
  "stub_isotp_send_to s dst payload tmo = (Err (SendBackend StubError), s)"

definition stub_isotp_send_functional_to :: "(stub_isotp, stub_error) send_fn" where
  "stub_isotp_send_functional_to s functional_to payload tmo = (Err (SendBackend StubError), s)"

text \<open>\<open>recv_one\<close> never calls its callback, so what it captures is returned as it was.\<close>

definition stub_isotp_recv_one ::
    "stub_isotp \<Rightarrow> duration \<Rightarrow> (recv_meta \<Rightarrow> bytes \<Rightarrow> 'c \<Rightarrow> (recv_control, stub_error) result \<times> 'c) \<Rightarrow> 'c \<Rightarrow>
     (recv_status, stub_error recv_error) result \<times> stub_isotp \<times> 'c" where
  "stub_isotp_recv_one s tmo on_payload captured = (Err (RecvBackend StubError), s, captured)"

definition stub_isotp_set_rx_flow_control :: "stub_isotp \<Rightarrow> rx_flow_control \<Rightarrow> (unit, stub_error) result \<times> stub_isotp" where
  "stub_isotp_set_rx_flow_control s fc = (Err StubError, s)"

section \<open>The tokio socket\<close>

datatype stub_tokio = StubTokio

definition stub_tokio_open :: "string \<Rightarrow> 'i \<Rightarrow> 'i \<Rightarrow> isotp_kernel_options \<Rightarrow> (stub_tokio, stub_error) result" where
  "stub_tokio_open ifname rx_id tx_id options = Err StubError"

definition stub_tokio_send_to :: "(stub_tokio, stub_error) send_fn" where
  "stub_tokio_send_to s dst payload tmo = (Err (SendBackend StubError), s)"

definition stub_tokio_send_functional_to :: "(stub_tokio, stub_error) send_fn" where
  "stub_tokio_send_functional_to s functional_to payload tmo = (Err (SendBackend StubError), s)"

definition stub_tokio_recv_one ::
    "stub_tokio \<Rightarrow> duration \<Rightarrow> (recv_meta \<Rightarrow> bytes \<Rightarrow> 'c \<Rightarrow> (recv_control, stub_error) result \<times> 'c) \<Rightarrow> 'c \<Rightarrow>
     (recv_status, stub_error recv_error) result \<times> stub_tokio \<times> 'c" where
  "stub_tokio_recv_one s tmo on_payload captured = (Err (RecvBackend StubError), s, captured)"

definition stub_tokio_recv_one_into :: "(stub_tokio, stub_error) recv_into_fn" where
  "stub_tokio_recv_one_into s tmo out = (Err (RecvBackend StubError), out, s)"

definition stub_tokio_set_rx_flow_control :: "stub_tokio \<Rightarrow> rx_flow_control \<Rightarrow> (unit, stub_error) result \<times> stub_tokio" where
  "stub_tokio_set_rx_flow_control s fc = (Err StubError, s)"

definition stub_tokio_endpoint :: "(stub_tokio, stub_error) isotp_endpoint" where
  "stub_tokio_endpoint = \<lparr>ep_send_to = stub_tokio_send_to, ep_send_functional_to = stub_tokio_send_functional_to,
     ep_recv_one_into = stub_tokio_recv_one_into\<rparr>"

section \<open>The demux\<close>

record stub_demux =
  sd_local_addr :: u8
  sd_options :: isotp_kernel_options

definition stub_demux_new :: "string \<Rightarrow> u8 \<Rightarrow> isotp_kernel_options \<Rightarrow> stub_demux" where
  "stub_demux_new ifname addr options = \<lparr>sd_local_addr = addr, sd_options = options\<rparr>"

definition stub_demux_local_addr :: "stub_demux \<Rightarrow> u8" where
  "stub_demux_local_addr d = sd_local_addr d"

definition stub_demux_register_peer :: "stub_demux \<Rightarrow> u8 \<Rightarrow> (unit, stub_error) result \<times> stub_demux" where
  "stub_demux_register_peer d peer = (Err StubError, d)"

definition stub_demux_send_to :: "(stub_demux, stub_error) send_fn" where
  "stub_demux_send_to d dst payload tmo = (Err (SendBackend StubError), d)"

definition stub_demux_send_functional_to :: "(stub_demux, stub_error) send_fn" where
  "stub_demux_send_functional_to d functional_to payload tmo = (Err (SendBackend StubError), d)"

definition stub_demux_recv_one ::
    "stub_demux \<Rightarrow> duration \<Rightarrow> (recv_meta \<Rightarrow> bytes \<Rightarrow> 'c \<Rightarrow> (recv_control, stub_error) result \<times> 'c) \<Rightarrow> 'c \<Rightarrow>
     (recv_status, stub_error recv_error) result \<times> stub_demux \<times> 'c" where
  "stub_demux_recv_one d tmo on_payload captured = (Err (RecvBackend StubError), d, captured)"

definition stub_demux_set_rx_flow_control :: "stub_demux \<Rightarrow> rx_flow_control \<Rightarrow> (unit, stub_error) result \<times> stub_demux" where
  "stub_demux_set_rx_flow_control d fc = (Err StubError, d)"

definition stub_flags :: "(string \<times> u32) list" where
  "stub_flags =
     [(''CAN_ISOTP_LISTEN_MODE'', 0x0001), (''CAN_ISOTP_EXTEND_ADDR'', 0x0002), (''CAN_ISOTP_TX_PADDING'', 0x0004),
      (''CAN_ISOTP_RX_PADDING'', 0x0008), (''CAN_ISOTP_CHK_PAD_LEN'', 0x0010), (''CAN_ISOTP_CHK_PAD_DATA'', 0x0020),
      (''CAN_ISOTP_HALF_DUPLEX'', 0x0040), (''CAN_ISOTP_FORCE_TXSTMIN'', 0x0080), (''CAN_ISOTP_FORCE_RXSTMIN'', 0x0100),
      (''CAN_ISOTP_RX_EXT_ADDR'', 0x0200), (''CAN_ISOTP_WAIT_TX_DONE'', 0x0400), (''CAN_ISOTP_SF_BROADCAST'', 0x0800),
      (''CAN_ISOTP_CF_BROADCAST'', 0x1000), (''CAN_ISOTP_DYN_FC_PARMS'', 0x2000)]"

section \<open>SocketCAN adapters\<close>

datatype unsupported_platform = UnsupportedPlatform

datatype stub_socket_can = StubSocketCan

datatype stub_socket_can_fd = StubSocketCanFd

definition stub_socket_can_open :: "string \<Rightarrow> (stub_socket_can, unsupported_platform) result" where
  "stub_socket_can_open ifname = Err UnsupportedPlatform"

definition stub_socket_can_fd_open :: "string \<Rightarrow> (stub_socket_can_fd, unsupported_platform) result" where
  "stub_socket_can_fd_open ifname = Err UnsupportedPlatform"

section \<open>The stubs keep the contracts\<close>

interpretation stub_socket: recv_into_endpoint stub_tokio_recv_one_into
  by unfold_locales (simp_all add: stub_tokio_recv_one_into_def)

lemma stub_options_agree:
  "stub_kernel_options_default = kernel_options_default"
  "stub_flow_control_options_new b s w = flow_control_options_new b s w"
  "stub_link_layer_options_new m d f = link_layer_options_new m d f"
  by (simp_all add: stub_kernel_options_default_def kernel_options_default_def socket_options_default_def
      stub_flow_control_options_new_def flow_control_options_new_def stub_link_layer_options_new_def link_layer_options_new_def)

lemma stub_flags_agree:
  "map (map_of stub_flags) [''CAN_ISOTP_EXTEND_ADDR'', ''CAN_ISOTP_TX_PADDING'', ''CAN_ISOTP_RX_PADDING'',
      ''CAN_ISOTP_FORCE_TXSTMIN'', ''CAN_ISOTP_FORCE_RXSTMIN'', ''CAN_ISOTP_RX_EXT_ADDR''] =
   map Some [CAN_ISOTP_EXTEND_ADDR, CAN_ISOTP_TX_PADDING, CAN_ISOTP_RX_PADDING,
      CAN_ISOTP_FORCE_TXSTMIN, CAN_ISOTP_FORCE_RXSTMIN, CAN_ISOTP_RX_EXT_ADDR]"
  by (simp add: stub_flags_def isotp_flags)

lemma stub_flags_single_bits: "map snd stub_flags = map (\<lambda>i. push_bit i 1) [0..<14]"
  by (simp add: stub_flags_def upt_rec)

text \<open>An interface on the tokio stub: every send reports an error, and the pump never delivers.\<close>

lemma stub_interface_fails:
  "is_err (fst (send_capnp_to stub_tokio_endpoint mid ifc dst v tmo))"
  "is_err (fst (send_capnp_functional_to stub_tokio_endpoint mid ifc dst v tmo))"
  "fst (pump_ingest_once stub_tokio_endpoint W ids D B ifc tmo buf) = Return (Err (PumpRecvBackend StubError))"
  by (auto simp: send_capnp_to_def send_capnp_functional_to_def pump_ingest_once_def stub_tokio_endpoint_def stub_tokio_send_to_def
      stub_tokio_send_functional_to_def stub_tokio_recv_one_into_def Let_def split: prod.splits result.splits)

end
