(* ===== verification/Spec2Isabelle.thy ===== *)
theory Spec2Isabelle
  imports
    Prelude
    Thincan_Wire
    Mailbox
    IsoTp_Interface
    Interface
    Interface_Runs
    FT_Types
    FT_Encode
    FT_Codec
    FT_Sender
    FT_Sender_Props
    FT_Receiver
    FT_Receiver_No_Alloc
    FT_Receiver_Props
    Queue_Tokio
    Queue_Embassy
    Queue_Embassy_Props
    IsoTp_Linux
    IsoTp_Linux_Props
    IsoTp_Demux
    Unix_Wire
    Unix_Server
    Unix_Client
    Unix_Client_Props
    Unix_Client_Runs
    Unix_Client_Live
    Unix_Client_Sent
    Can_Filters
    Can_Socket
    Can_Socket_Props
    Can_Stm32
    Can_Stm32_Props
    FT_Transfer
    FT_Transfer_Props
    FT_Ends
    Bench_Common
    Bench_Io
    Bench_Client
    Bench_Programs
    Example_Ping
    Unix_Server_Life
    Platform_Stubs
begin

text \<open>
  A verification library for \<open>thincan\<close>, a message layer over CAN (ISO-TP) with a file-transfer
  protocol and several transports.

  \<^bold>\<open>The program.\<close> \<open>thincan/src/lib.rs\<close> frames Cap'n Proto messages with a two-byte id, sorts received
  payloads into bounded mailboxes per message type, and hands them to receive tasks. On top of its bus
  handle, \<open>thincan-file-transfer\<close> sends a file in a window of chunks and receives it into a store with
  a hash check. The payloads travel through an ISO-TP node: directly, or through the queue endpoint of
  \<open>can-isotp-queue\<close>, whose actor owns the node. Below ISO-TP, \<open>embedded-can-unix-socket\<close> simulates a
  CAN bus with a server process that relays frames between clients; \<open>embedded-can-socketcan\<close> and
  \<open>embedded-can-embassy-stm32\<close> adapt real CAN interfaces; \<open>linux-socketcan-iso-tp\<close> uses the ISO-TP of the
  kernel instead of a node. The programs in \<open>examples/thincan-example\<close> put these parts together: a ping over
  the interface, and a file-transfer benchmark between two nodes on the simulated bus.

  \<^bold>\<open>The theories.\<close>
  \<^item> \<open>Prelude\<close>: machine integers, \<open>Result\<close>, slices, little-endian codecs (locale \<open>fixed_codec\<close>), runs of
    step functions (locale \<open>run_invariant\<close>).
  \<^item> \<open>Thincan_Wire\<close>: \<open>decode_wire\<close>, \<open>encode_capnp_into_buf\<close>, \<open>slot_for_id\<close>, the constants computed by
    the macro \<open>maplet!\<close>. A maplet resolves every id to its slot.
  \<^item> \<open>Mailbox\<close>: \<open>MailboxSlot\<close>, \<open>TypeMailbox\<close>, \<open>RxState\<close>. The slot array refines a bounded queue (locale
    \<open>bounded_mailbox\<close>).
  \<^item> \<open>IsoTp_Interface\<close>: the values of the crate \<open>can-isotp-interface\<close> the sources use, and the contract of
    \<open>recv_one_into\<close> (locale \<open>recv_into_endpoint\<close>).
  \<^item> \<open>Interface\<close>, \<open>Interface_Runs\<close>: \<open>Interface\<close> and \<open>BusHandle\<close>: sending, \<open>ingest\<close>, the pump, the receive
    loop as a task that is stepped between the steps of other tasks. No body is lost, duplicated or
    reordered, and no wake-up is lost.
  \<^item> \<open>FT_Types\<close>, \<open>FT_Encode\<close>, \<open>FT_Codec\<close>: messages of the file-transfer protocol, the encoders of
    \<open>alloc_encode.rs\<close> and \<open>heapless_encode.rs\<close>, and their round trips.
  \<^item> \<open>FT_Sender\<close>, \<open>FT_Sender_Props\<close>: \<open>send_file\<close> of \<open>tokio_impl.rs\<close>: offer, window, retries, ids. Window
    bound and meaning of success.
  \<^item> \<open>FT_Receiver\<close>, \<open>FT_Receiver_No_Alloc\<close>, \<open>FT_Receiver_Props\<close>: \<open>recv_file\<close> and \<open>recv_file_no_alloc\<close>: use of
    the store, meaning of success, equivalence of the two.
  \<^item> \<open>FT_Transfer\<close>, \<open>FT_Transfer_Props\<close>: the sender and the receiver joined by a link that loses nothing, over the
    mailboxes of \<open>Mailbox\<close>; a schedule says when the receiver runs. Over any store that keeps its promises (locale
    \<open>write_store\<close>) a transfer ends, with success on both sides and the file in the store.
  \<^item> \<open>FT_Ends\<close>: on any bus over which only finitely many more bodies arrive (locale \<open>finite_bus\<close>, with the mailboxes of a
    node as its instance) both sides of a transfer return, whatever the peer sends and the store does.
  \<^item> \<open>Queue_Tokio\<close>: \<open>common.rs\<close> and \<open>tokio.rs\<close> of the queue: endpoints, channels, actor. A send gets its own result,
    requests and events keep their order, receiving is not starved.
  \<^item> \<open>Queue_Embassy\<close>, \<open>Queue_Embassy_Props\<close>: \<open>embassy.rs\<close> of the queue, with sends that are dropped while they wait.
    A send gets its own result unless a send was dropped, and the actor is safe in any case.
  \<^item> \<open>IsoTp_Linux\<close>, \<open>IsoTp_Linux_Props\<close>, \<open>IsoTp_Demux\<close>: \<open>linux.rs\<close> of the kernel ISO-TP crate: options,
    blocking and tokio endpoint, demultiplexer. Time encodings, options, routing by peer, whole datagrams.
  \<^item> \<open>Unix_Wire\<close>, \<open>Unix_Server\<close>: frames, wire protocol and the bus server of the unix-socket crate: round trips,
    what each client is sent.
  \<^item> \<open>Unix_Server_Life\<close>: the server with all its threads, from \<open>start\<close> to \<open>shutdown\<close>, as turns in any order: shutting
    down returns and removes the socket file. The program \<open>uds-server.rs\<close>, which starts the server and parks, serves for ever.
  \<^item> \<open>Unix_Client\<close>, \<open>Unix_Client_Props\<close>, \<open>Unix_Client_Runs\<close>, \<open>Unix_Client_Live\<close>: \<open>client.rs\<close>: the receive buffer
    as a byte queue, frames in order over any run, meaning of a successful send, and that receiving returns.
  \<^item> \<open>Unix_Client_Sent\<close>: a specification of what the operations of a client put on the stream, without sockets, buffers and
    acknowledgements; the client refines it, and the reader thread of the server makes its commands of the stream.
  \<^item> \<open>Can_Filters\<close>: the contract of \<open>set_filters\<close> (locales \<open>filter_config\<close> and \<open>sized_filter_config\<close>) and the bus server
    as its first instance.
  \<^item> \<open>Can_Socket\<close>, \<open>Can_Socket_Props\<close>: the four SocketCAN adapters, the tokio module with its own
    helpers: exact filters, non-blocking operations.
  \<^item> \<open>Can_Stm32\<close>, \<open>Can_Stm32_Props\<close>: the STM32 adapters: packing of filters into banks and element lists, order of
    received frames.
  \<^item> \<open>Platform_Stubs\<close>: the two \<open>non_linux.rs\<close>: the same options as on Linux, and every operation fails. The stub of the
    tokio socket is an instance of \<open>recv_into_endpoint\<close>.
  \<^item> \<open>Bench_Common\<close>, \<open>Bench_Io\<close>, \<open>Bench_Programs\<close>: the file-transfer benchmark: its store in memory, an instance of
    \<open>write_store\<close>; its asynchronous sender, its channel of received frames, connecting with retries, and the ingress pump;
    the two programs. A transfer completes, a timed send returns, frames keep their order in the channel, and a
    successful initiator got every file back.
  \<^item> \<open>Bench_Client\<close>: the asynchronous sender over the unix-socket client: one message on the stream for every slice of time,
    so that a late acknowledgement sends a frame twice.
  \<^item> \<open>Example_Ping\<close>: the ping program: addresses as text, the message, the shared adapter, set-up, \<open>listen\<close> and \<open>ping\<close>. A
    listener answers a ping with a pong that the pinging side accepts; addresses are read back from their text.
  \<^item> This theory: the bus server, its writer and reader threads, the streams and the clients together, from the bus to a
    client and from one client to another.

  \<^bold>\<open>Conventions.\<close> A struct is a record, an enum a datatype, a fixed-width integer a word, \<open>usize\<close> a natural
  number, a \<open>Duration\<close> its nanoseconds, a slice a list, a \<open>Result\<close> a value of type \<open>result\<close>. A mutable
  argument is passed in and returned. A panic is the value \<open>Panic\<close> of type \<open>outcome\<close>. Code of other
  crates is a record of functions (\<open>capnp_builder\<close>, \<open>capnp_reader\<close>, \<open>watch_ops\<close>, \<open>store_ops\<close>,
  \<open>hasher_ops\<close>, \<open>isotp_endpoint\<close>, \<open>transport\<close>, \<open>can_id_api\<close>, \<open>sock_ops\<close>, \<open>linux_ops\<close>, \<open>emb_clock\<close>,
  \<open>can_socket_ops\<close>, \<open>bxcan_ops\<close>, \<open>fdcan_ops\<close>, \<open>isotp_app\<close>, \<open>tx_env\<close>, \<open>connect_env\<close>, \<open>person_codec\<close>), with what the code relies on as a predicate (\<open>capnp_laws\<close>,
  \<open>watch_laws\<close>, \<open>hasher_laws\<close>, \<open>can_id_laws\<close>, \<open>sock_laws\<close>, \<open>uds29_laws\<close>, \<open>raw_filter_laws\<close>, \<open>mode_laws\<close>,
  \<open>bank_laws\<close>, \<open>mask_laws\<close>, \<open>element_laws\<close>, \<open>tx_clock\<close>, \<open>connect_clock\<close>, \<open>person_laws\<close>) that a concrete instance satisfies. What such code shows of its state, and only
  theorems look at, is a second record (\<open>bxcan_view\<close>, \<open>fdcan_view\<close>, \<open>can_filter_view\<close>).

  \<^bold>\<open>Loops and fuel.\<close> Loops over arrays are terminating recursions. The loops that wait for the bus take
  fuel and give \<open>None\<close> without it, since a peer that sends stale messages for ever keeps them waiting
  (\<open>offer_loop_chatty\<close>). Fuel for the bodies that may still arrive, the retries and two iterations more is enough
  (\<open>sender_returns\<close>, \<open>receiver_returns\<close>); the
  inner loop that fills the window is given \<open>length bytes + 1\<close>, which is enough (\<open>fill_window_total\<close>).
  The client's loops and the retries of system calls take fuel as well; \<open>client_try_recv_returns\<close> and
  \<open>client_recv_returns\<close> show when fuel suffices.
  A transfer over the link takes one unit of fuel more than the file has pieces, and at least two
  (\<open>file_transfer_completes\<close>). A timed asynchronous send takes at most one attempt per nanosecond of its timeout, on
  a clock that moves while the task yields (\<open>async_send_timeout_returns\<close>); connecting takes one attempt per pause of
  100 ms in the time it may wait, and one more (\<open>connect_with_retry_returns\<close>).
  The actors, the server loop and the receive task are step functions run over lists of events.

  \<^bold>\<open>Not modelled.\<close> System calls and the Cap'n Proto wire encoding, which are parameters; the generated accessors
  (\<open>person_capnp.rs\<close>) and the build scripts; parsing of the command lines by \<open>clap\<close>, what the programs print and the
  times they measure; the pass-through \<open>TokioRuntime\<close>; \<open>Display\<close>
  and \<open>Debug\<close> texts; the parts of the macros \<open>maplet!\<close> and \<open>bundle_instance!\<close> that only declare types; tests.
\<close>

section \<open>From the bus to a client\<close>

text \<open>The bus thread, the client's writer thread, the stream and the client, together.\<close>

fun cmd_wf :: "('s, 'e) bus_command \<Rightarrow> bool" where
  "cmd_wf (SendFrame i seq x f) = frame_wf f"
| "cmd_wf _ = True"

lemma client_frames_wf: "list_all cmd_wf cmds \<Longrightarrow> list_all frame_wf (client_frames A i fs cmds)"
proof (induction cmds arbitrary: fs)
  case (Cons cmd cmds)
  then show ?case by (cases cmd) auto
qed simp

lemma msg_wf_frames: "list_all msg_wf ms \<longleftrightarrow> list_all frame_wf (frames_of ms)"
  by (induction ms rule: frames_of.induct) auto

text \<open>The bus with the receiving client, for any commands.\<close>

lemma bus_to_client_run:
  assumes A: "can_id_laws A" and S: "sock_laws S"
    and own: "own_chan i chan filters st" and new: "frames_of (chans st chan) = []"
    and cmds: "list_all (keeps_client i chan) cmds" "list_all cmd_wf cmds"
    and bufs: "length fb = 70" "length ab = 9"
    and con: "connect n A (logged_sock S) (k, [], []) = Some (Ok c)"
    and run: "client_run m A (logged_sock S) c ops = Some (fs, c')"
    and w: "client_writer_loop A pipe_write_all i fb ab (chans (bus_loop A st cmds) chan) [] = (in_log (uc_stream c') @ later, es)"
  shows "\<exists>rest. client_frames A i filters cmds = fs @ uc_rx_queue c' @ rest \<and> (later = [] \<and> rx_pending c' = [] \<longrightarrow> rest = [])"
proof -
  have eq: "frames_of (chans (bus_loop A st cmds) chan) = client_frames A i filters cmds"
    using bus_loop_client [OF own cmds(1)] new by simp
  then have "list_all msg_wf (chans (bus_loop A st cmds) chan)" using client_frames_wf [OF cmds(2)] by (simp add: msg_wf_frames)
  from connected_to_server [OF S A con run this bufs w] show ?thesis unfolding eq .
qed

section \<open>An example bus\<close>

lemma example_writer:
  "client_writer_loop bit_id_api pipe_write_all 1 (replicate 70 0) (replicate 9 0)
     [SmHello, SmFrame example_frame, SmAck 1 ACK_OK, SmFrame example_frame] [] = (concat example_chunks, [])"
proof -
  let ?ms = "[SmHello, SmFrame example_frame, SmAck 1 ACK_OK, SmFrame example_frame]"
  have wf: "list_all msg_wf ?ms" using example_frame_wf by simp
  have le: "u32_to_le_bytes 0 = [0, 0, 0, 0]" "u32_to_le_bytes 8 = [8, 0, 0, 0]" "u32_to_le_bytes 9 = [9, 0, 0, 0]"
    "u32_to_le_bytes 291 = [35, 1, 0, 0]" "u64_to_le_bytes 1 = [1, 0, 0, 0, 0, 0, 0, 0]" by code_simp+
  have bytes: "concat (map (server_bytes bit_id_api) ?ms) = concat example_chunks"
    by (simp add: example_chunks_def example_frame_def msg_bytes_def frame_flags_def wire_consts bit_id_api_def le)
  show ?thesis using writer_pipe [OF wf, of "replicate 70 0" "replicate 9 0" bit_id_api 1 "[]"] by (simp only: bytes length_replicate append_Nil)
qed

definition example_bus :: "(11 word, 29 word) bus_server" where
  "example_bus = bus_loop bit_id_api bus_server_new [AddClient 1 10]"

lemma example_bus_own: "own_chan 1 10 [] example_bus" "frames_of (chans example_bus 10) = []"
  using add_client_own_chan [of bus_server_new 10 1 bit_id_api] by (simp_all add: example_bus_def bus_server_new_def)



section \<open>From one client to another\<close>

text \<open>The frames of the commands, and those of a client's operations.\<close>

fun command_frames :: "('s, 'e) bus_command list \<Rightarrow> ('s, 'e) unix_frame list" where
  "command_frames [] = []"
| "command_frames (SendFrame i q x f # cmds) = f # command_frames cmds"
| "command_frames (_ # cmds) = command_frames cmds"

fun op_frames :: "('s, 'e) client_op \<Rightarrow> ('s, 'e) unix_frame list" where
  "op_frames (CSend f) = [f]"
| "op_frames (CTrySend f) = [f]"
| "op_frames (CSendTimeout f t) = [f]"
| "op_frames _ = []"

text \<open>A command that neither stops the bus nor changes the filters of client \<open>i\<close>.\<close>

fun keeps_filters :: "u64 \<Rightarrow> ('s, 'e) bus_command \<Rightarrow> bool" where
  "keeps_filters i (SetFilters j q fs) = (j \<noteq> i)"
| "keeps_filters i Shutdown = False"
| "keeps_filters i _ = True"

lemma command_frames_append [simp]: "command_frames (xs @ ys) = command_frames xs @ command_frames ys"
  by (induction xs rule: command_frames.induct) auto

lemma command_frames_subseq: "subseq xs ys \<Longrightarrow> subseq (command_frames xs) (command_frames ys)"
proof (induction rule: list_emb.induct)
  case (list_emb_Cons xs ys y)
  then show ?case using subseq_order.order_trans [OF list_emb_Cons.IH suffix_imp_subseq]
    by (cases y) auto
next
  case (list_emb_Cons2 x y xs ys)
  then show ?case by (cases x) auto
qed simp

lemma client_frames_fixed:
  "list_all (keeps_filters i) cmds \<Longrightarrow> client_frames A i fs cmds = filter (filters_match A fs) (command_frames cmds)"
  by (induction cmds rule: command_frames.induct) auto

lemma spec_command_frames: "command_frames (spec_commands i q fl ops) = concat (map op_frames ops)"
proof (induction ops arbitrary: q fl)
  case (Cons op ops)
  then show ?case by (cases op) auto
qed simp

text \<open>C11: From one client to another: when every operation of the first reported success and the bus takes the commands
  its reader thread makes of the stream in their order, between any other commands, a second client that has read all
  it was sent has received, in order, every frame the first one sent that passes the second one's filters.\<close>

theorem client_to_client:
  fixes S :: "('k, 'x) sock_ops" and T :: "('l, 'y) sock_ops"
  assumes A: "can_id_laws A" and S: "sock_laws S" and T: "sock_laws T"
    and sender: "connect n A (logged_sock S) (k, [], []) = Some (Ok c)" "client_run m A (logged_sock S) c ops = Some (gs, c')"
      "ops_wf [] ops" "run_ok m A (logged_sock S) c ops"
    and reader: "client_reader_loop (Suc (length ops)) A pipe_read_exact (out_log (uc_stream c')) j = Some sent"
    and bus: "subseq sent cmds" "own_chan i chan filters st" "frames_of (chans st chan) = []"
      "list_all (keeps_client i chan) cmds" "list_all (keeps_filters i) cmds" "list_all cmd_wf cmds"
    and receiver: "connect n' A (logged_sock T) (k', [], []) = Some (Ok d)" "client_run m' A (logged_sock T) d ops' = Some (fs, d')"
      "length fb = 70" "length ab = 9" "rx_pending d' = []"
      "client_writer_loop A pipe_write_all i fb ab (chans (bus_loop A st cmds) chan) [] = (in_log (uc_stream d'), es)"
  shows "subseq (filter (filters_match A filters) (concat (map op_frames ops))) (fs @ uc_rx_queue d')"
proof -
  have "out_log (uc_stream c') = concat (spec_messages A 1 [] ops)"
    using client_run_sends [OF S _ sender(2)] connect_sent [OF sender(1)] sender(4) by auto
  then have sent: "sent = spec_commands j 1 [] ops @ [RemoveClient j]" using reader reader_loop_spec [OF A sender(3)] by (simp del: client_reader_loop.simps)
  have "client_frames A i filters cmds = fs @ uc_rx_queue d'"
    using bus_to_client_run [OF A T bus(2,3,4,6) receiver(3,4,1,2), where later = "[]"] receiver(5,6) by auto
  moreover have "client_frames A i filters cmds = filter (filters_match A filters) (command_frames cmds)"
    by (rule client_frames_fixed [OF bus(5)])
  moreover have "subseq (concat (map op_frames ops)) (command_frames cmds)"
    using command_frames_subseq [OF bus(1)] by (simp add: sent spec_command_frames)
  ultimately show ?thesis using subseq_filter by metis
qed

theorem client_to_client_witness:
  "\<exists>d'. client_run nine bit_id_api (logged_sock chunk_sock) example_client [CSend example_frame, CRecv, CTryRecv] =
      Some ([example_frame, example_frame], d') \<and>
    subseq (filter (filters_match bit_id_api []) (concat (map op_frames [CSend example_frame]))) ([example_frame, example_frame] @ uc_rx_queue d')"
proof -
  let ?cmds = "[AddClient 2 20, SendFrame 1 1 True example_frame, SendFrame 2 1 True example_frame, RemoveClient 2]"
  let ?ops = "[CSend example_frame]"
  obtain d' where d': "client_run nine bit_id_api (logged_sock chunk_sock) example_client [CSend example_frame, CRecv, CTryRecv] =
     Some ([example_frame, example_frame], d')" "in_log (uc_stream d') = concat example_chunks" "rx_pending d' = []"
    using example_client_run by blast
  have run: "client_run nine bit_id_api (logged_sock chunk_sock) example_client ?ops = Some ([], example_client_sent)"
    by (simp add: example_send)
  have ok: "run_ok nine bit_id_api (logged_sock chunk_sock) example_client ?ops" by (simp add: example_send succeeds_def)
  have wf: "ops_wf [] ?ops" "list_all cmd_wf ?cmds" using example_frame_wf by simp_all
  have out: "out_log (uc_stream example_client_sent) = concat (spec_messages bit_id_api 1 [] ?ops)"
    by (simp add: example_client_sent_def out_log_def)
  have reader: "client_reader_loop (Suc (length ?ops)) bit_id_api pipe_read_exact (out_log (uc_stream example_client_sent)) 2 =
      Some [SendFrame 2 1 True example_frame, RemoveClient 2]"
    unfolding out using reader_loop_spec [OF bit_id_laws wf(1), of "Suc (length ?ops)" 1 2] by (simp del: client_reader_loop.simps)
  have chan: "chans (bus_loop bit_id_api example_bus ?cmds) 10 = [SmHello, SmFrame example_frame, SmAck 1 ACK_OK, SmFrame example_frame]"
    by (simp add: example_bus_def bus_server_new_def filters_match_def)
  have w: "client_writer_loop bit_id_api pipe_write_all 1 (replicate 70 0) (replicate 9 0) (chans (bus_loop bit_id_api example_bus ?cmds) 10) [] =
      (in_log (uc_stream d'), [])" unfolding chan d'(2) by (rule example_writer)
  show ?thesis
    using client_to_client [OF bit_id_laws chunk_sock_laws chunk_sock_laws example_connect run wf(1) ok reader _ example_bus_own _ _ wf(2)
        example_connect d'(1) _ _ d'(3) w] d'(1) by auto
qed

end
